(* ===== verification/Prelude.thy ===== *)
theory Prelude
  imports Main "HOL-Library.Word"
begin

text \<open>
  Shared vocabulary of the development: machine-integer synonyms, the fact
  collections the component theories extend, characters and C strings, little-endian
  words, and the generic list, counting and ring facts more than one component needs.

  Conventions.  A C string (\<open>const char*\<close>) is the list of its characters before the
  terminating NUL; a pointer that may be null is an \<open>option\<close>.  A fixed-size integer is a
  word of that width, so that \<open>+\<close>, \<open>-\<close> and \<open>*\<close> wrap exactly as the unsigned C++ types do.
\<close>

unbundle bit_operations_syntax

section \<open>Types\<close>

type_synonym u8 = "8 word"
type_synonym u16 = "16 word"
type_synonym u32 = "32 word"
type_synonym u64 = "64 word"
type_synonym bytes = "8 word list"

section \<open>Fact collections\<close>

named_theorems frame_simps \<open>what an operation leaves unchanged\<close>
named_theorems inv_intros \<open>preservation of component invariants\<close>
named_theorems ring_simps \<open>index arithmetic of circular buffers\<close>

section \<open>Characters\<close>

definition ascii_lower :: "char \<Rightarrow> char" where
  "ascii_lower c =
     (if (65::nat) \<le> of_char c \<and> of_char c \<le> (90::nat)
      then char_of (of_char c + 32 :: nat) else c)"

definition ascii_upper :: "char \<Rightarrow> char" where
  "ascii_upper c =
     (if (97::nat) \<le> of_char c \<and> of_char c \<le> (122::nat)
      then char_of (of_char c - 32 :: nat) else c)"

lemma ascii_upper_idem [simp]: "ascii_upper (ascii_upper c) = ascii_upper c"
proof -
  have "of_char c < (256::nat)" by simp
  then show ?thesis by (auto simp: ascii_upper_def of_char_of)
qed

section \<open>Words\<close>

lemma word_succ_nonzero:
  fixes w :: "'a::len word"
  assumes "w \<noteq> - 1"
  shows "w + 1 \<noteq> 0"
  using assms by (metis add.commute add_eq_0_iff)

lemma unat_word_succ:
  fixes w :: "'a::len word"
  assumes "w \<noteq> - 1"
  shows "unat (w + 1) = Suc (unat w)"
  using assms word_succ_nonzero [OF assms] by (metis add.commute unatSuc)

lemma unat_ucast_u32_u64 [simp]: "unat (ucast (w :: u32) :: u64) = unat w"
proof -
  have "unat w < 2 ^ 32" using unsigned_less [of w, where 'a = nat] by simp
  then show ?thesis by (simp add: unsigned_ucast_eq take_bit_nat_eq_self)
qed

lemma unat_add_no_wrap:
  fixes a b :: "'a::len word"
  assumes "unat a + unat b < 2 ^ LENGTH('a)"
  shows "unat (a + b) = unat a + unat b"
  using assms by (simp add: unat_word_ariths)

lemma unat_sub_le:
  fixes a b :: "'a::len word"
  assumes "b \<le> a"
  shows "unat (a - b) = unat a - unat b"
  using assms by (simp add: unat_sub word_le_nat_alt)

lemma unat_pred:
  fixes w :: "'a::len word"
  assumes "w \<noteq> 0"
  shows "unat (w - 1) = unat w - 1"
  using assms by (metis unat_minus_one)

section \<open>Little-endian words\<close>

fun le_decode :: "bytes \<Rightarrow> nat" where
  "le_decode [] = 0"
| "le_decode (b # bs) = unat b + 256 * le_decode bs"

fun le_encode :: "nat \<Rightarrow> nat \<Rightarrow> bytes" where
  "le_encode 0 n = []"
| "le_encode (Suc k) n = of_nat (n mod 256) # le_encode k (n div 256)"

lemma length_le_encode [simp]: "length (le_encode k n) = k"
  by (induction k arbitrary: n) auto

lemma le_decode_encode: "n < 256 ^ k \<Longrightarrow> le_decode (le_encode k n) = n"
proof (induction k arbitrary: n)
  case 0
  then show ?case by simp
next
  case (Suc k)
  from Suc.prems have "n div 256 < 256 ^ k"
    by (simp add: less_mult_imp_div_less mult.commute)
  from Suc.IH [OF this] show ?case
    by (simp add: unat_of_nat take_bit_eq_mod)
qed

lemma le_decode_bound: "le_decode bs < 256 ^ length bs"
proof (induction bs)
  case Nil
  show ?case by simp
next
  case (Cons b bs)
  have "unat b < 256" using unsigned_less [of b, where 'a = nat] by simp
  with Cons.IH show ?case by simp
qed

section \<open>Circular index arithmetic\<close>

lemma mod_succ_ring [ring_simps]:
  fixes i n :: nat
  assumes "i < n"
  shows "(i + 1) mod n = (if Suc i = n then 0 else Suc i)"
  using assms by (simp add: mod_Suc)

lemma mod_add_left_inj:
  fixes r i j n :: nat
  assumes "i < n" and "j < n" and "(r + i) mod n = (r + j) mod n"
  shows "i = j"
proof -
  have "(int r + int i) mod int n = (int r + int j) mod int n"
    using assms(3) by (metis of_nat_add of_nat_mod)
  then have "int n dvd int i - int j"
    by (simp add: mod_eq_dvd_iff algebra_simps)
  then have "int i - int j = 0"
    using assms(1,2) dvd_imp_le_int [of "int i - int j" "int n"] by linarith
  then show ?thesis by simp
qed

section \<open>Printing and reading numbers\<close>

text \<open>\<open>%u\<close>, \<open>%lu\<close>: decimal digits without leading zeros; \<open>strtoul(s, 0, 10)\<close> without sign or
  blanks: the longest prefix of digits.\<close>

definition digit_char :: "nat \<Rightarrow> char" where
  "digit_char d = char_of (48 + d)"

definition char_digit :: "char \<Rightarrow> nat option" where
  "char_digit c = (let n = of_char c in if 48 \<le> n \<and> n \<le> (57::nat) then Some (n - 48) else None)"

fun show_dec :: "nat \<Rightarrow> string" where
  "show_dec n = (if n < 10 then [digit_char n] else show_dec (n div 10) @ [digit_char (n mod 10)])"

declare show_dec.simps [simp del]

fun read_digits :: "nat \<Rightarrow> string \<Rightarrow> nat" where
  "read_digits acc [] = acc"
| "read_digits acc (c # cs) =
     (case char_digit c of None \<Rightarrow> acc | Some d \<Rightarrow> read_digits (10 * acc + d) cs)"

lemma char_digit_char [simp]: "d < 10 \<Longrightarrow> char_digit (digit_char d) = Some d"
  by (simp add: char_digit_def digit_char_def Let_def)

lemma read_digits_append:
  "\<forall>c \<in> set xs. char_digit c \<noteq> None \<Longrightarrow>
     read_digits acc (xs @ ys) = read_digits (read_digits acc xs) ys"
  by (induction xs arbitrary: acc) (auto split: option.splits)

lemma show_dec_digits: "c \<in> set (show_dec n) \<Longrightarrow> char_digit c \<noteq> None"
proof (induction n rule: show_dec.induct)
  case (1 n)
  show ?case
  proof (cases "n < 10")
    case True
    with "1.prems" show ?thesis by (simp add: show_dec.simps [of n])
  next
    case False
    with "1.prems" "1.IH" show ?thesis by (auto simp: show_dec.simps [of n])
  qed
qed

lemma read_show_dec: "read_digits 0 (show_dec n) = n"
proof (induction n rule: show_dec.induct)
  case (1 n)
  show ?case
  proof (cases "n < 10")
    case True
    then show ?thesis by (simp add: show_dec.simps [of n])
  next
    case False
    then have "read_digits 0 (show_dec n) =
        read_digits (read_digits 0 (show_dec (n div 10))) [digit_char (n mod 10)]"
      by (simp add: show_dec.simps [of n] read_digits_append show_dec_digits)
    with "1.IH" [OF False] show ?thesis by simp
  qed
qed

lemma show_dec_nonempty [simp]: "show_dec n \<noteq> []"
  by (subst show_dec.simps) simp

lemma length_show_dec: "n < 10 ^ Suc k \<Longrightarrow> length (show_dec n) \<le> Suc k"
proof (induction k arbitrary: n)
  case 0
  then show ?case by (simp add: show_dec.simps [of n])
next
  case (Suc k)
  have "n div 10 < 10 ^ Suc k" using Suc.prems by (simp add: less_mult_imp_div_less mult.commute)
  then show ?case using Suc.IH [of "n div 10"] by (simp add: show_dec.simps [of n])
qed

text \<open>\<open>%02X\<close> of an octet.\<close>

definition hex_char :: "nat \<Rightarrow> char" where
  "hex_char d = (if d < 10 then char_of (48 + d) else char_of (55 + d))"

definition show_hex2 :: "u8 \<Rightarrow> string" where
  "show_hex2 b = [hex_char (unat b div 16), hex_char (unat b mod 16)]"

section \<open>Log levels\<close>

text \<open>\<open>log_type\<close> of \<^verbatim>\<open>lib/Logger/Logger.h\<close>.\<close>

datatype log_type = LT_NONE | INFO | WARN | ERRO | DEBG | CMDO

end
