(* ===== verification/Job_Scheduler.thy ===== *)
theory Job_Scheduler
  imports Prelude
begin

text \<open>
  The time- and state-triggered command table of \<^verbatim>\<open>lib/JobScheduler/\<close>.

  A scheduler is the fixed table of eight slots, the executor bound by \<open>configure\<close>, the
  statistics, the id counter and the state seen by the previous \<open>poll\<close>.  The executor
  (\<open>SubmitFn\<close>) is a function over a context of type \<open>'c\<close>, which is threaded through;
  it answers whether it accepted the line.  The clock is the argument of \<open>poll\<close>, as in the
  code.  Every counter and time keeps its C++ width.
\<close>

section \<open>Data\<close>

definition kMaxJobs :: nat where "kMaxJobs = 8"
definition kMaxCommandLength :: nat where "kMaxCommandLength = 96"
definition kNoState :: u8 where "kNoState = 0xFF"

datatype job_kind = Interval | Once | OnStateEnter

datatype job_error =
  JobOk | JobFull | EmptyCommand | CommandTooLong | BadInterval | Recursive | NotConfigured

record job =
  job_active :: bool
  job_kind :: job_kind
  job_id :: u8
  job_state :: u8
  job_interval :: u32
  job_next :: u64
  job_remaining :: u32
  job_fired :: u32
  job_command :: string

record job_stats =
  st_fired :: u32
  st_submit_failed :: u32
  st_rejected :: u32
  st_skipped_late :: u32

record job_view =
  view_id :: u8
  view_kind :: job_kind
  view_interval :: u32
  view_state :: u8
  view_remaining :: u32
  view_fired :: u32
  view_command :: string

type_synonym 'c submit_fn = "'c \<Rightarrow> string \<Rightarrow> bool \<times> 'c"

record 'c scheduler =
  jobs :: "job list"
  submit_hook :: "'c submit_fn option"
  job_stats :: job_stats
  next_id :: u8
  last_state :: u8

definition empty_job :: job where
  "empty_job = \<lparr>job_active = False, job_kind = Interval, job_id = 0, job_state = 0,
     job_interval = 0, job_next = 0, job_remaining = 0, job_fired = 0, job_command = []\<rparr>"

definition zero_job_stats :: job_stats where
  "zero_job_stats = \<lparr>st_fired = 0, st_submit_failed = 0, st_rejected = 0, st_skipped_late = 0\<rparr>"

definition new_scheduler :: "'c scheduler" where
  "new_scheduler = \<lparr>jobs = replicate kMaxJobs empty_job, submit_hook = None,
     job_stats = zero_job_stats, next_id = 1, last_state = kNoState\<rparr>"

section \<open>Command lines\<close>

text \<open>
  \<open>first_word_is_job\<close> reads characters up to the terminating NUL; the list ends there, so
  \<open>after\<close> being NUL is the list being exhausted.
\<close>

definition is_blank :: "char \<Rightarrow> bool" where
  "is_blank c \<longleftrightarrow> c = CHR '' '' \<or> c = CHR 0x09"

fun match_word :: "string \<Rightarrow> string \<Rightarrow> string option" where
  "match_word [] text = Some text"
| "match_word (k # ks) [] = None"
| "match_word (k # ks) (c # cs) = (if ascii_lower c = k then match_word ks cs else None)"

definition first_word_is_job :: "string \<Rightarrow> bool" where
  "first_word_is_job text =
     (case match_word ''job'' (dropWhile is_blank text) of
        None \<Rightarrow> False
      | Some [] \<Rightarrow> True
      | Some (after # _) \<Rightarrow> is_blank after \<or> after = CHR ''-'')"

definition is_job_command :: "string option \<Rightarrow> bool" where
  "is_job_command line = (case line of None \<Rightarrow> False | Some text \<Rightarrow> first_word_is_job text)"

section \<open>Scheduling\<close>

definition configure :: "'c submit_fn option \<Rightarrow> 'c scheduler \<Rightarrow> 'c scheduler" where
  "configure f s = s\<lparr>submit_hook := f\<rparr>"

definition job_reject :: "'c scheduler \<Rightarrow> 'c scheduler" where
  "job_reject s = s\<lparr>job_stats := (job_stats s)\<lparr>st_rejected := st_rejected (job_stats s) + 1\<rparr>\<rparr>"

fun first_free :: "job list \<Rightarrow> nat option" where
  "first_free [] = None"
| "first_free (j # js) = (if job_active j then map_option Suc (first_free js) else Some 0)"

definition succ_id :: "u8 \<Rightarrow> u8" where
  "succ_id i = (if i = 0xFF then 1 else i + 1)"

text \<open>
  \<open>allocate\<close> returns the slot it filled.  The caller then completes the job in place, which
  is the pointer \<open>*slot_out\<close> of the code.
\<close>

definition allocate :: "string option \<Rightarrow> 'c scheduler \<Rightarrow> (job_error + nat) \<times> 'c scheduler" where
  "allocate command s =
     (if Option.is_none (submit_hook s) then (Inl NotConfigured, job_reject s)
      else case command of
        None \<Rightarrow> (Inl EmptyCommand, job_reject s)
      | Some text \<Rightarrow>
          if text = [] then (Inl EmptyCommand, job_reject s)
          else if length text > kMaxCommandLength then (Inl CommandTooLong, job_reject s)
          else if is_job_command command then (Inl Recursive, job_reject s)
          else (case first_free (jobs s) of
                  None \<Rightarrow> (Inl JobFull, job_reject s)
                | Some i \<Rightarrow>
                    (Inr i,
                     s\<lparr>jobs := (jobs s)[i := empty_job\<lparr>job_active := True, job_id := next_id s,
                                                    job_command := text\<rparr>],
                       next_id := succ_id (next_id s)\<rparr>)))"

definition update_job :: "nat \<Rightarrow> (job \<Rightarrow> job) \<Rightarrow> 'c scheduler \<Rightarrow> 'c scheduler" where
  "update_job i f s = s\<lparr>jobs := (jobs s)[i := f (jobs s ! i)]\<rparr>"

text \<open>The result carries the id the code writes to \<open>*id_out\<close> on success.\<close>

definition schedule_interval ::
    "u32 \<Rightarrow> u32 \<Rightarrow> string option \<Rightarrow> 'c scheduler \<Rightarrow> (job_error + u8) \<times> 'c scheduler" where
  "schedule_interval interval_ms repeat command s =
     (if interval_ms = 0 then (Inl BadInterval, job_reject s)
      else case allocate command s of
        (Inl e, s') \<Rightarrow> (Inl e, s')
      | (Inr i, s') \<Rightarrow>
          (Inr (job_id (jobs s' ! i)),
           update_job i (\<lambda>j. j\<lparr>job_kind := Interval, job_interval := interval_ms,
                              job_remaining := repeat\<rparr>) s'))"

definition schedule_once ::
    "u32 \<Rightarrow> string option \<Rightarrow> 'c scheduler \<Rightarrow> (job_error + u8) \<times> 'c scheduler" where
  "schedule_once delay_ms command s =
     (if delay_ms = 0 then (Inl BadInterval, job_reject s)
      else case allocate command s of
        (Inl e, s') \<Rightarrow> (Inl e, s')
      | (Inr i, s') \<Rightarrow>
          (Inr (job_id (jobs s' ! i)),
           update_job i (\<lambda>j. j\<lparr>job_kind := Once, job_interval := delay_ms,
                              job_remaining := 1\<rparr>) s'))"

definition schedule_on_state ::
    "u8 \<Rightarrow> string option \<Rightarrow> 'c scheduler \<Rightarrow> (job_error + u8) \<times> 'c scheduler" where
  "schedule_on_state state command s =
     (case allocate command s of
        (Inl e, s') \<Rightarrow> (Inl e, s')
      | (Inr i, s') \<Rightarrow>
          (Inr (job_id (jobs s' ! i)),
           update_job i (\<lambda>j. j\<lparr>job_kind := OnStateEnter, job_state := state,
                              job_interval := 0, job_remaining := 0\<rparr>) s'))"

fun cancel_first :: "u8 \<Rightarrow> job list \<Rightarrow> bool \<times> job list" where
  "cancel_first i [] = (False, [])"
| "cancel_first i (j # js) =
     (if job_active j \<and> job_id j = i then (True, j\<lparr>job_active := False\<rparr> # js)
      else (case cancel_first i js of (b, js') \<Rightarrow> (b, j # js')))"

definition cancel :: "u8 \<Rightarrow> 'c scheduler \<Rightarrow> bool \<times> 'c scheduler" where
  "cancel i s = (case cancel_first i (jobs s) of (b, js) \<Rightarrow> (b, s\<lparr>jobs := js\<rparr>))"

fun cancel_each :: "job list \<Rightarrow> nat \<times> job list" where
  "cancel_each [] = (0, [])"
| "cancel_each (j # js) =
     (case cancel_each js of (n, js') \<Rightarrow>
        if job_active j then (Suc n, j\<lparr>job_active := False\<rparr> # js') else (n, j # js'))"

definition cancel_all :: "'c scheduler \<Rightarrow> nat \<times> 'c scheduler" where
  "cancel_all s = (case cancel_each (jobs s) of (n, js) \<Rightarrow> (n, s\<lparr>jobs := js\<rparr>))"

definition view_of :: "job \<Rightarrow> job_view" where
  "view_of j = \<lparr>view_id = job_id j, view_kind = job_kind j, view_interval = job_interval j,
     view_state = job_state j, view_remaining = job_remaining j, view_fired = job_fired j,
     view_command = job_command j\<rparr>"

fun list_views :: "job list \<Rightarrow> nat \<Rightarrow> job_view list" where
  "list_views [] n = []"
| "list_views (j # js) 0 = []"
| "list_views (j # js) (Suc n) =
     (if job_active j then view_of j # list_views js n else list_views js (Suc n))"

definition list_jobs :: "'c scheduler \<Rightarrow> nat \<Rightarrow> job_view list" where
  "list_jobs s max_count = (if max_count = 0 then [] else list_views (jobs s) max_count)"

definition active_count :: "'c scheduler \<Rightarrow> nat" where
  "active_count s = length (filter job_active (jobs s))"

definition reset_stats :: "'c scheduler \<Rightarrow> 'c scheduler" where
  "reset_stats s = s\<lparr>job_stats := zero_job_stats\<rparr>"

definition error_text :: "job_error \<Rightarrow> string" where
  "error_text e = (case e of
     JobOk \<Rightarrow> ''ok'' | JobFull \<Rightarrow> ''no free job slot'' | EmptyCommand \<Rightarrow> ''empty command''
   | CommandTooLong \<Rightarrow> ''command longer than 96 characters''
   | BadInterval \<Rightarrow> ''interval must be greater than zero''
   | Recursive \<Rightarrow> ''a job may not schedule jobs''
   | NotConfigured \<Rightarrow> ''scheduler has no executor'')"

definition kind_text :: "job_kind \<Rightarrow> string" where
  "kind_text k = (case k of Interval \<Rightarrow> ''every'' | Once \<Rightarrow> ''once'' | OnStateEnter \<Rightarrow> ''at'')"

section \<open>Polling\<close>

text \<open>
  One pass over one slot.  \<open>poll_due\<close> is the decision (with the anchoring of a fresh time
  job, which only writes \<open>next_ms\<close>), \<open>poll_resync\<close> the catch-up rule, \<open>poll_deliver\<close> the
  hand-over and the repeat count.
\<close>

datatype poll_verdict = Anchor | NotDue | Due

definition poll_due :: "u64 \<Rightarrow> u8 \<Rightarrow> bool \<Rightarrow> job \<Rightarrow> poll_verdict" where
  "poll_due now st entered j =
     (if job_kind j = OnStateEnter then (if entered \<and> job_state j = st then Due else NotDue)
      else if job_next j = 0 then Anchor
      else if now \<ge> job_next j then Due else NotDue)"

definition poll_resync :: "u64 \<Rightarrow> job \<Rightarrow> job_stats \<Rightarrow> job \<times> job_stats" where
  "poll_resync now j t =
     (if job_kind j = OnStateEnter then (j, t)
      else let lateness = now - job_next j; interval = ucast (job_interval j) :: u64 in
        if lateness \<ge> interval
        then (j\<lparr>job_next := now + interval\<rparr>,
              t\<lparr>st_skipped_late := st_skipped_late t + ucast (lateness div interval)\<rparr>)
        else (j\<lparr>job_next := job_next j + interval\<rparr>, t))"

definition poll_deliver ::
    "'c submit_fn \<Rightarrow> job \<Rightarrow> job_stats \<Rightarrow> nat \<Rightarrow> 'c \<Rightarrow> job \<times> job_stats \<times> nat \<times> 'c" where
  "poll_deliver submit j t n c =
     (case submit c (job_command j) of (ok, c') \<Rightarrow>
        let t' = (if ok then t\<lparr>st_fired := st_fired t + 1\<rparr>
                  else t\<lparr>st_submit_failed := st_submit_failed t + 1\<rparr>);
            n' = (if ok then Suc n else n);
            j1 = j\<lparr>job_fired := job_fired j + 1\<rparr>;
            j2 = (if job_remaining j1 \<noteq> 0
                  then j1\<lparr>job_remaining := job_remaining j1 - 1,
                          job_active := job_active j1 \<and> job_remaining j1 - 1 \<noteq> 0\<rparr>
                  else j1)
        in (j2, t', n', c'))"

definition poll_slot ::
    "u64 \<Rightarrow> u8 \<Rightarrow> bool \<Rightarrow> 'c submit_fn \<Rightarrow> job \<Rightarrow> job_stats \<Rightarrow> nat \<Rightarrow> 'c
     \<Rightarrow> job \<times> job_stats \<times> nat \<times> 'c" where
  "poll_slot now st entered submit j t n c =
     (if \<not> job_active j then (j, t, n, c)
      else case poll_due now st entered j of
        Anchor \<Rightarrow> (j\<lparr>job_next := now + ucast (job_interval j)\<rparr>, t, n, c)
      | NotDue \<Rightarrow> (j, t, n, c)
      | Due \<Rightarrow> (case poll_resync now j t of (j', t') \<Rightarrow> poll_deliver submit j' t' n c))"

fun poll_jobs ::
    "u64 \<Rightarrow> u8 \<Rightarrow> bool \<Rightarrow> 'c submit_fn \<Rightarrow> job list \<Rightarrow> job_stats \<Rightarrow> nat \<Rightarrow> 'c
     \<Rightarrow> job list \<times> job_stats \<times> nat \<times> 'c" where
  "poll_jobs now st entered submit [] t n c = ([], t, n, c)"
| "poll_jobs now st entered submit (j # js) t n c =
     (case poll_slot now st entered submit j t n c of (j', t', n', c') \<Rightarrow>
        (case poll_jobs now st entered submit js t' n' c' of (js', t'', n'', c'') \<Rightarrow>
           (j' # js', t'', n'', c'')))"

definition state_entered :: "'c scheduler \<Rightarrow> u8 \<Rightarrow> bool" where
  "state_entered s st \<longleftrightarrow> last_state s \<noteq> kNoState \<and> st \<noteq> last_state s"

definition poll :: "u64 \<Rightarrow> u8 \<Rightarrow> 'c scheduler \<Rightarrow> 'c \<Rightarrow> nat \<times> 'c scheduler \<times> 'c" where
  "poll now st s c =
     (case submit_hook s of
        None \<Rightarrow> (0, s, c)
      | Some submit \<Rightarrow>
          (case poll_jobs now st (state_entered s st) submit (jobs s) (job_stats s) 0 c of
             (js, t, n, c') \<Rightarrow> (n, s\<lparr>jobs := js, job_stats := t, last_state := st\<rparr>, c')))"

section \<open>Operations as a run\<close>

datatype 'c job_op =
  OpConfigure "'c submit_fn option"
| OpInterval u32 u32 "string option"
| OpOnce u32 "string option"
| OpOnState u8 "string option"
| OpCancel u8
| OpCancelAll
| OpPoll u64 u8
| OpResetStats

fun job_step :: "'c job_op \<Rightarrow> 'c scheduler \<times> 'c \<Rightarrow> 'c scheduler \<times> 'c" where
  "job_step (OpConfigure f) (s, c) = (configure f s, c)"
| "job_step (OpInterval i r cmd) (s, c) = (snd (schedule_interval i r cmd s), c)"
| "job_step (OpOnce d cmd) (s, c) = (snd (schedule_once d cmd s), c)"
| "job_step (OpOnState st cmd) (s, c) = (snd (schedule_on_state st cmd s), c)"
| "job_step (OpCancel i) (s, c) = (snd (cancel i s), c)"
| "job_step OpCancelAll (s, c) = (snd (cancel_all s), c)"
| "job_step (OpPoll now st) (s, c) = snd (poll now st s c)"
| "job_step OpResetStats (s, c) = (reset_stats s, c)"

definition job_run :: "'c job_op list \<Rightarrow> 'c scheduler \<times> 'c \<Rightarrow> 'c scheduler \<times> 'c" where
  "job_run ops sc = fold job_step ops sc"

lemma job_run_simps [simp]:
  "job_run [] sc = sc"
  "job_run (op # ops) sc = job_run ops (job_step op sc)"
  by (simp_all add: job_run_def)

lemma job_run_append: "job_run (xs @ ys) sc = job_run ys (job_run xs sc)"
  by (simp add: job_run_def)

section \<open>Well-formed tables\<close>

definition job_ok :: "job \<Rightarrow> bool" where
  "job_ok j \<longleftrightarrow> (job_active j \<longrightarrow>
     job_id j \<noteq> 0 \<and> job_command j \<noteq> [] \<and> length (job_command j) \<le> kMaxCommandLength \<and>
     \<not> first_word_is_job (job_command j) \<and>
     (job_kind j \<noteq> OnStateEnter \<longrightarrow> job_interval j \<noteq> 0) \<and>
     (job_kind j = Once \<longrightarrow> job_remaining j = 1) \<and>
     (job_kind j = OnStateEnter \<longrightarrow> job_remaining j = 0))"

definition sched_ok :: "'c scheduler \<Rightarrow> bool" where
  "sched_ok s \<longleftrightarrow> length (jobs s) = kMaxJobs \<and> (\<forall>j \<in> set (jobs s). job_ok j) \<and> next_id s \<noteq> 0"

lemma first_free_Some:
  "first_free js = Some i \<Longrightarrow> i < length js \<and> \<not> job_active (js ! i)"
  by (induction js arbitrary: i) (auto split: if_splits)

lemma first_free_None: "first_free js = None \<longleftrightarrow> (\<forall>j \<in> set js. job_active j)"
  by (induction js) auto

lemma minus_one_u8: "(- 1 :: u8) = 255"
  by simp

lemma succ_id_nonzero [simp]: "succ_id i \<noteq> 0"
  using word_succ_nonzero [of i] by (auto simp: succ_id_def minus_one_u8)

lemma unat_succ_id: "unat (succ_id i) = (if unat i = 255 then 1 else Suc (unat i))"
proof -
  have "i = 0xFF \<longleftrightarrow> unat i = 255" by (simp add: word_unat_eq_iff)
  then show ?thesis using unat_word_succ [of i] by (auto simp: succ_id_def minus_one_u8)
qed

lemma job_reject_simps [simp, frame_simps]:
  "jobs (job_reject s) = jobs s" "next_id (job_reject s) = next_id s"
  "submit_hook (job_reject s) = submit_hook s" "last_state (job_reject s) = last_state s"
  by (simp_all add: job_reject_def)

lemma job_ok_inactive [simp]: "job_ok (j\<lparr>job_active := False\<rparr>)"
  by (simp add: job_ok_def)

lemma job_ok_empty [simp]: "job_ok empty_job"
  by (simp add: job_ok_def empty_job_def)

lemma sched_ok_new [inv_intros]: "sched_ok new_scheduler"
  by (simp add: sched_ok_def new_scheduler_def kMaxJobs_def)

text \<open>What a successful allocation does; every other outcome only counts a rejection.\<close>

lemma allocate_cases:
  obtains (refused) e where "allocate cmd s = (Inl e, job_reject s)"
  | (stored) i line where "cmd = Some line" "line \<noteq> []" "length line \<le> kMaxCommandLength"
      "\<not> first_word_is_job line" "first_free (jobs s) = Some i" "submit_hook s \<noteq> None"
      "allocate cmd s = (Inr i, s\<lparr>jobs := (jobs s)[i := empty_job\<lparr>job_active := True,
         job_id := next_id s, job_command := line\<rparr>], next_id := succ_id (next_id s)\<rparr>)"
proof (cases "\<exists>e. allocate cmd s = (Inl e, job_reject s)")
  case True
  then show ?thesis using that(1) by blast
next
  case False
  then obtain line where cmd: "cmd = Some line"
    by (cases cmd) (auto simp: allocate_def Option.is_none_def split: if_splits)
  with False have "submit_hook s \<noteq> None" "line \<noteq> []" "length line \<le> kMaxCommandLength"
    "\<not> first_word_is_job line"
    by (auto simp: allocate_def Option.is_none_def is_job_command_def split: if_splits)
  moreover from this cmd False obtain i where "first_free (jobs s) = Some i"
    by (cases "first_free (jobs s)") (auto simp: allocate_def Option.is_none_def is_job_command_def)
  ultimately show ?thesis using cmd
    by (intro that(2)) (auto simp: allocate_def Option.is_none_def is_job_command_def)
qed

lemma sched_ok_update:
  assumes "sched_ok s" and "job_ok j" and "n \<noteq> 0"
  shows "sched_ok (s\<lparr>next_id := n, jobs := (jobs s)[i := j]\<rparr>)"
  using assms by (auto simp: sched_ok_def dest: set_update_subset_insert [THEN subsetD])

text \<open>
  The three schedule calls share one shape: refuse, or store a job \<open>g\<close> of the fresh slot.
\<close>

definition schedule_with ::
    "(job \<Rightarrow> job) \<Rightarrow> string option \<Rightarrow> 'c scheduler \<Rightarrow> (job_error + u8) \<times> 'c scheduler" where
  "schedule_with g command s =
     (case allocate command s of
        (Inl e, s') \<Rightarrow> (Inl e, s')
      | (Inr i, s') \<Rightarrow> (Inr (job_id (jobs s' ! i)), update_job i g s'))"

lemma schedule_as_with:
  "schedule_interval n r cmd s = (if n = 0 then (Inl BadInterval, job_reject s) else
     schedule_with (\<lambda>j. j\<lparr>job_kind := Interval, job_interval := n, job_remaining := r\<rparr>) cmd s)"
  "schedule_once n cmd s = (if n = 0 then (Inl BadInterval, job_reject s) else
     schedule_with (\<lambda>j. j\<lparr>job_kind := Once, job_interval := n, job_remaining := 1\<rparr>) cmd s)"
  "schedule_on_state st cmd s =
     schedule_with (\<lambda>j. j\<lparr>job_kind := OnStateEnter, job_state := st, job_interval := 0,
       job_remaining := 0\<rparr>) cmd s"
  by (simp_all add: schedule_interval_def schedule_once_def schedule_on_state_def schedule_with_def)

lemma schedule_with_cases:
  obtains (refused) e where "schedule_with g cmd s = (Inl e, job_reject s)"
  | (stored) i line where "cmd = Some line" "line \<noteq> []" "length line \<le> kMaxCommandLength"
      "\<not> first_word_is_job line" "first_free (jobs s) = Some i" "submit_hook s \<noteq> None"
      "schedule_with g cmd s = (Inr (next_id s), s\<lparr>next_id := succ_id (next_id s),
         jobs := (jobs s)[i := g (empty_job\<lparr>job_active := True, job_id := next_id s,
           job_command := line\<rparr>)]\<rparr>)"
proof (cases rule: allocate_cases [of cmd s])
  case (refused e)
  then show ?thesis using that(1) by (simp add: schedule_with_def)
next
  case (stored i line)
  from first_free_Some [OF stored(5)] have "i < length (jobs s)" by simp
  with stored show ?thesis
    by (intro that(2)) (simp_all add: schedule_with_def update_job_def)
qed

lemma sched_ok_schedule_with:
  assumes "sched_ok s"
    and "\<And>line. line \<noteq> [] \<Longrightarrow> length line \<le> kMaxCommandLength \<Longrightarrow> \<not> first_word_is_job line \<Longrightarrow>
      job_ok (g (empty_job\<lparr>job_active := True, job_id := next_id s, job_command := line\<rparr>))"
  shows "sched_ok (snd (schedule_with g cmd s))"
proof (cases rule: schedule_with_cases [of g cmd s])
  case (refused e)
  with assms(1) show ?thesis by (simp add: sched_ok_def)
next
  case (stored i line)
  then show ?thesis
    using sched_ok_update [OF assms(1) assms(2) succ_id_nonzero] by simp
qed

lemma sched_ok_schedules [inv_intros]:
  assumes "sched_ok s"
  shows "sched_ok (snd (schedule_interval n r cmd s))"
    and "sched_ok (snd (schedule_once n cmd s))"
    and "sched_ok (snd (schedule_on_state st cmd s))"
proof -
  have rej: "sched_ok (job_reject s)" and nz: "next_id s \<noteq> 0"
    using assms by (simp_all add: sched_ok_def)
  show "sched_ok (snd (schedule_interval n r cmd s))"
    unfolding schedule_as_with
    using rej nz by (auto intro!: sched_ok_schedule_with [OF assms] simp: job_ok_def)
  show "sched_ok (snd (schedule_once n cmd s))"
    unfolding schedule_as_with
    using rej nz by (auto intro!: sched_ok_schedule_with [OF assms] simp: job_ok_def)
  show "sched_ok (snd (schedule_on_state st cmd s))"
    unfolding schedule_as_with
    using nz by (auto intro!: sched_ok_schedule_with [OF assms] simp: job_ok_def)
qed

lemma cancel_first_props:
  assumes "cancel_first i js = (b, js')"
  shows "length js' = length js"
    and "(\<forall>j \<in> set js. job_ok j) \<Longrightarrow> (\<forall>j \<in> set js'. job_ok j)"
  using assms by (induction js arbitrary: b js') (auto split: if_splits prod.splits)

lemma cancel_each_props:
  assumes "cancel_each js = (n, js')"
  shows "length js' = length js" and "\<forall>j \<in> set js'. \<not> job_active j"
    and "n = length (filter job_active js)"
  using assms by (induction js arbitrary: n js') (auto split: if_splits prod.splits)

lemma sched_ok_cancel [inv_intros]: "sched_ok s \<Longrightarrow> sched_ok (snd (cancel i s))"
  by (cases "cancel_first i (jobs s)")
     (use cancel_first_props [of i "jobs s"] in \<open>auto simp: cancel_def sched_ok_def\<close>)

lemma sched_ok_cancel_all [inv_intros]: "sched_ok s \<Longrightarrow> sched_ok (snd (cancel_all s))"
  by (cases "cancel_each (jobs s)")
     (use cancel_each_props [of "jobs s"] in \<open>auto simp: cancel_all_def sched_ok_def job_ok_def\<close>)

section \<open>One slot of a poll\<close>

text \<open>The slot after a pass, as a function of the slot alone: the executor's answer only
  moves the statistics.\<close>

definition deliver_job :: "job \<Rightarrow> job" where
  "deliver_job j = (let j1 = j\<lparr>job_fired := job_fired j + 1\<rparr> in
     if job_remaining j1 \<noteq> 0
     then j1\<lparr>job_remaining := job_remaining j1 - 1,
             job_active := job_active j1 \<and> job_remaining j1 - 1 \<noteq> 0\<rparr>
     else j1)"

definition is_due :: "u64 \<Rightarrow> u8 \<Rightarrow> bool \<Rightarrow> job \<Rightarrow> bool" where
  "is_due now st entered j \<longleftrightarrow> job_active j \<and> poll_due now st entered j = Due"

definition slot_after :: "u64 \<Rightarrow> u8 \<Rightarrow> bool \<Rightarrow> job \<Rightarrow> job" where
  "slot_after now st entered j =
     (if \<not> job_active j then j
      else case poll_due now st entered j of
        Anchor \<Rightarrow> j\<lparr>job_next := now + ucast (job_interval j)\<rparr>
      | NotDue \<Rightarrow> j
      | Due \<Rightarrow> deliver_job (fst (poll_resync now j zero_job_stats)))"

lemma poll_resync_fst: "fst (poll_resync now j t) = fst (poll_resync now j t')"
  by (simp add: poll_resync_def Let_def)

lemma poll_resync_command [simp]:
  "job_command (fst (poll_resync now j t)) = job_command j"
  "job_id (fst (poll_resync now j t)) = job_id j"
  "job_kind (fst (poll_resync now j t)) = job_kind j"
  "job_active (fst (poll_resync now j t)) = job_active j"
  "job_remaining (fst (poll_resync now j t)) = job_remaining j"
  "job_fired (fst (poll_resync now j t)) = job_fired j"
  "job_interval (fst (poll_resync now j t)) = job_interval j"
  by (simp_all add: poll_resync_def Let_def)

lemma deliver_job_simps [simp]:
  "job_command (deliver_job j) = job_command j" "job_id (deliver_job j) = job_id j"
  "job_kind (deliver_job j) = job_kind j" "job_next (deliver_job j) = job_next j"
  "job_interval (deliver_job j) = job_interval j" "job_fired (deliver_job j) = job_fired j + 1"
  by (simp_all add: deliver_job_def Let_def)

lemma slot_after_simps [simp]:
  "job_command (slot_after now st e j) = job_command j"
  "job_id (slot_after now st e j) = job_id j"
  "job_kind (slot_after now st e j) = job_kind j"
  "job_interval (slot_after now st e j) = job_interval j"
  by (simp_all add: slot_after_def split: poll_verdict.split)

lemma slot_after_active: "job_active (slot_after now st e j) \<Longrightarrow> job_active j"
  by (simp add: slot_after_def split: if_splits)

text \<open>One slot of the loop, split into the table, the statistics and the executor.\<close>

lemma poll_slot_due:
  assumes "is_due now st e j"
  shows "poll_slot now st e f j t n c =
    (slot_after now st e j,
     (let t' = snd (poll_resync now j t) in
      if fst (f c (job_command j)) then t'\<lparr>st_fired := st_fired t' + 1\<rparr>
      else t'\<lparr>st_submit_failed := st_submit_failed t' + 1\<rparr>),
     (if fst (f c (job_command j)) then Suc n else n), snd (f c (job_command j)))"
  using assms
  by (simp add: is_due_def poll_slot_def slot_after_def poll_deliver_def deliver_job_def Let_def
      poll_resync_fst [of now j t zero_job_stats] case_prod_beta)

lemma poll_slot_not_due:
  assumes "\<not> is_due now st e j"
  shows "poll_slot now st e f j t n c = (slot_after now st e j, t, n, c)"
  using assms by (auto simp: is_due_def poll_slot_def slot_after_def split: poll_verdict.split)

lemma poll_jobs_table: "fst (poll_jobs now st e f js t n c) = map (slot_after now st e) js"
proof (induction js arbitrary: t n c)
  case Nil
  show ?case by simp
next
  case (Cons j js)
  then show ?case
    by (cases "is_due now st e j") (simp_all add: poll_slot_due poll_slot_not_due case_prod_beta)
qed

text \<open>The executor as a run over the lines handed to it, counting acceptances.\<close>

fun submit_all :: "'c submit_fn \<Rightarrow> string list \<Rightarrow> nat \<Rightarrow> 'c \<Rightarrow> nat \<times> 'c" where
  "submit_all f [] n c = (n, c)"
| "submit_all f (l # ls) n c =
     (case f c l of (ok, c') \<Rightarrow> submit_all f ls (if ok then Suc n else n) c')"

definition due_lines :: "u64 \<Rightarrow> u8 \<Rightarrow> bool \<Rightarrow> job list \<Rightarrow> string list" where
  "due_lines now st e js = map job_command (filter (is_due now st e) js)"

lemma poll_jobs_submits:
  "snd (snd (poll_jobs now st e f js t n c)) = submit_all f (due_lines now st e js) n c"
proof (induction js arbitrary: t n c)
  case Nil
  show ?case by (simp add: due_lines_def)
next
  case (Cons j js)
  then show ?case
    by (cases "is_due now st e j")
       (simp_all add: poll_slot_due poll_slot_not_due due_lines_def case_prod_beta)
qed

lemma submit_all_bound:
  "n \<le> fst (submit_all f ls n c) \<and> fst (submit_all f ls n c) \<le> n + length ls"
proof (induction ls arbitrary: n c)
  case Nil
  show ?case by simp
next
  case (Cons l ls)
  show ?case
    using Cons.IH [of "if fst (f c l) then Suc n else n" "snd (f c l)"]
    by (auto simp: case_prod_beta split: if_splits)
qed

lemma job_ok_slot_after: "job_ok j \<Longrightarrow> job_ok (slot_after now st e j)"
  by (auto simp: job_ok_def slot_after_def deliver_job_def Let_def split: poll_verdict.split)

lemma poll_jobs_of_poll:
  assumes "submit_hook s = Some f"
  shows "jobs (fst (snd (poll now st s c))) = map (slot_after now st (state_entered s st)) (jobs s)"
    and "last_state (fst (snd (poll now st s c))) = st"
    and "next_id (fst (snd (poll now st s c))) = next_id s"
    and "submit_hook (fst (snd (poll now st s c))) = Some f"
    and "(fst (poll now st s c), snd (snd (poll now st s c))) =
         submit_all f (due_lines now st (state_entered s st) (jobs s)) 0 c"
  using assms
    poll_jobs_table [of now st "state_entered s st" f "jobs s" "job_stats s" 0 c]
    poll_jobs_submits [of now st "state_entered s st" f "jobs s" "job_stats s" 0 c]
  by (auto simp: poll_def case_prod_beta)

lemma poll_unconfigured [simp]: "submit_hook s = None \<Longrightarrow> poll now st s c = (0, s, c)"
  by (simp add: poll_def)

lemma sched_ok_poll [inv_intros]: "sched_ok s \<Longrightarrow> sched_ok (fst (snd (poll now st s c)))"
  by (cases "submit_hook s")
     (auto simp: sched_ok_def poll_jobs_of_poll intro: job_ok_slot_after)

lemma sched_ok_configure [inv_intros]: "sched_ok s \<Longrightarrow> sched_ok (configure f s)"
  by (simp add: sched_ok_def configure_def)

lemma sched_ok_reset_stats [inv_intros]: "sched_ok s \<Longrightarrow> sched_ok (reset_stats s)"
  by (simp add: sched_ok_def reset_stats_def)

lemma sched_ok_step: "sched_ok s \<Longrightarrow> sched_ok (fst (job_step op (s, c)))"
  by (cases op) (auto intro: inv_intros)

lemma sched_ok_run: "sched_ok (fst sc) \<Longrightarrow> sched_ok (fst (job_run ops sc))"
proof (induction ops arbitrary: sc)
  case Nil
  then show ?case by simp
next
  case (Cons op ops)
  then show ?case using sched_ok_step by (cases sc) fastforce
qed

section \<open>Time jobs are never left due\<close>

lemma unat_now_plus_interval:
  fixes now :: u64 and i :: u32
  assumes "unat now + 2 ^ 32 < 2 ^ 64"
  shows "unat (now + ucast i) = unat now + unat i"
proof -
  have "unat i < 2 ^ 32" using unsigned_less [of i] by simp
  with assms show ?thesis by (simp add: unat_add_no_wrap)
qed

text \<open>The resynchronised deadline lies strictly after the instant of the poll.\<close>

lemma poll_resync_after_now:
  assumes "job_kind j \<noteq> OnStateEnter" and "job_interval j \<noteq> 0" and "job_next j \<le> now"
    and bound: "unat now + 2 ^ 32 < 2 ^ 64"
  shows "now < job_next (fst (poll_resync now j t))"
proof -
  let ?i = "ucast (job_interval j) :: u64"
  have pos: "0 < unat (job_interval j)" using assms(2) by (simp add: unat_gt_0)
  have late: "unat (now - job_next j) = unat now - unat (job_next j)"
    using assms(3) by (rule unat_sub_le)
  have le: "unat (job_next j) \<le> unat now" using assms(3) by (simp add: word_le_nat_alt)
  have "unat (job_next j) + 2 ^ 32 < 2 ^ 64" using le bound by linarith
  then have next_plus: "unat (job_next j + ?i) = unat (job_next j) + unat (job_interval j)"
    by (rule unat_now_plus_interval)
  have now_plus: "unat (now + ?i) = unat now + unat (job_interval j)"
    using bound by (rule unat_now_plus_interval)
  show ?thesis
  proof (cases "?i \<le> now - job_next j")
    case True
    with assms(1) pos now_plus show ?thesis by (simp add: poll_resync_def Let_def word_less_nat_alt)
  next
    case False
    then have "unat now - unat (job_next j) < unat (job_interval j)"
      using late by (simp add: word_le_nat_alt)
    with False assms(1) le next_plus show ?thesis
      by (simp add: poll_resync_def Let_def word_less_nat_alt)
  qed
qed

lemma quiet_after_now:
  assumes "job_kind j \<noteq> OnStateEnter" and "now < job_next j"
  shows "poll_due now st e j = NotDue"
proof -
  have "job_next j \<noteq> 0" using assms(2) by auto
  with assms show ?thesis by (auto simp: poll_due_def)
qed

lemma deliver_job_due_again:
  "job_kind j \<noteq> OnStateEnter \<Longrightarrow> poll_due now st e (deliver_job j) = poll_due now st e j"
  by (simp add: poll_due_def)

lemma slot_after_quiet:
  assumes "job_ok j" and bound: "unat now + 2 ^ 32 < 2 ^ 64"
  shows "\<not> is_due now st False (slot_after now st e j)"
    and "slot_after now st False (slot_after now st e j) = slot_after now st e j"
proof -
  let ?j = "slot_after now st e j"
  have "\<not> job_active ?j \<or> poll_due now st False ?j = NotDue"
  proof (cases "job_active j \<and> job_kind j \<noteq> OnStateEnter")
    case False
    then show ?thesis using slot_after_active [of now st e j] by (auto simp: poll_due_def)
  next
    case True
    then have iv: "job_interval j \<noteq> 0" using assms(1) by (simp add: job_ok_def)
    show ?thesis
    proof (cases "poll_due now st e j")
      case Anchor
      have "unat now < unat (now + ucast (job_interval j))"
        using iv by (simp add: unat_now_plus_interval [OF bound] unat_gt_0)
      then have "now < job_next ?j" using True Anchor by (simp add: slot_after_def word_less_nat_alt)
      then show ?thesis using True by (simp add: quiet_after_now)
    next
      case NotDue
      then show ?thesis using True by (simp add: slot_after_def poll_due_def split: if_splits)
    next
      case Due
      then have "job_next j \<le> now" using True by (auto simp: poll_due_def split: if_splits)
      with True iv bound have "now < job_next (fst (poll_resync now j zero_job_stats))"
        by (intro poll_resync_after_now) auto
      then show ?thesis using True Due by (simp add: slot_after_def quiet_after_now)
    qed
  qed
  then show "\<not> is_due now st False ?j" and "slot_after now st False ?j = ?j"
    by (auto simp: is_due_def slot_after_def [of now st False ?j])
qed

section \<open>Counting deliveries of one slot\<close>

definition poll_ops :: "(u64 \<times> u8) list \<Rightarrow> 'c job_op list" where
  "poll_ops ps = map (\<lambda>(now, st). OpPoll now st) ps"

lemma poll_ops_Cons [simp]: "poll_ops ((now, st) # ps) = OpPoll now st # poll_ops ps"
  by (simp add: poll_ops_def)

lemma poll_ops_Nil [simp]: "poll_ops [] = []"
  by (simp add: poll_ops_def)

lemma slot_after_inactive [simp]: "\<not> job_active j \<Longrightarrow> slot_after now st e j = j"
  by (simp add: slot_after_def)

lemma slot_after_fired:
  "job_active j \<Longrightarrow> is_due now st e j \<Longrightarrow> slot_after now st e j =
     deliver_job (fst (poll_resync now j zero_job_stats))"
  by (simp add: slot_after_def is_due_def)

lemma slot_after_idle:
  "\<not> is_due now st e j \<Longrightarrow>
     job_fired (slot_after now st e j) = job_fired j \<and>
     job_remaining (slot_after now st e j) = job_remaining j \<and>
     job_active (slot_after now st e j) = job_active j"
  by (auto simp: slot_after_def is_due_def split: poll_verdict.split)

lemma poll_run_slot:
  assumes "submit_hook s = Some f" and "i < length (jobs s)"
  shows "jobs (fst (job_step (OpPoll now st) (s, c))) ! i =
           slot_after now st (state_entered s st) (jobs s ! i)"
    and "i < length (jobs (fst (job_step (OpPoll now st) (s, c))))"
    and "submit_hook (fst (job_step (OpPoll now st) (s, c))) = Some f"
    and "last_state (fst (job_step (OpPoll now st) (s, c))) = st"
  using assms by (simp_all add: poll_jobs_of_poll)

lemma inactive_stays:
  assumes "submit_hook s = Some f" and "i < length (jobs s)" and "\<not> job_active (jobs s ! i)"
  shows "jobs (fst (job_run (poll_ops ps) (s, c))) ! i = jobs s ! i"
  using assms
proof (induction ps arbitrary: s c)
  case Nil
  then show ?case by simp
next
  case (Cons p ps)
  obtain now st where p: "p = (now, st)" by (cases p)
  let ?sc = "job_step (OpPoll now st) (s, c)"
  note slot = poll_run_slot [OF Cons.prems(1,2), of now st c]
  have "jobs (fst ?sc) ! i = jobs s ! i" using slot(1) Cons.prems(3) by simp
  then have "jobs (fst (job_run (poll_ops ps) (fst ?sc, snd ?sc))) ! i = jobs (fst ?sc) ! i"
    using Cons.prems(3) slot by (intro Cons.IH) auto
  with \<open>jobs (fst ?sc) ! i = jobs s ! i\<close> show ?case by (simp add: p del: job_step.simps)
qed

text \<open>
  The number of polls, in a sequence of observed states, that enter \<open>st\<close>.
\<close>

fun entries :: "u8 \<Rightarrow> u8 \<Rightarrow> u8 list \<Rightarrow> nat" where
  "entries st prev [] = 0"
| "entries st prev (x # xs) =
     (if prev \<noteq> kNoState \<and> x \<noteq> prev \<and> x = st then 1 else 0) + entries st x xs"

lemma repeat_run:
  assumes "submit_hook s = Some f" and "i < length (jobs s)"
    and "job_active (jobs s ! i)" and "job_remaining (jobs s ! i) \<noteq> 0"
    and "j' = jobs (fst (job_run (poll_ops ps) (s, c))) ! i"
  shows "\<exists>k \<le> unat (job_remaining (jobs s ! i)).
     job_fired j' = job_fired (jobs s ! i) + of_nat k \<and>
     (job_active j' \<longleftrightarrow> k < unat (job_remaining (jobs s ! i))) \<and>
     (job_active j' \<longrightarrow> unat (job_remaining j') = unat (job_remaining (jobs s ! i)) - k)"
  using assms
proof (induction ps arbitrary: s c)
  case Nil
  then show ?case by (intro exI [of _ 0]) (simp add: unat_gt_0)
next
  case (Cons p ps)
  obtain now st where p: "p = (now, st)" by (cases p)
  let ?sc = "job_step (OpPoll now st) (s, c)" and ?j = "jobs s ! i"
  let ?r = "unat (job_remaining ?j)"
  let ?e = "state_entered s st"
  note slot = poll_run_slot [OF Cons.prems(1,2), of now st c]
  have j': "j' = jobs (fst (job_run (poll_ops ps) (fst ?sc, snd ?sc))) ! i"
    using Cons.prems(5) by (simp add: p del: job_step.simps)
  have r: "0 < ?r" using Cons.prems(4) by (simp add: unat_gt_0)
  show ?case
  proof (cases "is_due now st ?e ?j")
    case False
    note idle = slot_after_idle [OF False]
    have "\<exists>k \<le> unat (job_remaining (jobs (fst ?sc) ! i)).
       job_fired j' = job_fired (jobs (fst ?sc) ! i) + of_nat k \<and>
       (job_active j' \<longleftrightarrow> k < unat (job_remaining (jobs (fst ?sc) ! i))) \<and>
       (job_active j' \<longrightarrow> unat (job_remaining j') = unat (job_remaining (jobs (fst ?sc) ! i)) - k)"
      using slot idle Cons.prems(1-4) j' by (intro Cons.IH [where s = "fst ?sc" and c = "snd ?sc"]) auto
    then show ?thesis unfolding slot(1) using idle by simp
  next
    case True
    let ?d = "slot_after now st ?e ?j"
    have d: "job_fired ?d = job_fired ?j + 1" "unat (job_remaining ?d) = ?r - 1"
      "job_active ?d \<longleftrightarrow> 1 < ?r"
      using Cons.prems(3,4) True r unat_pred [OF Cons.prems(4)] word_unat_eq_iff [of "job_remaining ?j" 1]
      by (simp_all add: slot_after_fired deliver_job_def Let_def) arith?
    show ?thesis
    proof (cases "1 < ?r")
      case False
      then have "jobs (fst (job_run (poll_ops ps) (fst ?sc, snd ?sc))) ! i = jobs (fst ?sc) ! i"
        using slot d by (intro inactive_stays) auto
      then have "j' = ?d" using j' slot(1) by simp
      with d False r show ?thesis by (intro exI [of _ 1]) simp
    next
      case True
      then have "job_remaining ?d \<noteq> 0" using d(2) by (auto simp: unat_gt_0 [symmetric])
      then have "\<exists>k \<le> unat (job_remaining (jobs (fst ?sc) ! i)).
         job_fired j' = job_fired (jobs (fst ?sc) ! i) + of_nat k \<and>
         (job_active j' \<longleftrightarrow> k < unat (job_remaining (jobs (fst ?sc) ! i))) \<and>
         (job_active j' \<longrightarrow> unat (job_remaining j') = unat (job_remaining (jobs (fst ?sc) ! i)) - k)"
        using slot d True j' by (intro Cons.IH [where s = "fst ?sc" and c = "snd ?sc"]) auto
      then obtain k where "k \<le> ?r - 1" "job_fired j' = job_fired ?j + 1 + of_nat k"
        "job_active j' \<longleftrightarrow> k < ?r - 1" "job_active j' \<longrightarrow> unat (job_remaining j') = ?r - 1 - k"
        unfolding slot(1) d by auto
      with True show ?thesis by (intro exI [of _ "Suc k"]) (auto simp: ac_simps)
    qed
  qed
qed

lemma entries_run:
  assumes "submit_hook s = Some f" and "i < length (jobs s)"
    and "job_active (jobs s ! i)" and "job_kind (jobs s ! i) = OnStateEnter"
    and "job_remaining (jobs s ! i) = 0"
    and "j' = jobs (fst (job_run (poll_ops ps) (s, c))) ! i"
  shows "job_active j' \<and> job_fired j' = job_fired (jobs s ! i) +
     of_nat (entries (job_state (jobs s ! i)) (last_state s) (map snd ps))"
  using assms
proof (induction ps arbitrary: s c)
  case Nil
  then show ?case by simp
next
  case (Cons p ps)
  obtain now st where p: "p = (now, st)" by (cases p)
  let ?sc = "job_step (OpPoll now st) (s, c)" and ?j = "jobs s ! i"
  let ?d = "slot_after now st (state_entered s st) ?j"
  note slot = poll_run_slot [OF Cons.prems(1,2), of now st c]
  have j': "j' = jobs (fst (job_run (poll_ops ps) (fst ?sc, snd ?sc))) ! i"
    using Cons.prems(6) by (simp add: p del: job_step.simps)
  have due: "is_due now st (state_entered s st) ?j \<longleftrightarrow>
      last_state s \<noteq> kNoState \<and> st \<noteq> last_state s \<and> st = job_state ?j"
    using Cons.prems(3,4) by (auto simp: is_due_def poll_due_def state_entered_def)
  have d: "job_active ?d" "job_kind ?d = OnStateEnter" "job_remaining ?d = 0"
    "job_state ?d = job_state ?j"
    "job_fired ?d = job_fired ?j + (if is_due now st (state_entered s st) ?j then 1 else 0)"
    using Cons.prems(3-5)
    by (auto simp: slot_after_def is_due_def deliver_job_def poll_resync_def poll_due_def Let_def)
  have "job_active j' \<and> job_fired j' = job_fired (jobs (fst ?sc) ! i) +
     of_nat (entries (job_state (jobs (fst ?sc) ! i)) (last_state (fst ?sc)) (map snd ps))"
    using slot d j' by (intro Cons.IH [where s = "fst ?sc" and c = "snd ?sc"]) auto
  then show ?case unfolding slot d using due by (auto simp: p)
qed

section \<open>Ids\<close>

definition ids_fresh :: "nat \<Rightarrow> 'c scheduler \<Rightarrow> bool" where
  "ids_fresh n s \<longleftrightarrow> unat (next_id s) \<le> Suc n \<and>
     (\<forall>j \<in> set (jobs s). job_active j \<longrightarrow> unat (job_id j) < unat (next_id s)) \<and>
     distinct (map job_id (filter job_active (jobs s)))"

fun schedules :: "'c job_op list \<Rightarrow> nat" where
  "schedules [] = 0"
| "schedules (op # ops) = (case op of
     OpInterval _ _ _ \<Rightarrow> Suc (schedules ops) | OpOnce _ _ \<Rightarrow> Suc (schedules ops)
   | OpOnState _ _ \<Rightarrow> Suc (schedules ops) | _ \<Rightarrow> schedules ops)"

lemma active_ids_update:
  assumes "first_free js = Some i" and "job_active j"
  shows "\<exists>xs ys. map job_id (filter job_active js) = xs @ ys \<and>
     map job_id (filter job_active (js[i := j])) = xs @ job_id j # ys"
  using assms
proof (induction js arbitrary: i)
  case Nil
  then show ?case by simp
next
  case (Cons a js)
  show ?case
  proof (cases "job_active a")
    case False
    with Cons.prems show ?thesis
      by (intro exI [of _ "[]"] exI [of _ "map job_id (filter job_active js)"]) auto
  next
    case True
    with Cons.prems obtain k where k: "first_free js = Some k" "i = Suc k" by auto
    from Cons.IH [OF k(1) Cons.prems(2)] obtain xs ys where
      "map job_id (filter job_active js) = xs @ ys"
      "map job_id (filter job_active (js[k := j])) = xs @ job_id j # ys" by blast
    with True k show ?thesis by (intro exI [of _ "job_id a # xs"] exI [of _ ys]) simp
  qed
qed

text \<open>Tables that only lose jobs: same ids slot by slot, no slot newly active.\<close>

definition only_loses :: "job list \<Rightarrow> job list \<Rightarrow> bool" where
  "only_loses js js' \<longleftrightarrow>
     list_all2 (\<lambda>a b. job_id b = job_id a \<and> (job_active b \<longrightarrow> job_active a)) js js'"

lemma only_loses_ids:
  assumes "only_loses js js'"
  shows "set (map job_id (filter job_active js')) \<subseteq> set (map job_id (filter job_active js))"
    and "distinct (map job_id (filter job_active js)) \<Longrightarrow>
         distinct (map job_id (filter job_active js'))"
proof -
  have "list_all2 (\<lambda>a b. job_id b = job_id a \<and> (job_active b \<longrightarrow> job_active a)) js js'"
    using assms by (simp add: only_loses_def)
  then have "set (map job_id (filter job_active js')) \<subseteq> set (map job_id (filter job_active js)) \<and>
     (distinct (map job_id (filter job_active js)) \<longrightarrow> distinct (map job_id (filter job_active js')))"
    by (induction rule: list_all2_induct) auto
  then show "set (map job_id (filter job_active js')) \<subseteq> set (map job_id (filter job_active js))"
    and "distinct (map job_id (filter job_active js)) \<Longrightarrow>
         distinct (map job_id (filter job_active js'))" by auto
qed

lemma only_loses_refl [simp]: "only_loses js js"
  by (simp add: only_loses_def list_all2_refl)

lemma only_loses_cancel_first: "only_loses js (snd (cancel_first i js))"
  by (induction js) (auto simp: only_loses_def case_prod_beta list_all2_refl)

lemma only_loses_cancel_each: "only_loses js (snd (cancel_each js))"
  by (induction js) (auto simp: only_loses_def case_prod_beta)

lemma only_loses_slot_after: "only_loses js (map (slot_after now st e) js)"
  by (auto simp: only_loses_def list_all2_map2 intro!: list_all2_refl dest: slot_after_active)

lemma ids_fresh_only_loses:
  assumes "ids_fresh n s" and "only_loses (jobs s) (jobs s')" and "next_id s' = next_id s"
  shows "ids_fresh n s'"
proof -
  have "\<forall>j \<in> set (jobs s'). job_active j \<longrightarrow> unat (job_id j) < unat (next_id s)"
  proof (intro ballI impI)
    fix j assume "j \<in> set (jobs s')" "job_active j"
    then have "job_id j \<in> set (map job_id (filter job_active (jobs s')))" by auto
    then have "job_id j \<in> set (map job_id (filter job_active (jobs s)))"
      using only_loses_ids(1) [OF assms(2)] by blast
    then show "unat (job_id j) < unat (next_id s)" using assms(1) by (auto simp: ids_fresh_def)
  qed
  then show ?thesis
    using assms(1,3) only_loses_ids(2) [OF assms(2)] by (simp add: ids_fresh_def)
qed

lemma ids_fresh_mono: "ids_fresh n s \<Longrightarrow> n \<le> m \<Longrightarrow> ids_fresh m s"
  by (auto simp: ids_fresh_def)

lemma ids_fresh_schedule_with:
  assumes "ids_fresh n s" and "Suc n < 255"
    and "\<And>j. job_id (g j) = job_id j \<and> job_active (g j) = job_active j"
  shows "ids_fresh (Suc n) (snd (schedule_with g cmd s))"
proof (cases rule: schedule_with_cases [of g cmd s])
  case (refused e)
  then show ?thesis
    using ids_fresh_mono [OF ids_fresh_only_loses [OF assms(1), of "job_reject s"]] by simp
next
  case (stored i line)
  let ?j = "g (empty_job\<lparr>job_active := True, job_id := next_id s, job_command := line\<rparr>)"
  have j: "job_active ?j" "job_id ?j = next_id s" using assms(3) by simp_all
  obtain xs ys where ids: "map job_id (filter job_active (jobs s)) = xs @ ys"
    "map job_id (filter job_active ((jobs s)[i := ?j])) = xs @ next_id s # ys"
    using active_ids_update [OF stored(5) j(1)] j(2) by auto
  have next_id: "unat (next_id s) \<le> Suc n" using assms(1) by (simp add: ids_fresh_def)
  then have succ: "unat (succ_id (next_id s)) = Suc (unat (next_id s))"
    using assms(2) by (simp add: unat_succ_id)
  have old: "\<forall>x \<in> set (xs @ ys). unat x < unat (next_id s)"
    using assms(1) unfolding ids(1) [symmetric] by (auto simp: ids_fresh_def)
  have "\<forall>x \<in> set (map job_id (filter job_active ((jobs s)[i := ?j]))).
          unat x < Suc (unat (next_id s))"
    unfolding ids(2) using old by (auto intro: less_SucI)
  moreover have "distinct (map job_id (filter job_active ((jobs s)[i := ?j])))"
    unfolding ids(2) using assms(1) old ids(1) by (auto simp: ids_fresh_def)
  ultimately show ?thesis using next_id succ stored(7) by (auto simp: ids_fresh_def)
qed

lemma ids_fresh_step:
  assumes "ids_fresh n s" and "n + schedules [op] < 255"
  shows "ids_fresh (n + schedules [op]) (fst (job_step op (s, c)))"
proof -
  have rej: "ids_fresh n (job_reject s)"
    using ids_fresh_only_loses [OF assms(1), of "job_reject s"] by simp
  show ?thesis
  proof (cases op)
    case (OpInterval n' r cmd)
    then show ?thesis using assms rej
      by (auto simp: schedule_as_with intro: ids_fresh_schedule_with ids_fresh_mono)
  next
    case (OpOnce d cmd)
    then show ?thesis using assms rej
      by (auto simp: schedule_as_with intro: ids_fresh_schedule_with ids_fresh_mono)
  next
    case (OpOnState st cmd)
    then show ?thesis using assms
      by (auto simp: schedule_as_with intro: ids_fresh_schedule_with)
  next
    case (OpCancel i)
    then show ?thesis using assms(1) only_loses_cancel_first [of "jobs s" i]
      by (auto simp: cancel_def case_prod_beta intro: ids_fresh_only_loses)
  next
    case OpCancelAll
    then show ?thesis using assms(1) only_loses_cancel_each [of "jobs s"]
      by (auto simp: cancel_all_def case_prod_beta intro: ids_fresh_only_loses)
  next
    case (OpPoll now st)
    show ?thesis
    proof (cases "submit_hook s")
      case None
      then show ?thesis using assms(1) OpPoll by simp
    next
      case (Some f)
      have "only_loses (jobs s) (jobs (fst (snd (poll now st s c))))"
        by (simp add: poll_jobs_of_poll [OF Some] only_loses_slot_after)
      then show ?thesis using assms(1) OpPoll
        by (simp add: ids_fresh_only_loses poll_jobs_of_poll [OF Some])
    qed
  qed (use assms(1) in \<open>auto simp: configure_def reset_stats_def ids_fresh_def\<close>)
qed

lemma schedules_Cons: "schedules (op # ops) = schedules [op] + schedules ops"
  by (cases op) simp_all

lemma ids_fresh_run:
  assumes "ids_fresh n (fst sc)" and "n + schedules ops < 255"
  shows "ids_fresh (n + schedules ops) (fst (job_run ops sc))"
  using assms
proof (induction ops arbitrary: n sc)
  case Nil
  then show ?case by simp
next
  case (Cons op ops)
  have "ids_fresh (n + schedules [op]) (fst (job_step op sc))"
    using Cons.prems schedules_Cons [of op ops] ids_fresh_step [of n "fst sc" op "snd sc"] by simp
  from Cons.IH [OF this] show ?case
    using Cons.prems(2) schedules_Cons [of op ops] by (simp add: add.assoc)
qed

section \<open>Properties\<close>

text \<open>C1: The job table is well formed in every state any sequence of schedule, cancel, poll
  and configuration calls can reach from boot: eight slots, and every active job has a
  non-zero id, a non-empty command of at most 96 characters that is not itself a job command,
  a non-zero period when it is time-driven, and a repeat count that fits its kind.\<close>

theorem job_table_invariant: "sched_ok (fst (job_run ops (new_scheduler, c)))"
  by (rule sched_ok_run) (simp add: sched_ok_new)

text \<open>C2: A poll hands the executor exactly the lines of the due jobs, each once and in slot
  order, reports how many were accepted (never more than eight), and leaves the id counter
  alone.\<close>

theorem poll_submits_due_jobs:
  assumes "sched_ok s" and "submit_hook s = Some f" and "poll now st s c = (n, s', c')"
  shows "(n, c') = submit_all f (due_lines now st (state_entered s st) (jobs s)) 0 c \<and>
    n \<le> kMaxJobs \<and> last_state s' = st \<and> next_id s' = next_id s"
proof -
  let ?lines = "due_lines now st (state_entered s st) (jobs s)"
  note facts = poll_jobs_of_poll [OF assms(2), of now st c]
  have sub: "(n, c') = submit_all f ?lines 0 c"
    and rest: "last_state s' = st" "next_id s' = next_id s"
    using facts assms(3) by simp_all
  have "n \<le> length ?lines"
    using submit_all_bound [of 0 f ?lines c] by (simp add: sub [symmetric])
  also have "\<dots> \<le> kMaxJobs"
    using assms(1) length_filter_le [of "is_due now st (state_entered s st)" "jobs s"]
    by (simp add: due_lines_def sched_ok_def)
  finally show ?thesis using sub rest by simp
qed

lemma submit_hook_schedule_with [frame_simps]:
  "submit_hook (snd (schedule_with g cmd s)) = submit_hook s"
  by (cases rule: schedule_with_cases [of g cmd s]) simp_all

lemma submit_hook_step [frame_simps]:
  "(\<And>f. op \<noteq> OpConfigure f) \<Longrightarrow> submit_hook (fst (job_step op (s, c))) = submit_hook s"
  by (cases op; cases "submit_hook s")
     (auto simp: schedule_as_with submit_hook_schedule_with cancel_def cancel_all_def
        reset_stats_def case_prod_beta poll_jobs_of_poll)

definition accept_all :: "string list submit_fn" where
  "accept_all log line = (True, log @ [line])"

definition demo_scheduler :: "string list scheduler" where
  "demo_scheduler = fst (job_run
     [OpConfigure (Some accept_all), OpInterval 100 3 (Some ''led -on''),
      OpOnState 2 (Some ''sensor -calibrate''), OpPoll 1000 1] (new_scheduler, []))"

lemma demo_scheduler_facts:
  "sched_ok demo_scheduler" "submit_hook demo_scheduler = Some accept_all"
proof -
  show "sched_ok demo_scheduler"
    unfolding demo_scheduler_def by (rule sched_ok_run) (simp add: sched_ok_new)
  have "submit_hook (fst (job_run (op # ops) sc)) = submit_hook (fst (job_run ops (job_step op sc)))"
    for op ops and sc :: "string list scheduler \<times> string list" by simp
  have step: "submit_hook (fst (job_step op sc)) = submit_hook (fst sc)"
    if "\<And>f. op \<noteq> OpConfigure f" for op and sc :: "string list scheduler \<times> string list"
    using submit_hook_step [OF that, of "fst sc" "snd sc"] by simp
  show "submit_hook demo_scheduler = Some accept_all"
    by (simp add: demo_scheduler_def step configure_def del: job_step.simps)
       (simp add: configure_def)
qed

theorem poll_submits_due_jobs_witness:
  "sched_ok demo_scheduler \<and> submit_hook demo_scheduler = Some accept_all \<and>
   poll 1100 2 demo_scheduler [] = (2, fst (snd (poll 1100 2 demo_scheduler [])),
     [''led -on'', ''sensor -calibrate'']) \<and>
   (2, [''led -on'', ''sensor -calibrate'']) = submit_all accept_all
     (due_lines 1100 2 (state_entered demo_scheduler 2) (jobs demo_scheduler)) 0 []"
proof -
  have "fst (poll 1100 2 demo_scheduler []) = 2"
    and "snd (snd (poll 1100 2 demo_scheduler [])) = [''led -on'', ''sensor -calibrate'']"
    by code_simp+
  then have run: "poll 1100 2 demo_scheduler [] = (2, fst (snd (poll 1100 2 demo_scheduler [])),
     [''led -on'', ''sensor -calibrate''])" by (simp add: prod_eq_iff)
  show ?thesis
    using run demo_scheduler_facts
      poll_submits_due_jobs [OF demo_scheduler_facts run] by blast
qed

text \<open>C3: No catch-up bursts: a poll leaves no job due. Polling again at the same instant
  and in the same state delivers nothing and changes nothing, for any schedule and however
  late the first poll came (the clock staying 2^32 ms below its 64-bit limit).\<close>

theorem poll_leaves_nothing_due:
  assumes "sched_ok s" and "unat now + 2 ^ 32 < 2 ^ 64" and "poll now st s c = (n, s', c')"
  shows "poll now st s' c' = (0, s', c')"
proof (cases "submit_hook s")
  case None
  then show ?thesis using assms(3) by auto
next
  case (Some f)
  note facts = poll_jobs_of_poll [OF Some, of now st c]
  let ?after = "slot_after now st (state_entered s st)"
  have s': "jobs s' = map ?after (jobs s)" "last_state s' = st" "submit_hook s' = Some f"
    using facts assms(3) by simp_all
  have ok: "job_ok j" if "j \<in> set (jobs s)" for j
    using assms(1) that by (simp add: sched_ok_def)
  have "\<not> state_entered s' st" using s'(2) by (simp add: state_entered_def)
  then have quiet: "poll_jobs now st (state_entered s' st) f js t k d = (js, t, k, d)"
    if "set js \<subseteq> set (map ?after (jobs s))" for js t k d
    using that
  proof (induction js arbitrary: t k d)
    case Nil
    then show ?case by simp
  next
    case (Cons j js)
    then obtain j0 where j0: "j0 \<in> set (jobs s)" "j = ?after j0" by auto
    have "\<not> is_due now st False j" "slot_after now st False j = j"
      unfolding j0(2) by (rule slot_after_quiet [OF ok [OF j0(1)] assms(2)])+
    then show ?case using Cons by (simp add: poll_slot_not_due)
  qed
  have "poll_jobs now st (state_entered s' st) f (jobs s') (job_stats s') 0 c' =
      (jobs s', job_stats s', 0, c')"
    by (rule quiet) (simp add: s'(1))
  then show ?thesis using s'(2,3) by (simp add: poll_def)
qed

theorem poll_leaves_nothing_due_witness:
  "poll 999999 1 (fst (snd (poll 999999 1 demo_scheduler []))) [''led -on''] =
     (0, fst (snd (poll 999999 1 demo_scheduler [])), [''led -on''])"
proof -
  have "fst (poll 999999 1 demo_scheduler []) = 1"
    and "snd (snd (poll 999999 1 demo_scheduler [])) = [''led -on'']" by code_simp+
  then have run: "poll 999999 1 demo_scheduler [] =
      (1, fst (snd (poll 999999 1 demo_scheduler [])), [''led -on''])" by (simp add: prod_eq_iff)
  show ?thesis by (rule poll_leaves_nothing_due [OF demo_scheduler_facts(1) _ run]) simp
qed

text \<open>A job with a repeat count of r is delivered at most r times over any sequence of
  polls, at any times and in any states: after the run it has been delivered some k <= r times,
  it is still active exactly when k < r, and then its remaining count is r - k.\<close>

theorem repeat_count_exact:
  assumes "submit_hook s = Some f" and "i < length (jobs s)"
    and "job_active (jobs s ! i)" and "job_remaining (jobs s ! i) \<noteq> 0"
  shows "\<exists>k \<le> unat (job_remaining (jobs s ! i)).
     (let j' = jobs (fst (job_run (poll_ops ps) (s, c))) ! i in
      job_fired j' = job_fired (jobs s ! i) + of_nat k \<and>
      (job_active j' \<longleftrightarrow> k < unat (job_remaining (jobs s ! i))) \<and>
      (job_active j' \<longrightarrow> unat (job_remaining j') = unat (job_remaining (jobs s ! i)) - k))"
  unfolding Let_def using assms by (intro repeat_run [OF _ _ _ _ refl])

theorem repeat_count_exact_witness:
  "\<exists>k \<le> unat (3::u32). (let j' = jobs (fst (job_run (poll_ops [(1100, 1), (1200, 1), (1300, 1), (1400, 1)])
       (demo_scheduler, []))) ! 0 in
     job_fired j' = 0 + of_nat k \<and> (job_active j' \<longleftrightarrow> k < unat (3::u32)) \<and>
     (job_active j' \<longrightarrow> unat (job_remaining j') = unat (3::u32) - k))"
proof -
  have slot: "length (jobs demo_scheduler) = 8" "job_active (jobs demo_scheduler ! 0)"
    "job_remaining (jobs demo_scheduler ! 0) = 3" "job_fired (jobs demo_scheduler ! 0) = 0"
    by code_simp+
  have "0 < length (jobs demo_scheduler)" and "job_remaining (jobs demo_scheduler ! 0) \<noteq> 0"
    by (simp_all add: slot)
  from repeat_count_exact [OF demo_scheduler_facts(2) this(1) slot(2) this(2)]
  show ?thesis unfolding slot(3,4) .
qed

text \<open>A state-entry job fires once for every poll that sees the machine enter its state
  and for no other, whatever the polls' times: over any run of polls its delivery count grows
  by exactly the number of entries, the very first observation after boot counting as none.\<close>

theorem on_state_fires_per_entry:
  assumes "sched_ok s" and "submit_hook s = Some f" and "i < length (jobs s)"
    and "job_active (jobs s ! i)" and "job_kind (jobs s ! i) = OnStateEnter"
  shows "(let j' = jobs (fst (job_run (poll_ops ps) (s, c))) ! i in
     job_active j' \<and> job_fired j' = job_fired (jobs s ! i) +
       of_nat (entries (job_state (jobs s ! i)) (last_state s) (map snd ps)))"
proof -
  have "job_ok (jobs s ! i)" using assms(1,3) by (simp add: sched_ok_def)
  with assms(4,5) have "job_remaining (jobs s ! i) = 0" by (simp add: job_ok_def)
  with assms show ?thesis unfolding Let_def by (intro entries_run [OF _ _ _ _ _ refl])
qed

theorem on_state_fires_per_entry_witness:
  "(let j' = jobs (fst (job_run (poll_ops [(2000, 2), (2001, 2), (2002, 1), (2003, 2)])
       (demo_scheduler, []))) ! 1 in job_active j' \<and> job_fired j' = 2)"
proof -
  have slot: "length (jobs demo_scheduler) = 8" "job_active (jobs demo_scheduler ! 1)"
    "job_kind (jobs demo_scheduler ! 1) = OnStateEnter" "job_state (jobs demo_scheduler ! 1) = 2"
    "job_fired (jobs demo_scheduler ! 1) = 0" "last_state demo_scheduler = 1" by code_simp+
  have "1 < length (jobs demo_scheduler)" by (simp add: slot)
  from on_state_fires_per_entry [OF demo_scheduler_facts this slot(2,3),
      of "[(2000, 2), (2001, 2), (2002, 1), (2003, 2)]" "[]"]
  show ?thesis unfolding slot(4-6) by (simp add: kNoState_def Let_def)
qed

text \<open>Ids are unambiguous for the first 254 schedule calls of a boot: in any state reached
  with fewer, the active jobs carry pairwise different ids, so a cancel by id cannot hit
  another job than the one listed.\<close>

theorem job_ids_distinct:
  assumes "schedules ops < 255"
  shows "distinct (map job_id (filter job_active (jobs (fst (job_run ops (new_scheduler, c))))))"
proof -
  have "ids_fresh 0 (fst (new_scheduler, c))"
    by (simp add: ids_fresh_def new_scheduler_def empty_job_def kMaxJobs_def filter_replicate)
  from ids_fresh_run [OF this] assms show ?thesis by (simp add: ids_fresh_def)
qed

theorem job_ids_distinct_witness:
  "distinct (map job_id (filter job_active (jobs (fst (job_run
     [OpConfigure (Some accept_all), OpInterval 5 0 (Some ''a''), OpOnce 7 (Some ''b'')]
     (new_scheduler, []))))))"
  by (rule job_ids_distinct) simp

text \<open>The id counter wraps: there is a run of schedule and cancel calls after which two
  active jobs carry the same id, and a cancel of that id removes the job in the lower slot.\<close>

theorem job_ids_collide_after_wrap:
  "\<exists>ops. let s = fst (job_run ops (new_scheduler, ([] :: string list))) in
     job_active (jobs s ! 0) \<and> job_active (jobs s ! 1) \<and>
     job_id (jobs s ! 0) = job_id (jobs s ! 1) \<and>
     job_command (jobs s ! 0) \<noteq> job_command (jobs s ! 1) \<and>
     jobs (snd (cancel (job_id (jobs s ! 1)) s)) ! 1 = jobs s ! 1"
proof -
  let ?ops = "[OpConfigure (Some accept_all), OpInterval 5 0 (Some ''a'')] @
     concat (map (\<lambda>i. [OpOnce 7 (Some ''b''), OpCancel (of_nat i)]) [2..<256]) @
     [OpOnce 7 (Some ''c'')]"
  show ?thesis by (rule exI [of _ ?ops]) code_simp
qed

end
