(* ===== verification/State_Machine.thy ===== *)
theory State_Machine
  imports Prelude
begin

text \<open>
  \<^verbatim>\<open>lib/StateMachine/\<close>: the state enumeration, the pending request, the lock, the ring of
  the last eight transitions, error reporting, and the two entry points \<open>run\<close> and \<open>next\<close>.

  The static members of the class are one record \<open>'w sm\<close>; \<open>'w\<close> is the rest of the robot,
  which the callbacks read and change.  A callback returns the next state or throws
  (\<open>Inl what\<close>).  The registry \<open>arr_states\<close> is a list of ten optional entries and an
  argument of the operations, since only constructors write it.  The tick count and the tick
  period of FreeRTOS are arguments too.
\<close>

section \<open>States\<close>

datatype state_name =
  NONE | SETUP | WAIT | CALIBRATE | DEBUG | RUN | FINISH | TELEMETRY | ERROR | COMM_CONFIG

definition NUMBER_OF_STATES :: nat where "NUMBER_OF_STATES = 10"

fun state_num :: "state_name \<Rightarrow> u8" where
  "state_num NONE = 0" | "state_num SETUP = 1" | "state_num WAIT = 2"
| "state_num CALIBRATE = 3" | "state_num DEBUG = 4" | "state_num RUN = 5"
| "state_num FINISH = 6" | "state_num TELEMETRY = 7" | "state_num ERROR = 8"
| "state_num COMM_CONFIG = 9"

definition all_states :: "state_name list" where
  "all_states = [NONE, SETUP, WAIT, CALIBRATE, DEBUG, RUN, FINISH, TELEMETRY, ERROR, COMM_CONFIG]"

definition verify_state :: "u8 \<Rightarrow> bool" where
  "verify_state s \<longleftrightarrow> s > 0 \<and> unat s < NUMBER_OF_STATES"

definition state_to_string :: "u8 \<Rightarrow> string" where
  "state_to_string s =
     (if s = 0 then ''NONE'' else if s = 1 then ''SETUP'' else if s = 2 then ''WAIT''
      else if s = 3 then ''CALIBRATE'' else if s = 4 then ''DEBUG'' else if s = 5 then ''RUN''
      else if s = 6 then ''FINISH'' else if s = 7 then ''TELEMETRY'' else if s = 8 then ''ERROR''
      else if s = 9 then ''COMM_CONFIG'' else ''UNKNOWN'')"

text \<open>The inner loop: \<open>text\<close> against \<open>name\<close>, the latter upper-cased; both must end together.\<close>

fun same_name :: "string \<Rightarrow> string \<Rightarrow> bool" where
  "same_name [] [] = True"
| "same_name (a # as) (b # bs) = (if a = ascii_upper b then same_name as bs else False)"
| "same_name _ _ = False"

fun find_state :: "u8 list \<Rightarrow> string \<Rightarrow> u8" where
  "find_state [] name = 0"
| "find_state (c # cs) name = (if same_name (state_to_string c) name then c else find_state cs name)"

definition state_from_string :: "string option \<Rightarrow> u8" where
  "state_from_string name =
     (case name of None \<Rightarrow> 0 | Some n \<Rightarrow> find_state [1, 2, 3, 4, 5, 6, 7, 8, 9] n)"

section \<open>The machine\<close>

definition kHistoryDepth :: nat where "kHistoryDepth = 8"

record transition_record =
  tr_from :: u8
  tr_to :: u8
  tr_uptime_ms :: u32

definition zero_record :: transition_record where
  "zero_record = \<lparr>tr_from = 0, tr_to = 0, tr_uptime_ms = 0\<rparr>"

text \<open>The handle of the recursive mutex: not created, or what taking it answers.\<close>

datatype mutex_state = NoMutex | TakeSucceeds | TakeFails

datatype 'w error_callback = DefaultErrorCallback | UserErrorCallback "string \<Rightarrow> 'w \<Rightarrow> 'w"

record 'w sm =
  sm_current :: u8
  sm_requested :: u8
  sm_locked :: bool
  sm_mutex :: mutex_state
  sm_error_cb :: "'w error_callback option"
  sm_history :: "transition_record list"
  sm_head :: nat
  sm_count :: nat
  sm_world :: 'w

record 'w sm_entry =
  entry_action :: "('w sm \<Rightarrow> (string + state_name) \<times> 'w sm) option"
  entry_next :: "(u8 \<Rightarrow> 'w sm \<Rightarrow> (string + state_name) \<times> 'w sm) option"

type_synonym 'w registry = "'w sm_entry option list"

definition new_sm :: "'w \<Rightarrow> 'w sm" where
  "new_sm w = \<lparr>sm_current = 0, sm_requested = 0, sm_locked = False, sm_mutex = NoMutex,
     sm_error_cb = None, sm_history = replicate kHistoryDepth zero_record, sm_head = 0,
     sm_count = 0, sm_world = w\<rparr>"

definition empty_registry :: "'w registry" where
  "empty_registry = replicate NUMBER_OF_STATES None"

text \<open>The constructor: registers the state and creates the mutex once.\<close>

definition construct_state ::
    "mutex_state \<Rightarrow> state_name \<Rightarrow> 'w sm_entry \<Rightarrow> 'w registry \<times> 'w sm \<Rightarrow> 'w registry \<times> 'w sm" where
  "construct_state created st e rs =
     ((fst rs)[unat (state_num st) := Some e],
      if sm_mutex (snd rs) = NoMutex then (snd rs)\<lparr>sm_mutex := created\<rparr> else snd rs)"

definition request_state :: "u8 \<Rightarrow> 'w sm \<Rightarrow> bool \<times> 'w sm" where
  "request_state st s = (if verify_state st then (True, s\<lparr>sm_requested := st\<rparr>) else (False, s))"

definition take_request :: "'w sm \<Rightarrow> u8 \<times> 'w sm" where
  "take_request s = (sm_requested s, s\<lparr>sm_requested := 0\<rparr>)"

definition pending_request :: "'w sm \<Rightarrow> u8" where
  "pending_request s = sm_requested s"

definition set_locked :: "bool \<Rightarrow> 'w sm \<Rightarrow> 'w sm" where
  "set_locked b s = s\<lparr>sm_locked := b\<rparr>"

definition is_locked :: "'w sm \<Rightarrow> bool" where
  "is_locked s = sm_locked s"

definition record_transition :: "u32 \<Rightarrow> u32 \<Rightarrow> u8 \<Rightarrow> u8 \<Rightarrow> 'w sm \<Rightarrow> 'w sm" where
  "record_transition ticks period from to s =
     (if from = to then s
      else s\<lparr>sm_history := (sm_history s)[sm_head s :=
                \<lparr>tr_from = from, tr_to = to, tr_uptime_ms = ticks * period\<rparr>],
             sm_head := (sm_head s + 1) mod kHistoryDepth,
             sm_count := (if sm_count s < kHistoryDepth then sm_count s + 1 else sm_count s)\<rparr>)"

definition history :: "nat \<Rightarrow> 'w sm \<Rightarrow> transition_record list" where
  "history max_records s =
     (if max_records = 0 \<or> sm_mutex s \<noteq> TakeSucceeds then []
      else let wanted = (if max_records < sm_count s then max_records else sm_count s) in
        map (\<lambda>i. sm_history s ! ((sm_head s + kHistoryDepth - 1 - i) mod kHistoryDepth)) [0..<wanted])"

definition set_error_callback :: "(string \<Rightarrow> 'w \<Rightarrow> 'w) option \<Rightarrow> 'w sm \<Rightarrow> 'w sm" where
  "set_error_callback cb s =
     (case cb of
        Some f \<Rightarrow> s\<lparr>sm_error_cb := Some (UserErrorCallback f)\<rparr>
      | None \<Rightarrow> s\<lparr>sm_error_cb := Some DefaultErrorCallback, sm_current := state_num ERROR\<rparr>)"

definition call_error_callback :: "string \<Rightarrow> 'w sm \<Rightarrow> 'w sm" where
  "call_error_callback message s =
     (case sm_error_cb s of
        None \<Rightarrow> s
      | Some DefaultErrorCallback \<Rightarrow> s\<lparr>sm_current := state_num ERROR\<rparr>
      | Some (UserErrorCallback f) \<Rightarrow> s\<lparr>sm_world := f message (sm_world s)\<rparr>)"

definition report_error :: "string \<Rightarrow> 'w sm \<Rightarrow> bool \<times> 'w sm" where
  "report_error message s = (False, (call_error_callback message s)\<lparr>sm_current := state_num ERROR\<rparr>)"

fun verify_entries :: "u8 list \<Rightarrow> 'w registry \<Rightarrow> string option" where
  "verify_entries [] reg = None"
| "verify_entries (i # is) reg =
     (case reg ! unat i of
        None \<Rightarrow> Some ''StateMachine instance is missing''
      | Some e \<Rightarrow>
          if Option.is_none (entry_action e)
          then Some (''StateMachine action callback is missing in '' @ state_to_string i)
          else if Option.is_none (entry_next e)
          then Some (''StateMachine next_state callback is missing in '' @ state_to_string i)
          else verify_entries is reg)"

definition verify_callbacks :: "'w registry \<Rightarrow> 'w sm \<Rightarrow> bool \<times> 'w sm" where
  "verify_callbacks reg s =
     (if sm_mutex s = TakeFails then report_error ''Failed to lock transition mutex'' s
      else case verify_entries [1, 2, 3, 4, 5, 6, 7, 8, 9] reg of
        Some message \<Rightarrow> report_error message s
      | None \<Rightarrow> (True, s))"

definition sm_run :: "'w registry \<Rightarrow> u32 \<Rightarrow> u32 \<Rightarrow> 'w sm \<Rightarrow> bool \<times> 'w sm" where
  "sm_run reg ticks period s =
     (case sm_mutex s of
        NoMutex \<Rightarrow> report_error ''Transition mutex not initialized'' s
      | TakeFails \<Rightarrow> report_error ''Failed to lock transition mutex'' s
      | TakeSucceeds \<Rightarrow>
          let active = sm_current s in
          if \<not> verify_state active then report_error ''State is not valid'' s
          else case Option.bind (reg ! unat active) entry_action of
            None \<Rightarrow> report_error ''State action callback is not defined'' s
          | Some action \<Rightarrow>
              (case action s of
                 (Inr st, s') \<Rightarrow>
                   (True, record_transition ticks period active (state_num st)
                            (s'\<lparr>sm_current := state_num st\<rparr>))
               | (Inl what, s') \<Rightarrow>
                   report_error what
                     (snd (report_error ''Error in the loop function state machine'' s'))))"

definition sm_next :: "'w registry \<Rightarrow> u32 \<Rightarrow> u32 \<Rightarrow> u8 \<Rightarrow> 'w sm \<Rightarrow> bool \<times> 'w sm" where
  "sm_next reg ticks period buttons s =
     (case sm_mutex s of
        NoMutex \<Rightarrow> report_error ''Transition mutex not initialized'' s
      | TakeFails \<Rightarrow> report_error ''Failed to lock transition mutex'' s
      | TakeSucceeds \<Rightarrow>
          let active = sm_current s in
          if \<not> verify_state active then report_error ''State is not valid'' s
          else case Option.bind (reg ! unat active) entry_next of
            None \<Rightarrow> report_error ''State next_state callback is not defined'' s
          | Some next_state \<Rightarrow>
              (case next_state buttons s of
                 (Inr st, s') \<Rightarrow>
                   (True, record_transition ticks period active (state_num st)
                            (s'\<lparr>sm_current := state_num st\<rparr>))
               | (Inl what, s') \<Rightarrow>
                   report_error what
                     (snd (report_error ''Error in the next function state machine'' s'))))"

section \<open>Names of states\<close>

lemma state_num_range: "unat (state_num st) < NUMBER_OF_STATES"
  by (cases st) (simp_all add: NUMBER_OF_STATES_def)

lemma state_num_inj [simp]: "state_num a = state_num b \<longleftrightarrow> a = b"
  by (cases a; cases b) simp_all

lemma verify_state_num [simp]: "verify_state (state_num st) \<longleftrightarrow> st \<noteq> NONE"
  by (cases st) (simp_all add: verify_state_def NUMBER_OF_STATES_def)

lemma verify_state_cases:
  assumes "verify_state s"
  obtains st where "s = state_num st" "st \<noteq> NONE"
proof -
  have "unat s \<noteq> 0" using assms by (auto simp: verify_state_def word_less_nat_alt)
  moreover have "unat s < 10" using assms by (simp add: verify_state_def NUMBER_OF_STATES_def)
  ultimately have "unat s \<in> {1,2,3,4,5,6,7,8,9}" by auto
  then have "s \<in> {1,2,3,4,5,6,7,8,9}"
    by (auto simp: word_unat_eq_iff)
  then show ?thesis
    using that [of SETUP] that [of WAIT] that [of CALIBRATE] that [of DEBUG] that [of RUN]
      that [of FINISH] that [of TELEMETRY] that [of ERROR] that [of COMM_CONFIG] by auto
qed

lemma same_name_iff: "same_name xs ys \<longleftrightarrow> xs = map ascii_upper ys"
  by (induction xs ys rule: same_name.induct) auto

lemma find_state_iff:
  assumes "distinct cs" and "distinct (map state_to_string cs)" and "0 \<notin> set cs" and "c \<in> set cs"
  shows "find_state cs n = c \<longleftrightarrow> state_to_string c = map ascii_upper n"
  using assms
proof (induction cs)
  case Nil
  then show ?case by simp
next
  case (Cons d cs)
  show ?case
  proof (cases "d = c")
    case True
    have "find_state cs n \<noteq> c \<or> same_name (state_to_string c) n"
    proof -
      have "find_state cs n \<in> set cs \<union> {0}" by (induction cs) auto
      then show ?thesis using Cons.prems True by auto
    qed
    with True show ?thesis by (auto simp: same_name_iff)
  next
    case False
    then have "c \<in> set cs" using Cons.prems(4) by simp
    with Cons have "find_state cs n = c \<longleftrightarrow> state_to_string c = map ascii_upper n" by simp
    moreover have "state_to_string d \<noteq> state_to_string c"
      using Cons.prems(2) \<open>c \<in> set cs\<close> by auto
    ultimately show ?thesis using False by (auto simp: same_name_iff)
  qed
qed

lemma state_codes: "distinct (map state_to_string [1, 2, 3, 4, 5, 6, 7, 8, 9])"
  by (simp add: state_to_string_def)

section \<open>The history ring\<close>

definition history_ok :: "'w sm \<Rightarrow> bool" where
  "history_ok s \<longleftrightarrow> length (sm_history s) = kHistoryDepth \<and> sm_head s < kHistoryDepth \<and>
     sm_count s \<le> kHistoryDepth"

text \<open>The abstract history: every retained transition, newest first.\<close>

definition history_view :: "'w sm \<Rightarrow> transition_record list" where
  "history_view s =
     map (\<lambda>i. sm_history s ! ((sm_head s + kHistoryDepth - 1 - i) mod kHistoryDepth)) [0..<sm_count s]"

lemma history_ok_new [inv_intros]: "history_ok (new_sm w)"
  by (simp add: history_ok_def new_sm_def kHistoryDepth_def)

lemma history_ok_record [inv_intros]:
  "history_ok s \<Longrightarrow> history_ok (record_transition ticks period from to s)"
  by (auto simp: history_ok_def record_transition_def kHistoryDepth_def)

lemma history_take:
  "sm_mutex s = TakeSucceeds \<Longrightarrow> history n s = take n (history_view s)"
  by (simp add: history_def history_view_def take_map min_def)

lemma ring_slot_new:
  fixes h :: nat
  assumes "h < 8"
  shows "((h + 1) mod 8 + 8 - 1 - 0) mod 8 = h"
  using assms by (cases "h = 7") auto

lemma ring_slot_old:
  fixes h i :: nat
  assumes "h < 8" and "i < 7"
  shows "((h + 1) mod 8 + 8 - 1 - Suc i) mod 8 = (h + 8 - 1 - i) mod 8"
    and "(h + 8 - 1 - i) mod 8 \<noteq> h"
proof -
  have "h \<in> {0,1,2,3,4,5,6,7}" and "i \<in> {0,1,2,3,4,5,6}" using assms by auto
  then show "((h + 1) mod 8 + 8 - 1 - Suc i) mod 8 = (h + 8 - 1 - i) mod 8"
    and "(h + 8 - 1 - i) mod 8 \<noteq> h" by auto
qed

lemma history_view_record:
  assumes "history_ok s"
  shows "history_view (record_transition ticks period from to s) =
    (if from = to then history_view s
     else take kHistoryDepth (\<lparr>tr_from = from, tr_to = to, tr_uptime_ms = ticks * period\<rparr> #
            history_view s))"
proof (cases "from = to")
  case True
  then show ?thesis by (simp add: record_transition_def)
next
  case False
  let ?r = "\<lparr>tr_from = from, tr_to = to, tr_uptime_ms = ticks * period\<rparr>"
  let ?s = "record_transition ticks period from to s"
  let ?h = "sm_head s" and ?n = "if sm_count s < 8 then sm_count s + 1 else sm_count s"
  have ok: "length (sm_history s) = 8" "?h < 8" "sm_count s \<le> 8"
    using assms by (simp_all add: history_ok_def kHistoryDepth_def)
  have new: "sm_history ?s = (sm_history s)[?h := ?r]" "sm_head ?s = (?h + 1) mod 8"
    "sm_count ?s = ?n"
    using False by (simp_all add: record_transition_def kHistoryDepth_def)
  have "history_view ?s = take 8 (?r # history_view s)"
  proof (rule nth_equalityI)
    show "length (history_view ?s) = length (take 8 (?r # history_view s))"
      unfolding history_view_def new(3) using ok(3) by (auto simp: min_def)
  next
    fix i assume "i < length (history_view ?s)"
    then have i: "i < ?n" by (simp add: history_view_def new(3))
    show "history_view ?s ! i = take 8 (?r # history_view s) ! i"
    proof (cases i)
      case 0
      then show ?thesis
        using i ok ring_slot_new [OF ok(2)] by (simp add: history_view_def new kHistoryDepth_def)
    next
      case (Suc k)
      then have k: "k < 7" "k < sm_count s" using i ok(3) by (auto split: if_splits)
      show ?thesis
        using i k ok ring_slot_old [OF ok(2) k(1)] Suc
        by (simp add: history_view_def new kHistoryDepth_def)
    qed
  qed
  then show ?thesis using False by (simp add: kHistoryDepth_def)
qed

section \<open>Errors\<close>

lemma report_error_simps [simp, frame_simps]:
  "fst (report_error m s) = False"
  "sm_current (snd (report_error m s)) = state_num ERROR"
  "sm_history (snd (report_error m s)) = sm_history s"
  "sm_head (snd (report_error m s)) = sm_head s"
  "sm_count (snd (report_error m s)) = sm_count s"
  "sm_mutex (snd (report_error m s)) = sm_mutex s"
  "sm_locked (snd (report_error m s)) = sm_locked s"
  "sm_requested (snd (report_error m s)) = sm_requested s"
  by (auto simp: report_error_def call_error_callback_def split: option.split error_callback.split)

lemma history_view_report [simp]: "history_view (snd (report_error m s)) = history_view s"
  by (simp add: history_view_def)

lemma record_transition_simps [simp, frame_simps]:
  "sm_current (record_transition t p a b s) = sm_current s"
  "sm_mutex (record_transition t p a b s) = sm_mutex s"
  "sm_locked (record_transition t p a b s) = sm_locked s"
  "sm_requested (record_transition t p a b s) = sm_requested s"
  "sm_world (record_transition t p a b s) = sm_world s"
  "sm_error_cb (record_transition t p a b s) = sm_error_cb s"
  by (simp_all add: record_transition_def)

lemma sm_run_fails: "\<not> fst (sm_run reg t p s) \<Longrightarrow> sm_current (snd (sm_run reg t p s)) = state_num ERROR"
  by (auto simp: sm_run_def Let_def split: mutex_state.splits option.splits prod.splits sum.splits)

lemma sm_next_fails:
  "\<not> fst (sm_next reg t p b s) \<Longrightarrow> sm_current (snd (sm_next reg t p b s)) = state_num ERROR"
  by (auto simp: sm_next_def Let_def split: mutex_state.splits option.splits prod.splits sum.splits)

section \<open>Properties\<close>

text \<open>State names round-trip, in any letter case: reading a name gives the state numbered
  \<open>st\<close> exactly when the name, upper-cased, is the text printed for it. In particular the
  printed name reads back as the state itself.\<close>

theorem state_name_roundtrip:
  assumes "st \<noteq> NONE"
  shows "(state_from_string (Some n) = state_num st \<longleftrightarrow>
            map ascii_upper n = state_to_string (state_num st)) \<and>
         state_from_string (Some (state_to_string (state_num st))) = state_num st"
proof -
  have "state_num st \<in> set [1, 2, 3, 4, 5, 6, 7, 8, 9]" using assms by (cases st) simp_all
  then have iff: "state_from_string (Some n) = state_num st \<longleftrightarrow>
      state_to_string (state_num st) = map ascii_upper n" for n
    unfolding state_from_string_def option.case
    by (intro find_state_iff state_codes) simp_all
  have "map ascii_upper (state_to_string (state_num st)) = state_to_string (state_num st)"
    by (cases st) (simp_all add: state_to_string_def ascii_upper_def)
  with iff show ?thesis by (metis (no_types))
qed

theorem state_name_roundtrip_witness:
  "state_from_string (Some ''Telemetry'') = state_num TELEMETRY"
proof -
  have "map ascii_upper ''Telemetry'' = state_to_string (state_num TELEMETRY)" by code_simp
  then show ?thesis using state_name_roundtrip [of TELEMETRY "''Telemetry''"] by blast
qed

text \<open>The transition history is the newest-first list of the last eight transitions: recording
  a change of state puts it in front and drops the ninth, a state returning itself leaves no
  record, and reading n entries gives the n newest.\<close>

theorem history_keeps_last_eight:
  assumes "history_ok s" and "sm_mutex s = TakeSucceeds"
  shows "history n (record_transition ticks period from to s) =
    (if from = to then history n s
     else take n (take kHistoryDepth
       (\<lparr>tr_from = from, tr_to = to, tr_uptime_ms = ticks * period\<rparr> # history_view s)))"
  using assms by (simp add: history_take history_view_record)

theorem history_keeps_last_eight_witness:
  "history 2 (record_transition 7 10 2 5 (record_transition 3 10 1 2
      ((new_sm ())\<lparr>sm_mutex := TakeSucceeds\<rparr>))) =
   [\<lparr>tr_from = 2, tr_to = 5, tr_uptime_ms = 70\<rparr>, \<lparr>tr_from = 1, tr_to = 2, tr_uptime_ms = 30\<rparr>]"
proof -
  let ?s0 = "(new_sm ())\<lparr>sm_mutex := TakeSucceeds\<rparr>"
  have ok0: "history_ok ?s0" by (simp add: history_ok_def new_sm_def kHistoryDepth_def)
  have ok: "history_ok (record_transition 3 10 1 2 ?s0)"
    and mutex: "sm_mutex (record_transition 3 10 1 2 ?s0) = TakeSucceeds"
    using ok0 by (simp_all add: history_ok_record)
  have empty: "history_view ?s0 = []" by (simp add: history_view_def new_sm_def)
  show ?thesis
    by (subst history_keeps_last_eight [OF ok mutex])
       (simp add: history_view_record [OF ok0] empty kHistoryDepth_def)
qed

text \<open>Every failure ends in ERROR: when \<open>run\<close> or \<open>next\<close> answers false, for whatever reason
  (no mutex, an invalid current state, a missing callback, a callback that throws), the machine
  is in the ERROR state, whatever the error callback did.\<close>

theorem failure_means_error_state:
  "(\<not> fst (sm_run reg ticks period s) \<longrightarrow> sm_current (snd (sm_run reg ticks period s)) = state_num ERROR) \<and>
   (\<not> fst (sm_next reg ticks period b s) \<longrightarrow>
      sm_current (snd (sm_next reg ticks period b s)) = state_num ERROR)"
  using sm_run_fails sm_next_fails by blast

theorem failure_means_error_state_witness:
  "sm_current (snd (sm_run empty_registry 0 1 (new_sm ()))) = state_num ERROR"
  using failure_means_error_state [of empty_registry 0 1 "new_sm ()" 0]
  by (simp add: sm_run_def new_sm_def)

text \<open>A transition to ERROR forced by a failure leaves no trace: when an action throws, \<open>run\<close>
  leaves the machine in ERROR although it was in another state, and the history it reads out is
  the one from before.\<close>

theorem failure_not_in_history:
  assumes "sm_mutex s = TakeSucceeds" and "sm_current s = state_num st" and "st \<notin> {NONE, ERROR}"
    and "reg ! unat (state_num st) = Some e" and "entry_action e = Some action"
    and "action s = (Inl what, s)"
  shows "\<not> fst (sm_run reg ticks period s) \<and>
    sm_current (snd (sm_run reg ticks period s)) = state_num ERROR \<and>
    sm_current s \<noteq> state_num ERROR \<and>
    history n (snd (sm_run reg ticks period s)) = history n s"
  using assms by (cases st) (auto simp: sm_run_def history_take)

theorem failure_not_in_history_witness:
  "history 8 (snd (sm_run [None, None, Some \<lparr>entry_action = Some (\<lambda>s. (Inl ''boom'', s)), entry_next = None\<rparr>]
      5 1 ((new_sm ())\<lparr>sm_mutex := TakeSucceeds, sm_current := state_num WAIT\<rparr>))) =
   history 8 ((new_sm ())\<lparr>sm_mutex := TakeSucceeds, sm_current := state_num WAIT\<rparr>)"
  using failure_not_in_history
    [of "(new_sm ())\<lparr>sm_mutex := TakeSucceeds, sm_current := state_num WAIT\<rparr>" WAIT
        "[None, None, Some \<lparr>entry_action = Some (\<lambda>s. (Inl ''boom'', s)), entry_next = None\<rparr>]"
        "\<lparr>entry_action = Some (\<lambda>s. (Inl ''boom'', s)), entry_next = None\<rparr>"
        "\<lambda>s. (Inl ''boom'', s)" "''boom''" 5 1 8]
  by simp

end
