(* ===== verification/Comm_Config.thy ===== *)
theory Comm_Config
  imports State_Machine
begin

text \<open>
  \<open>ROBOT::commConfigTick\<close> (\<^verbatim>\<open>utils/BallyRobot/BallyRobot.cpp\<close>): the menu of the COMM_CONFIG
  state.  Button 1 and 2 walk through the four communication modes, button 0 confirms, saves and
  schedules a restart, and thirty seconds without a press schedule one without saving.

  The \<open>comm_config_*\<close> members are one record.  The log, the LEDs, the settings store and the
  restart timer are the fields of \<open>'w cc_ops\<close>, functions over the rest of the robot; the levels
  of the three pins and the clock are read once per tick and are arguments.
\<close>

section \<open>State and services\<close>

record comm_config =
  cc_active :: bool
  cc_restart_scheduled :: bool
  cc_selected :: u8
  cc_last_activity_ms :: u32
  cc_btn0_was_low :: bool
  cc_btn1_was_low :: bool
  cc_btn2_was_low :: bool
  cc_last_btn0_edge_ms :: u32
  cc_last_btn1_edge_ms :: u32
  cc_last_btn2_edge_ms :: u32

definition new_comm_config :: comm_config where
  "new_comm_config = \<lparr>cc_active = False, cc_restart_scheduled = False, cc_selected = 0,
     cc_last_activity_ms = 0, cc_btn0_was_low = False, cc_btn1_was_low = False,
     cc_btn2_was_low = False, cc_last_btn0_edge_ms = 0, cc_last_btn1_edge_ms = 0,
     cc_last_btn2_edge_ms = 0\<rparr>"

record 'w cc_ops =
  co_log :: "log_type \<Rightarrow> string \<Rightarrow> 'w \<Rightarrow> 'w"
  co_led :: "u8 \<Rightarrow> u32 \<Rightarrow> 'w \<Rightarrow> 'w"
  co_set :: "string \<Rightarrow> string \<Rightarrow> string \<Rightarrow> 'w \<Rightarrow> bool \<times> 'w"
  co_save :: "'w \<Rightarrow> bool \<times> 'w"
  co_restart :: "'w \<Rightarrow> 'w"

definition kCommConfigDebounceMs :: u32 where "kCommConfigDebounceMs = 200"
definition kCommConfigInactivityTimeoutMs :: u32 where "kCommConfigInactivityTimeoutMs = 30000"
definition kCommConfigLedHoldMs :: u32 where "kCommConfigLedHoldMs = 200"

text \<open>\<open>LED_BLUE\<close> is 0, \<open>LED_GREEN\<close> 1, \<open>LED_YELLOW\<close> 2 and \<open>LED_RED\<close> 3 (\<^verbatim>\<open>include/Settings.h\<close>).\<close>

definition kCommConfigLedForOption :: "u8 list" where
  "kCommConfigLedForOption = [0, 1, 2, 3]"

section \<open>The menu\<close>

definition debounced_press :: "bool \<Rightarrow> bool \<Rightarrow> u32 \<Rightarrow> u32 \<Rightarrow> bool" where
  "debounced_press low was_low last_edge_ms now_ms \<longleftrightarrow>
     low \<and> \<not> was_low \<and> now_ms - last_edge_ms \<ge> kCommConfigDebounceMs"

text \<open>The one-time setup of the first tick after boot.\<close>

definition cc_enter ::
    "'w cc_ops \<Rightarrow> u8 \<Rightarrow> bool \<times> bool \<times> bool \<Rightarrow> u32 \<Rightarrow> comm_config \<times> 'w \<Rightarrow> comm_config \<times> 'w" where
  "cc_enter ops comm_mode low now cw =
     (case (low, cw) of ((low0, low1, low2), (c, w)) \<Rightarrow>
        if cc_active c then (c, w)
        else
          let sel = (if comm_mode \<le> 3 then comm_mode else 0) in
          (c\<lparr>cc_active := True, cc_restart_scheduled := False, cc_selected := sel,
             cc_last_activity_ms := now, cc_btn0_was_low := low0, cc_btn1_was_low := low1,
             cc_btn2_was_low := low2\<rparr>,
           co_log ops INFO (''COMM_CONFIG: entered (btn1=next btn2=prev btn0=confirm), '' @
             ''current comm_mode='' @ show_dec (unat sel)) w))"

definition cc_next_button :: "'w cc_ops \<Rightarrow> bool \<Rightarrow> u32 \<Rightarrow> comm_config \<times> 'w \<Rightarrow> bool \<times> comm_config \<times> 'w" where
  "cc_next_button ops low now cw =
     (case cw of (c, w) \<Rightarrow>
        if debounced_press low (cc_btn1_was_low c) (cc_last_btn1_edge_ms c) now then
          let sel = word_of_nat ((unat (cc_selected c) + 1) mod 4) in
          (True,
           c\<lparr>cc_selected := sel, cc_btn1_was_low := low, cc_last_btn1_edge_ms := now\<rparr>,
           co_log ops INFO (''COMM_CONFIG: next -> '' @ show_dec (unat sel)) w)
        else (False, c\<lparr>cc_btn1_was_low := low\<rparr>, w))"

definition cc_prev_button :: "'w cc_ops \<Rightarrow> bool \<Rightarrow> u32 \<Rightarrow> comm_config \<times> 'w \<Rightarrow> bool \<times> comm_config \<times> 'w" where
  "cc_prev_button ops low now cw =
     (case cw of (c, w) \<Rightarrow>
        if debounced_press low (cc_btn2_was_low c) (cc_last_btn2_edge_ms c) now then
          let sel = word_of_nat ((unat (cc_selected c) + 3) mod 4) in
          (True,
           c\<lparr>cc_selected := sel, cc_btn2_was_low := low, cc_last_btn2_edge_ms := now\<rparr>,
           co_log ops INFO (''COMM_CONFIG: prev -> '' @ show_dec (unat sel)) w)
        else (False, c\<lparr>cc_btn2_was_low := low\<rparr>, w))"

text \<open>The confirmation: \<open>set && save\<close> does not call \<open>save\<close> when \<open>set\<close> refuses.\<close>

definition cc_confirm :: "'w cc_ops \<Rightarrow> u8 \<Rightarrow> 'w \<Rightarrow> 'w" where
  "cc_confirm ops sel w =
     (case co_set ops ''comm'' ''comm_mode'' (show_dec (unat sel)) w of (set_ok, w1) \<Rightarrow>
        case (if set_ok then co_save ops w1 else (False, w1)) of (saved, w2) \<Rightarrow>
          co_restart ops
            (co_log ops INFO (''COMM_CONFIG: confirmed comm_mode='' @ show_dec (unat sel) @
               '' set='' @ show_dec (if set_ok then 1 else 0) @
               '' saved='' @ show_dec (if saved then 1 else 0) @ '', rebooting to apply'') w2))"

definition cc_timeout :: "'w cc_ops \<Rightarrow> 'w \<Rightarrow> 'w" where
  "cc_timeout ops w =
     co_restart ops (co_log ops WARN ''COMM_CONFIG: inactivity timeout, rebooting without saving'' w)"

definition comm_config_tick ::
    "'w cc_ops \<Rightarrow> u8 \<Rightarrow> bool \<times> bool \<times> bool \<Rightarrow> u32 \<Rightarrow> comm_config \<times> 'w \<Rightarrow> state_name \<times> comm_config \<times> 'w" where
  "comm_config_tick ops comm_mode low now cw =
     (case low of (low0, low1, low2) \<Rightarrow>
      case cc_enter ops comm_mode low now cw of (c0, w0) \<Rightarrow>
        let w = co_led ops (kCommConfigLedForOption ! unat (cc_selected c0)) kCommConfigLedHoldMs w0 in
        if cc_restart_scheduled c0 then (COMM_CONFIG, c0, w)
        else case cc_next_button ops low1 now (c0, w) of (next_pressed, cw1) \<Rightarrow>
          case cc_prev_button ops low2 now cw1 of (prev_pressed, c2, w2) \<Rightarrow>
            if debounced_press low0 (cc_btn0_was_low c2) (cc_last_btn0_edge_ms c2) now then
              (COMM_CONFIG,
               c2\<lparr>cc_restart_scheduled := True, cc_btn0_was_low := low0, cc_last_btn0_edge_ms := now\<rparr>,
               cc_confirm ops (cc_selected c2) w2)
            else
              let c3 = c2\<lparr>cc_btn0_was_low := low0\<rparr> in
              if next_pressed \<or> prev_pressed then
                (COMM_CONFIG, c3\<lparr>cc_last_activity_ms := now\<rparr>, w2)
              else if now - cc_last_activity_ms c3 \<ge> kCommConfigInactivityTimeoutMs then
                (COMM_CONFIG, c3\<lparr>cc_restart_scheduled := True\<rparr>, cc_timeout ops w2)
              else (COMM_CONFIG, c3, w2))"

text \<open>A run of ticks: what the state machine does while it stays in COMM_CONFIG.\<close>

type_synonym cc_input = "u8 \<times> (bool \<times> bool \<times> bool) \<times> u32"

definition cc_step :: "'w cc_ops \<Rightarrow> cc_input \<Rightarrow> comm_config \<times> 'w \<Rightarrow> comm_config \<times> 'w" where
  "cc_step ops i cw = (case i of (mode, low, now) \<Rightarrow> snd (comm_config_tick ops mode low now cw))"

definition cc_run :: "'w cc_ops \<Rightarrow> cc_input list \<Rightarrow> comm_config \<times> 'w \<Rightarrow> comm_config \<times> 'w" where
  "cc_run ops is cw = fold (cc_step ops) is cw"

section \<open>The invariant: one of four options\<close>

definition cc_ok :: "comm_config \<Rightarrow> bool" where
  "cc_ok c \<longleftrightarrow> unat (cc_selected c) < 4"

lemmas cc_defs = comm_config_tick_def cc_enter_def cc_next_button_def cc_prev_button_def Let_def

lemma small_word [simp]: "n < 4 \<Longrightarrow> unat (word_of_nat n :: u8) = n"
  by (simp add: unat_of_nat)

lemma u8_le_3 [simp]: "(m :: u8) \<le> 3 \<longleftrightarrow> unat m < 4"
  by (auto simp: word_le_nat_alt)

lemma cc_ok_new [inv_intros]: "cc_ok new_comm_config"
  by (simp add: cc_ok_def new_comm_config_def)

lemma cc_ok_enter [inv_intros]: "cc_ok c \<Longrightarrow> cc_ok (fst (cc_enter ops m low now (c, w)))"
  by (auto simp: cc_enter_def cc_ok_def Let_def split: prod.split)

lemma cc_ok_next [inv_intros]: "cc_ok c \<Longrightarrow> cc_ok (fst (snd (cc_next_button ops low now (c, w))))"
  by (auto simp: cc_next_button_def cc_ok_def Let_def)

lemma cc_ok_prev [inv_intros]: "cc_ok c \<Longrightarrow> cc_ok (fst (snd (cc_prev_button ops low now (c, w))))"
  by (auto simp: cc_prev_button_def cc_ok_def Let_def)

lemma cc_ok_upd [simp]:
  "cc_ok (c\<lparr>cc_restart_scheduled := r\<rparr>) = cc_ok c" "cc_ok (c\<lparr>cc_btn0_was_low := b\<rparr>) = cc_ok c"
  "cc_ok (c\<lparr>cc_last_btn0_edge_ms := t\<rparr>) = cc_ok c" "cc_ok (c\<lparr>cc_last_activity_ms := t\<rparr>) = cc_ok c"
  by (simp_all add: cc_ok_def)

lemma cc_ok_tick [inv_intros]:
  assumes "cc_ok c"
  shows "cc_ok (fst (snd (comm_config_tick ops m low now (c, w))))"
proof -
  obtain low0 low1 low2 where low: "low = (low0, low1, low2)" by (cases low) auto
  obtain c0 w0 where e: "cc_enter ops m low now (c, w) = (c0, w0)" by fastforce
  let ?w = "co_led ops (kCommConfigLedForOption ! unat (cc_selected c0)) kCommConfigLedHoldMs w0"
  obtain b1 c1 w1 where n: "cc_next_button ops low1 now (c0, ?w) = (b1, c1, w1)" by (metis prod_cases3)
  obtain b2 c2 w2 where p: "cc_prev_button ops low2 now (c1, w1) = (b2, c2, w2)" by (metis prod_cases3)
  have c0: "cc_ok c0" using cc_ok_enter [OF assms, of ops m low now w] e by simp
  have c1: "cc_ok c1" using cc_ok_next [OF c0, of ops low1 now ?w] n by simp
  have c2: "cc_ok c2" using cc_ok_prev [OF c1, of ops low2 now w1] p by simp
  show ?thesis using c0 c2 e n p low by (simp add: comm_config_tick_def Let_def)
qed

lemma tick_returns_comm_config: "fst (comm_config_tick ops m low now cw) = COMM_CONFIG"
  by (simp add: comm_config_tick_def Let_def split: prod.split)

lemma cc_ok_run: "cc_ok (fst cw) \<Longrightarrow> cc_ok (fst (cc_run ops is cw))"
proof (induction "is" arbitrary: cw)
  case Nil
  then show ?case by (simp add: cc_run_def)
next
  case (Cons i "is")
  obtain mode low now where i: "i = (mode, low, now)" by (cases i) auto
  have "cc_ok (fst (cc_step ops i cw))"
    using Cons.prems cc_ok_tick [of "fst cw" ops mode low now "snd cw"] i
    by (simp add: cc_step_def)
  with Cons.IH show ?case by (simp add: cc_run_def)
qed

lemma cc_frozen_step:
  assumes "cc_active c" and "cc_restart_scheduled c"
  shows "cc_step ops i (c, w) =
    (c, co_led ops (kCommConfigLedForOption ! unat (cc_selected c)) kCommConfigLedHoldMs w)"
  using assms
  by (simp add: cc_step_def comm_config_tick_def cc_enter_def Let_def split: prod.split)

section \<open>Properties\<close>

text \<open>One restart, and nothing after it: once a restart is scheduled (by the confirmation or by
  the timeout), every further tick, whatever the buttons and the clock do, only refreshes the LED
  of the selected option. So nothing is saved and no restart is scheduled a second time.\<close>

theorem comm_config_restarts_once:
  assumes "cc_active c" and "cc_restart_scheduled c"
  shows "cc_run ops is (c, w) =
    (c, (co_led ops (kCommConfigLedForOption ! unat (cc_selected c)) kCommConfigLedHoldMs
          ^^ length is) w)"
proof (induction "is" arbitrary: w)
  case Nil
  then show ?case by (simp add: cc_run_def)
next
  case (Cons i "is")
  have "cc_run ops (i # is) (c, w) = cc_run ops is (cc_step ops i (c, w))"
    by (simp add: cc_run_def)
  also have "\<dots> = (c, (co_led ops (kCommConfigLedForOption ! unat (cc_selected c)) kCommConfigLedHoldMs
      ^^ length is) (co_led ops (kCommConfigLedForOption ! unat (cc_selected c)) kCommConfigLedHoldMs w))"
    by (simp add: cc_frozen_step [OF assms] Cons.IH)
  finally show ?case by (simp add: funpow_swap1)
qed

definition cc_demo_ops :: "string list cc_ops" where
  "cc_demo_ops = \<lparr>co_log = (\<lambda>t m w. w), co_led = (\<lambda>i t w. w @ [''led'']),
     co_set = (\<lambda>a b v w. (True, w @ [v])), co_save = (\<lambda>w. (True, w @ [''save''])),
     co_restart = (\<lambda>w. w @ [''restart''])\<rparr>"

definition cc_pressed :: "comm_config \<times> string list" where
  "cc_pressed = cc_run cc_demo_ops
     [(0, (False, False, False), 1000), (0, (False, True, False), 2000),
      (0, (True, False, False), 3000)] (new_comm_config, [])"

theorem comm_config_restarts_once_witness:
  "snd cc_pressed = [''led'', ''led'', ''led'', ''1'', ''save'', ''restart''] \<and>
   cc_run cc_demo_ops [(0, (True, True, True), 9000), (0, (False, False, False), 90000)] cc_pressed =
   (fst cc_pressed, snd cc_pressed @ [''led'', ''led''])"
proof -
  have active: "cc_active (fst cc_pressed)" and sched: "cc_restart_scheduled (fst cc_pressed)"
    and tr: "snd cc_pressed = [''led'', ''led'', ''led'', ''1'', ''save'', ''restart'']"
    by code_simp+
  obtain c w where cw: "cc_pressed = (c, w)" by (cases cc_pressed)
  have led: "co_led cc_demo_ops i t x = x @ [''led'']" for i t x by (simp add: cc_demo_ops_def)
  show ?thesis
    using comm_config_restarts_once [OF active sched, of cc_demo_ops
        "[(0, (True, True, True), 9000), (0, (False, False, False), 90000)]" "snd cc_pressed"] tr
    by (simp add: cw led)
qed

text \<open>The menu only ever shows one of its four options, and its LED table is never read out of
  bounds: from the state at boot, after any sequence of ticks with any buttons, clock values and
  stored communication modes, the selected option is below four.\<close>

theorem comm_config_option_in_range:
  "unat (cc_selected (fst (cc_run ops is (new_comm_config, w)))) < length kCommConfigLedForOption"
  using cc_ok_run [of "(new_comm_config, w)" ops "is"] cc_ok_new
  by (simp add: cc_ok_def kCommConfigLedForOption_def)

end
