(* ===== verification/States_Manager.thy ===== *)
theory States_Manager
  imports State_Machine Comm_Config
begin

text \<open>
  \<^verbatim>\<open>src/robot/\<close>: the transition policy.  \<open>transitionTable\<close>, \<open>process_transition\<close>, the nine
  state functions, the registration of the states, and the \<open>state\<close> shell module.

  What the policy uses of the robot (\<^verbatim>\<open>utils/BallyRobot/\<close>) is the record \<open>'r robot_ops\<close>, one
  field per member function called; \<open>'r\<close> is the robot.  The build defines \<open>LOG_ALL\<close>
  (\<^verbatim>\<open>platformio.ini\<close>), so the conditional log calls are part of the model.
\<close>

section \<open>The robot as the policy sees it\<close>

record 'r robot_ops =
  ro_log :: "log_type \<Rightarrow> string \<Rightarrow> 'r \<Rightarrow> 'r"
  ro_usb_active :: "'r \<Rightarrow> bool"
  ro_ota_flashing :: "'r \<Rightarrow> bool"
  ro_cancel_debug_tests :: "'r \<Rightarrow> 'r"
  ro_calibrate :: "'r \<Rightarrow> bool \<times> 'r"
  ro_calibrate_status :: "'r \<Rightarrow> string"
  ro_process_debug :: "'r \<Rightarrow> 'r"
  ro_flush_to_sd :: "'r \<Rightarrow> (bool \<times> string) \<times> 'r"
  ro_stop_motors :: "'r \<Rightarrow> 'r"
  ro_blink_error_leds :: "'r \<Rightarrow> 'r"
  ro_comm_config_tick :: "'r \<Rightarrow> state_name \<times> 'r"

definition on_robot :: "('r \<Rightarrow> 'r) \<Rightarrow> 'r sm \<Rightarrow> 'r sm" where
  "on_robot f s = s\<lparr>sm_world := f (sm_world s)\<rparr>"

definition log_line :: "'r robot_ops \<Rightarrow> log_type \<Rightarrow> string \<Rightarrow> 'r sm \<Rightarrow> 'r sm" where
  "log_line ops t msg s = on_robot (ro_log ops t msg) s"

section \<open>The transition table\<close>

record transition =
  tt_current :: state_name
  tt_mask :: u8
  tt_next :: state_name

definition transition_table :: "transition list" where
  "transition_table =
    [\<lparr>tt_current = WAIT, tt_mask = 1, tt_next = RUN\<rparr>,
     \<lparr>tt_current = WAIT, tt_mask = 2, tt_next = CALIBRATE\<rparr>,
     \<lparr>tt_current = WAIT, tt_mask = 4, tt_next = DEBUG\<rparr>,
     \<lparr>tt_current = RUN, tt_mask = 1, tt_next = FINISH\<rparr>,
     \<lparr>tt_current = DEBUG, tt_mask = 1, tt_next = FINISH\<rparr>,
     \<lparr>tt_current = FINISH, tt_mask = 2, tt_next = TELEMETRY\<rparr>,
     \<lparr>tt_current = FINISH, tt_mask = 1, tt_next = WAIT\<rparr>,
     \<lparr>tt_current = ERROR, tt_mask = 7, tt_next = TELEMETRY\<rparr>]"

text \<open>The loop has no break: a later matching row overrides an earlier one.\<close>

fun scan_table :: "transition list \<Rightarrow> state_name \<Rightarrow> u8 \<Rightarrow> state_name \<Rightarrow> state_name" where
  "scan_table [] cur buttons acc = acc"
| "scan_table (r # rs) cur buttons acc =
     scan_table rs cur buttons
       (if tt_current r = cur \<and> buttons AND tt_mask r \<noteq> 0 then tt_next r else acc)"

definition state_of_num :: "u8 \<Rightarrow> state_name" where
  "state_of_num n = (case filter (\<lambda>st. state_num st = n) all_states of [] \<Rightarrow> NONE | st # _ \<Rightarrow> st)"

definition lock_warning :: "u8 \<Rightarrow> string" where
  "lock_warning requested = ''state locked: request to '' @ state_to_string requested @
     '' dropped (use 'state unlock')''"

definition usb_warning :: string where
  "usb_warning = ''transition refused: the USB host still owns the SD card; safe-eject it first''"

definition ota_warning :: string where
  "ota_warning = ''transition refused: an OTA firmware write is in progress''"

definition process_transition ::
    "'r robot_ops \<Rightarrow> state_name \<Rightarrow> u8 \<Rightarrow> 'r sm \<Rightarrow> state_name \<times> 'r sm" where
  "process_transition ops cur buttons s0 =
     (case take_request s0 of (requested, s) \<Rightarrow>
        if is_locked s then
          (cur, if requested \<noteq> 0
                then log_line ops WARN (lock_warning requested) s else s)
        else
          let next_state = (if requested \<noteq> 0 then state_of_num requested
                            else scan_table transition_table cur buttons cur) in
          if cur = DEBUG \<and> ro_usb_active ops (sm_world s) then
            (DEBUG, if next_state \<noteq> DEBUG
                    then log_line ops WARN usb_warning s else s)
          else if cur = DEBUG \<and> ro_ota_flashing ops (sm_world s) then
            (DEBUG, if next_state \<noteq> DEBUG
                    then log_line ops WARN ota_warning s else s)
          else
            let s1 = (if cur = DEBUG \<and> next_state \<noteq> DEBUG
                      then on_robot (ro_cancel_debug_tests ops) s else s);
                s2 = (if next_state \<noteq> cur
                      then log_line ops INFO (''state changed: '' @ state_to_string (state_num cur) @
                             '' -> '' @ state_to_string (state_num next_state)) s1
                      else s1)
            in (next_state, s2))"

definition go_to :: "'r robot_ops \<Rightarrow> state_name \<Rightarrow> state_name \<Rightarrow> 'r sm \<Rightarrow> state_name \<times> 'r sm" where
  "go_to ops cur next_state s =
     (next_state, log_line ops INFO (''state changed: '' @ state_to_string (state_num cur) @
        '' -> '' @ state_to_string (state_num next_state)) s)"

section \<open>The state functions\<close>

definition setup_function :: "'r robot_ops \<Rightarrow> 'r sm \<Rightarrow> state_name \<times> 'r sm" where
  "setup_function ops s = go_to ops SETUP WAIT (log_line ops INFO ''Setup function called'' s)"

definition wait_function :: "'r sm \<Rightarrow> state_name \<times> 'r sm" where
  "wait_function s = (WAIT, s)"

definition calibrate_function :: "'r robot_ops \<Rightarrow> 'r sm \<Rightarrow> state_name \<times> 'r sm" where
  "calibrate_function ops s =
     (case ro_calibrate ops (sm_world s) of (calib, w) \<Rightarrow>
        let s1 = s\<lparr>sm_world := w\<rparr>;
            s2 = log_line ops INFO (''Calibrate function called: '' @
                   (if \<not> calib then ''failed'' else ''success'')) s1;
            s3 = log_line ops INFO (''Values:'' @ [CHR 0x0A, CHR 0x0A] @
                   ro_calibrate_status ops (sm_world s2)) s2
        in go_to ops CALIBRATE WAIT s3)"

definition debug_function :: "'r robot_ops \<Rightarrow> 'r sm \<Rightarrow> state_name \<times> 'r sm" where
  "debug_function ops s = (DEBUG, on_robot (ro_process_debug ops) s)"

definition run_function :: "'r sm \<Rightarrow> state_name \<times> 'r sm" where
  "run_function s = (RUN, s)"

definition finish_function :: "'r sm \<Rightarrow> state_name \<times> 'r sm" where
  "finish_function s = (FINISH, s)"

definition telemetry_function :: "'r robot_ops \<Rightarrow> 'r sm \<Rightarrow> state_name \<times> 'r sm" where
  "telemetry_function ops s =
     (case ro_flush_to_sd ops (sm_world s) of ((ok, filename), w) \<Rightarrow>
        let s1 = s\<lparr>sm_world := w\<rparr>;
            s2 = (if ok then log_line ops INFO (''Telemetry saved to '' @ filename) s1
                  else log_line ops ERRO ''Telemetry function called: failed to save logs to SD'' s1)
        in go_to ops TELEMETRY WAIT s2)"

definition error_function :: "'r robot_ops \<Rightarrow> 'r sm \<Rightarrow> state_name \<times> 'r sm" where
  "error_function ops s = (ERROR, on_robot (ro_blink_error_leds ops) (on_robot (ro_stop_motors ops) s))"

definition commconfig_function :: "'r robot_ops \<Rightarrow> 'r sm \<Rightarrow> state_name \<times> 'r sm" where
  "commconfig_function ops s =
     (case ro_comm_config_tick ops (sm_world s) of (st, w) \<Rightarrow> (st, s\<lparr>sm_world := w\<rparr>))"

definition action_of :: "'r robot_ops \<Rightarrow> state_name \<Rightarrow> 'r sm \<Rightarrow> state_name \<times> 'r sm" where
  "action_of ops st = (case st of
      SETUP \<Rightarrow> setup_function ops | WAIT \<Rightarrow> wait_function | CALIBRATE \<Rightarrow> calibrate_function ops
    | DEBUG \<Rightarrow> debug_function ops | RUN \<Rightarrow> run_function | FINISH \<Rightarrow> finish_function
    | TELEMETRY \<Rightarrow> telemetry_function ops | ERROR \<Rightarrow> error_function ops
    | COMM_CONFIG \<Rightarrow> commconfig_function ops | NONE \<Rightarrow> (\<lambda>s. (NONE, s)))"

definition returns :: "state_name \<times> 'r sm \<Rightarrow> (string + state_name) \<times> 'r sm" where
  "returns r = (Inr (fst r), snd r)"

definition entry_of :: "'r robot_ops \<Rightarrow> state_name \<Rightarrow> 'r sm_entry" where
  "entry_of ops st = \<lparr>entry_action = Some (\<lambda>s. returns (action_of ops st s)),
     entry_next = Some (\<lambda>buttons s. returns (process_transition ops st buttons s))\<rparr>"

text \<open>The constructor \<open>States()\<close>: nine members in order, each registering itself.\<close>

definition construct_states :: "'r robot_ops \<Rightarrow> mutex_state \<Rightarrow> 'r \<Rightarrow> 'r registry \<times> 'r sm" where
  "construct_states ops created w =
     fold (\<lambda>st. construct_state created st (entry_of ops st))
       [SETUP, WAIT, CALIBRATE, DEBUG, RUN, FINISH, TELEMETRY, ERROR, COMM_CONFIG]
       (empty_registry, new_sm w)"

definition states_registry :: "'r robot_ops \<Rightarrow> 'r registry" where
  "states_registry ops = None # map (\<lambda>st. Some (entry_of ops st)) (tl all_states)"

section \<open>The shell module\<close>

datatype shell_result = RESULT_OK | RESULT_ERROR

definition bit_text :: "bool \<Rightarrow> string" where
  "bit_text b = (if b then ''1'' else ''0'')"

definition shell_state_get :: "'r robot_ops \<Rightarrow> 'r sm \<Rightarrow> shell_result \<times> 'r sm" where
  "shell_state_get ops s =
     (RESULT_OK, log_line ops INFO (''state='' @ state_to_string (sm_current s) @ '' locked='' @
        bit_text (is_locked s) @ '' pending_request='' @ state_to_string (pending_request s)) s)"

definition shell_state_set :: "'r robot_ops \<Rightarrow> string \<Rightarrow> 'r sm \<Rightarrow> shell_result \<times> 'r sm" where
  "shell_state_set ops name s =
     (let target = state_from_string (Some name) in
      if target = 0 then
        (RESULT_ERROR, log_line ops ERRO (''unknown state '' @ [CHR 0x27] @ name @ [CHR 0x27] @
           '' (SETUP|WAIT|CALIBRATE|DEBUG|RUN|FINISH|TELEMETRY|ERROR)'') s)
      else if is_locked s then
        (RESULT_ERROR, log_line ops ERRO ''state is locked; run 'state unlock' first'' s)
      else case request_state target s of
        (False, s1) \<Rightarrow> (RESULT_ERROR, log_line ops ERRO (''state '' @ state_to_string target @
           '' cannot be requested'') s1)
      | (True, s1) \<Rightarrow> (RESULT_OK, log_line ops INFO (''requested_state='' @ state_to_string target @
           '' pending=1'') s1))"

definition table_row_text :: "nat \<times> transition \<Rightarrow> string" where
  "table_row_text ir = (case ir of (i, r) \<Rightarrow>
     show_dec i @ '' from='' @ state_to_string (state_num (tt_current r)) @ '' mask=0x'' @
     show_hex2 (tt_mask r) @ '' to='' @ state_to_string (state_num (tt_next r)) @ [CHR 0x0A])"

definition shell_state_table :: "'r robot_ops \<Rightarrow> 'r sm \<Rightarrow> shell_result \<times> 'r sm" where
  "shell_state_table ops s =
     (RESULT_OK, log_line ops INFO
        (''button transition table (mask is a button bitmask)'' @ [CHR 0x0A] @
         concat (map table_row_text (enumerate 0 transition_table)) @
         ''note: SETUP/CALIBRATE/TELEMETRY self-transition from their action function; '' @
         ''COMM_CONFIG only leaves via reboot'') s)"

definition shell_state_lock :: "'r robot_ops \<Rightarrow> 'r sm \<Rightarrow> shell_result \<times> 'r sm" where
  "shell_state_lock ops s =
     (RESULT_OK, log_line ops WARN ''locked=1 transitions are held'' (set_locked True s))"

definition shell_state_unlock :: "'r robot_ops \<Rightarrow> 'r sm \<Rightarrow> shell_result \<times> 'r sm" where
  "shell_state_unlock ops s =
     (RESULT_OK, log_line ops INFO ''locked=0 transitions resumed'' (set_locked False s))"

definition history_row_text :: "nat \<times> transition_record \<Rightarrow> string" where
  "history_row_text ir = (case ir of (i, r) \<Rightarrow>
     show_dec i @ '' from='' @ state_to_string (tr_from r) @ '' to='' @ state_to_string (tr_to r) @
     '' uptime_ms='' @ show_dec (unat (tr_uptime_ms r)) @ [CHR 0x0A])"

definition shell_state_history :: "'r robot_ops \<Rightarrow> 'r sm \<Rightarrow> shell_result \<times> 'r sm" where
  "shell_state_history ops s =
     (let records = history kHistoryDepth s in
      (RESULT_OK, log_line ops INFO
        (if records = [] then ''transitions=0''
         else concat (map history_row_text (enumerate 0 records))) s))"

section \<open>The policy, stated without the table\<close>

definition button_policy :: "state_name \<Rightarrow> u8 \<Rightarrow> state_name" where
  "button_policy cur b =
     (if cur = WAIT then
        (if bit b 2 then DEBUG else if bit b 1 then CALIBRATE else if bit b 0 then RUN else WAIT)
      else if cur = RUN \<or> cur = DEBUG then (if bit b 0 then FINISH else cur)
      else if cur = FINISH then (if bit b 0 then WAIT else if bit b 1 then TELEMETRY else FINISH)
      else if cur = ERROR then (if bit b 0 \<or> bit b 1 \<or> bit b 2 then TELEMETRY else ERROR)
      else cur)"

definition policy :: "bool \<Rightarrow> bool \<Rightarrow> u8 \<Rightarrow> state_name \<Rightarrow> u8 \<Rightarrow> state_name" where
  "policy locked busy requested cur b =
     (if locked \<or> cur = DEBUG \<and> busy then cur
      else if requested \<noteq> 0 then state_of_num requested
      else button_policy cur b)"

definition robot_busy :: "'r robot_ops \<Rightarrow> 'r \<Rightarrow> bool" where
  "robot_busy ops w \<longleftrightarrow> ro_usb_active ops w \<or> ro_ota_flashing ops w"

lemma mask_bits:
  fixes b :: u8
  shows "b AND 1 \<noteq> 0 \<longleftrightarrow> bit b 0" and "b AND 2 \<noteq> 0 \<longleftrightarrow> bit b 1"
    and "b AND 4 \<noteq> 0 \<longleftrightarrow> bit b 2" and "b AND 7 \<noteq> 0 \<longleftrightarrow> bit b 0 \<or> bit b 1 \<or> bit b 2"
proof -
  have at: "bit b n \<longleftrightarrow> b AND 2 ^ n \<noteq> 0" for n
    by (simp add: bit_iff_and_push_bit_not_eq_0 push_bit_eq_mult)
  show one: "b AND 1 \<noteq> 0 \<longleftrightarrow> bit b 0" and two: "b AND 2 \<noteq> 0 \<longleftrightarrow> bit b 1"
    and four: "b AND 4 \<noteq> 0 \<longleftrightarrow> bit b 2"
    using at [of 0] at [of 1] at [of 2] by simp_all
  have "(7::u8) = 1 OR 2 OR 4" by simp
  then have "b AND 7 = (b AND 1) OR (b AND 2) OR (b AND 4)"
    by (simp only: bit.conj_disj_distrib)
  then show "b AND 7 \<noteq> 0 \<longleftrightarrow> bit b 0 \<or> bit b 1 \<or> bit b 2"
    using one two four by (simp add: or_eq_0_iff)
qed

lemma scan_is_policy: "scan_table transition_table cur b cur = button_policy cur b"
  by (cases cur) (simp_all add: transition_table_def button_policy_def mask_bits)

lemma state_of_num_num [simp]: "state_of_num (state_num st) = st"
  by (cases st) (simp_all add: state_of_num_def all_states_def)

lemma state_of_num_valid: "verify_state n \<Longrightarrow> state_of_num n \<noteq> NONE"
  by (auto elim!: verify_state_cases)

lemma button_policy_valid: "cur \<noteq> NONE \<Longrightarrow> button_policy cur b \<noteq> NONE"
  by (simp add: button_policy_def)

lemma policy_valid:
  assumes "cur \<noteq> NONE" and "req = 0 \<or> verify_state req"
  shows "policy locked busy req cur b \<noteq> NONE"
  using assms button_policy_valid state_of_num_valid by (auto simp: policy_def)

section \<open>What the state functions leave alone\<close>

definition only_world :: "'r sm \<Rightarrow> 'r sm \<Rightarrow> bool" where
  "only_world s s' \<longleftrightarrow> (\<exists>w. s' = s\<lparr>sm_world := w\<rparr>)"

lemma only_world_refl [intro, simp]: "only_world s s"
  unfolding only_world_def by (rule exI [of _ "sm_world s"]) simp

lemma only_world_trans [trans]: "only_world a b \<Longrightarrow> only_world b c \<Longrightarrow> only_world a c"
  by (auto simp: only_world_def)

lemma only_world_upd [intro, simp]: "only_world s (s\<lparr>sm_world := w\<rparr>)"
  by (auto simp: only_world_def)

lemma only_world_on_robot [intro, simp]: "only_world s (on_robot f s)"
  by (simp add: on_robot_def)

lemma only_world_log [intro, simp]: "only_world s (log_line ops t m s)"
  by (simp add: log_line_def)

lemma only_world_on_robot2: "only_world a b \<Longrightarrow> only_world a (on_robot f b)"
  by (erule only_world_trans) simp

lemma only_world_log2: "only_world a b \<Longrightarrow> only_world a (log_line ops t m b)"
  by (erule only_world_trans) simp

lemma only_world_upd2: "only_world a b \<Longrightarrow> only_world a (b\<lparr>sm_world := w\<rparr>)"
  by (erule only_world_trans) simp

lemmas only_world_intros = only_world_refl only_world_on_robot2 only_world_log2 only_world_upd2

lemma only_world_fields:
  assumes "only_world s s'"
  shows "sm_current s' = sm_current s" "sm_requested s' = sm_requested s"
    "sm_locked s' = sm_locked s" "sm_mutex s' = sm_mutex s" "sm_history s' = sm_history s"
    "sm_head s' = sm_head s" "sm_count s' = sm_count s" "sm_error_cb s' = sm_error_cb s"
  using assms by (auto simp: only_world_def)

lemma only_world_history:
  assumes "only_world s s'"
  shows "history_ok s' = history_ok s" "history_view s' = history_view s"
  using only_world_fields [OF assms] by (simp_all add: history_ok_def history_view_def)

lemma action_only_world: "only_world s (snd (action_of ops st s))"
  by (cases st) (auto simp: action_of_def setup_function_def wait_function_def calibrate_function_def
      debug_function_def run_function_def finish_function_def telemetry_function_def
      error_function_def commconfig_function_def go_to_def Let_def
      intro!: only_world_intros split: prod.split)

lemma transition_only_world:
  "only_world (s\<lparr>sm_requested := 0\<rparr>) (snd (process_transition ops cur b s))"
  by (auto simp: process_transition_def take_request_def Let_def intro!: only_world_intros)

lemma transition_policy:
  "fst (process_transition ops cur b s) =
     policy (sm_locked s) (robot_busy ops (sm_world s)) (sm_requested s) cur b"
  by (auto simp: process_transition_def take_request_def is_locked_def policy_def robot_busy_def
      scan_is_policy Let_def)

lemma held_transition:
  assumes "sm_locked s \<or> cur = DEBUG \<and> robot_busy ops (sm_world s)"
  shows "\<exists>c m. process_transition ops cur b s =
    (cur, if c then s\<lparr>sm_requested := 0\<rparr> else log_line ops WARN m (s\<lparr>sm_requested := 0\<rparr>))"
proof -
  let ?n = "if sm_requested s \<noteq> 0 then state_of_num (sm_requested s) else button_policy DEBUG b"
  consider "sm_locked s" | "\<not> sm_locked s" "cur = DEBUG" "ro_usb_active ops (sm_world s)"
    | "\<not> sm_locked s" "cur = DEBUG" "\<not> ro_usb_active ops (sm_world s)" "ro_ota_flashing ops (sm_world s)"
    using assms by (auto simp: robot_busy_def)
  then show ?thesis
  proof cases
    case 1
    then show ?thesis
      by (intro exI [of _ "sm_requested s = 0"] exI [of _ "lock_warning (sm_requested s)"])
         (simp add: process_transition_def take_request_def is_locked_def)
  next
    case 2
    then show ?thesis
      by (intro exI [of _ "?n = DEBUG"] exI [of _ usb_warning])
         (simp add: process_transition_def take_request_def is_locked_def scan_is_policy Let_def)
  next
    case 3
    then show ?thesis
      by (intro exI [of _ "?n = DEBUG"] exI [of _ ota_warning])
         (simp add: process_transition_def take_request_def is_locked_def scan_is_policy Let_def)
  qed
qed

section \<open>The registry\<close>

lemma state_index:
  "unat (state_num NONE) = 0" "unat (state_num SETUP) = Suc 0"
  "unat (state_num WAIT) = Suc (Suc 0)" "unat (state_num CALIBRATE) = Suc (Suc (Suc 0))"
  "unat (state_num DEBUG) = Suc (Suc (Suc (Suc 0)))"
  "unat (state_num RUN) = Suc (Suc (Suc (Suc (Suc 0))))"
  "unat (state_num FINISH) = Suc (Suc (Suc (Suc (Suc (Suc 0)))))"
  "unat (state_num TELEMETRY) = Suc (Suc (Suc (Suc (Suc (Suc (Suc 0))))))"
  "unat (state_num ERROR) = Suc (Suc (Suc (Suc (Suc (Suc (Suc (Suc 0)))))))"
  "unat (state_num COMM_CONFIG) = Suc (Suc (Suc (Suc (Suc (Suc (Suc (Suc (Suc 0))))))))"
  by simp_all

lemma construct_states_registry:
  "fst (construct_states ops m w) = states_registry ops"
  by (simp add: construct_states_def construct_state_def states_registry_def all_states_def
      empty_registry_def NUMBER_OF_STATES_def state_index eval_nat_numeral del: state_num.simps)

lemma construct_states_machine:
  "snd (construct_states ops TakeSucceeds w) = (new_sm w)\<lparr>sm_mutex := TakeSucceeds\<rparr>"
  by (simp add: construct_states_def construct_state_def new_sm_def)

lemma registry_at:
  assumes "st \<noteq> NONE"
  shows "states_registry ops ! unat (state_num st) = Some (entry_of ops st)"
  using assms
  by (cases st) (simp_all add: states_registry_def all_states_def state_index del: state_num.simps)

lemma run_of_state:
  assumes "sm_mutex s = TakeSucceeds" and "sm_current s = state_num st" and "st \<noteq> NONE"
  shows "sm_run (states_registry ops) t p s =
    (True, record_transition t p (state_num st) (state_num (fst (action_of ops st s)))
       ((snd (action_of ops st s))\<lparr>sm_current := state_num (fst (action_of ops st s))\<rparr>))"
  using assms by (simp add: sm_run_def registry_at entry_of_def returns_def Let_def)

lemma next_of_state:
  assumes "sm_mutex s = TakeSucceeds" and "sm_current s = state_num st" and "st \<noteq> NONE"
  shows "sm_next (states_registry ops) t p b s =
    (True, record_transition t p (state_num st) (state_num (fst (process_transition ops st b s)))
       ((snd (process_transition ops st b s))\<lparr>sm_current :=
          state_num (fst (process_transition ops st b s))\<rparr>))"
  using assms by (simp add: sm_next_def registry_at entry_of_def returns_def Let_def)

section \<open>The machine in motion\<close>

text \<open>What may happen between two looks at the machine: the state-machine task runs \<open>run\<close> or
  \<open>next\<close>, the shell requests a state or sets the lock, and everything else changes the rest of
  the robot.  The machine starts in the state \<open>bootState()\<close> gives (\<^verbatim>\<open>src/main.cpp\<close>).\<close>

inductive machine_step :: "'r robot_ops \<Rightarrow> 'r sm \<Rightarrow> 'r sm \<Rightarrow> bool" for ops where
  step_run: "machine_step ops s (snd (sm_run (states_registry ops) t p s))"
| step_next: "machine_step ops s (snd (sm_next (states_registry ops) t p b s))"
| step_request: "machine_step ops s (snd (request_state n s))"
| step_lock: "machine_step ops s (set_locked l s)"
| step_world: "machine_step ops s (s\<lparr>sm_world := w\<rparr>)"

inductive_cases machine_step_cases: "machine_step ops s s'"

definition boot_machine :: "'r robot_ops \<Rightarrow> state_name \<Rightarrow> 'r error_callback option \<Rightarrow> 'r \<Rightarrow> 'r sm" where
  "boot_machine ops st cb w =
     (snd (construct_states ops TakeSucceeds w))\<lparr>sm_current := state_num st, sm_error_cb := cb\<rparr>"

inductive machine_reachable :: "'r robot_ops \<Rightarrow> 'r sm \<Rightarrow> bool" for ops where
  boot: "st \<in> {SETUP, DEBUG, COMM_CONFIG} \<Longrightarrow> machine_reachable ops (boot_machine ops st cb w)"
| step: "machine_reachable ops s \<Longrightarrow> machine_step ops s s' \<Longrightarrow> machine_reachable ops s'"

definition machine_ok :: "'r sm \<Rightarrow> bool" where
  "machine_ok s \<longleftrightarrow> sm_mutex s = TakeSucceeds \<and> verify_state (sm_current s) \<and>
     (sm_requested s = 0 \<or> verify_state (sm_requested s)) \<and> history_ok s"

text \<open>The history is one walk through the states that ends where the machine is now.\<close>

definition walk :: "u8 \<Rightarrow> transition_record list \<Rightarrow> bool" where
  "walk cur h \<longleftrightarrow> (h \<noteq> [] \<longrightarrow> tr_to (hd h) = cur) \<and>
     successively (\<lambda>newer older. tr_from newer = tr_to older) h \<and> (\<forall>r \<in> set h. tr_from r \<noteq> tr_to r)"

lemma successively_take: "successively P xs \<Longrightarrow> successively P (take n xs)"
  by (metis append_take_drop_id successively_append_iff)

lemma walk_record:
  assumes "history_ok s" and "walk from (history_view s)"
  shows "walk to (history_view (record_transition t p from to s'))
    \<or> \<not> (history_ok s' \<and> history_view s' = history_view s)"
proof (cases "history_ok s' \<and> history_view s' = history_view s")
  case True
  then have ok: "history_ok s'" and v: "history_view s' = history_view s" by simp_all
  show ?thesis
  proof (cases "from = to")
    case True
    then show ?thesis using assms v by (simp add: record_transition_def)
  next
    case False
    let ?r = "\<lparr>tr_from = from, tr_to = to, tr_uptime_ms = t * p\<rparr>"
    have "successively (\<lambda>newer older. tr_from newer = tr_to older) (?r # history_view s)"
      using assms(2) by (cases "history_view s") (auto simp: walk_def)
    then have "successively (\<lambda>newer older. tr_from newer = tr_to older) (take 8 (?r # history_view s))"
      by (rule successively_take)
    moreover have "\<forall>r \<in> set (take 8 (?r # history_view s)). tr_from r \<noteq> tr_to r"
      using assms(2) False by (auto simp: walk_def dest: in_set_takeD)
    ultimately have "walk to (take 8 (?r # history_view s))" by (simp add: walk_def)
    then show ?thesis using False ok v by (simp add: history_view_record kHistoryDepth_def)
  qed
qed simp

lemma walk_step:
  assumes "history_ok s" and "walk (sm_current s) (history_view s)"
    and "history_ok s'" and "history_view s' = history_view s"
  shows "walk to (history_view (record_transition t p (sm_current s) to (s'\<lparr>sm_current := to\<rparr>)))"
proof -
  have "history_ok (s'\<lparr>sm_current := to\<rparr>)" "history_view (s'\<lparr>sm_current := to\<rparr>) = history_view s"
    using assms by (simp_all add: history_ok_def history_view_def)
  then show ?thesis using walk_record [OF assms(1,2), of to t p "s'\<lparr>sm_current := to\<rparr>"] by blast
qed

lemma history_ok_frame [simp]:
  "history_ok (s\<lparr>sm_current := c\<rparr>) = history_ok s" "history_ok (s\<lparr>sm_requested := r\<rparr>) = history_ok s"
  "history_ok (s\<lparr>sm_locked := l\<rparr>) = history_ok s" "history_ok (s\<lparr>sm_world := w\<rparr>) = history_ok s"
  "history_view (s\<lparr>sm_current := c\<rparr>) = history_view s"
  "history_view (s\<lparr>sm_requested := r\<rparr>) = history_view s"
  "history_view (s\<lparr>sm_locked := l\<rparr>) = history_view s"
  "history_view (s\<lparr>sm_world := w\<rparr>) = history_view s"
  by (simp_all add: history_ok_def history_view_def)

lemma machine_ok_frame:
  "machine_ok (s\<lparr>sm_locked := l\<rparr>) = machine_ok s" "machine_ok (s\<lparr>sm_world := w\<rparr>) = machine_ok s"
  "machine_ok s \<Longrightarrow> verify_state n \<Longrightarrow> machine_ok (s\<lparr>sm_requested := n\<rparr>)"
  by (simp_all add: machine_ok_def)

section \<open>What the policy relies on\<close>

text \<open>The services of the robot never name the empty state: the menu's tick returns a state.\<close>

locale robot_services =
  fixes ops :: "'r robot_ops"
  assumes menu_state: "fst (ro_comm_config_tick ops w) = COMM_CONFIG"
begin

lemma action_valid: "st \<noteq> NONE \<Longrightarrow> fst (action_of ops st s) \<noteq> NONE"
  by (cases st) (auto simp: action_of_def setup_function_def wait_function_def calibrate_function_def
      debug_function_def run_function_def finish_function_def telemetry_function_def
      error_function_def commconfig_function_def go_to_def Let_def menu_state
      split: prod.split dest: arg_cong [where f = fst])

lemma action_not_error:
  assumes "st \<noteq> ERROR"
  shows "fst (action_of ops st s) \<noteq> ERROR"
  using assms menu_state [of "sm_world s"]
  by (cases st) (auto simp: action_of_def setup_function_def wait_function_def calibrate_function_def
      debug_function_def run_function_def finish_function_def telemetry_function_def
      error_function_def commconfig_function_def go_to_def Let_def split: prod.split)

lemma run_ok:
  assumes "machine_ok s"
  shows "fst (sm_run (states_registry ops) t p s)"
    and "machine_ok (snd (sm_run (states_registry ops) t p s))"
proof -
  obtain st where st: "sm_current s = state_num st" "st \<noteq> NONE"
    using assms verify_state_cases by (metis machine_ok_def)
  have m: "sm_mutex s = TakeSucceeds" using assms by (simp add: machine_ok_def)
  note run = run_of_state [OF m st, of ops t p]
  note same = only_world_fields [OF action_only_world [of s ops st]]
    only_world_history [OF action_only_world [of s ops st]]
  show "fst (sm_run (states_registry ops) t p s)" using run by simp
  show "machine_ok (snd (sm_run (states_registry ops) t p s))"
    using assms action_valid [OF st(2), of s]
    by (simp add: run machine_ok_def same history_ok_record)
qed

lemma next_ok:
  assumes "machine_ok s"
  shows "fst (sm_next (states_registry ops) t p b s)"
    and "machine_ok (snd (sm_next (states_registry ops) t p b s))"
proof -
  obtain st where st: "sm_current s = state_num st" "st \<noteq> NONE"
    using assms verify_state_cases by (metis machine_ok_def)
  have m: "sm_mutex s = TakeSucceeds" using assms by (simp add: machine_ok_def)
  note nxt = next_of_state [OF m st, of ops t p b]
  note same = only_world_fields [OF transition_only_world [of s ops st b]]
    only_world_history [OF transition_only_world [of s ops st b]]
  have valid: "fst (process_transition ops st b s) \<noteq> NONE"
    using assms policy_valid [OF st(2)] by (simp add: transition_policy machine_ok_def)
  show "fst (sm_next (states_registry ops) t p b s)" using nxt by simp
  show "machine_ok (snd (sm_next (states_registry ops) t p b s))"
    using assms valid by (simp add: nxt machine_ok_def same history_ok_record)
qed

lemma boot_ok: "st \<noteq> NONE \<Longrightarrow> machine_ok (boot_machine ops st cb w)"
  by (simp add: boot_machine_def construct_states_machine machine_ok_def)
     (simp add: new_sm_def history_ok_def kHistoryDepth_def)

lemma step_ok: "machine_ok s \<Longrightarrow> machine_step ops s s' \<Longrightarrow> machine_ok s'"
  by (erule machine_step_cases) (auto simp: run_ok next_ok machine_ok_frame request_state_def set_locked_def)

lemma reachable_ok: "machine_reachable ops s \<Longrightarrow> machine_ok s"
  by (induction rule: machine_reachable.induct) (auto simp: boot_ok intro: step_ok)

lemma run_walk:
  assumes "machine_ok s" and "walk (sm_current s) (history_view s)"
  shows "walk (sm_current (snd (sm_run (states_registry ops) t p s)))
    (history_view (snd (sm_run (states_registry ops) t p s)))"
proof -
  obtain st where st: "sm_current s = state_num st" "st \<noteq> NONE"
    using assms verify_state_cases by (metis machine_ok_def)
  have m: "sm_mutex s = TakeSucceeds" "history_ok s" using assms by (simp_all add: machine_ok_def)
  note same = only_world_history [OF action_only_world [of s ops st]]
  show ?thesis
    using walk_step [OF m(2) assms(2), of "snd (action_of ops st s)"
        "state_num (fst (action_of ops st s))" t p] m st
    by (simp add: run_of_state same)
qed

lemma next_walk:
  assumes "machine_ok s" and "walk (sm_current s) (history_view s)"
  shows "walk (sm_current (snd (sm_next (states_registry ops) t p b s)))
    (history_view (snd (sm_next (states_registry ops) t p b s)))"
proof -
  obtain st where st: "sm_current s = state_num st" "st \<noteq> NONE"
    using assms verify_state_cases by (metis machine_ok_def)
  have m: "sm_mutex s = TakeSucceeds" "history_ok s" using assms by (simp_all add: machine_ok_def)
  note same = only_world_history [OF transition_only_world [of s ops st b]]
  show ?thesis
    using walk_step [OF m(2) assms(2), of "snd (process_transition ops st b s)"
        "state_num (fst (process_transition ops st b s))" t p] m st
    by (simp add: next_of_state same)
qed

lemma step_walk:
  assumes "machine_ok s" and "walk (sm_current s) (history_view s)" and "machine_step ops s s'"
  shows "walk (sm_current s') (history_view s')"
  using assms(3) by (rule machine_step_cases)
    (use assms(1,2) run_walk next_walk in \<open>auto simp: request_state_def set_locked_def\<close>)

lemma reachable_walk: "machine_reachable ops s \<Longrightarrow> walk (sm_current s) (history_view s)"
proof (induction rule: machine_reachable.induct)
  case (boot st cb w)
  then show ?case
    by (simp add: boot_machine_def construct_states_machine)
       (simp add: new_sm_def history_view_def walk_def)
next
  case (step s s')
  then show ?case using step_walk reachable_ok by blast
qed

lemma error_by_request:
  assumes "machine_ok s" and "machine_step ops s s'"
    and "sm_current s \<noteq> state_num ERROR" and "sm_current s' = state_num ERROR"
  shows "sm_requested s = state_num ERROR \<and> \<not> sm_locked s"
proof -
  obtain st where st: "sm_current s = state_num st" "st \<noteq> NONE" "st \<noteq> ERROR"
    using assms verify_state_cases by (metis machine_ok_def)
  have m: "sm_mutex s = TakeSucceeds" using assms(1) by (simp add: machine_ok_def)
  have req: "sm_requested s = 0 \<or> verify_state (sm_requested s)"
    using assms(1) by (simp add: machine_ok_def)
  have buttons: "button_policy st b \<noteq> ERROR" for b using st(3) by (simp add: button_policy_def)
  show ?thesis
    using assms(2)
  proof (cases rule: machine_step.cases)
    case (step_run t p)
    then show ?thesis
      using assms(4) run_of_state [OF m st(1,2), of ops t p] action_not_error [OF st(3), of s]
      by (simp del: state_num.simps)
  next
    case (step_next t p b)
    then have "fst (process_transition ops st b s) = ERROR"
      using assms(4) next_of_state [OF m st(1,2), of ops t p b] by (simp del: state_num.simps)
    then have "\<not> sm_locked s" "sm_requested s \<noteq> 0" "state_of_num (sm_requested s) = ERROR"
      using st(3) buttons by (auto simp: transition_policy policy_def split: if_splits)
    then show ?thesis using req by (auto elim!: verify_state_cases)
  qed (use assms(3,4) in \<open>auto simp: request_state_def set_locked_def split: if_splits\<close>)
qed

end

text \<open>The robot with its own menu: the interface holds for every choice of the other services.\<close>

definition with_menu ::
    "'w cc_ops \<Rightarrow> (comm_config \<times> 'w \<Rightarrow> cc_input) \<Rightarrow> (comm_config \<times> 'w) robot_ops \<Rightarrow> (comm_config \<times> 'w) robot_ops" where
  "with_menu cc inputs ops = ops\<lparr>ro_comm_config_tick := (\<lambda>cw.
     case inputs cw of (mode, low, now) \<Rightarrow> comm_config_tick cc mode low now cw)\<rparr>"

interpretation menu: robot_services "with_menu cc inputs ops" for cc inputs ops
  by unfold_locales (simp add: with_menu_def tick_returns_comm_config split: prod.split)

text \<open>A robot that does nothing; its flag says whether the USB host owns the card.\<close>

definition idle_ops :: "(comm_config \<times> bool) robot_ops" where
  "idle_ops = with_menu
     \<lparr>co_log = (\<lambda>t m w. w), co_led = (\<lambda>i t w. w), co_set = (\<lambda>a b v w. (True, w)),
      co_save = (\<lambda>w. (True, w)), co_restart = id\<rparr> (\<lambda>cw. (0, (False, False, False), 0))
     \<lparr>ro_log = (\<lambda>t m w. w), ro_usb_active = snd, ro_ota_flashing = (\<lambda>w. False),
      ro_cancel_debug_tests = id, ro_calibrate = (\<lambda>w. (True, w)), ro_calibrate_status = (\<lambda>w. []),
      ro_process_debug = id, ro_flush_to_sd = (\<lambda>w. ((True, []), w)), ro_stop_motors = id,
      ro_blink_error_leds = id, ro_comm_config_tick = (\<lambda>w. (COMM_CONFIG, w))\<rparr>"

definition idle_robot :: "comm_config \<times> bool" where
  "idle_robot = (new_comm_config, False)"

definition setup_machine :: "(comm_config \<times> bool) sm" where
  "setup_machine = boot_machine idle_ops SETUP None idle_robot"

lemma setup_reachable: "machine_reachable idle_ops setup_machine"
  unfolding setup_machine_def by (rule machine_reachable.boot) simp

lemma setup_machine_simps:
  "sm_mutex setup_machine = TakeSucceeds" "sm_current setup_machine = state_num SETUP"
  "sm_requested setup_machine = 0" "sm_world setup_machine = idle_robot"
  "sm_locked setup_machine = False"
  by (simp_all add: setup_machine_def boot_machine_def construct_states_machine) (simp_all add: new_sm_def)

section \<open>Properties\<close>

text \<open>The state machine never fails once it is booted: in every reachable state, whatever the
  shell requests, whoever locks it and however the robot changes in between, \<open>run\<close> and
  \<open>next\<close> find a valid state with its callbacks and succeed, and the retained history is one
  unbroken walk through the states that ends in the current one.\<close>

theorem machine_never_fails:
  assumes "machine_reachable (with_menu cc inputs ops) s"
  shows "fst (sm_run (states_registry (with_menu cc inputs ops)) t p s) \<and>
    fst (sm_next (states_registry (with_menu cc inputs ops)) t p b s) \<and>
    walk (sm_current s) (history_view s)"
  using menu.reachable_ok [OF assms] menu.reachable_walk [OF assms] menu.run_ok menu.next_ok by blast

theorem machine_never_fails_witness:
  "fst (sm_run (states_registry idle_ops) 0 1 setup_machine)"
  using machine_never_fails setup_reachable unfolding idle_ops_def by blast



text \<open>The transition table and its gates implement the policy: in any state, \<open>next\<close> succeeds,
  consumes the pending request, and moves to the state the policy names: the current one while the
  machine is locked or DEBUG is held by the USB host or a firmware write, else the requested one,
  else the one the pressed buttons select, where of several pressed buttons the last matching row
  of the table decides.\<close>

theorem next_implements_policy:
  assumes "sm_mutex s = TakeSucceeds" and "sm_current s = state_num st" and "st \<noteq> NONE"
  shows "fst (sm_next (states_registry ops) t p b s) \<and>
    sm_current (snd (sm_next (states_registry ops) t p b s)) =
      state_num (policy (sm_locked s) (robot_busy ops (sm_world s)) (sm_requested s) st b) \<and>
    sm_requested (snd (sm_next (states_registry ops) t p b s)) = 0"
  using only_world_fields [OF transition_only_world [of s ops st b]]
  by (simp add: next_of_state [OF assms] transition_policy)

theorem next_implements_policy_witness:
  "sm_current (snd (sm_next (states_registry idle_ops) 0 1 3
     (setup_machine\<lparr>sm_current := state_num FINISH\<rparr>))) = state_num WAIT"
  using next_implements_policy [of "setup_machine\<lparr>sm_current := state_num FINISH\<rparr>" FINISH idle_ops 0 1 3]
  by (simp add: setup_machine_simps policy_def button_policy_def)

text \<open>A held transition does nothing: while the machine is locked, or in DEBUG while the USB
  host owns the card or firmware is being written, a transition keeps the state, and all it does to
  the machine and the robot is to consume the request and at most to log one warning. In
  particular the running debug tests are not cancelled.\<close>

theorem held_transition_only_logs:
  assumes "sm_locked s \<or> cur = DEBUG \<and> robot_busy ops (sm_world s)"
  shows "\<exists>s'. process_transition ops cur b s = (cur, s') \<and>
    (s' = s\<lparr>sm_requested := 0\<rparr> \<or>
     (\<exists>msg. s' = s\<lparr>sm_requested := 0, sm_world := ro_log ops WARN msg (sm_world s)\<rparr>))"
proof -
  let ?s = "s\<lparr>sm_requested := 0\<rparr>"
  have log: "log_line ops WARN m ?s =
      s\<lparr>sm_requested := 0, sm_world := ro_log ops WARN m (sm_world s)\<rparr>" for m
    by (simp add: log_line_def on_robot_def)
  obtain c m where "process_transition ops cur b s = (cur, if c then ?s else log_line ops WARN m ?s)"
    using held_transition [OF assms] by blast
  then show ?thesis unfolding log by (cases c) auto
qed

theorem held_transition_only_logs_witness:
  "fst (process_transition idle_ops DEBUG 1 (setup_machine\<lparr>sm_world := (new_comm_config, True)\<rparr>)) = DEBUG"
  using held_transition_only_logs
    [of "setup_machine\<lparr>sm_world := (new_comm_config, True)\<rparr>" DEBUG idle_ops 1]
  by (auto simp: robot_busy_def idle_ops_def with_menu_def)

text \<open>COMM_CONFIG is left without a restart: a pending request moves an unlocked machine out of
  COMM_CONFIG into the requested state at the next pass, like out of any other state.\<close>

theorem comm_config_left_by_request:
  assumes "sm_mutex s = TakeSucceeds" and "sm_current s = state_num COMM_CONFIG"
    and "\<not> sm_locked s" and "verify_state target"
  shows "sm_current (snd (sm_next (states_registry ops) t p b (snd (request_state target s)))) = target"
proof -
  obtain st where st: "target = state_num st" "st \<noteq> NONE" using assms(4) verify_state_cases by blast
  have "target \<noteq> 0" using st by (cases st) simp_all
  then show ?thesis
    using assms st by (simp add: request_state_def next_of_state [where st = COMM_CONFIG]
        transition_policy policy_def)
qed

theorem comm_config_left_by_request_witness:
  "sm_current (snd (sm_next (states_registry idle_ops) 0 1 0 (snd (request_state 2
     (setup_machine\<lparr>sm_current := state_num COMM_CONFIG\<rparr>))))) = state_num WAIT"
  using comm_config_left_by_request
    [of "setup_machine\<lparr>sm_current := state_num COMM_CONFIG\<rparr>" 2 idle_ops 0 1 0]
  by (simp add: setup_machine_simps verify_state_def NUMBER_OF_STATES_def)

end
