(* ===== verification/Sha256.thy ===== *)
theory Sha256
  imports Prelude "HOL-Library.While_Combinator"
begin

unbundle bit_operations_syntax

text \<open>
  The SHA-256 and HMAC part of \<^verbatim>\<open>lib/KeyStore/KeyStore.cpp\<close>: the streaming context with its
  partly filled block, the compression function on 32-bit words, and HMAC on top of it.  The
  specification it is checked against is the one of the standard: pad the whole message, cut it
  into blocks, fold the compression function over them.
\<close>

section \<open>The context\<close>

definition kShaBlockSize :: nat where "kShaBlockSize = 64"
definition kShaDigestSize :: nat where "kShaDigestSize = 32"

definition kShaRoundConstants :: "u32 list" where
  "kShaRoundConstants =
    [0x428A2F98, 0x71374491, 0xB5C0FBCF, 0xE9B5DBA5, 0x3956C25B, 0x59F111F1,
     0x923F82A4, 0xAB1C5ED5, 0xD807AA98, 0x12835B01, 0x243185BE, 0x550C7DC3,
     0x72BE5D74, 0x80DEB1FE, 0x9BDC06A7, 0xC19BF174, 0xE49B69C1, 0xEFBE4786,
     0x0FC19DC6, 0x240CA1CC, 0x2DE92C6F, 0x4A7484AA, 0x5CB0A9DC, 0x76F988DA,
     0x983E5152, 0xA831C66D, 0xB00327C8, 0xBF597FC7, 0xC6E00BF3, 0xD5A79147,
     0x06CA6351, 0x14292967, 0x27B70A85, 0x2E1B2138, 0x4D2C6DFC, 0x53380D13,
     0x650A7354, 0x766A0ABB, 0x81C2C92E, 0x92722C85, 0xA2BFE8A1, 0xA81A664B,
     0xC24B8B70, 0xC76C51A3, 0xD192E819, 0xD6990624, 0xF40E3585, 0x106AA070,
     0x19A4C116, 0x1E376C08, 0x2748774C, 0x34B0BCB5, 0x391C0CB3, 0x4ED8AA4A,
     0x5B9CCA4F, 0x682E6FF3, 0x748F82EE, 0x78A5636F, 0x84C87814, 0x8CC70208,
     0x90BEFFFA, 0xA4506CEB, 0xBEF9A3F7, 0xC67178F2]"

definition rotate_right :: "u32 \<Rightarrow> nat \<Rightarrow> u32" where
  "rotate_right v n = drop_bit n v OR push_bit (32 - n) v"

record sha =
  sha_state :: "u32 list"
  sha_block :: bytes
  sha_pending :: nat
  sha_total :: u64

definition sha_init :: "u32 list" where
  "sha_init = [0x6A09E667, 0xBB67AE85, 0x3C6EF372, 0xA54FF53A,
     0x510E527F, 0x9B05688C, 0x1F83D9AB, 0x5BE0CD19]"

definition new_sha :: sha where
  "new_sha = \<lparr>sha_state = sha_init, sha_block = replicate kShaBlockSize 0, sha_pending = 0,
     sha_total = 0\<rparr>"

section \<open>Compression\<close>

definition big_endian_word :: "bytes \<Rightarrow> nat \<Rightarrow> u32" where
  "big_endian_word blk i =
     push_bit 24 (ucast (blk ! (i * 4))) OR push_bit 16 (ucast (blk ! (i * 4 + 1))) OR
     push_bit 8 (ucast (blk ! (i * 4 + 2))) OR ucast (blk ! (i * 4 + 3))"

definition schedule_step :: "nat \<Rightarrow> u32 list \<Rightarrow> u32 list" where
  "schedule_step i w =
     (let s0 = rotate_right (w ! (i - 15)) 7 XOR rotate_right (w ! (i - 15)) 18 XOR drop_bit 3 (w ! (i - 15));
          s1 = rotate_right (w ! (i - 2)) 17 XOR rotate_right (w ! (i - 2)) 19 XOR drop_bit 10 (w ! (i - 2))
      in w[i := w ! (i - 16) + s0 + w ! (i - 7) + s1])"

definition message_schedule :: "bytes \<Rightarrow> u32 list" where
  "message_schedule blk =
     fold schedule_step [16..<64] (map (big_endian_word blk) [0..<16] @ replicate 48 0)"

type_synonym sha_vars = "u32 \<times> u32 \<times> u32 \<times> u32 \<times> u32 \<times> u32 \<times> u32 \<times> u32"

definition sha_round :: "u32 list \<Rightarrow> nat \<Rightarrow> sha_vars \<Rightarrow> sha_vars" where
  "sha_round w i v =
     (case v of (a, b, c, d, e, f, g, h) \<Rightarrow>
        let sigma1 = rotate_right e 6 XOR rotate_right e 11 XOR rotate_right e 25;
            chosen = (e AND f) XOR (NOT e AND g);
            t1 = h + sigma1 + chosen + kShaRoundConstants ! i + w ! i;
            sigma0 = rotate_right a 2 XOR rotate_right a 13 XOR rotate_right a 22;
            majority = (a AND b) XOR (a AND c) XOR (b AND c);
            t2 = sigma0 + majority
        in (t1 + t2, a, b, c, d + t1, e, f, g))"

definition compress_block :: "u32 list \<Rightarrow> bytes \<Rightarrow> u32 list" where
  "compress_block st blk =
     (case fold (sha_round (message_schedule blk)) [0..<64]
             (st ! 0, st ! 1, st ! 2, st ! 3, st ! 4, st ! 5, st ! 6, st ! 7) of
        (a, b, c, d, e, f, g, h) \<Rightarrow>
          [st ! 0 + a, st ! 1 + b, st ! 2 + c, st ! 3 + d,
           st ! 4 + e, st ! 5 + f, st ! 6 + g, st ! 7 + h])"

definition sha256_compress :: "sha \<Rightarrow> sha" where
  "sha256_compress s = s\<lparr>sha_state := compress_block (sha_state s) (sha_block s)\<rparr>"

section \<open>Streaming\<close>

definition update_byte :: "u8 \<Rightarrow> sha \<Rightarrow> sha" where
  "update_byte b s =
     (let s1 = s\<lparr>sha_block := (sha_block s)[sha_pending s := b], sha_pending := sha_pending s + 1\<rparr> in
      if sha_pending s1 = kShaBlockSize then (sha256_compress s1)\<lparr>sha_pending := 0\<rparr> else s1)"

definition sha256_update :: "bytes \<Rightarrow> sha \<Rightarrow> sha" where
  "sha256_update data s =
     fold update_byte data (s\<lparr>sha_total := sha_total s + word_of_nat (length data)\<rparr>)"

text \<open>The padding loop; it has no bound of its own.\<close>

definition pad_loop :: "sha \<Rightarrow> sha option" where
  "pad_loop s = while_option (\<lambda>s. sha_pending s \<noteq> kShaBlockSize - 8) (sha256_update [0]) s"

definition be64 :: "u64 \<Rightarrow> bytes" where
  "be64 bits = map (\<lambda>i. ucast (drop_bit (56 - 8 * i) bits)) [0..<8]"

definition be32 :: "u32 \<Rightarrow> bytes" where
  "be32 v = [ucast (drop_bit 24 v), ucast (drop_bit 16 v), ucast (drop_bit 8 v), ucast v]"

definition sha256_finish :: "sha \<Rightarrow> bytes" where
  "sha256_finish s =
     (let bits = sha_total s * 8;
          s1 = sha256_update [0x80] s;
          s2 = the (pad_loop s1);
          s3 = s2\<lparr>sha_block := take (kShaBlockSize - 8) (sha_block s2) @ be64 bits\<rparr>;
          s4 = sha256_compress s3
      in concat (map be32 (sha_state s4)))"

definition sha256_bytes :: "bytes \<Rightarrow> bytes" where
  "sha256_bytes data = sha256_finish (sha256_update data new_sha)"

section \<open>HMAC\<close>

definition hmac_sha256 :: "bytes \<Rightarrow> bytes \<Rightarrow> bytes" where
  "hmac_sha256 key message =
     (let padded_key =
            (if length key > kShaBlockSize
             then sha256_finish (sha256_update key new_sha) @ replicate (kShaBlockSize - kShaDigestSize) 0
             else key @ replicate (kShaBlockSize - length key) 0);
          ipad = map (\<lambda>b. b XOR 0x36) padded_key;
          inner_digest = sha256_finish (sha256_update message (sha256_update ipad new_sha));
          opad = map (\<lambda>b. b XOR 0x5C) padded_key
      in sha256_finish (sha256_update inner_digest (sha256_update opad new_sha)))"

section \<open>The specification\<close>

function process :: "u32 list \<Rightarrow> bytes \<Rightarrow> u32 list" where
  "process st m =
     (if length m < kShaBlockSize then st
      else process (compress_block st (take kShaBlockSize m)) (drop kShaBlockSize m))"
  by pat_completeness auto
termination by (relation "measure (\<lambda>(st, m). length m)") (auto simp: kShaBlockSize_def)

declare process.simps [simp del]

definition padded :: "bytes \<Rightarrow> bytes" where
  "padded m = m @ [0x80] @ replicate ((119 - length m mod 64) mod 64) 0 @ be64 (word_of_nat (8 * length m))"

definition sha256_spec :: "bytes \<Rightarrow> bytes" where
  "sha256_spec m = concat (map be32 (process sha_init (padded m)))"

definition hmac_spec :: "bytes \<Rightarrow> bytes \<Rightarrow> bytes" where
  "hmac_spec key message =
     (let k0 = (if length key > 64 then sha256_spec key else key);
          k = k0 @ replicate (64 - length k0) 0 in
      sha256_spec (map (\<lambda>b. b XOR 0x5C) k @ sha256_spec (map (\<lambda>b. b XOR 0x36) k @ message)))"

lemma process_short: "length m < 64 \<Longrightarrow> process st m = st"
  by (simp add: process.simps [of st m] kShaBlockSize_def)

lemma process_block: "length b = 64 \<Longrightarrow> process st (b @ m) = process (compress_block st b) m"
  by (subst process.simps) (simp add: kShaBlockSize_def)

lemma process_append:
  "length a = 64 * n \<Longrightarrow> process st (a @ m) = process (process st a) m"
proof (induction n arbitrary: st a)
  case 0
  then show ?case by (simp add: process_short)
next
  case (Suc n)
  have len: "length (take 64 a) = 64" "length (drop 64 a) = 64 * n" using Suc.prems by simp_all
  have "process st (a @ m) = process st (take 64 a @ (drop 64 a @ m))"
    by (simp only: append_assoc [symmetric] append_take_drop_id)
  also have "\<dots> = process (compress_block st (take 64 a)) (drop 64 a @ m)"
    by (rule process_block [OF len(1)])
  also have "\<dots> = process (process (compress_block st (take 64 a)) (drop 64 a)) m"
    by (rule Suc.IH [OF len(2)])
  also have "process (compress_block st (take 64 a)) (drop 64 a) = process st (take 64 a @ drop 64 a)"
    by (rule process_block [OF len(1), symmetric])
  finally show ?case by simp
qed

section \<open>The context stands for the message so far\<close>

definition holds :: "bytes \<Rightarrow> bytes \<Rightarrow> sha \<Rightarrow> bool" where
  "holds full rest s \<longleftrightarrow> (\<exists>n. length full = 64 * n) \<and> length rest < 64 \<and>
     sha_state s = process sha_init full \<and> sha_pending s = length rest \<and>
     length (sha_block s) = 64 \<and> take (length rest) (sha_block s) = rest"

definition stands_for :: "bytes \<Rightarrow> sha \<Rightarrow> bool" where
  "stands_for m s \<longleftrightarrow> (\<exists>full rest. m = full @ rest \<and> holds full rest s)"

lemma holds_total [simp]: "holds full rest (s\<lparr>sha_total := t\<rparr>) = holds full rest s"
  by (simp add: holds_def)

lemma stands_for_total [simp]: "stands_for m (s\<lparr>sha_total := t\<rparr>) = stands_for m s"
  by (simp add: stands_for_def)

lemma stands_for_new: "stands_for [] new_sha"
  by (auto simp: stands_for_def holds_def new_sha_def kShaBlockSize_def process_short)

lemma take_store: "n < length xs \<Longrightarrow> take (Suc n) (xs[n := b]) = take n xs @ [b]"
  by (simp add: take_Suc_conv_app_nth)

lemma update_byte_holds:
  assumes "holds full rest s"
  shows "if length rest = 63 then holds (full @ rest @ [b]) [] (update_byte b s)
         else holds full (rest @ [b]) (update_byte b s)"
proof -
  obtain n where n: "length full = 64 * n" using assms by (auto simp: holds_def)
  have h: "length rest < 64" "sha_state s = process sha_init full" "sha_pending s = length rest"
    "length (sha_block s) = 64" "take (length rest) (sha_block s) = rest"
    using assms by (auto simp: holds_def)
  let ?blk = "(sha_block s)[length rest := b]"
  have tk: "take (Suc (length rest)) ?blk = rest @ [b]" using h by (simp add: take_store)
  show ?thesis
  proof (cases "length rest = 63")
    case True
    have blk: "?blk = rest @ [b]" using tk True h(4) by simp
    have "process sha_init (full @ (rest @ [b])) = compress_block (process sha_init full) (rest @ [b])"
      using process_append [OF n] process_block [of "rest @ [b]" "process sha_init full" "[]"] True
      by (simp add: process_short)
    moreover have "length (full @ rest @ [b]) = 64 * (n + 1)" using n True by simp
    then have "\<exists>k. length (full @ rest @ [b]) = 64 * k" by blast
    ultimately show ?thesis
      using True h blk
      by (simp add: update_byte_def holds_def Let_def kShaBlockSize_def sha256_compress_def)
  next
    case False
    then show ?thesis
      using h n tk by (simp add: update_byte_def holds_def Let_def kShaBlockSize_def)
  qed
qed

lemma update_byte_stands:
  assumes "stands_for m s"
  shows "stands_for (m @ [b]) (update_byte b s)"
proof -
  obtain full rest where m: "m = full @ rest" and h: "holds full rest s"
    using assms by (auto simp: stands_for_def)
  show ?thesis
  proof (cases "length rest = 63")
    case True
    then have "holds (full @ rest @ [b]) [] (update_byte b s)" using update_byte_holds [OF h] by simp
    then show ?thesis using m by (metis append_Nil2 append_assoc stands_for_def)
  next
    case False
    then have "holds full (rest @ [b]) (update_byte b s)" using update_byte_holds [OF h] by simp
    then show ?thesis using m by (metis append_assoc stands_for_def)
  qed
qed

lemma update_byte_total [simp]: "sha_total (update_byte b s) = sha_total s"
  by (simp add: update_byte_def Let_def sha256_compress_def)

lemma fold_update_total [simp]: "sha_total (fold update_byte data s) = sha_total s"
  by (induction data arbitrary: s) simp_all

lemma fold_update_stands: "stands_for m s \<Longrightarrow> stands_for (m @ data) (fold update_byte data s)"
proof (induction data arbitrary: m s)
  case Nil
  then show ?case by simp
next
  case (Cons b data)
  then have "stands_for ((m @ [b]) @ data) (fold update_byte data (update_byte b s))"
    using update_byte_stands by blast
  then show ?case by simp
qed

lemma update_stands: "stands_for m s \<Longrightarrow> stands_for (m @ data) (sha256_update data s)"
  by (simp add: sha256_update_def fold_update_stands)

lemma update_total [simp]: "sha_total (sha256_update data s) = sha_total s + word_of_nat (length data)"
  by (simp add: sha256_update_def)

lemma stands_pending:
  assumes "stands_for m s"
  shows "sha_pending s = length m mod 64"
  using assms by (auto simp: stands_for_def holds_def)

text \<open>The padding loop ends, and has added exactly the zeros of the padding.\<close>

lemma mod_64_step:
  fixes l :: nat
  assumes "l mod 64 \<noteq> 56"
  shows "(120 - l mod 64) mod 64 = Suc ((120 - Suc l mod 64) mod 64)"
proof -
  let ?k = "l mod 64"
  have k: "?k < 64" "?k \<noteq> 56" using assms by auto
  have "Suc l mod 64 = (if Suc ?k = 64 then 0 else Suc ?k)" by (simp add: mod_Suc)
  moreover have "(120 - ?k) mod 64 = (if ?k > 56 then 120 - ?k else 56 - ?k)"
    using k by (auto simp: le_mod_geq)
  moreover have "(120 - j) mod 64 = (if j > 56 then 120 - j else 56 - j)" if "j < 64" for j :: nat
    using that by (auto simp: le_mod_geq)
  ultimately show ?thesis using k by auto
qed

lemma pad_loop_result:
  assumes "stands_for m s"
  shows "\<exists>s'. pad_loop s = Some s' \<and> stands_for (m @ replicate ((120 - length m mod 64) mod 64) 0) s'"
  using assms
proof (induction "(120 - length m mod 64) mod 64" arbitrary: m s)
  case 0
  have "length m mod 64 = 56"
  proof (rule ccontr)
    assume "length m mod 64 \<noteq> 56"
    from mod_64_step [OF this] "0.hyps" show False by simp
  qed
  then show ?case
    using "0.prems" stands_pending [OF "0.prems"]
    by (simp add: pad_loop_def while_option_unfold kShaBlockSize_def)
next
  case (Suc k)
  have ne: "length m mod 64 \<noteq> 56" using Suc.hyps(2) by auto
  have k: "k = (120 - length (m @ [0]) mod 64) mod 64"
    using mod_64_step [OF ne] Suc.hyps(2) by simp
  obtain s' where s': "pad_loop (sha256_update [0] s) = Some s'"
    "stands_for ((m @ [0]) @ replicate k 0) s'"
    using Suc.hyps(1) [OF k update_stands [OF Suc.prems, of "[0]"]] k by metis
  have "pad_loop s = pad_loop (sha256_update [0] s)"
    using ne stands_pending [OF Suc.prems] unfolding pad_loop_def
    by (subst while_option_unfold) (simp add: kShaBlockSize_def)
  then show ?case using s' Suc.hyps(2) by (metis append.assoc append_Cons append_Nil replicate_Suc)
qed

lemma finish_is_spec:
  assumes st: "stands_for m s" and total: "sha_total s = word_of_nat (length m)"
  shows "sha256_finish s = sha256_spec m"
proof -
  have s1: "stands_for (m @ [0x80]) (sha256_update [0x80] s)" using update_stands [OF st] .
  let ?z = "(119 - length m mod 64) mod 64"
  have z: "(120 - length (m @ [0x80 :: u8]) mod 64) mod 64 = ?z"
  proof -
    have "length m mod 64 < 64" by simp
    then show ?thesis by (cases "length m mod 64 = 63") (simp_all add: mod_Suc)
  qed
  obtain s2 where s2: "pad_loop (sha256_update [0x80] s) = Some s2"
      "stands_for ((m @ [0x80]) @ replicate ?z 0) s2"
    using pad_loop_result [OF s1] z by auto
  have mod: "length ((m @ [0x80 :: u8]) @ replicate ?z 0) mod 64 = 56"
  proof -
    let ?k = "length m mod 64"
    have "(119 - j) mod 64 = (if j > 55 then 119 - j else 55 - j)" if "j < 64" for j :: nat
      using that by (auto simp: le_mod_geq)
    then have "(?k + 1 + ?z) mod 64 = 56" by (cases "?k > 55") auto
    moreover have "(length m + (1 + ?z)) mod 64 = (?k + (1 + ?z)) mod 64" by (simp only: mod_add_left_eq)
    ultimately show ?thesis by (simp add: add.assoc)
  qed
  obtain full rest where fr: "(m @ [0x80]) @ replicate ?z 0 = full @ rest" "holds full rest s2"
    using s2(2) by (auto simp: stands_for_def)
  then obtain n where n: "length full = 64 * n" by (auto simp: holds_def)
  have rest: "length rest = 56"
    using stands_pending [OF s2(2)] fr(2) mod by (simp add: holds_def)
  then have blk: "take (kShaBlockSize - 8) (sha_block s2) = rest"
    using fr(2) by (simp add: holds_def kShaBlockSize_def)
  let ?bits = "be64 (sha_total s * 8)"
  have len: "length (rest @ ?bits) = 64" using rest by (simp add: be64_def)
  have "padded m = full @ rest @ ?bits"
    using fr(1) total by (simp add: padded_def mult.commute)
  then have "process sha_init (padded m) = process (process sha_init full) (rest @ ?bits)"
    using process_append [OF n] by simp
  also have "\<dots> = compress_block (sha_state s2) (rest @ ?bits)"
    using process_block [OF len, of _ "[]"] fr(2) by (simp add: process_short holds_def)
  finally show ?thesis
    using s2(1) blk by (simp add: sha256_finish_def Let_def sha256_compress_def sha256_spec_def)
qed

lemma updates_spec:
  "sha256_finish (fold sha256_update chunks new_sha) = sha256_spec (concat chunks)"
proof -
  have "stands_for (m @ concat chunks) (fold sha256_update chunks s) \<and>
      sha_total (fold sha256_update chunks s) = sha_total s + word_of_nat (length (concat chunks))"
    if "stands_for m s" for m s
    using that
  proof (induction chunks arbitrary: m s)
    case Nil
    then show ?case by simp
  next
    case (Cons c chunks)
    show ?case using Cons.IH [OF update_stands [OF Cons.prems, of c]] by (simp add: add.assoc)
  qed
  from this [OF stands_for_new] show ?thesis
    by (intro finish_is_spec) (simp_all add: new_sha_def)
qed

lemma length_compress [simp]: "length (compress_block st b) = 8"
  by (simp add: compress_block_def split: prod.split)

lemma length_process: "length st = 8 \<Longrightarrow> length (process st m) = 8"
  by (induction st m rule: process.induct) (simp add: process.simps)

lemma length_sha256_spec [simp]: "length (sha256_spec m) = 32"
proof -
  have "length (process sha_init (padded m)) = 8" by (rule length_process) (simp add: sha_init_def)
  then show ?thesis by (simp add: sha256_spec_def length_concat comp_def be32_def sum_list_triv)
qed

lemma hmac_is_spec: "hmac_sha256 key message = hmac_spec key message"
proof -
  have two: "sha256_finish (sha256_update b (sha256_update a new_sha)) = sha256_spec (a @ b)" for a b
    using updates_spec [of "[a, b]"] by simp
  have one: "sha256_finish (sha256_update a new_sha) = sha256_spec a" for a
    using updates_spec [of "[a]"] by simp
  show ?thesis
    by (simp add: hmac_sha256_def hmac_spec_def Let_def two one kShaBlockSize_def kShaDigestSize_def)
qed

lemma length_hmac_spec [simp]: "length (hmac_spec key message) = 32"
  by (simp add: hmac_spec_def Let_def)

section \<open>Properties\<close>

text \<open>C7: The streaming digest is SHA-256 of the whole message: feeding a message in any pieces and
  finishing gives the fold of the compression function over the blocks of the padded message, of
  any length, and the unbounded padding loop always ends.\<close>

theorem sha256_streaming_correct:
  "sha256_finish (fold sha256_update chunks new_sha) = sha256_spec (concat chunks) \<and>
   pad_loop (sha256_update [0x80] (fold sha256_update chunks new_sha)) \<noteq> None"
proof -
  have "stands_for (m @ concat chunks) (fold sha256_update chunks s)" if "stands_for m s" for m s
    using that
  proof (induction chunks arbitrary: m s)
    case (Cons c chunks)
    show ?case using Cons.IH [OF update_stands [OF Cons.prems, of c]] by simp
  qed simp
  from update_stands [OF this [OF stands_for_new]] pad_loop_result show ?thesis
    using updates_spec by blast
qed

text \<open>C8: \<open>hmac_sha256\<close> is HMAC as the standard defines it, for keys of every length: shorter
  keys are padded with zeros to a block, longer ones are replaced by their digest first.\<close>

theorem hmac_correct: "hmac_sha256 key message = hmac_spec key message"
  by (rule hmac_is_spec)

end
