(* ===== verification/Key_Store.thy ===== *)
theory Key_Store
  imports Sha256
begin

text \<open>
  \<^verbatim>\<open>lib/KeyStore/\<close>: the 96-octet key file, its checks in the order of the layout, and the
  object that holds the two keys.  The CRC is the protocol library's and a parameter \<open>crc\<close>; the
  SD card is what it answers: whether it is mounted, and the octets read of at most so many.
\<close>

section \<open>The layout\<close>

definition kFileSize :: nat where "kFileSize = 96"
definition kKeyLength :: nat where "kKeyLength = 16"
definition kSaltLength :: nat where "kSaltLength = 16"
definition kVerifyLength :: nat where "kVerifyLength = 8"

definition kFormatTwoKeys :: u8 where "kFormatTwoKeys = 2"
definition kCipherAes128Gcm :: u8 where "kCipherAes128Gcm = 0"
definition kKdfPbkdf2HmacSha256 :: u8 where "kKdfPbkdf2HmacSha256 = 1"

definition kOffMagic :: nat where "kOffMagic = 0"
definition kOffFormat :: nat where "kOffFormat = 8"
definition kOffCipher :: nat where "kOffCipher = 9"
definition kOffKdf :: nat where "kOffKdf = 10"
definition kOffIters :: nat where "kOffIters = 12"
definition kOffSalt :: nat where "kOffSalt = 16"
definition kOffKeyE :: nat where "kOffKeyE = 32"
definition kOffKeyL :: nat where "kOffKeyL = 48"
definition kOffVerifyE :: nat where "kOffVerifyE = 64"
definition kOffVerifyL :: nat where "kOffVerifyL = 72"
definition kOffCrc :: nat where "kOffCrc = 92"

lemmas layout_defs = kFileSize_def kKeyLength_def kSaltLength_def kVerifyLength_def kOffMagic_def
  kOffFormat_def kOffCipher_def kOffKdf_def kOffIters_def kOffSalt_def kOffKeyE_def kOffKeyL_def
  kOffVerifyE_def kOffVerifyL_def kOffCrc_def

definition kMagic :: bytes where
  "kMagic = [0x42, 0x54, 0x50, 0x4B, 0x45, 0x59, 0x00, 0x00]"

text \<open>\<open>"bally-canal-b"\<close> and \<open>"bally-canal-c"\<close>, without the terminating zero.\<close>

definition kVerifyLabelE :: bytes where
  "kVerifyLabelE = [0x62, 0x61, 0x6C, 0x6C, 0x79, 0x2D, 0x63, 0x61, 0x6E, 0x61, 0x6C, 0x2D, 0x62]"

definition kVerifyLabelL :: bytes where
  "kVerifyLabelL = [0x62, 0x61, 0x6C, 0x6C, 0x79, 0x2D, 0x63, 0x61, 0x6E, 0x61, 0x6C, 0x2D, 0x63]"

datatype key_error = KeOk | KeSize | KeMagic | KeFormat | KeCipher | KeKdf | KeCrc32 | KeVerifyE
  | KeVerifyL | KeFile

definition error_field :: "key_error \<Rightarrow> string" where
  "error_field e = (case e of KeOk \<Rightarrow> ''ok'' | KeSize \<Rightarrow> ''size'' | KeMagic \<Rightarrow> ''magic''
     | KeFormat \<Rightarrow> ''format'' | KeCipher \<Rightarrow> ''cipher'' | KeKdf \<Rightarrow> ''kdf'' | KeCrc32 \<Rightarrow> ''crc32''
     | KeVerifyE \<Rightarrow> ''verify_e'' | KeVerifyL \<Rightarrow> ''verify_l'' | KeFile \<Rightarrow> ''file'')"

record contents =
  iterations :: u32
  salt :: bytes
  c_key_e :: bytes
  c_key_l :: bytes
  c_verify_e :: bytes
  c_verify_l :: bytes

definition zero_contents :: contents where
  "zero_contents = \<lparr>iterations = 0, salt = replicate kSaltLength 0, c_key_e = replicate kKeyLength 0,
     c_key_l = replicate kKeyLength 0, c_verify_e = replicate kVerifyLength 0,
     c_verify_l = replicate kVerifyLength 0\<rparr>"

section \<open>Parsing\<close>

definition slice :: "nat \<Rightarrow> nat \<Rightarrow> bytes \<Rightarrow> bytes" where
  "slice off n data = take n (drop off data)"

definition read_u32_le :: "bytes \<Rightarrow> u32" where
  "read_u32_le d = ucast (d ! 0) OR push_bit 8 (ucast (d ! 1)) OR push_bit 16 (ucast (d ! 2)) OR
     push_bit 24 (ucast (d ! 3))"

definition equal_bytes :: "bytes \<Rightarrow> bytes \<Rightarrow> nat \<Rightarrow> bool" where
  "equal_bytes left right n \<longleftrightarrow> fold (\<lambda>i diff. diff OR (left ! i XOR right ! i)) [0..<n] (0 :: u8) = 0"

definition verify_tag_matches :: "bytes \<Rightarrow> bytes \<Rightarrow> bytes \<Rightarrow> bool" where
  "verify_tag_matches key label expected =
     equal_bytes (hmac_sha256 key label) expected (length expected)"

fun magic_differs :: "bytes \<Rightarrow> nat list \<Rightarrow> bool" where
  "magic_differs data [] = False"
| "magic_differs data (i # is) =
     (if data ! (kOffMagic + i) \<noteq> kMagic ! i then True else magic_differs data is)"

definition extract_contents :: "bytes \<Rightarrow> contents" where
  "extract_contents data = \<lparr>iterations = read_u32_le (drop kOffIters data),
     salt = slice kOffSalt kSaltLength data,
     c_key_e = slice kOffKeyE kKeyLength data, c_key_l = slice kOffKeyL kKeyLength data,
     c_verify_e = slice kOffVerifyE kVerifyLength data,
     c_verify_l = slice kOffVerifyL kVerifyLength data\<rparr>"

text \<open>The result and, when the checks pass, what is written to the output.\<close>

definition parse :: "(bytes \<Rightarrow> u32) \<Rightarrow> bytes option \<Rightarrow> key_error \<times> contents option" where
  "parse crc input =
     (case input of
        None \<Rightarrow> (KeSize, None)
      | Some data \<Rightarrow>
          if length data \<noteq> kFileSize then (KeSize, None)
          else if magic_differs data [0..<8] then (KeMagic, None)
          else if data ! kOffFormat \<noteq> kFormatTwoKeys then (KeFormat, None)
          else if data ! kOffCipher \<noteq> kCipherAes128Gcm then (KeCipher, None)
          else if data ! kOffKdf \<noteq> kKdfPbkdf2HmacSha256 then (KeKdf, None)
          else if crc (take kOffCrc data) \<noteq> read_u32_le (drop kOffCrc data) then (KeCrc32, None)
          else if \<not> verify_tag_matches (slice kOffKeyE kKeyLength data) kVerifyLabelE
                      (slice kOffVerifyE kVerifyLength data) then (KeVerifyE, None)
          else if \<not> verify_tag_matches (slice kOffKeyL kKeyLength data) kVerifyLabelL
                      (slice kOffVerifyL kVerifyLength data) then (KeVerifyL, None)
          else (KeOk, Some (extract_contents data)))"

section \<open>The store\<close>

record key_store =
  ks_contents :: contents
  ks_loaded :: bool
  ks_last_error :: key_error

definition new_key_store :: key_store where
  "new_key_store = \<lparr>ks_contents = zero_contents, ks_loaded = False, ks_last_error = KeOk\<rparr>"

definition unload :: "key_store \<Rightarrow> key_store" where
  "unload s = s\<lparr>ks_contents := zero_contents, ks_loaded := False\<rparr>"

definition load :: "(bytes \<Rightarrow> u32) \<Rightarrow> bytes option \<Rightarrow> key_store \<Rightarrow> bool \<times> key_store" where
  "load crc input s =
     (case parse crc input of
        (KeOk, out) \<Rightarrow>
          (True, s\<lparr>ks_contents := (case out of None \<Rightarrow> zero_contents | Some c \<Rightarrow> c),
             ks_loaded := True, ks_last_error := KeOk\<rparr>)
      | (e, out) \<Rightarrow> (False, (unload s)\<lparr>ks_last_error := e\<rparr>))"

definition key_e :: "key_store \<Rightarrow> bytes option" where
  "key_e s = (if ks_loaded s then Some (c_key_e (ks_contents s)) else None)"

definition key_l :: "key_store \<Rightarrow> bytes option" where
  "key_l s = (if ks_loaded s then Some (c_key_l (ks_contents s)) else None)"

definition verify_e :: "key_store \<Rightarrow> bytes option" where
  "verify_e s = (if ks_loaded s then Some (c_verify_e (ks_contents s)) else None)"

definition verify_l :: "key_store \<Rightarrow> bytes option" where
  "verify_l s = (if ks_loaded s then Some (c_verify_l (ks_contents s)) else None)"

text \<open>\<open>load_from_card\<close> reads one octet more than the format has.\<close>

definition load_from_card ::
    "(bytes \<Rightarrow> u32) \<Rightarrow> bool \<Rightarrow> (nat \<Rightarrow> bytes option) \<Rightarrow> key_store \<Rightarrow> bool \<times> key_store" where
  "load_from_card crc mounted read_file s =
     (if \<not> mounted then (False, (unload s)\<lparr>ks_last_error := KeFile\<rparr>)
      else case read_file (kFileSize + 1) of
        None \<Rightarrow> (False, (unload s)\<lparr>ks_last_error := KeFile\<rparr>)
      | Some octets \<Rightarrow> load crc (Some octets) s)"

section \<open>Lemmas\<close>

lemma or_zero_iff: "(a OR b :: u8) = 0 \<longleftrightarrow> a = 0 \<and> b = 0"
  by (rule or_eq_0_iff)

lemma xor_zero_iff: "(a XOR b :: u8) = 0 \<longleftrightarrow> a = b"
  by (metis xor.left_neutral xor.right_neutral xor_self_eq bit.xor_left_self)

lemma equal_bytes_fold:
  "fold (\<lambda>i diff. diff OR (l ! i XOR r ! i)) is (d :: u8) = 0 \<longleftrightarrow> d = 0 \<and> (\<forall>i \<in> set is. l ! i = r ! i)"
  by (induction "is" arbitrary: d) (auto simp: or_zero_iff xor_zero_iff)

lemma equal_bytes_iff:
  assumes "n \<le> length l" and "n \<le> length r"
  shows "equal_bytes l r n \<longleftrightarrow> take n l = take n r"
  using assms by (auto simp: equal_bytes_def equal_bytes_fold list_eq_iff_nth_eq)

lemma magic_differs_iff: "magic_differs data is \<longleftrightarrow> (\<exists>i \<in> set is. data ! (kOffMagic + i) \<noteq> kMagic ! i)"
  by (induction "is") auto

lemma magic_iff:
  assumes "length data = 96"
  shows "magic_differs data [0..<8] \<longleftrightarrow> take 8 data \<noteq> kMagic"
proof -
  have "length kMagic = 8" by (simp add: kMagic_def)
  then show ?thesis
    using assms by (auto simp: magic_differs_iff list_eq_iff_nth_eq kOffMagic_def)
qed

lemma verify_tag_iff:
  "length expected \<le> 32 \<Longrightarrow>
   verify_tag_matches key label expected \<longleftrightarrow> take (length expected) (hmac_spec key label) = expected"
  by (simp add: verify_tag_matches_def hmac_is_spec equal_bytes_iff)

lemma length_slice: "off + n \<le> length d \<Longrightarrow> length (slice off n d) = n"
  by (simp add: slice_def)

text \<open>The checks of the layout, in order, as the provisioning tool and the firmware agreed on them.\<close>

definition file_checks :: "(bytes \<Rightarrow> u32) \<Rightarrow> bytes \<Rightarrow> (key_error \<times> bool) list" where
  "file_checks crc d =
    [(KeSize, length d = 96),
     (KeMagic, take 8 d = kMagic),
     (KeFormat, d ! 8 = 2),
     (KeCipher, d ! 9 = 0),
     (KeKdf, d ! 10 = 1),
     (KeCrc32, crc (take 92 d) = read_u32_le (drop 92 d)),
     (KeVerifyE, take 8 (hmac_spec (slice 32 16 d) kVerifyLabelE) = slice 64 8 d),
     (KeVerifyL, take 8 (hmac_spec (slice 48 16 d) kVerifyLabelL) = slice 72 8 d)]"

fun first_failure :: "(key_error \<times> bool) list \<Rightarrow> key_error" where
  "first_failure [] = KeOk"
| "first_failure ((e, ok) # cs) = (if ok then first_failure cs else e)"

lemma parse_checks:
  "parse crc (Some d) =
     (first_failure (file_checks crc d),
      if first_failure (file_checks crc d) = KeOk then Some (extract_contents d) else None)"
proof (cases "length d = 96")
  case True
  have len: "length (slice 64 8 d) = 8" "length (slice 72 8 d) = 8"
    using True by (simp_all add: slice_def)
  show ?thesis
    unfolding parse_def file_checks_def
    by (simp add: True magic_iff [OF True] verify_tag_iff len layout_defs kFormatTwoKeys_def
        kCipherAes128Gcm_def kKdfPbkdf2HmacSha256_def)
next
  case False
  then show ?thesis by (simp add: parse_def file_checks_def kFileSize_def)
qed

lemma load_cases:
  "load crc input s =
     (if fst (parse crc input) = KeOk
      then (True, s\<lparr>ks_contents := (case snd (parse crc input) of None \<Rightarrow> zero_contents | Some c \<Rightarrow> c),
             ks_loaded := True, ks_last_error := KeOk\<rparr>)
      else (False, (unload s)\<lparr>ks_last_error := fst (parse crc input)\<rparr>))"
  by (simp add: load_def split: prod.split key_error.split)

section \<open>Properties\<close>

text \<open>The parser names the first check of the layout that fails, in the documented order (size,
  magic, format, cipher, key derivation, CRC, then the HMAC tag of either key), and hands out the
  contents exactly when none fails.\<close>

theorem parse_reports_first_failure:
  "fst (parse crc (Some d)) = first_failure (file_checks crc d) \<and>
   (snd (parse crc (Some d)) = (if first_failure (file_checks crc d) = KeOk then Some (extract_contents d) else None))"
  by (simp add: parse_checks)

text \<open>C9: Loading fails closed: it succeeds exactly when the file passes every check, then the two
  keys are the octets of the file at their offsets; otherwise, whatever was loaded before, no key
  can be reached, the storage is zero, and the failing field is remembered.\<close>

theorem load_fails_closed:
  "fst (load crc (Some d) s) = (first_failure (file_checks crc d) = KeOk) \<and>
   key_e (snd (load crc (Some d) s)) =
     (if first_failure (file_checks crc d) = KeOk then Some (slice 32 16 d) else None) \<and>
   key_l (snd (load crc (Some d) s)) =
     (if first_failure (file_checks crc d) = KeOk then Some (slice 48 16 d) else None) \<and>
   ks_contents (snd (load crc (Some d) s)) =
     (if first_failure (file_checks crc d) = KeOk then extract_contents d else zero_contents) \<and>
   ks_last_error (snd (load crc (Some d) s)) = first_failure (file_checks crc d)"
  by (simp add: load_cases parse_checks key_e_def key_l_def unload_def extract_contents_def layout_defs)

end
