(* ===== verification/Bounded_Fifo.thy ===== *)
theory Bounded_Fifo
  imports Prelude
begin

text \<open>
  The interface of the queues of fixed capacity in the firmware: the frame queues of the
  transmit scheduler and the record ring of the logger.  A client enqueues at one end, dequeues
  at the other, and reads the number of entries.  The laws say that the queue is a list of at
  most \<open>cap\<close> entries; the lemmas are proved once here, from the laws alone.
\<close>

text \<open>A client's calls, and what they answer.\<close>

datatype 'a fifo_op = Enq 'a | Deq

fun fifo_run ::
    "('a \<Rightarrow> 'q \<Rightarrow> 'q option) \<Rightarrow> ('q \<Rightarrow> ('a \<times> 'q) option) \<Rightarrow> 'a fifo_op list \<Rightarrow> 'q \<Rightarrow>
     'a list \<times> 'a list \<times> 'q" where
  "fifo_run enq deq [] q = ([], [], q)"
| "fifo_run enq deq (Enq x # ops) q =
     (case enq x q of
        None \<Rightarrow> fifo_run enq deq ops q
      | Some q' \<Rightarrow> (case fifo_run enq deq ops q' of (ins, outs, r) \<Rightarrow> (x # ins, outs, r)))"
| "fifo_run enq deq (Deq # ops) q =
     (case deq q of
        None \<Rightarrow> fifo_run enq deq ops q
      | Some (y, q') \<Rightarrow> (case fifo_run enq deq ops q' of (ins, outs, r) \<Rightarrow> (ins, y # outs, r)))"

locale bounded_fifo =
  fixes inv :: "'q \<Rightarrow> bool"
    and abs :: "'q \<Rightarrow> 'a list"
    and cap :: nat
    and enq :: "'a \<Rightarrow> 'q \<Rightarrow> 'q option"
    and deq :: "'q \<Rightarrow> ('a \<times> 'q) option"
    and valid :: "'a \<Rightarrow> bool"
  assumes bounded: "inv q \<Longrightarrow> length (abs q) \<le> cap"
    and enq_full: "inv q \<Longrightarrow> length (abs q) = cap \<Longrightarrow> enq x q = None"
    and enq_room: "inv q \<Longrightarrow> length (abs q) < cap \<Longrightarrow> valid x \<Longrightarrow>
          \<exists>q'. enq x q = Some q' \<and> inv q' \<and> abs q' = abs q @ [x]"
    and deq_empty: "inv q \<Longrightarrow> abs q = [] \<Longrightarrow> deq q = None"
    and deq_head: "inv q \<Longrightarrow> abs q = x # xs \<Longrightarrow> \<exists>q'. deq q = Some (x, q') \<and> inv q' \<and> abs q' = xs"
begin

lemma enq_iff: "inv q \<Longrightarrow> valid x \<Longrightarrow> enq x q = None \<longleftrightarrow> length (abs q) = cap"
  using bounded [of q] enq_full [of q x] enq_room [of q x] by (metis le_neq_implies_less option.distinct(1))

lemma enq_some: "inv q \<Longrightarrow> valid x \<Longrightarrow> enq x q = Some q' \<Longrightarrow> inv q' \<and> abs q' = abs q @ [x]"
  using bounded [of q] enq_full [of q x] enq_room [of q x]
  by (metis le_neq_implies_less option.distinct(1) option.inject)

lemma deq_iff: "inv q \<Longrightarrow> deq q = None \<longleftrightarrow> abs q = []"
  using deq_empty [of q] deq_head [of q] by (cases "abs q") auto

lemma deq_some: "inv q \<Longrightarrow> deq q = Some (x, q') \<Longrightarrow> inv q' \<and> abs q = x # abs q'"
  using deq_empty [of q] deq_head [of q] by (cases "abs q") auto

text \<open>First in, first out, over any sequence of calls: what came out, followed by what is still
  inside, is what was inside followed by what was accepted.\<close>

lemma in_order:
  assumes "inv q" and "\<And>x. Enq x \<in> set ops \<Longrightarrow> valid x"
    and "fifo_run enq deq ops q = (ins, outs, r)"
  shows "inv r \<and> abs q @ ins = outs @ abs r"
  using assms
proof (induction ops arbitrary: q ins outs r)
  case Nil
  then show ?case by simp
next
  case (Cons op ops)
  show ?case
  proof (cases op)
    case (Enq x)
    show ?thesis
    proof (cases "enq x q")
      case None
      then show ?thesis using Cons Enq by simp
    next
      case (Some q')
      then have q': "inv q'" "abs q' = abs q @ [x]" using enq_some Cons.prems Enq by auto
      obtain i out r' where run: "fifo_run enq deq ops q' = (i, out, r')" by (metis prod_cases3)
      have "inv r' \<and> abs q' @ i = out @ abs r'"
        by (rule Cons.IH [OF q'(1) _ run]) (use Cons.prems(2) in auto)
      then show ?thesis using Cons.prems(3) Enq Some run q'(2) by auto
    qed
  next
    case Deq
    show ?thesis
    proof (cases "deq q")
      case None
      then show ?thesis using Cons Deq by simp
    next
      case (Some p)
      obtain y q' where p: "p = (y, q')" by (cases p)
      then have q': "inv q'" "abs q = y # abs q'" using deq_some Cons.prems Some by auto
      obtain i out r' where run: "fifo_run enq deq ops q' = (i, out, r')" by (metis prod_cases3)
      have "inv r' \<and> abs q' @ i = out @ abs r'"
        by (rule Cons.IH [OF q'(1) _ run]) (use Cons.prems(2) in auto)
      then show ?thesis using Cons.prems(3) Deq Some p run q'(2) by auto
    qed
  qed
qed

end

section \<open>A ring of slots\<close>

text \<open>The list a ring of \<open>cap\<close> slots stands for: \<open>n\<close> entries from slot \<open>r\<close> on, wrapping around.\<close>

definition ring_list :: "nat \<Rightarrow> 'a list \<Rightarrow> nat \<Rightarrow> nat \<Rightarrow> 'a list" where
  "ring_list cap xs r n = map (\<lambda>i. xs ! ((r + i) mod cap)) [0..<n]"

lemma length_ring_list [simp]: "length (ring_list cap xs r n) = n"
  by (simp add: ring_list_def)

lemma ring_list_0 [simp]: "ring_list cap xs r 0 = []"
  by (simp add: ring_list_def)

lemma ring_list_Suc_front:
  "r < cap \<Longrightarrow> ring_list cap xs r (Suc n) = xs ! r # ring_list cap xs ((r + 1) mod cap) n"
proof -
  assume "r < cap"
  have "map (\<lambda>i. xs ! ((r + i) mod cap)) [0..<Suc n] =
      xs ! ((r + 0) mod cap) # map (\<lambda>i. xs ! ((r + Suc i) mod cap)) [0..<n]"
    by (subst upt_conv_Cons) (simp_all add: map_Suc_upt [symmetric] del: upt_Suc)
  also have "\<dots> = xs ! r # map (\<lambda>i. xs ! (((r + 1) mod cap + i) mod cap)) [0..<n]"
    using \<open>r < cap\<close> by (simp add: mod_add_left_eq)
  finally show ?thesis by (simp add: ring_list_def)
qed

lemma ring_list_store:
  assumes "n < cap" and "cap \<le> length xs"
  shows "ring_list cap (xs[(r + n) mod cap := x]) r (Suc n) = ring_list cap xs r n @ [x]"
proof -
  have "(r + n) mod cap \<noteq> (r + i) mod cap" if "i < n" for i
    using mod_add_left_inj [of n cap i r] that assms(1) by auto
  moreover have "(r + n) mod cap < length xs"
    using assms mod_less_divisor [of cap "r + n"] by linarith
  ultimately show ?thesis by (simp add: ring_list_def)
qed

end
