(* ===== verification/Tx_Scheduler.thy ===== *)
theory Tx_Scheduler
  imports Bounded_Fifo
begin

text \<open>
  \<^verbatim>\<open>lib/TxScheduler/\<close>: six queues of encoded frames in front of the radio.  \<open>pump\<close> hands the
  radio at most one frame at a time and waits for its delivery callback or a timeout;
  \<open>pump_telemetry\<close> drains the telemetry queue without waiting.

  The protocol library is not part of the sources: its frame decoder and its two size limits are
  the record \<open>btp_codec\<close>.  A radio callback is a function over the rest of the world \<open>'w\<close> that
  answers whether the driver took the frame, and whether the delivery callback ran before the
  driver returned, and with which result.
\<close>

section \<open>Frames\<close>

text \<open>The message types of the protocol the sources name, and the others.\<close>

datatype message_type = MtCommand | MtControl | MtTerminal | MtLog | MtTelemetry | MtOther u8

record decoded_frame =
  df_type :: message_type
  df_object_id :: u16

record btp_codec =
  bc_decode :: "bytes \<Rightarrow> decoded_frame option"
  bc_min_frame :: nat
  bc_max_frame :: nat

record encoded_frame =
  ef_size :: u16
  ef_bytes :: bytes

definition empty_frame :: "nat \<Rightarrow> encoded_frame" where
  "empty_frame n = \<lparr>ef_size = 0, ef_bytes = replicate n 0\<rparr>"

text \<open>What a frame hands to the radio: the first \<open>size\<close> bytes of its buffer.\<close>

definition frame_data :: "encoded_frame \<Rightarrow> bytes" where
  "frame_data f = take (unat (ef_size f)) (ef_bytes f)"

section \<open>Priorities and queues\<close>

datatype priority = CommandResult | Status | Terminal | CriticalLog | Telemetry | Debug

definition priorities :: "priority list" where
  "priorities = [CommandResult, Status, Terminal, CriticalLog, Telemetry, Debug]"

fun kQueueCapacity :: "priority \<Rightarrow> nat" where
  "kQueueCapacity CommandResult = 8"
| "kQueueCapacity Status = 16"
| "kQueueCapacity Terminal = 16"
| "kQueueCapacity CriticalLog = 8"
| "kQueueCapacity Telemetry = 16"
| "kQueueCapacity Debug = 8"

definition kMaxCapacity :: nat where "kMaxCapacity = 16"

record tx_queue =
  tq_frames :: "encoded_frame list"
  tq_read :: nat
  tq_write :: nat
  tq_count :: nat
  tq_lock :: bool

definition empty_queue :: "nat \<Rightarrow> tx_queue" where
  "empty_queue n = \<lparr>tq_frames = replicate kMaxCapacity (empty_frame n), tq_read = 0, tq_write = 0,
     tq_count = 0, tq_lock = False\<rparr>"

definition classify :: "decoded_frame \<Rightarrow> priority" where
  "classify f =
     (if df_type f = MtCommand \<and> df_object_id f = 2 then CommandResult
      else if df_type f = MtControl then Status
      else if df_type f = MtTerminal then Terminal
      else if df_type f = MtLog \<and> (df_object_id f = 2 \<or> df_object_id f = 3) then CriticalLog
      else if df_type f = MtTelemetry then Telemetry
      else Debug)"

text \<open>The part of \<open>enqueue\<close> and of \<open>pop\<close> that runs under the lock of one queue.\<close>

definition queue_push :: "nat \<Rightarrow> bytes \<Rightarrow> tx_queue \<Rightarrow> tx_queue option" where
  "queue_push cap data q =
     (if tq_count q \<ge> cap then None
      else let f = tq_frames q ! tq_write q in
        Some (q\<lparr>tq_frames := (tq_frames q)[tq_write q :=
                   \<lparr>ef_size = word_of_nat (length data),
                    ef_bytes = data @ drop (length data) (ef_bytes f)\<rparr>],
                tq_write := (tq_write q + 1) mod cap,
                tq_count := tq_count q + 1\<rparr>))"

definition queue_pop :: "nat \<Rightarrow> tx_queue \<Rightarrow> (encoded_frame \<times> tx_queue) option" where
  "queue_pop cap q =
     (if tq_count q = 0 then None
      else Some (tq_frames q ! tq_read q,
                 q\<lparr>tq_read := (tq_read q + 1) mod cap, tq_count := tq_count q - 1\<rparr>))"

section \<open>The scheduler\<close>

definition kDefaultDeliveryTimeoutMs :: u64 where "kDefaultDeliveryTimeoutMs = 250"

type_synonym 'w radio = "bytes \<Rightarrow> 'w \<Rightarrow> (bool \<times> bool option) \<times> 'w"

record 'w tx =
  tx_queues :: "priority \<Rightarrow> tx_queue"
  tx_radio :: "'w radio option"
  tx_timeout_ms :: u64
  tx_telemetry_radio :: "'w radio option"
  tx_telemetry_sent :: u32
  tx_telemetry_dropped :: u32
  tx_pending :: encoded_frame
  tx_pending_since_ms :: u64
  tx_awaiting :: bool
  tx_event :: u8
  tx_accepted :: u32
  tx_delivered :: u32
  tx_timeouts :: u32
  tx_dropped :: u32
  tx_delivery_failed :: u32
  tx_queued_by :: "priority \<Rightarrow> u32"
  tx_dropped_by :: "priority \<Rightarrow> u32"
  tx_world :: 'w

definition new_tx :: "nat \<Rightarrow> 'w \<Rightarrow> 'w tx" where
  "new_tx n w = \<lparr>tx_queues = (\<lambda>_. empty_queue n), tx_radio = None,
     tx_timeout_ms = kDefaultDeliveryTimeoutMs, tx_telemetry_radio = None, tx_telemetry_sent = 0,
     tx_telemetry_dropped = 0, tx_pending = empty_frame n, tx_pending_since_ms = 0,
     tx_awaiting = False, tx_event = 0, tx_accepted = 0, tx_delivered = 0, tx_timeouts = 0,
     tx_dropped = 0, tx_delivery_failed = 0, tx_queued_by = (\<lambda>_. 0), tx_dropped_by = (\<lambda>_. 0),
     tx_world = w\<rparr>"

definition tx_configure :: "'w radio option \<Rightarrow> u64 \<Rightarrow> 'w tx \<Rightarrow> 'w tx" where
  "tx_configure cb timeout s = s\<lparr>tx_radio := cb,
     tx_timeout_ms := (if timeout = 0 then kDefaultDeliveryTimeoutMs else timeout)\<rparr>"

definition configure_telemetry :: "'w radio option \<Rightarrow> 'w tx \<Rightarrow> 'w tx" where
  "configure_telemetry cb s = s\<lparr>tx_telemetry_radio := cb\<rparr>"

definition count_drop :: "'w tx \<Rightarrow> 'w tx" where
  "count_drop s = s\<lparr>tx_dropped := tx_dropped s + 1\<rparr>"

definition count_drop_at :: "priority \<Rightarrow> 'w tx \<Rightarrow> 'w tx" where
  "count_drop_at p s = s\<lparr>tx_dropped := tx_dropped s + 1,
     tx_dropped_by := (tx_dropped_by s)(p := tx_dropped_by s p + 1)\<rparr>"

definition set_queue :: "priority \<Rightarrow> tx_queue \<Rightarrow> 'w tx \<Rightarrow> 'w tx" where
  "set_queue p q s = s\<lparr>tx_queues := (tx_queues s)(p := q)\<rparr>"

definition enqueue :: "btp_codec \<Rightarrow> bytes option \<Rightarrow> 'w tx \<Rightarrow> bool \<times> 'w tx" where
  "enqueue btp input s =
     (case input of
        None \<Rightarrow> (False, count_drop s)
      | Some data \<Rightarrow>
          if length data < bc_min_frame btp \<or> length data > bc_max_frame btp then (False, count_drop s)
          else case bc_decode btp data of
            None \<Rightarrow> (False, count_drop s)
          | Some decoded \<Rightarrow>
              let p = classify decoded; q = tx_queues s p in
              if tq_lock q then (False, count_drop_at p s)
              else case queue_push (kQueueCapacity p) data q of
                None \<Rightarrow> (False, count_drop_at p s)
              | Some q' \<Rightarrow>
                  (True, (set_queue p q' s)\<lparr>tx_accepted := tx_accepted s + 1,
                     tx_queued_by := (tx_queued_by s)(p := tx_queued_by s p + 1)\<rparr>))"

text \<open>The adapter installed as the protocol endpoint's send callback.\<close>

definition enqueue_callback :: "btp_codec \<Rightarrow> bytes option \<Rightarrow> 'w tx option \<Rightarrow> bool \<times> 'w tx option" where
  "enqueue_callback btp data context =
     (case context of None \<Rightarrow> (False, None)
      | Some s \<Rightarrow> (case enqueue btp data s of (ok, s') \<Rightarrow> (ok, Some s')))"

definition tx_pop :: "priority \<Rightarrow> 'w tx \<Rightarrow> (encoded_frame \<times> 'w tx) option" where
  "tx_pop p s =
     (if tq_lock (tx_queues s p) then None
      else case queue_pop (kQueueCapacity p) (tx_queues s p) of
        None \<Rightarrow> None
      | Some (f, q') \<Rightarrow> Some (f, set_queue p q' s))"

definition on_delivery :: "bool \<Rightarrow> 'w tx \<Rightarrow> 'w tx" where
  "on_delivery delivered s =
     (if \<not> tx_awaiting s then s else s\<lparr>tx_event := (if delivered then 1 else 2)\<rparr>)"

text \<open>The first part of \<open>pump\<close>: settle the frame in flight; \<open>False\<close> when it is still waited for.\<close>

definition settle :: "u64 \<Rightarrow> 'w tx \<Rightarrow> bool \<times> 'w tx" where
  "settle now s =
     (if \<not> tx_awaiting s then (True, s)
      else let event = tx_event s; s0 = s\<lparr>tx_event := 0\<rparr> in
        if event = 1 then
          (True, s0\<lparr>tx_awaiting := False, tx_delivered := tx_delivered s + 1\<rparr>)
        else if event = 2 then
          (True, s0\<lparr>tx_awaiting := False, tx_dropped := tx_dropped s + 1,
             tx_delivery_failed := tx_delivery_failed s + 1\<rparr>)
        else if now - tx_pending_since_ms s \<ge> tx_timeout_ms s then
          (True, s0\<lparr>tx_awaiting := False, tx_timeouts := tx_timeouts s + 1,
             tx_dropped := tx_dropped s + 1\<rparr>)
        else (False, s0))"

fun pop_first :: "priority list \<Rightarrow> 'w tx \<Rightarrow> (encoded_frame \<times> 'w tx) option" where
  "pop_first [] s = None"
| "pop_first (p # ps) s =
     (if p = Telemetry then pop_first ps s
      else case tx_pop p s of None \<Rightarrow> pop_first ps s | Some r \<Rightarrow> Some r)"

text \<open>The last part: hand \<open>pending_\<close> to the radio.\<close>

definition transmit :: "u64 \<Rightarrow> 'w radio \<Rightarrow> encoded_frame \<Rightarrow> 'w tx \<Rightarrow> bool \<times> 'w tx" where
  "transmit now radio f s =
     (let s1 = s\<lparr>tx_pending := f, tx_awaiting := True, tx_pending_since_ms := now, tx_event := 0\<rparr> in
      case radio (frame_data f) (tx_world s1) of ((ok, early), w) \<Rightarrow>
        let s2 = s1\<lparr>tx_world := w\<rparr>;
            s3 = (case early of None \<Rightarrow> s2 | Some r \<Rightarrow> on_delivery r s2) in
        if ok then (True, s3)
        else (False, s3\<lparr>tx_awaiting := False, tx_dropped := tx_dropped s3 + 1\<rparr>))"

definition pump :: "u64 \<Rightarrow> 'w tx \<Rightarrow> bool \<times> 'w tx" where
  "pump now s =
     (case settle now s of
        (False, s1) \<Rightarrow> (False, s1)
      | (True, s1) \<Rightarrow>
          (case tx_radio s1 of
             None \<Rightarrow> (False, s1)
           | Some radio \<Rightarrow>
               (case pop_first priorities s1 of
                  None \<Rightarrow> (False, s1)
                | Some (f, s2) \<Rightarrow> transmit now radio f s2)))"

text \<open>The telemetry lane.  Delivery callbacks of other frames may still arrive while it sends.\<close>

lemma tx_pop_count:
  "tx_pop p s = Some (f, s') \<Longrightarrow> tq_count (tx_queues s' p) < tq_count (tx_queues s p)"
  by (auto simp: tx_pop_def queue_pop_def set_queue_def split: if_splits option.splits)

definition after_send :: "bool option \<Rightarrow> 'w \<Rightarrow> 'w tx \<Rightarrow> 'w tx" where
  "after_send early w s =
     (case early of None \<Rightarrow> s\<lparr>tx_world := w\<rparr> | Some r \<Rightarrow> on_delivery r (s\<lparr>tx_world := w\<rparr>))"

lemma after_send_queues [simp]: "tx_queues (after_send e w s) = tx_queues s"
  by (simp add: after_send_def on_delivery_def split: option.split)

function drain_telemetry :: "'w radio \<Rightarrow> bool \<Rightarrow> 'w tx \<Rightarrow> bool \<times> 'w tx" where
  "drain_telemetry radio sent_any s =
     (case tx_pop Telemetry s of
        None \<Rightarrow> (sent_any, s)
      | Some (f, s1) \<Rightarrow>
          (case radio (frame_data f) (tx_world s1) of ((ok, early), w) \<Rightarrow>
             let s2 = after_send early w s1 in
             if \<not> ok then (sent_any, s2\<lparr>tx_telemetry_dropped := tx_telemetry_dropped s2 + 1\<rparr>)
             else drain_telemetry radio True (s2\<lparr>tx_telemetry_sent := tx_telemetry_sent s2 + 1\<rparr>)))"
  by pat_completeness auto
termination
  by (relation "measure (\<lambda>(radio, sent_any, s). tq_count (tx_queues s Telemetry))")
     (auto dest: tx_pop_count)

declare drain_telemetry.simps [simp del]

definition pump_telemetry :: "'w tx \<Rightarrow> bool \<times> 'w tx" where
  "pump_telemetry s =
     (case tx_telemetry_radio s of None \<Rightarrow> (False, s) | Some radio \<Rightarrow> drain_telemetry radio False s)"

definition queued_count :: "priority \<Rightarrow> 'w tx \<Rightarrow> nat" where
  "queued_count p s = (if tq_lock (tx_queues s p) then 0 else tq_count (tx_queues s p))"

definition tx_idle :: "'w tx \<Rightarrow> bool" where
  "tx_idle s \<longleftrightarrow> \<not> tx_awaiting s \<and> list_all (\<lambda>p. queued_count p s = 0) priorities"

record tx_stats =
  ts_accepted :: u32
  ts_delivered :: u32
  ts_timeouts :: u32
  ts_dropped :: u32
  ts_delivery_failed :: u32
  ts_queued_by :: "u32 list"
  ts_dropped_by :: "u32 list"
  ts_telemetry_sent :: u32
  ts_telemetry_dropped :: u32

definition stats :: "'w tx \<Rightarrow> tx_stats" where
  "stats s = \<lparr>ts_accepted = tx_accepted s, ts_delivered = tx_delivered s,
     ts_timeouts = tx_timeouts s, ts_dropped = tx_dropped s,
     ts_delivery_failed = tx_delivery_failed s, ts_queued_by = map (tx_queued_by s) priorities,
     ts_dropped_by = map (tx_dropped_by s) priorities, ts_telemetry_sent = tx_telemetry_sent s,
     ts_telemetry_dropped = tx_telemetry_dropped s\<rparr>"

section \<open>A queue is a bounded first-in first-out list\<close>

definition queue_ok :: "nat \<Rightarrow> nat \<Rightarrow> tx_queue \<Rightarrow> bool" where
  "queue_ok cap mx q \<longleftrightarrow> 0 < cap \<and> cap \<le> kMaxCapacity \<and> mx < 65536 \<and>
     length (tq_frames q) = kMaxCapacity \<and> tq_read q < cap \<and> tq_count q \<le> cap \<and>
     tq_write q = (tq_read q + tq_count q) mod cap \<and>
     (\<forall>f \<in> set (tq_frames q). length (ef_bytes f) = mx)"

definition queue_list :: "nat \<Rightarrow> tx_queue \<Rightarrow> bytes list" where
  "queue_list cap q = map frame_data (ring_list cap (tq_frames q) (tq_read q) (tq_count q))"

definition queue_take :: "nat \<Rightarrow> tx_queue \<Rightarrow> (bytes \<times> tx_queue) option" where
  "queue_take cap q = map_option (\<lambda>(f, q'). (frame_data f, q')) (queue_pop cap q)"

lemma length_queue_list [simp]: "length (queue_list cap q) = tq_count q"
  by (simp add: queue_list_def)

lemma queue_ok_empty [inv_intros]:
  "0 < cap \<Longrightarrow> cap \<le> 16 \<Longrightarrow> mx < 65536 \<Longrightarrow> queue_ok cap mx (empty_queue mx)"
  by (auto simp: queue_ok_def empty_queue_def kMaxCapacity_def empty_frame_def)

lemma queue_list_empty [simp]: "queue_list cap (empty_queue mx) = []"
  by (simp add: queue_list_def empty_queue_def)

lemma frame_data_stored:
  assumes "length data \<le> mx" and "mx < 65536"
  shows "frame_data \<lparr>ef_size = word_of_nat (length data), ef_bytes = data @ rest\<rparr> = data"
proof -
  have "unat (word_of_nat (length data) :: u16) = length data"
    using assms by (simp add: unat_of_nat take_bit_nat_eq_self)
  then show ?thesis by (simp add: frame_data_def)
qed

lemma queue_push_room:
  assumes ok: "queue_ok cap mx q" and room: "tq_count q < cap" and len: "length data \<le> mx"
  shows "\<exists>q'. queue_push cap data q = Some q' \<and> queue_ok cap mx q' \<and>
    queue_list cap q' = queue_list cap q @ [data]"
proof -
  let ?f = "tq_frames q ! tq_write q"
  let ?g = "\<lparr>ef_size = word_of_nat (length data), ef_bytes = data @ drop (length data) (ef_bytes ?f)\<rparr>
    :: encoded_frame"
  let ?q = "q\<lparr>tq_frames := (tq_frames q)[tq_write q := ?g], tq_write := (tq_write q + 1) mod cap,
    tq_count := tq_count q + 1\<rparr>"
  have cap: "0 < cap" "cap \<le> length (tq_frames q)" and mx: "mx < 65536"
    and w: "tq_write q = (tq_read q + tq_count q) mod cap"
    using ok by (auto simp: queue_ok_def)
  have wl: "tq_write q < length (tq_frames q)"
    using w cap mod_less_divisor [of cap "tq_read q + tq_count q"] by linarith
  have flen: "length (ef_bytes ?f) = mx" using ok wl by (simp add: queue_ok_def)
  have push: "queue_push cap data q = Some ?q" using room by (simp add: queue_push_def)
  have "queue_ok cap mx ?q"
    using ok room len flen w
    by (auto simp: queue_ok_def mod_add_left_eq mod_Suc_eq dest: set_update_subset_insert [THEN subsetD])
  moreover have "queue_list cap ?q = queue_list cap q @ [data]"
    using ring_list_store [OF room cap(2), of "tq_read q" ?g] frame_data_stored [OF len mx] w
    by (simp add: queue_list_def)
  ultimately show ?thesis using push by blast
qed

lemma queue_take_head:
  assumes "queue_ok cap mx q" and "queue_list cap q = x # xs"
  shows "\<exists>q'. queue_take cap q = Some (x, q') \<and> queue_ok cap mx q' \<and> queue_list cap q' = xs"
proof -
  obtain n where n: "tq_count q = Suc n"
    using assms(2) length_queue_list [of cap q] by (metis length_Cons)
  have r: "tq_read q < cap" using assms(1) by (simp add: queue_ok_def)
  let ?q = "q\<lparr>tq_read := (tq_read q + 1) mod cap, tq_count := tq_count q - 1\<rparr>"
  have x: "x = frame_data (tq_frames q ! tq_read q)" "queue_list cap ?q = xs"
    using assms(2) n ring_list_Suc_front [OF r, of "tq_frames q" n] by (auto simp: queue_list_def)
  moreover have "queue_ok cap mx ?q"
    using assms(1) n r by (auto simp: queue_ok_def mod_add_left_eq)
  moreover have "queue_take cap q = Some (frame_data (tq_frames q ! tq_read q), ?q)"
    using n by (simp add: queue_take_def queue_pop_def)
  ultimately show ?thesis by blast
qed

interpretation txq: bounded_fifo "queue_ok cap mx" "queue_list cap" cap "queue_push cap" "queue_take cap"
  "\<lambda>data. length data \<le> mx" for cap mx
proof
  fix q x xs
  assume ok: "queue_ok cap mx q"
  show "length (queue_list cap q) \<le> cap" using ok by (simp add: queue_ok_def)
  show "length (queue_list cap q) = cap \<Longrightarrow> queue_push cap x q = None" by (simp add: queue_push_def)
  show "length (queue_list cap q) < cap \<Longrightarrow> length x \<le> mx \<Longrightarrow> \<exists>q'. queue_push cap x q = Some q' \<and>
      queue_ok cap mx q' \<and> queue_list cap q' = queue_list cap q @ [x]"
    using queue_push_room [OF ok] by simp
  show "queue_list cap q = [] \<Longrightarrow> queue_take cap q = None"
    by (simp add: queue_take_def queue_pop_def queue_list_def ring_list_def)
  show "queue_list cap q = x # xs \<Longrightarrow> \<exists>q'. queue_take cap q = Some (x, q') \<and> queue_ok cap mx q' \<and>
      queue_list cap q' = xs"
    using queue_take_head [OF ok] by simp
qed

section \<open>The scheduler's queues\<close>

definition tx_ok :: "nat \<Rightarrow> 'w tx \<Rightarrow> bool" where
  "tx_ok mx s \<longleftrightarrow> (\<forall>p. queue_ok (kQueueCapacity p) mx (tx_queues s p))"

definition lane :: "priority \<Rightarrow> 'w tx \<Rightarrow> bytes list" where
  "lane p s = queue_list (kQueueCapacity p) (tx_queues s p)"

lemma capacity_range: "0 < kQueueCapacity p \<and> kQueueCapacity p \<le> 16"
  by (cases p) simp_all

lemma tx_ok_new [inv_intros]: "mx < 65536 \<Longrightarrow> tx_ok mx (new_tx mx w)"
  using capacity_range by (simp add: tx_ok_def new_tx_def queue_ok_empty)

lemma set_queue_simps [simp, frame_simps]:
  "tx_queues (set_queue p q s) = (tx_queues s)(p := q)" "tx_world (set_queue p q s) = tx_world s"
  "tx_awaiting (set_queue p q s) = tx_awaiting s" "tx_event (set_queue p q s) = tx_event s"
  "tx_radio (set_queue p q s) = tx_radio s" "tx_dropped (set_queue p q s) = tx_dropped s"
  "tx_delivered (set_queue p q s) = tx_delivered s" "tx_timeouts (set_queue p q s) = tx_timeouts s"
  "tx_telemetry_sent (set_queue p q s) = tx_telemetry_sent s"
  "tx_telemetry_dropped (set_queue p q s) = tx_telemetry_dropped s"
  "tx_pending_since_ms (set_queue p q s) = tx_pending_since_ms s"
  "tx_timeout_ms (set_queue p q s) = tx_timeout_ms s"
  by (simp_all add: set_queue_def)

lemma tx_pop_none_iff:
  assumes "tx_ok mx s" and "\<not> tq_lock (tx_queues s p)"
  shows "tx_pop p s = None \<longleftrightarrow> lane p s = []"
  using assms txq.deq_iff [of "kQueueCapacity p" mx "tx_queues s p"]
  by (auto simp: tx_pop_def lane_def tx_ok_def queue_take_def split: option.splits)

lemma tx_pop_some:
  assumes "tx_ok mx s" and "tx_pop p s = Some (f, s')"
  shows "tx_ok mx s'" and "lane p s = frame_data f # lane p s'"
    and "\<exists>q. s' = set_queue p q s \<and> tq_lock q = tq_lock (tx_queues s p)"
proof -
  obtain q' where pop: "queue_pop (kQueueCapacity p) (tx_queues s p) = Some (f, q')"
    and s': "s' = set_queue p q' s"
    using assms(2) by (auto simp: tx_pop_def split: if_splits option.splits)
  have q: "queue_ok (kQueueCapacity p) mx (tx_queues s p)" using assms(1) by (simp add: tx_ok_def)
  have tk: "queue_take (kQueueCapacity p) (tx_queues s p) = Some (frame_data f, q')"
    using pop by (simp add: queue_take_def)
  note r = txq.deq_some [OF q tk]
  show "tx_ok mx s'" using assms(1) r s' by (simp add: tx_ok_def)
  show "lane p s = frame_data f # lane p s'" using r s' by (simp add: lane_def)
  have "tq_lock q' = tq_lock (tx_queues s p)"
    using pop by (auto simp: queue_pop_def split: if_splits)
  with s' show "\<exists>q. s' = set_queue p q s \<and> tq_lock q = tq_lock (tx_queues s p)" by blast
qed

lemma pop_first_some:
  assumes "tx_ok mx s" and "p \<noteq> Telemetry" and "lane p s = d # ds"
    and "\<not> tq_lock (tx_queues s p)" and "p \<notin> set before"
    and "\<And>p'. p' \<in> set before \<Longrightarrow> p' \<noteq> Telemetry \<Longrightarrow> lane p' s = [] \<and> \<not> tq_lock (tx_queues s p')"
  shows "\<exists>f q. pop_first (before @ p # after) s = Some (f, set_queue p q s) \<and> frame_data f = d \<and>
    lane p (set_queue p q s) = ds \<and> tx_pop p s = Some (f, set_queue p q s)"
  using assms(5,6)
proof (induction before)
  case Nil
  obtain f s' where pop: "tx_pop p s = Some (f, s')"
    using tx_pop_none_iff [OF assms(1,4)] assms(3) by fastforce
  note r = tx_pop_some [OF assms(1) pop]
  then obtain q where "s' = set_queue p q s" by blast
  with r pop assms(2,3) show ?case by auto
next
  case (Cons p' before)
  show ?case
  proof (cases "p' = Telemetry")
    case True
    then show ?thesis using Cons by simp
  next
    case False
    have "tx_pop p' s = None" using Cons.prems False tx_pop_none_iff [OF assms(1)] by simp
    then show ?thesis using Cons False by simp
  qed
qed

section \<open>Accounting\<close>

definition all_queued :: "'w tx \<Rightarrow> nat" where
  "all_queued s = sum_list (map (\<lambda>p. tq_count (tx_queues s p)) priorities)"

text \<open>Every frame handed in, as the counters of the scheduler have it.\<close>

definition accounted :: "'w tx \<Rightarrow> u32" where
  "accounted s = word_of_nat (all_queued s) + (if tx_awaiting s then 1 else 0) + tx_delivered s +
     tx_dropped s + tx_telemetry_sent s + tx_telemetry_dropped s"

lemma all_queued_set:
  "int (all_queued (set_queue p q s)) =
     int (all_queued s) + int (tq_count q) - int (tq_count (tx_queues s p))"
  by (cases p) (simp_all add: all_queued_def priorities_def)

lemma queue_push_count: "queue_push cap d q = Some q' \<Longrightarrow> tq_count q' = tq_count q + 1"
  by (auto simp: queue_push_def Let_def split: if_splits)

lemma queued_push:
  assumes "queue_push (kQueueCapacity p) d (tx_queues s p) = Some q'"
  shows "all_queued (set_queue p q' s) = all_queued s + 1"
  using all_queued_set [of p q' s] queue_push_count [OF assms] by linarith

lemma queued_pop:
  assumes "tx_pop p s = Some (f, s')"
  shows "all_queued s = all_queued s' + 1"
proof -
  obtain q' where pop: "queue_pop (kQueueCapacity p) (tx_queues s p) = Some (f, q')"
    and s': "s' = set_queue p q' s"
    using assms by (auto simp: tx_pop_def split: if_splits option.splits)
  then have "tq_count (tx_queues s p) = tq_count q' + 1"
    by (auto simp: queue_pop_def split: if_splits)
  with all_queued_set [of p q' s] show ?thesis unfolding s' by linarith
qed

lemma tx_pop_frame:
  assumes "tx_pop p s = Some (f, s')"
  shows "tx_awaiting s' = tx_awaiting s" "tx_delivered s' = tx_delivered s"
    "tx_dropped s' = tx_dropped s" "tx_telemetry_sent s' = tx_telemetry_sent s"
    "tx_telemetry_dropped s' = tx_telemetry_dropped s" "tx_radio s' = tx_radio s"
    "tx_world s' = tx_world s"
  using assms by (auto simp: tx_pop_def split: if_splits option.splits)

lemma pop_accounted:
  assumes "tx_pop p s = Some (f, s')"
  shows "accounted s = accounted s' + 1"
  using queued_pop [OF assms] tx_pop_frame [OF assms] by (simp add: accounted_def)

lemma pop_first_pop:
  "pop_first ps s = Some (f, s') \<Longrightarrow> \<exists>p. p \<noteq> Telemetry \<and> tx_pop p s = Some (f, s')"
  by (induction ps) (auto split: if_splits option.splits)

lemma all_queued_frame [simp]:
  "all_queued (s\<lparr>tx_pending := f\<rparr>) = all_queued s"
  "all_queued (s\<lparr>tx_pending_since_ms := t\<rparr>) = all_queued s"
  "all_queued (s\<lparr>tx_world := w\<rparr>) = all_queued s" "all_queued (s\<lparr>tx_event := e\<rparr>) = all_queued s"
  "all_queued (s\<lparr>tx_awaiting := a\<rparr>) = all_queued s" "all_queued (s\<lparr>tx_dropped := d\<rparr>) = all_queued s"
  "all_queued (s\<lparr>tx_delivered := d\<rparr>) = all_queued s" "all_queued (s\<lparr>tx_timeouts := d\<rparr>) = all_queued s"
  "all_queued (s\<lparr>tx_delivery_failed := d\<rparr>) = all_queued s"
  "all_queued (s\<lparr>tx_accepted := d\<rparr>) = all_queued s" "all_queued (s\<lparr>tx_queued_by := h\<rparr>) = all_queued s"
  "all_queued (s\<lparr>tx_dropped_by := h\<rparr>) = all_queued s"
  "all_queued (s\<lparr>tx_telemetry_sent := d\<rparr>) = all_queued s"
  "all_queued (s\<lparr>tx_telemetry_dropped := d\<rparr>) = all_queued s"
  "all_queued (s\<lparr>tx_radio := r\<rparr>) = all_queued s" "all_queued (s\<lparr>tx_timeout_ms := t\<rparr>) = all_queued s"
  "all_queued (s\<lparr>tx_telemetry_radio := r\<rparr>) = all_queued s"
  by (simp_all add: all_queued_def)

lemma on_delivery_frame [simp]:
  "tx_awaiting (on_delivery r s) = tx_awaiting s" "tx_delivered (on_delivery r s) = tx_delivered s"
  "tx_dropped (on_delivery r s) = tx_dropped s"
  "tx_telemetry_sent (on_delivery r s) = tx_telemetry_sent s"
  "tx_telemetry_dropped (on_delivery r s) = tx_telemetry_dropped s"
  "all_queued (on_delivery r s) = all_queued s" "tx_queues (on_delivery r s) = tx_queues s"
  "tx_world (on_delivery r s) = tx_world s" "accounted (on_delivery r s) = accounted s"
  by (simp_all add: on_delivery_def accounted_def)

lemma enqueue_accounted: "accounted (snd (enqueue btp input s)) = accounted s + 1"
proof (cases "fst (enqueue btp input s)")
  case True
  then obtain p d q' where
    e: "snd (enqueue btp input s) = (set_queue p q' s)\<lparr>tx_accepted := tx_accepted s + 1,
          tx_queued_by := (tx_queued_by s)(p := tx_queued_by s p + 1)\<rparr>"
    and push: "queue_push (kQueueCapacity p) d (tx_queues s p) = Some q'"
    by (auto simp: enqueue_def Let_def split: option.splits if_splits)
  show ?thesis using queued_push [OF push] by (simp add: e accounted_def)
next
  case False
  then have "snd (enqueue btp input s) = count_drop s \<or> (\<exists>p. snd (enqueue btp input s) = count_drop_at p s)"
    by (auto simp: enqueue_def Let_def split: option.splits if_splits)
  then show ?thesis by (auto simp: accounted_def count_drop_def count_drop_at_def)
qed

lemma settle_accounted: "accounted (snd (settle now s)) = accounted s"
  by (simp add: settle_def Let_def accounted_def)

lemma settle_clears: "fst (settle now s) \<Longrightarrow> \<not> tx_awaiting (snd (settle now s))"
  by (auto simp: settle_def Let_def split: if_splits)

lemma transmit_accounted:
  "\<not> tx_awaiting s \<Longrightarrow> accounted (snd (transmit now radio f s)) = accounted s + 1"
  by (auto simp: transmit_def Let_def accounted_def split: prod.split option.split)

lemma pump_accounted: "accounted (snd (pump now s)) = accounted s"
proof -
  obtain go s1 where st: "settle now s = (go, s1)" by (cases "settle now s")
  have acc: "accounted s1 = accounted s" using settle_accounted [of now s] st by simp
  show ?thesis
  proof (cases "go \<and> tx_radio s1 \<noteq> None \<and> pop_first priorities s1 \<noteq> None")
    case True
    then obtain radio f s2 where go: "settle now s = (True, s1)" "tx_radio s1 = Some radio"
      "pop_first priorities s1 = Some (f, s2)" using st by auto
    then obtain p where pop: "tx_pop p s1 = Some (f, s2)" using pop_first_pop by blast
    have "\<not> tx_awaiting s2" using settle_clears [of now s] tx_pop_frame(1) [OF pop] go(1) by simp
    then show ?thesis
      using go transmit_accounted [of s2 now radio f] pop_accounted [OF pop] acc by (simp add: pump_def)
  next
    case False
    then show ?thesis using st acc by (auto simp: pump_def split: bool.split option.split)
  qed
qed

lemma accounted_after_send [simp]:
  "accounted (after_send e w s) = accounted s"
  "accounted (s\<lparr>tx_telemetry_sent := tx_telemetry_sent s + 1\<rparr>) = accounted s + 1"
  "accounted (s\<lparr>tx_telemetry_dropped := tx_telemetry_dropped s + 1\<rparr>) = accounted s + 1"
  by (auto simp: after_send_def accounted_def split: option.split)

lemma drain_accounted: "accounted (snd (drain_telemetry radio any s)) = accounted s"
proof (induction radio any s rule: drain_telemetry.induct)
  case (1 radio any s)
  show ?case
  proof (cases "tx_pop Telemetry s")
    case None
    then show ?thesis by (simp add: drain_telemetry.simps [of radio any s])
  next
    case (Some r)
    obtain f s1 where r: "r = (f, s1)" by (cases r)
    obtain ok early w where send: "radio (frame_data f) (tx_world s1) = ((ok, early), w)"
      by (metis prod.collapse)
    note acc = pop_accounted [OF Some [unfolded r]]
    show ?thesis
      using "1" [OF Some r [symmetric] send [symmetric] refl refl] Some r send acc
      by (simp add: drain_telemetry.simps [of radio any s] Let_def)
  qed
qed

section \<open>Any sequence of calls\<close>

datatype 'w tx_op =
  TxEnqueue "bytes option"
| TxPump u64
| TxPumpTelemetry
| TxDelivery bool
| TxConfigure "'w radio option" u64
| TxConfigureTelemetry "'w radio option"
| TxLock priority bool
| TxWorld 'w

fun tx_step :: "btp_codec \<Rightarrow> 'w tx_op \<Rightarrow> 'w tx \<Rightarrow> 'w tx" where
  "tx_step btp (TxEnqueue d) s = snd (enqueue btp d s)"
| "tx_step btp (TxPump now) s = snd (pump now s)"
| "tx_step btp TxPumpTelemetry s = snd (pump_telemetry s)"
| "tx_step btp (TxDelivery ok) s = on_delivery ok s"
| "tx_step btp (TxConfigure r t) s = tx_configure r t s"
| "tx_step btp (TxConfigureTelemetry r) s = configure_telemetry r s"
| "tx_step btp (TxLock p b) s = set_queue p ((tx_queues s p)\<lparr>tq_lock := b\<rparr>) s"
| "tx_step btp (TxWorld w) s = s\<lparr>tx_world := w\<rparr>"

definition is_enqueue :: "'w tx_op \<Rightarrow> bool" where
  "is_enqueue op = (case op of TxEnqueue _ \<Rightarrow> True | _ \<Rightarrow> False)"

definition tx_run :: "btp_codec \<Rightarrow> 'w tx_op list \<Rightarrow> 'w tx \<Rightarrow> 'w tx" where
  "tx_run btp ops s = fold (tx_step btp) ops s"

lemma all_queued_lock: "all_queued (set_queue p ((tx_queues s p)\<lparr>tq_lock := b\<rparr>) s) = all_queued s"
  using all_queued_set [of p "(tx_queues s p)\<lparr>tq_lock := b\<rparr>" s] by simp

lemma accounted_frame [simp]:
  "accounted (s\<lparr>tx_world := w\<rparr>) = accounted s"
  "accounted (tx_configure r t s) = accounted s" "accounted (configure_telemetry r s) = accounted s"
  "accounted (set_queue p ((tx_queues s p)\<lparr>tq_lock := b\<rparr>) s) = accounted s"
  by (simp_all add: accounted_def tx_configure_def configure_telemetry_def all_queued_lock)

lemma step_accounted:
  "accounted (tx_step btp op s) = accounted s + (if is_enqueue op then 1 else 0)"
  by (cases op)
    (simp_all add: is_enqueue_def enqueue_accounted pump_accounted pump_telemetry_def drain_accounted
      split: option.split)

lemma run_accounted:
  "accounted (tx_run btp ops s) = accounted s + word_of_nat (length (filter is_enqueue ops))"
  by (induction ops arbitrary: s) (simp_all add: tx_run_def step_accounted)

section \<open>The order in which frames leave\<close>

lemma transmit_ready:
  assumes "radio (frame_data f) (tx_world s) = ((True, None), w)"
  shows "transmit now radio f s = (True, s\<lparr>tx_pending := f, tx_awaiting := True,
     tx_pending_since_ms := now, tx_event := 0, tx_world := w\<rparr>)"
  using assms by (simp add: transmit_def Let_def)

lemma pump_when_settled:
  assumes "\<not> tx_awaiting s" and "tx_radio s = Some radio"
    and "pop_first priorities s = Some (f, s')"
  shows "pump now s = transmit now radio f s'"
  using assms by (simp add: pump_def settle_def)

lemma transmit_queues [simp]: "tx_queues (snd (transmit now radio f s)) = tx_queues s"
  by (simp add: transmit_def Let_def split: prod.split option.split)

lemma transmit_result:
  "fst (transmit now radio f s) = fst (fst (radio (frame_data f) (tx_world s)))"
  "tx_world (snd (transmit now radio f s)) = snd (radio (frame_data f) (tx_world s))"
  by (simp_all add: transmit_def Let_def split: prod.split option.split)

text \<open>What streaming a list of frames to a radio leaves unsent, and how many it took.\<close>

fun stream :: "'w radio \<Rightarrow> bytes list \<Rightarrow> 'w \<Rightarrow> nat \<times> bool \<times> bytes list \<times> 'w" where
  "stream radio [] w = (0, False, [], w)"
| "stream radio (d # ds) w =
     (case radio d w of ((ok, early), w') \<Rightarrow>
        if \<not> ok then (0, True, ds, w')
        else (case stream radio ds w' of (n, refused, rest, w'') \<Rightarrow> (Suc n, refused, rest, w'')))"

lemma after_send_simps [simp]:
  "tx_world (after_send e w s) = w"
  "tx_telemetry_sent (after_send e w s) = tx_telemetry_sent s"
  "tx_telemetry_dropped (after_send e w s) = tx_telemetry_dropped s"
  by (simp_all add: after_send_def on_delivery_def split: option.split)

lemma lane_frame [simp]:
  "lane p (after_send e w s) = lane p s"
  "lane p (s\<lparr>tx_telemetry_sent := k\<rparr>) = lane p s" "lane p (s\<lparr>tx_telemetry_dropped := k\<rparr>) = lane p s"
  by (simp_all add: lane_def)

lemma tx_ok_frame [simp]:
  "tx_ok mx (after_send e w s) = tx_ok mx s" "tx_ok mx (s\<lparr>tx_telemetry_sent := k\<rparr>) = tx_ok mx s"
  by (simp_all add: tx_ok_def)

lemma drain_is_stream:
  assumes "tx_ok mx s" and "\<not> tq_lock (tx_queues s Telemetry)"
    and "stream radio (lane Telemetry s) (tx_world s) = (n, refused, rest, w)"
  shows "let r = drain_telemetry radio any s in
    fst r = (any \<or> n > 0) \<and> lane Telemetry (snd r) = rest \<and> tx_world (snd r) = w \<and>
    tx_telemetry_sent (snd r) = tx_telemetry_sent s + word_of_nat n \<and>
    tx_telemetry_dropped (snd r) = tx_telemetry_dropped s + (if refused then 1 else 0)"
  using assms
proof (induction radio any s arbitrary: n refused rest w rule: drain_telemetry.induct)
  case (1 radio any s)
  show ?case
  proof (cases "tx_pop Telemetry s")
    case None
    then have "lane Telemetry s = []" using tx_pop_none_iff "1.prems" by blast
    then show ?thesis
      using "1.prems"(3) None by (simp add: drain_telemetry.simps [of radio any s] Let_def)
  next
    case (Some r)
    obtain f s1 where r: "r = (f, s1)" by (cases r)
    obtain ok early w1 where send: "radio (frame_data f) (tx_world s1) = ((ok, early), w1)"
      by (metis prod.collapse)
    note pop = tx_pop_some [OF "1.prems"(1) Some [unfolded r]]
    have w: "tx_world s1 = tx_world s" "tx_telemetry_sent s1 = tx_telemetry_sent s"
      "tx_telemetry_dropped s1 = tx_telemetry_dropped s" using pop(3) by auto
    show ?thesis
    proof (cases ok)
      case False
      then show ?thesis
        using "1.prems"(3) Some r send pop w
        by (simp add: drain_telemetry.simps [of radio any s] Let_def)
    next
      case True
      let ?s2 = "(after_send early w1 s1)\<lparr>tx_telemetry_sent := tx_telemetry_sent (after_send early w1 s1) + 1\<rparr>"
      obtain n' ref' rest' w' where tail: "stream radio (lane Telemetry s1) w1 = (n', ref', rest', w')"
        by (metis prod_cases4)
      have "let r = drain_telemetry radio True ?s2 in
          fst r = (True \<or> n' > 0) \<and> lane Telemetry (snd r) = rest' \<and> tx_world (snd r) = w' \<and>
          tx_telemetry_sent (snd r) = tx_telemetry_sent ?s2 + word_of_nat n' \<and>
          tx_telemetry_dropped (snd r) = tx_telemetry_dropped ?s2 + (if ref' then 1 else 0)"
        by (rule "1.IH" [OF Some r [symmetric] send [symmetric] refl refl])
           (use True pop tail "1.prems"(2) in auto)
      then show ?thesis
        using "1.prems"(3) Some r send pop w True tail
        by (auto simp: drain_telemetry.simps [of radio any s] Let_def)
    qed
  qed
qed

section \<open>Properties\<close>

text \<open>C5: No frame is lost unaccounted: after any sequence of calls by the producers, the pump, the
  delivery callback and the reconfiguration, with queues locked by other tasks at any time, the
  number of frames handed to \<open>enqueue\<close> is, as a 32-bit counter, the number still queued plus the
  one in flight plus those counted delivered, dropped, sent as telemetry or dropped as telemetry.\<close>

theorem frames_conserved:
  "word_of_nat (length (filter is_enqueue ops)) =
     word_of_nat (all_queued (tx_run btp ops (new_tx mx w))) +
     (if tx_awaiting (tx_run btp ops (new_tx mx w)) then 1 else 0) +
     tx_delivered (tx_run btp ops (new_tx mx w)) + tx_dropped (tx_run btp ops (new_tx mx w)) +
     tx_telemetry_sent (tx_run btp ops (new_tx mx w)) +
     tx_telemetry_dropped (tx_run btp ops (new_tx mx w))"
proof -
  have "accounted (new_tx mx w) = 0"
    by (simp add: accounted_def new_tx_def all_queued_def empty_queue_def priorities_def)
  then show ?thesis
    using run_accounted [of btp ops "new_tx mx w"] by (simp add: accounted_def)
qed

text \<open>C6: The most urgent frame goes first: when nothing is in flight, the next pump hands the
  radio the oldest frame of the first non-empty queue in the order of the priorities, telemetry
  left aside, takes exactly that frame out of its queue, and answers what the driver answered.\<close>

theorem pump_sends_most_urgent:
  assumes "tx_ok mx s" and "\<not> tx_awaiting s" and "tx_radio s = Some radio"
    and "priorities = before @ p # after" and "p \<noteq> Telemetry" and "lane p s = d # ds"
    and "\<And>p'. p' \<in> set before \<Longrightarrow> p' \<noteq> Telemetry \<Longrightarrow> lane p' s = []"
    and "\<And>p'. \<not> tq_lock (tx_queues s p')"
  shows "fst (pump now s) = fst (fst (radio d (tx_world s))) \<and>
    tx_world (snd (pump now s)) = snd (radio d (tx_world s)) \<and>
    lane p (snd (pump now s)) = ds \<and>
    (\<forall>p'. p' \<noteq> p \<longrightarrow> lane p' (snd (pump now s)) = lane p' s)"
proof -
  have "distinct (before @ p # after)" unfolding assms(4) [symmetric] by (simp add: priorities_def)
  then have notin: "p \<notin> set before" by simp
  obtain f q where pop: "pop_first priorities s = Some (f, set_queue p q s)" "frame_data f = d"
      "lane p (set_queue p q s) = ds"
    using pop_first_some [OF assms(1,5,6,8) notin, of after] assms(4,7,8) by metis
  show ?thesis
    using pump_when_settled [OF assms(2,3) pop(1), of now] pop(2,3)
    by (auto simp: transmit_result lane_def)
qed

definition tx_demo :: "bytes list tx" where
  "tx_demo = (new_tx 4 [])\<lparr>tx_radio := Some (\<lambda>d w. ((True, None), w @ [d])),
     tx_telemetry_radio := Some (\<lambda>d w. ((length w < 2, None), w @ [d]))\<rparr>"

definition demo_codec :: btp_codec where
  "demo_codec = \<lparr>bc_decode = (\<lambda>d. if hd d = 1 then Some \<lparr>df_type = MtTelemetry, df_object_id = 0\<rparr>
       else if hd d = 2 then Some \<lparr>df_type = MtControl, df_object_id = 0\<rparr>
       else if hd d = 3 then Some \<lparr>df_type = MtTerminal, df_object_id = 0\<rparr> else None),
     bc_min_frame = 1, bc_max_frame = 4\<rparr>"

definition demo_frames :: "bytes list" where
  "demo_frames = [[3, 7], [1, 1], [2, 9], [1, 2], [1, 3], [2, 8]]"

definition tx_demo_filled :: "bytes list tx" where
  "tx_demo_filled = tx_run demo_codec (map (\<lambda>d. TxEnqueue (Some d)) demo_frames) tx_demo"

lemma enqueue_ok:
  assumes "tx_ok (bc_max_frame btp) s"
  shows "tx_ok (bc_max_frame btp) (snd (enqueue btp input s))"
proof (cases "fst (enqueue btp input s)")
  case True
  then obtain p d q' where
    e: "snd (enqueue btp input s) = (set_queue p q' s)\<lparr>tx_accepted := tx_accepted s + 1,
          tx_queued_by := (tx_queued_by s)(p := tx_queued_by s p + 1)\<rparr>"
    and push: "queue_push (kQueueCapacity p) d (tx_queues s p) = Some q'"
    and len: "length d \<le> bc_max_frame btp"
    by (auto simp: enqueue_def Let_def split: option.splits if_splits)
  have "queue_ok (kQueueCapacity p) (bc_max_frame btp) (tx_queues s p)"
    using assms by (simp add: tx_ok_def)
  then show ?thesis using txq.enq_some [OF _ len push] assms by (simp add: e tx_ok_def)
next
  case False
  then have "tx_queues (snd (enqueue btp input s)) = tx_queues s"
    by (auto simp: enqueue_def Let_def count_drop_def count_drop_at_def split: option.splits if_splits)
  then show ?thesis using assms by (simp add: tx_ok_def)
qed

lemma enqueue_frame [simp]:
  "tx_awaiting (snd (enqueue btp input s)) = tx_awaiting s"
  "tx_world (snd (enqueue btp input s)) = tx_world s"
  "tx_radio (snd (enqueue btp input s)) = tx_radio s"
  "tx_telemetry_radio (snd (enqueue btp input s)) = tx_telemetry_radio s"
  "tq_lock (tx_queues (snd (enqueue btp input s)) p) = tq_lock (tx_queues s p)"
  by (auto simp: enqueue_def Let_def count_drop_def count_drop_at_def set_queue_def queue_push_def
      split: option.splits if_splits)

lemma enqueue_all_ok:
  "tx_ok (bc_max_frame btp) s \<Longrightarrow>
   tx_ok (bc_max_frame btp) (tx_run btp (map (\<lambda>d. TxEnqueue (Some d)) ds) s)"
  by (induction ds arbitrary: s) (simp_all add: tx_run_def enqueue_ok)

lemma enqueue_all_frame:
  "tx_awaiting (tx_run btp (map (\<lambda>d. TxEnqueue (Some d)) ds) s) = tx_awaiting s \<and>
   tx_world (tx_run btp (map (\<lambda>d. TxEnqueue (Some d)) ds) s) = tx_world s \<and>
   tx_radio (tx_run btp (map (\<lambda>d. TxEnqueue (Some d)) ds) s) = tx_radio s \<and>
   tx_telemetry_radio (tx_run btp (map (\<lambda>d. TxEnqueue (Some d)) ds) s) = tx_telemetry_radio s \<and>
   tq_lock (tx_queues (tx_run btp (map (\<lambda>d. TxEnqueue (Some d)) ds) s) p) = tq_lock (tx_queues s p)"
  by (induction ds arbitrary: s) (simp_all add: tx_run_def)

lemma tx_demo_filled_ok: "tx_ok 4 tx_demo_filled"
proof -
  have "tx_ok (bc_max_frame demo_codec) tx_demo"
    using tx_ok_new [of 4 "[]"] by (simp add: tx_demo_def tx_ok_def demo_codec_def)
  then have "tx_ok (bc_max_frame demo_codec) tx_demo_filled"
    unfolding tx_demo_filled_def by (rule enqueue_all_ok)
  then show ?thesis by (simp add: demo_codec_def)
qed

lemma tx_demo_lanes:
  "lane CommandResult tx_demo_filled = [] \<and> lane Status tx_demo_filled = [[2, 9], [2, 8]] \<and>
   lane Telemetry tx_demo_filled = [[1, 1], [1, 2], [1, 3]]"
  by code_simp

lemma tx_demo_facts:
  "\<not> tx_awaiting tx_demo_filled" "tx_world tx_demo_filled = []"
  "tx_radio tx_demo_filled = Some (\<lambda>d w. ((True, None), w @ [d]))"
  "tx_telemetry_radio tx_demo_filled = Some (\<lambda>d w. ((length w < 2, None), w @ [d]))"
  "\<not> tq_lock (tx_queues tx_demo_filled p)"
  by (simp_all add: tx_demo_filled_def enqueue_all_frame)
     (simp_all add: tx_demo_def new_tx_def empty_queue_def)

theorem pump_sends_most_urgent_witness:
  "tx_world (snd (pump 100 tx_demo_filled)) = [[2, 9]]"
  using pump_sends_most_urgent [of 4 tx_demo_filled _ "[CommandResult]" Status
      "[Terminal, CriticalLog, Telemetry, Debug]" "[2, 9]" "[[2, 8]]" 100,
      OF tx_demo_filled_ok tx_demo_facts(1) tx_demo_facts(3)] tx_demo_lanes tx_demo_facts
  by (simp add: priorities_def)

text \<open>The telemetry lane is a stream: a pass sends the queued samples in order, back to back,
  until the queue is empty or the radio refuses one. What it refuses is dropped and counted, the
  rest stays queued, every accepted sample is counted as sent, and the pass answers whether it
  sent any.\<close>

theorem telemetry_streams_in_order:
  assumes "tx_ok mx s" and "\<not> tq_lock (tx_queues s Telemetry)" and "tx_telemetry_radio s = Some radio"
    and "stream radio (lane Telemetry s) (tx_world s) = (n, refused, rest, w)"
  shows "fst (pump_telemetry s) = (n > 0) \<and> lane Telemetry (snd (pump_telemetry s)) = rest \<and>
    tx_world (snd (pump_telemetry s)) = w \<and>
    tx_telemetry_sent (snd (pump_telemetry s)) = tx_telemetry_sent s + word_of_nat n \<and>
    tx_telemetry_dropped (snd (pump_telemetry s)) = tx_telemetry_dropped s + (if refused then 1 else 0)"
  using drain_is_stream [OF assms(1,2,4), of False] assms(3)
  by (simp add: pump_telemetry_def Let_def)

theorem telemetry_streams_in_order_witness:
  "tx_world (snd (pump_telemetry tx_demo_filled)) = [[1, 1], [1, 2], [1, 3]] \<and>
   tx_telemetry_dropped (snd (pump_telemetry tx_demo_filled)) = tx_telemetry_dropped tx_demo_filled + 1"
  using telemetry_streams_in_order [OF tx_demo_filled_ok tx_demo_facts(5) tx_demo_facts(4),
      of 2 True "[]" "[[1, 1], [1, 2], [1, 3]]"] tx_demo_lanes tx_demo_facts
  by simp

text \<open>Each queue is first in, first out, and never longer than its capacity: over any sequence
  of pushes and pops of one queue, the frames that came out followed by those still inside are
  those that were inside followed by those accepted, byte for byte.\<close>

theorem queue_first_in_first_out:
  assumes "queue_ok cap mx q" and "\<And>d. Enq d \<in> set ops \<Longrightarrow> length d \<le> mx"
    and "fifo_run (queue_push cap) (queue_take cap) ops q = (ins, outs, r)"
  shows "queue_list cap q @ ins = outs @ queue_list cap r \<and> length (queue_list cap r) \<le> cap"
  using txq.in_order [OF assms] txq.bounded by blast

theorem queue_first_in_first_out_witness:
  "fst (snd (fifo_run (queue_push 2) (queue_take 2)
     [Enq [1, 2], Enq [3], Enq [4], Deq, Enq [5, 6], Deq, Deq, Deq] (empty_queue 3))) = [[1, 2], [3], [5, 6]]"
proof -
  let ?ops = "[Enq [1, 2], Enq [3], Enq [4], Deq, Enq [5, 6], Deq, Deq, Deq] :: bytes fifo_op list"
  obtain ins outs r where run: "fifo_run (queue_push 2) (queue_take 2) ?ops (empty_queue 3) = (ins, outs, r)"
    by (metis prod_cases3)
  have "fst (fifo_run (queue_push 2) (queue_take 2) ?ops (empty_queue 3)) = [[1, 2], [3], [5, 6]]"
    and "queue_list 2 (snd (snd (fifo_run (queue_push 2) (queue_take 2) ?ops (empty_queue 3)))) = []"
    by code_simp+
  then have "ins = [[1, 2], [3], [5, 6]]" "queue_list 2 r = []" unfolding run by simp_all
  moreover have "queue_list 2 (empty_queue 3) @ ins = outs @ queue_list 2 r \<and> length (queue_list 2 r) \<le> 2"
    by (rule queue_first_in_first_out [OF _ _ run]) (auto intro: queue_ok_empty)
  ultimately show ?thesis unfolding run by simp
qed

text \<open>A delivery callback is credited to whatever frame is in flight when it arrives: after a
  timeout, the next pump sends another frame, and the late callback of the abandoned frame settles
  that other frame, which is counted delivered although its own callback has not come.\<close>

theorem late_callback_credits_next_frame:
  assumes "tx_awaiting s" and "tx_event s = 0" and "now - tx_pending_since_ms s \<ge> tx_timeout_ms s"
    and "tx_radio s = Some radio" and "pop_first priorities (snd (settle now s)) = Some (f, s')"
    and "radio (frame_data f) (tx_world s) = ((True, None), w)"
  shows "fst (pump now s) \<and> tx_pending (snd (pump now s)) = f \<and>
    tx_timeouts (snd (pump now s)) = tx_timeouts s + 1 \<and>
    tx_delivered (snd (settle later (on_delivery True (snd (pump now s))))) = tx_delivered s + 1 \<and>
    \<not> tx_awaiting (snd (settle later (on_delivery True (snd (pump now s)))))"
proof -
  let ?s1 = "s\<lparr>tx_event := 0, tx_awaiting := False, tx_timeouts := tx_timeouts s + 1,
    tx_dropped := tx_dropped s + 1\<rparr>"
  have st: "settle now s = (True, ?s1)" using assms(1-3) by (simp add: settle_def Let_def)
  then obtain p where pop: "tx_pop p ?s1 = Some (f, s')" using pop_first_pop assms(5) by fastforce
  have same: "tx_world s' = tx_world s" "tx_delivered s' = tx_delivered s"
    "tx_timeouts s' = tx_timeouts s + 1"
    using tx_pop_frame [OF pop] pop by (auto simp: tx_pop_def split: if_splits option.splits)
  have "pump now s = transmit now radio f s'" using st assms(4,5) by (simp add: pump_def)
  also have "\<dots> = (True, s'\<lparr>tx_pending := f, tx_awaiting := True,
     tx_pending_since_ms := now, tx_event := 0, tx_world := w\<rparr>)"
    by (rule transmit_ready) (simp add: same assms(6))
  finally show ?thesis using same by (simp add: on_delivery_def settle_def Let_def)
qed

definition tx_demo_waiting :: "bytes list tx" where
  "tx_demo_waiting = tx_demo_filled\<lparr>tx_awaiting := True, tx_event := 0, tx_pending_since_ms := 0,
     tx_timeout_ms := 5\<rparr>"

theorem late_callback_credits_next_frame_witness:
  "tx_delivered (snd (settle 6 (on_delivery True (snd (pump 5 tx_demo_waiting))))) =
   tx_delivered tx_demo_waiting + 1"
proof -
  let ?s = "tx_demo_waiting"
  let ?s1 = "snd (settle 5 ?s)"
  have w: "tx_awaiting ?s" "tx_event ?s = 0" "5 - tx_pending_since_ms ?s \<ge> tx_timeout_ms ?s"
    "tx_radio ?s = Some (\<lambda>d w. ((True, None), w @ [d]))"
    by (simp_all add: tx_demo_waiting_def tx_demo_facts)
  have "tx_ok 4 ?s1" "lane Status ?s1 = [2, 9] # [[2, 8]]" "lane CommandResult ?s1 = []"
    "\<not> tq_lock (tx_queues ?s1 p)" for p
    using tx_demo_filled_ok tx_demo_lanes tx_demo_facts(5)
    by (simp_all add: tx_demo_waiting_def settle_def Let_def tx_ok_def lane_def)
  then obtain f q where "pop_first ([CommandResult] @ Status # [Terminal, CriticalLog, Telemetry, Debug]) ?s1 =
      Some (f, set_queue Status q ?s1)"
    using pop_first_some [of 4 ?s1 Status "[2, 9]" "[[2, 8]]" "[CommandResult]"
        "[Terminal, CriticalLog, Telemetry, Debug]"] by auto
  then have "pop_first priorities ?s1 = Some (f, set_queue Status q ?s1)" by (simp add: priorities_def)
  from late_callback_credits_next_frame [OF w this] show ?thesis by simp
qed

end
