(* ===== verification/Channels.thy ===== *)
theory Channels
  imports Key_Store Tx_Scheduler
begin

text \<open>
  \<^verbatim>\<open>include/bally_channels.h\<close>, the table that says whose message a frame is and which key
  opens it, and \<^verbatim>\<open>lib/RadioSeal/\<close>, which seals and opens with those keys.

  The authenticated encryption and the header fields it looks at are the protocol library's and
  the record \<open>'h aead\<close>; \<open>'h\<close> is the header.
\<close>

section \<open>The channel table\<close>

datatype channel = A_Console | B_Endpoint | C_Link

datatype key_kind = KeyNone | KeyEndpoint | KeyLink

datatype vantage = VantageConsole | VantageRobot

datatype side = Cable | Radio

definition key_of_channel :: "channel \<Rightarrow> key_kind" where
  "key_of_channel c = (if c = A_Console then KeyNone else if c = B_Endpoint then KeyEndpoint else KeyLink)"

definition channel_of_peer :: "vantage \<Rightarrow> u32 \<Rightarrow> u32 \<Rightarrow> channel" where
  "channel_of_peer self peer dongle =
     (if peer = dongle then (if self = VantageRobot then C_Link else A_Console) else B_Endpoint)"

definition dongle_channel_of :: "side \<Rightarrow> bool \<Rightarrow> channel" where
  "dongle_channel_of sd consumed =
     (if sd = Cable then A_Console else if consumed then C_Link else B_Endpoint)"

definition kCommandRequestObjectId :: u16 where "kCommandRequestObjectId = 1"
definition kCommandResultObjectId :: u16 where "kCommandResultObjectId = 2"
definition kManifestDataObjectId :: u16 where "kManifestDataObjectId = 4"
definition kStatusObjectId :: u16 where "kStatusObjectId = 9"

definition dongle_may_consume :: "message_type \<Rightarrow> u16 \<Rightarrow> bool" where
  "dongle_may_consume t oid \<longleftrightarrow>
     (t = MtControl \<and> oid = kStatusObjectId) \<or>
     (t = MtCommand \<and> (oid = kCommandRequestObjectId \<or> oid = kCommandResultObjectId)) \<or>
     (t = MtControl \<and> oid = kManifestDataObjectId)"

definition dongle_consumes :: "message_type \<Rightarrow> u16 \<Rightarrow> u32 \<Rightarrow> u32 \<Rightarrow> bool" where
  "dongle_consumes t oid reference self \<longleftrightarrow>
     (t = MtControl \<and> oid = kStatusObjectId) \<or>
     (((t = MtCommand \<and> (oid = kCommandRequestObjectId \<or> oid = kCommandResultObjectId)) \<or>
       (t = MtControl \<and> oid = kManifestDataObjectId)) \<and>
      reference = self \<and> self \<noteq> 0)"

section \<open>Sealing\<close>

text \<open>The flag and cipher tests of a header, and sealing and opening under a key.\<close>

record 'h aead =
  ae_encrypted :: "'h \<Rightarrow> bool"
  ae_aes_gcm :: "'h \<Rightarrow> bool"
  ae_seal :: "bytes \<Rightarrow> 'h \<Rightarrow> bytes \<Rightarrow> bytes option"
  ae_open :: "bytes \<Rightarrow> 'h \<Rightarrow> bytes \<Rightarrow> bytes option"

text \<open>The bound store \<open>g_store\<close> is an argument; \<open>None\<close> before \<open>configure\<close>.\<close>

definition seal_configure :: "key_store \<Rightarrow> key_store option" where
  "seal_configure store = Some store"

definition seal :: "'h aead \<Rightarrow> key_store option \<Rightarrow> 'h \<Rightarrow> bytes \<Rightarrow> bytes option" where
  "seal ae g_store h plaintext =
     (case g_store of
        None \<Rightarrow> None
      | Some store \<Rightarrow>
          if \<not> ks_loaded store then None else ae_seal ae (the (key_l store)) h plaintext)"

definition open_sealed :: "'h aead \<Rightarrow> key_store option \<Rightarrow> 'h \<Rightarrow> bytes \<Rightarrow> bytes option" where
  "open_sealed ae g_store h ciphertext =
     (case g_store of
        None \<Rightarrow> None
      | Some store \<Rightarrow>
          if \<not> ks_loaded store then None
          else if \<not> ae_encrypted ae h then None
          else if \<not> ae_aes_gcm ae h then None
          else ae_open ae (the (key_l store)) h ciphertext)"

definition seal_e :: "'h aead \<Rightarrow> key_store option \<Rightarrow> 'h \<Rightarrow> bytes \<Rightarrow> bytes option" where
  "seal_e ae g_store h plaintext =
     (case g_store of
        None \<Rightarrow> None
      | Some store \<Rightarrow>
          if \<not> ks_loaded store then None else ae_seal ae (the (key_e store)) h plaintext)"

definition open_e :: "'h aead \<Rightarrow> key_store option \<Rightarrow> 'h \<Rightarrow> bytes \<Rightarrow> bytes option" where
  "open_e ae g_store h ciphertext =
     (case g_store of
        None \<Rightarrow> None
      | Some store \<Rightarrow>
          if \<not> ks_loaded store then None
          else if \<not> ae_encrypted ae h then None
          else if \<not> ae_aes_gcm ae h then None
          else ae_open ae (the (key_e store)) h ciphertext)"

text \<open>What the firmware relies on: opening under the same key and header undoes sealing.\<close>

definition aead_inverse :: "'h aead \<Rightarrow> bool" where
  "aead_inverse ae \<longleftrightarrow>
     (\<forall>key h p c. ae_seal ae key h p = Some c \<longrightarrow> ae_open ae key h c = Some p)"

lemma unloaded_refuses:
  assumes "\<not> ks_loaded s"
  shows "seal ae (Some s) h p = None" "seal_e ae (Some s) h p = None"
    "open_sealed ae (Some s) h p = None" "open_e ae (Some s) h p = None"
  using assms by (simp_all add: seal_def seal_e_def open_sealed_def open_e_def)

lemma load_loaded: "ks_loaded (snd (load crc input s)) = fst (load crc input s)"
  by (simp add: load_cases unload_def)

lemma card_loaded:
  "ks_loaded (snd (load_from_card crc mounted rd s)) = fst (load_from_card crc mounted rd s)"
  by (simp add: load_from_card_def load_loaded unload_def split: option.split)

section \<open>Properties\<close>

text \<open>The ends agree on the channel, so on the key: for a console, a robot and a dongle with
  three different identities, the console and the robot place each other's frames on channel B
  under key E, the robot and the dongle place consumed radio traffic between them on channel C
  under key L, and the console and the dongle place theirs on channel A in the clear.\<close>

theorem channel_ends_agree:
  assumes "console \<noteq> dongle" and "robot \<noteq> dongle"
  shows "channel_of_peer VantageRobot console dongle = channel_of_peer VantageConsole robot dongle \<and>
    channel_of_peer VantageConsole robot dongle = dongle_channel_of Radio False \<and>
    key_of_channel (channel_of_peer VantageRobot console dongle) = KeyEndpoint \<and>
    channel_of_peer VantageRobot dongle dongle = dongle_channel_of Radio True \<and>
    key_of_channel (dongle_channel_of Radio True) = KeyLink \<and>
    channel_of_peer VantageConsole dongle dongle = dongle_channel_of Cable consumed \<and>
    key_of_channel (dongle_channel_of Cable consumed) = KeyNone"
  using assms by (simp add: channel_of_peer_def dongle_channel_of_def key_of_channel_def)

theorem channel_ends_agree_witness:
  "key_of_channel (channel_of_peer VantageRobot 7 9) = KeyEndpoint"
proof -
  have "(7 :: u32) \<noteq> 9" "(8 :: u32) \<noteq> 9" by simp_all
  from channel_ends_agree [OF this, of False] show ?thesis by blast
qed

text \<open>What the dongle consumes is its own, and the header filter keeps it: a message it
  consumes is a status or names the dongle itself as its reference, and it passes the filter on
  type and object identifier that runs before anything is decrypted, so none is relayed unread.\<close>

theorem consumed_is_addressed:
  assumes "dongle_consumes t oid reference self"
  shows "dongle_may_consume t oid \<and>
    ((t = MtControl \<and> oid = kStatusObjectId) \<or> (reference = self \<and> self \<noteq> 0))"
  using assms by (auto simp: dongle_consumes_def dongle_may_consume_def)

theorem consumed_is_addressed_witness:
  "dongle_may_consume MtCommand 2"
  using consumed_is_addressed [of MtCommand 2 5 5]
  by (simp add: dongle_consumes_def kCommandResultObjectId_def)

text \<open>C10: No key, no frame: after a load from the card that did not succeed (no card, no file, or a
  file any check rejects), whatever keys were held before, nothing is sealed and nothing is opened
  on either channel.\<close>

theorem failed_load_disables_radio:
  assumes "\<not> fst (load_from_card crc mounted rd s)"
  shows "seal ae (seal_configure (snd (load_from_card crc mounted rd s))) h p = None \<and>
    seal_e ae (seal_configure (snd (load_from_card crc mounted rd s))) h p = None \<and>
    open_sealed ae (seal_configure (snd (load_from_card crc mounted rd s))) h c = None \<and>
    open_e ae (seal_configure (snd (load_from_card crc mounted rd s))) h c = None"
proof -
  have "\<not> ks_loaded (snd (load_from_card crc mounted rd s))" using assms by (simp add: card_loaded)
  then show ?thesis by (simp add: seal_configure_def unloaded_refuses)
qed

definition plain_aead :: "unit aead" where
  "plain_aead = \<lparr>ae_encrypted = (\<lambda>h. True), ae_aes_gcm = (\<lambda>h. True),
     ae_seal = (\<lambda>key h p. Some (map (\<lambda>b. b XOR hd key) p @ key)),
     ae_open = (\<lambda>key h c. if drop (length c - length key) c = key
        then Some (map (\<lambda>b. b XOR hd key) (take (length c - length key) c)) else None)\<rparr>"

theorem failed_load_disables_radio_witness:
  "seal plain_aead (seal_configure (snd (load_from_card (\<lambda>d. 0) True (\<lambda>n. Some [1, 2]) new_key_store)))
     () [3] = None"
proof -
  have "\<not> fst (load_from_card (\<lambda>d. 0) True (\<lambda>n. Some [1, 2]) new_key_store)"
    by (simp add: load_from_card_def load_cases parse_def kFileSize_def)
  from failed_load_disables_radio [OF this, of plain_aead "()" "[3]" "[]"] show ?thesis by blast
qed

text \<open>Sealing and opening match per channel: with loaded keys, a message sealed on channel C
  opens on channel C, and one sealed on channel B opens on channel B, under a header that is
  marked encrypted with the one cipher the key file allows.\<close>

theorem seal_open_roundtrip:
  assumes "aead_inverse ae" and "ks_loaded s" and "ae_encrypted ae h" and "ae_aes_gcm ae h"
  shows "(seal ae (Some s) h p = Some c \<longrightarrow> open_sealed ae (Some s) h c = Some p) \<and>
    (seal_e ae (Some s) h p = Some c \<longrightarrow> open_e ae (Some s) h c = Some p)"
  using assms by (simp add: seal_def seal_e_def open_sealed_def open_e_def aead_inverse_def)

theorem seal_open_roundtrip_witness:
  "open_sealed plain_aead (Some (new_key_store\<lparr>ks_loaded := True\<rparr>)) ()
     (the (seal plain_aead (Some (new_key_store\<lparr>ks_loaded := True\<rparr>)) () [1, 2, 3])) = Some [1, 2, 3]"
proof -
  have inv: "aead_inverse plain_aead"
    by (simp add: aead_inverse_def plain_aead_def comp_def xor.assoc cong: map_cong)
  show ?thesis
    using seal_open_roundtrip [OF inv, of "new_key_store\<lparr>ks_loaded := True\<rparr>" "()" "[1, 2, 3]"
        "the (seal plain_aead (Some (new_key_store\<lparr>ks_loaded := True\<rparr>)) () [1, 2, 3])"]
    by (simp add: plain_aead_def seal_def)
qed

end
