(* ===== verification/Logger.thy ===== *)
theory Logger
  imports Bounded_Fifo
begin

text \<open>
  \<^verbatim>\<open>lib/Logger/Logger.cpp\<close>: log records in a byte ring in PSRAM, with two cursors.  Saving to
  the SD card (\<open>flush_logs_to\<close>) is the only operation that releases records; sending over the
  radio (\<open>flush_logs\<close>) moves a cursor of its own, in chunks of one frame.

  The 32-bit counters are natural numbers with the wrap-around written out (\<open>add32\<close>, \<open>sub32\<close>).
  The BTP endpoint is the record \<open>'w log_endpoint\<close> of the calls made on it, over the rest of the
  world \<open>'w\<close>.  \<open>lg_mutex\<close> says whether taking the mutex succeeds; the time stamps and the task
  that calls are arguments.
\<close>

definition add32 :: "nat \<Rightarrow> nat \<Rightarrow> nat" where
  "add32 a b = (a + b) mod 2 ^ 32"

definition sub32 :: "nat \<Rightarrow> nat \<Rightarrow> nat" where
  "sub32 a b = (a + 2 ^ 32 - b mod 2 ^ 32) mod 2 ^ 32"

lemma sub32_le: "b \<le> a \<Longrightarrow> a < 2 ^ 32 \<Longrightarrow> sub32 a b = a - b"
  by (simp add: sub32_def) (metis Nat.add_diff_assoc2 le_less_trans mod_add_self2 mod_less less_imp_diff_less)

lemma add32_small: "a + b < 2 ^ 32 \<Longrightarrow> add32 a b = a + b"
  by (simp add: add32_def)

section \<open>Records\<close>

record log_header =
  lh_timestamp_us :: u64
  lh_sequence :: u32
  lh_length :: u16
  lh_type :: log_type
  lh_reserved :: u8

definition zero_header :: log_header where
  "zero_header = \<lparr>lh_timestamp_us = 0, lh_sequence = 0, lh_length = 0, lh_type = LT_NONE, lh_reserved = 0\<rparr>"

definition kHeaderSize :: nat where "kHeaderSize = 16"

fun log_type_num :: "log_type \<Rightarrow> nat" where
  "log_type_num LT_NONE = 0" | "log_type_num INFO = 1" | "log_type_num WARN = 2"
| "log_type_num ERRO = 3" | "log_type_num DEBG = 4" | "log_type_num CMDO = 5"

definition log_type_of :: "nat \<Rightarrow> log_type" where
  "log_type_of n = (if n = 1 then INFO else if n = 2 then WARN else if n = 3 then ERRO
     else if n = 4 then DEBG else if n = 5 then CMDO else LT_NONE)"

definition log_type_to_string :: "log_type \<Rightarrow> string" where
  "log_type_to_string t = (case t of INFO \<Rightarrow> ''INFO'' | WARN \<Rightarrow> ''WARN'' | ERRO \<Rightarrow> ''ERRO''
     | DEBG \<Rightarrow> ''DEBG'' | CMDO \<Rightarrow> ''CMDO'' | LT_NONE \<Rightarrow> ''NONE'')"

text \<open>The packed struct as it lies in memory.\<close>

definition header_bytes :: "log_header \<Rightarrow> bytes" where
  "header_bytes h = le_encode 8 (unat (lh_timestamp_us h)) @ le_encode 4 (unat (lh_sequence h)) @
     le_encode 2 (unat (lh_length h)) @ [word_of_nat (log_type_num (lh_type h)), lh_reserved h]"

definition header_of_bytes :: "bytes \<Rightarrow> log_header" where
  "header_of_bytes b = \<lparr>lh_timestamp_us = word_of_nat (le_decode (take 8 b)),
     lh_sequence = word_of_nat (le_decode (take 4 (drop 8 b))),
     lh_length = word_of_nat (le_decode (take 2 (drop 12 b))),
     lh_type = log_type_of (unat (b ! 14)), lh_reserved = b ! 15\<rparr>"

section \<open>The logger\<close>

record fragment_args =
  fa_type :: log_type
  fa_sequence :: u32
  fa_timestamp_us :: u64
  fa_index :: nat
  fa_count :: nat
  fa_sealed :: bool

record 'w log_endpoint =
  ep_reserve :: "'w \<Rightarrow> u32 option \<times> 'w"
  ep_send :: "fragment_args \<Rightarrow> bytes \<Rightarrow> 'w \<Rightarrow> bool \<times> 'w"
  ep_encode :: "fragment_args \<Rightarrow> bytes \<Rightarrow> bytes option"
  ep_max_payload :: nat

definition kBtpAeadTagSize :: nat where "kBtpAeadTagSize = 16"

definition kCaptureCapacity :: nat where "kCaptureCapacity = 4096"

record 'w logger =
  lg_storage :: "bytes option"
  lg_capacity :: nat
  lg_max_chunks :: u32
  lg_block_size :: u32
  lg_write_offset :: nat
  lg_read_offset :: nat
  lg_used :: nat
  lg_send_offset :: nat
  lg_pending :: nat
  lg_send_active :: bool
  lg_send_header :: log_header
  lg_send_done :: nat
  lg_consumer_busy :: bool
  lg_capture_active :: bool
  lg_capture_task :: nat
  lg_capture_buf :: bytes
  lg_mutex :: bool
  lg_endpoint :: "'w log_endpoint option"
  lg_sealed :: bool
  lg_world :: 'w

definition new_logger :: "nat \<Rightarrow> bytes option \<Rightarrow> 'w \<Rightarrow> 'w logger" where
  "new_logger cap mem w = \<lparr>lg_storage = mem, lg_capacity = cap, lg_max_chunks = 10, lg_block_size = 16,
     lg_write_offset = 0, lg_read_offset = 0, lg_used = 0, lg_send_offset = 0, lg_pending = 0,
     lg_send_active = False, lg_send_header = zero_header, lg_send_done = 0,
     lg_consumer_busy = False, lg_capture_active = False, lg_capture_task = 0, lg_capture_buf = [],
     lg_mutex = False, lg_endpoint = None, lg_sealed = False, lg_world = w\<rparr>"

text \<open>\<open>begin\<close> creates the mutex.\<close>

definition logger_begin :: "'w logger \<Rightarrow> 'w logger" where
  "logger_begin s = s\<lparr>lg_mutex := True\<rparr>"

definition configure_btp :: "'w log_endpoint \<Rightarrow> bool \<Rightarrow> 'w logger \<Rightarrow> 'w logger" where
  "configure_btp ep sealed s =
     (if \<not> lg_mutex s then s else s\<lparr>lg_endpoint := Some ep, lg_sealed := sealed\<rparr>)"

definition set_flush_limits :: "u32 \<Rightarrow> u32 \<Rightarrow> 'w logger \<Rightarrow> 'w logger" where
  "set_flush_limits chunks block s =
     (if \<not> lg_mutex s then s else s\<lparr>lg_max_chunks := chunks, lg_block_size := block\<rparr>)"

section \<open>The byte ring\<close>

definition store_at :: "nat \<Rightarrow> bytes \<Rightarrow> bytes \<Rightarrow> bytes" where
  "store_at off bs xs = take off xs @ bs @ drop (off + length bs) xs"

definition write_to_ring :: "bytes \<Rightarrow> 'w logger \<Rightarrow> 'w logger" where
  "write_to_ring bs s =
     (if bs = [] then s
      else let contiguous = lg_capacity s - lg_write_offset s;
               first = (if length bs < contiguous then length bs else contiguous);
               mem = the (lg_storage s);
               mem1 = store_at (lg_write_offset s) (take first bs) mem;
               mem2 = (if length bs > first then store_at 0 (drop first bs) mem1 else mem1)
           in s\<lparr>lg_storage := Some mem2,
                lg_write_offset := (lg_write_offset s + length bs) mod lg_capacity s\<rparr>)"

definition read_from_ring :: "nat \<Rightarrow> nat \<Rightarrow> 'w logger \<Rightarrow> bytes" where
  "read_from_ring off n s =
     (if n = 0 then []
      else let contiguous = lg_capacity s - off;
               first = (if n < contiguous then n else contiguous);
               mem = the (lg_storage s)
           in take first (drop off mem) @ (if n > first then take (n - first) mem else []))"

text \<open>The header at an offset, \<open>None\<close> when none was read, and whether it is a record.\<close>

definition read_header_at :: "nat \<Rightarrow> nat \<Rightarrow> 'w logger \<Rightarrow> bool \<times> log_header option" where
  "read_header_at off available s =
     (if available < kHeaderSize then (False, None)
      else let h = header_of_bytes (read_from_ring off kHeaderSize s);
               record_size = kHeaderSize + unat (lh_length h)
           in (lh_length h > 0 \<and> record_size \<le> available \<and> record_size \<le> lg_capacity s, Some h))"

definition clear_ring :: "'w logger \<Rightarrow> 'w logger" where
  "clear_ring s = s\<lparr>lg_write_offset := 0, lg_read_offset := 0, lg_used := 0, lg_send_offset := 0,
     lg_pending := 0, lg_send_active := False, lg_send_header := zero_header, lg_send_done := 0,
     lg_consumer_busy := False\<rparr>"

definition reset_loop_counter :: "'w logger \<Rightarrow> 'w logger" where
  "reset_loop_counter s = (if \<not> lg_mutex s then s else clear_ring s)"

section \<open>Inserting\<close>

definition insert_log_impl :: "bytes \<Rightarrow> log_type \<Rightarrow> u64 \<Rightarrow> 'w logger \<Rightarrow> 'w logger" where
  "insert_log_impl data t ts s =
     (case lg_endpoint s of
        None \<Rightarrow> s
      | Some ep \<Rightarrow>
          if data = [] \<or> Option.is_none (lg_storage s) then s
          else
            let longest = ep_max_payload ep * 255;
                stored_length = (word_of_nat (if length data > longest then longest else length data) :: u16);
                required = kHeaderSize + unat stored_length
            in if required > lg_capacity s then s
               else if sub32 (lg_capacity s) (lg_used s) < required then s
               else case ep_reserve ep (lg_world s) of
                 (None, w) \<Rightarrow> s\<lparr>lg_world := w\<rparr>
               | (Some sequence, w) \<Rightarrow>
                   let h = \<lparr>lh_timestamp_us = ts, lh_sequence = sequence, lh_length = stored_length,
                            lh_type = t, lh_reserved = 0\<rparr>;
                       s1 = write_to_ring (take (unat stored_length) data)
                              (write_to_ring (header_bytes h) (s\<lparr>lg_world := w\<rparr>))
                   in s1\<lparr>lg_used := add32 (lg_used s1) required,
                         lg_pending := add32 (lg_pending s1) required\<rparr>)"

definition capture_text :: "nat \<Rightarrow> bytes \<Rightarrow> 'w logger \<Rightarrow> 'w logger" where
  "capture_text task data s =
     (if \<not> lg_capture_active s \<or> data = [] then s
      else if task \<noteq> lg_capture_task s then s
      else if length (lg_capture_buf s) \<ge> kCaptureCapacity then s
      else let n = (if length (lg_capture_buf s) + length data > kCaptureCapacity
                    then kCaptureCapacity - length (lg_capture_buf s) else length data)
           in s\<lparr>lg_capture_buf := lg_capture_buf s @ take n data @ [10]\<rparr>)"

definition insert_log :: "nat \<Rightarrow> log_type \<Rightarrow> bytes option \<Rightarrow> u64 \<Rightarrow> 'w logger \<Rightarrow> 'w logger" where
  "insert_log task t msg ts s =
     (case msg of None \<Rightarrow> s
      | Some data \<Rightarrow> if \<not> lg_mutex s then s
                     else capture_text task data (insert_log_impl data t ts s))"

text \<open>\<open>insert_logf\<close>, given the formatted text: it is cut to the 256-byte buffer.\<close>

definition insert_logf :: "nat \<Rightarrow> log_type \<Rightarrow> bytes \<Rightarrow> u64 \<Rightarrow> 'w logger \<Rightarrow> 'w logger" where
  "insert_logf task t formatted ts s =
     (if \<not> lg_mutex s then s
      else if length formatted > 0 then
        let data = (if length formatted < 256 then formatted else take 255 formatted) in
        capture_text task data (insert_log_impl data t ts s)
      else s)"

definition begin_capture :: "nat \<Rightarrow> 'w logger \<Rightarrow> 'w logger" where
  "begin_capture task s =
     (if \<not> lg_mutex s then s
      else s\<lparr>lg_capture_active := True, lg_capture_task := task, lg_capture_buf := []\<rparr>)"

definition end_capture :: "'w logger \<Rightarrow> bytes \<times> 'w logger" where
  "end_capture s =
     (if \<not> lg_mutex s then ([], s)
      else (lg_capture_buf s,
            s\<lparr>lg_capture_active := False, lg_capture_task := 0, lg_capture_buf := []\<rparr>))"

section \<open>Sending over the radio\<close>

definition chunk_stride :: "'w log_endpoint \<Rightarrow> bool \<Rightarrow> nat" where
  "chunk_stride ep sealed = (if sealed then ep_max_payload ep - kBtpAeadTagSize else ep_max_payload ep)"

text \<open>\<open>send_log_direct\<close>: one single-fragment message per stride, each with its own sequence.\<close>

function send_direct_from ::
    "'w log_endpoint \<Rightarrow> bool \<Rightarrow> log_type \<Rightarrow> u64 \<Rightarrow> bytes \<Rightarrow> 'w \<Rightarrow> bool \<times> 'w" where
  "send_direct_from ep sealed t ts rest w =
     (if rest = [] \<or> chunk_stride ep sealed = 0 then (True, w)
      else case ep_reserve ep w of
        (None, w1) \<Rightarrow> (False, w1)
      | (Some sequence, w1) \<Rightarrow>
          (case ep_send ep \<lparr>fa_type = t, fa_sequence = sequence, fa_timestamp_us = ts, fa_index = 0,
                            fa_count = 1, fa_sealed = sealed\<rparr> (take (chunk_stride ep sealed) rest) w1 of
             (False, w2) \<Rightarrow> (False, w2)
           | (True, w2) \<Rightarrow> send_direct_from ep sealed t ts (drop (chunk_stride ep sealed) rest) w2))"
  by pat_completeness auto
termination by (relation "measure (\<lambda>(ep, sealed, t, ts, rest, w). length rest)") auto

declare send_direct_from.simps [simp del]

definition send_log_direct :: "nat \<Rightarrow> log_type \<Rightarrow> bytes option \<Rightarrow> u64 \<Rightarrow> 'w logger \<Rightarrow> bool \<times> 'w logger" where
  "send_log_direct task t msg ts s =
     (case msg of
        None \<Rightarrow> (False, s)
      | Some data \<Rightarrow>
          if data = [] then (False, s)
          else if \<not> lg_mutex s then (False, s)
          else let s1 = capture_text task data s in
            case lg_endpoint s1 of
              None \<Rightarrow> (False, s1)
            | Some ep \<Rightarrow>
                (case send_direct_from ep (lg_sealed s1) t ts data (lg_world s1) of
                   (ok, w) \<Rightarrow> (ok, s1\<lparr>lg_world := w\<rparr>)))"

definition begin_consumer :: "'w logger \<Rightarrow> bool \<times> 'w logger" where
  "begin_consumer s =
     (if \<not> lg_mutex s then (False, s)
      else if lg_consumer_busy s then (False, s)
      else (True, s\<lparr>lg_consumer_busy := True\<rparr>))"

definition end_consumer :: "'w logger \<Rightarrow> 'w logger" where
  "end_consumer s = (if \<not> lg_mutex s then s else s\<lparr>lg_consumer_busy := False\<rparr>)"

text \<open>The locked part of one iteration: start a record if none is active, and copy a chunk.\<close>

record chunk =
  ck_header :: log_header
  ck_payload :: bytes
  ck_first :: bool

definition flush_take :: "'w log_endpoint \<Rightarrow> 'w logger \<Rightarrow> chunk option \<times> 'w logger" where
  "flush_take ep s =
     (if Option.is_none (lg_storage s) \<or> lg_pending s = 0 then (None, s)
      else
        case (if lg_send_active s then (True, s)
              else case read_header_at (lg_send_offset s) (lg_pending s) s of
                (ok, h) \<Rightarrow>
                  let s0 = (case h of None \<Rightarrow> s | Some hdr \<Rightarrow> s\<lparr>lg_send_header := hdr\<rparr>) in
                  if ok then (True, s0\<lparr>lg_send_active := True, lg_send_done := 0\<rparr>) else (False, s0)) of
          (False, s1) \<Rightarrow> (None, s1)
        | (True, s1) \<Rightarrow>
            let stride = chunk_stride ep (lg_sealed s1);
                remaining = sub32 (unat (lh_length (lg_send_header s1))) (lg_send_done s1);
                n = (if remaining < stride then remaining else stride) mod 2 ^ 16;
                off = (lg_send_offset s1 + kHeaderSize + lg_send_done s1) mod lg_capacity s1
            in (Some \<lparr>ck_header = lg_send_header s1, ck_payload = read_from_ring off n s1,
                      ck_first = (lg_send_done s1 = 0)\<rparr>, s1))"

text \<open>The unlocked part: the first chunk goes under the record's sequence, later ones get their own.\<close>

definition flush_send :: "'w log_endpoint \<Rightarrow> bool \<Rightarrow> chunk \<Rightarrow> 'w \<Rightarrow> bool \<times> 'w" where
  "flush_send ep sealed c w =
     (case (if ck_first c then (Some (lh_sequence (ck_header c)), w) else ep_reserve ep w) of
        (None, w1) \<Rightarrow> (False, w1)
      | (Some sequence, w1) \<Rightarrow>
          ep_send ep \<lparr>fa_type = lh_type (ck_header c), fa_sequence = sequence,
             fa_timestamp_us = lh_timestamp_us (ck_header c), fa_index = 0, fa_count = 1,
             fa_sealed = sealed\<rparr> (ck_payload c) w1)"

definition flush_commit :: "nat \<Rightarrow> 'w logger \<Rightarrow> 'w logger" where
  "flush_commit n s =
     (let bytes_sent = add32 (lg_send_done s) n in
      if bytes_sent \<ge> unat (lh_length (lg_send_header s)) then
        let record_size = kHeaderSize + unat (lh_length (lg_send_header s)) in
        s\<lparr>lg_send_offset := (lg_send_offset s + record_size) mod lg_capacity s,
          lg_pending := sub32 (lg_pending s) record_size, lg_send_active := False,
          lg_send_header := zero_header, lg_send_done := 0\<rparr>
      else s\<lparr>lg_send_done := bytes_sent\<rparr>)"

fun flush_loop :: "nat \<Rightarrow> 'w log_endpoint \<Rightarrow> 'w logger \<Rightarrow> 'w logger" where
  "flush_loop 0 ep s = s"
| "flush_loop (Suc packets) ep s =
     (case flush_take ep s of
        (None, s1) \<Rightarrow> s1
      | (Some c, s1) \<Rightarrow>
          (case flush_send ep (lg_sealed s1) c (lg_world s1) of
             (False, w) \<Rightarrow> s1\<lparr>lg_world := w\<rparr>
           | (True, w) \<Rightarrow>
               if \<not> lg_send_active s1 then s1\<lparr>lg_world := w\<rparr>
               else flush_loop packets ep (flush_commit (length (ck_payload c)) (s1\<lparr>lg_world := w\<rparr>))))"

definition flush_logs :: "'w logger \<Rightarrow> 'w logger" where
  "flush_logs s =
     (case begin_consumer s of
        (False, s1) \<Rightarrow> s1
      | (True, s1) \<Rightarrow>
          end_consumer
            (case lg_endpoint s1 of
               None \<Rightarrow> s1
             | Some ep \<Rightarrow> flush_loop (unat (lg_max_chunks s1 * lg_block_size s1)) ep s1))"

section \<open>Saving to the SD card\<close>

type_synonym 'w storage_callback = "bytes \<Rightarrow> 'w \<Rightarrow> bool \<times> 'w"

definition fragment_count :: "'w log_endpoint \<Rightarrow> log_header \<Rightarrow> nat" where
  "fragment_count ep h = ((unat (lh_length h) + ep_max_payload ep - 1) div ep_max_payload ep) mod 256"

fun save_fragments ::
    "'w storage_callback \<Rightarrow> 'w log_endpoint \<Rightarrow> nat \<Rightarrow> log_header \<Rightarrow> nat list \<Rightarrow> 'w logger \<Rightarrow>
     bool \<times> 'w logger" where
  "save_fragments cb ep off h [] s = (True, s)"
| "save_fragments cb ep off h (p # ps) s =
     (let payload_offset = p * ep_max_payload ep;
          remaining = sub32 (unat (lh_length h)) payload_offset;
          n = (if remaining < ep_max_payload ep then remaining else ep_max_payload ep) mod 2 ^ 16;
          payload = read_from_ring ((off + kHeaderSize + payload_offset) mod lg_capacity s) n s
      in case ep_encode ep \<lparr>fa_type = lh_type h, fa_sequence = lh_sequence h,
                  fa_timestamp_us = lh_timestamp_us h, fa_index = p, fa_count = fragment_count ep h,
                  fa_sealed = False\<rparr> payload of
           None \<Rightarrow> (False, s)
         | Some frame \<Rightarrow>
             (case cb frame (lg_world s) of
                (False, w) \<Rightarrow> (False, s\<lparr>lg_world := w\<rparr>)
              | (True, w) \<Rightarrow> save_fragments cb ep off h ps (s\<lparr>lg_world := w\<rparr>)))"

definition release_record :: "log_header \<Rightarrow> 'w logger \<Rightarrow> 'w logger" where
  "release_record h s =
     (let record_size = kHeaderSize + unat (lh_length h);
          s1 = (if lg_pending s = lg_used s
                then s\<lparr>lg_send_offset := (lg_send_offset s + record_size) mod lg_capacity s,
                       lg_pending := sub32 (lg_pending s) record_size\<rparr>
                else s)
      in s1\<lparr>lg_read_offset := (lg_read_offset s1 + record_size) mod lg_capacity s1,
            lg_used := sub32 (lg_used s1) record_size\<rparr>)"

text \<open>The endpoint may be missing; then the first fragment fails.\<close>

function save_loop ::
    "'w storage_callback \<Rightarrow> nat \<Rightarrow> 'w logger \<Rightarrow> bool \<times> 'w logger" where
  "save_loop cb remaining s =
     (if remaining = 0 then (True, s)
      else case read_header_at (lg_read_offset s) remaining s of
        (True, Some h) \<Rightarrow>
          (case (case lg_endpoint s of
                   None \<Rightarrow> (False, s)
                 | Some ep \<Rightarrow> save_fragments cb ep (lg_read_offset s) h [0..<fragment_count ep h] s) of
             (False, s1) \<Rightarrow> (False, s1)
           | (True, s1) \<Rightarrow>
               save_loop cb (remaining - (kHeaderSize + unat (lh_length h))) (release_record h s1))
      | _ \<Rightarrow> (False, s))"
  by pat_completeness auto
termination
  by (relation "measure (\<lambda>(cb, remaining, s). remaining)") (auto simp: kHeaderSize_def)

declare save_loop.simps [simp del]

definition flush_logs_to :: "'w storage_callback option \<Rightarrow> 'w logger \<Rightarrow> bool \<times> 'w logger" where
  "flush_logs_to callback s =
     (case callback of
        None \<Rightarrow> (False, s)
      | Some cb \<Rightarrow>
          (case begin_consumer s of
             (False, s1) \<Rightarrow> (False, s1)
           | (True, s1) \<Rightarrow> (case save_loop cb (lg_used s1) s1 of (ok, s2) \<Rightarrow> (ok, end_consumer s2))))"

section \<open>The ring as a list of bytes\<close>

lemma nth_ring_list: "i < n \<Longrightarrow> ring_list cap xs r n ! i = xs ! ((r + i) mod cap)"
  by (simp add: ring_list_def)

lemma ring_list_split:
  "ring_list cap xs r (a + b) = ring_list cap xs r a @ ring_list cap xs ((r + a) mod cap) b"
proof (rule nth_equalityI)
  fix i assume "i < length (ring_list cap xs r (a + b))"
  then have i: "i < a + b" by simp
  show "ring_list cap xs r (a + b) ! i = (ring_list cap xs r a @ ring_list cap xs ((r + a) mod cap) b) ! i"
  proof (cases "i < a")
    case True
    then show ?thesis by (simp add: nth_append nth_ring_list)
  next
    case False
    have "((r + a) mod cap + (i - a)) mod cap = (r + a + (i - a)) mod cap" by (rule mod_add_left_eq)
    also have "r + a + (i - a) = r + i" using False by simp
    finally have "xs ! (((r + a) mod cap + (i - a)) mod cap) = xs ! ((r + i) mod cap)" by (rule arg_cong)
    moreover have "i - a < b" using i False by simp
    ultimately show ?thesis using False i by (simp only: nth_append nth_ring_list length_ring_list if_False)
  qed
qed simp

lemma ring_take: "m \<le> n \<Longrightarrow> take m (ring_list cap xs r n) = ring_list cap xs r m"
  by (simp add: ring_list_def take_map)

lemma read_is_ring_list:
  assumes "lg_storage s = Some mem" and "length mem = lg_capacity s" and "off < lg_capacity s"
    and "n \<le> lg_capacity s"
  shows "read_from_ring off n s = ring_list (lg_capacity s) mem off n"
proof (rule nth_equalityI)
  show "length (read_from_ring off n s) = length (ring_list (lg_capacity s) mem off n)"
    using assms by (simp add: read_from_ring_def Let_def)
next
  fix i assume "i < length (read_from_ring off n s)"
  then have i: "i < n" using assms by (simp add: read_from_ring_def Let_def split: if_splits)
  have "(off + i) mod lg_capacity s =
      (if off + i < lg_capacity s then off + i else off + i - lg_capacity s)"
    using assms i by (auto simp: le_mod_geq)
  then show "read_from_ring off n s ! i = ring_list (lg_capacity s) mem off n ! i"
    using assms i by (auto simp: read_from_ring_def Let_def nth_ring_list nth_append add.commute)
qed

lemma length_store_at [simp]: "off + length bs \<le> length xs \<Longrightarrow> length (store_at off bs xs) = length xs"
  by (simp add: store_at_def)

lemma nth_store_at:
  "off + length bs \<le> length xs \<Longrightarrow> j < length xs \<Longrightarrow>
   store_at off bs xs ! j = (if off \<le> j \<and> j < off + length bs then bs ! (j - off) else xs ! j)"
  by (auto simp: store_at_def nth_append not_less)

definition ring_memory :: "bytes \<Rightarrow> 'w logger \<Rightarrow> bool" where
  "ring_memory mem s \<longleftrightarrow> lg_storage s = Some mem \<and> length mem = lg_capacity s \<and> 0 < lg_capacity s \<and>
     lg_write_offset s < lg_capacity s"

lemma write_to_ring_effect:
  assumes m: "ring_memory mem s" and len: "length bs \<le> lg_capacity s"
  shows "\<exists>mem'. write_to_ring bs s = s\<lparr>lg_storage := Some mem',
      lg_write_offset := (lg_write_offset s + length bs) mod lg_capacity s\<rparr> \<and>
    length mem' = lg_capacity s \<and>
    (\<forall>i < length bs. mem' ! ((lg_write_offset s + i) mod lg_capacity s) = bs ! i) \<and>
    (\<forall>j < lg_capacity s. (\<forall>i < length bs. j \<noteq> (lg_write_offset s + i) mod lg_capacity s) \<longrightarrow>
        mem' ! j = mem ! j)"
proof (cases "bs = []")
  case True
  have "s = s\<lparr>lg_storage := Some mem, lg_write_offset := lg_write_offset s\<rparr>"
    using m by (simp add: ring_memory_def)
  then show ?thesis using m True by (intro exI [of _ mem]) (simp add: ring_memory_def write_to_ring_def)
next
  case False
  let ?cap = "lg_capacity s" and ?w = "lg_write_offset s"
  let ?first = "if length bs < ?cap - ?w then length bs else ?cap - ?w"
  let ?m1 = "store_at ?w (take ?first bs) mem"
  let ?m2 = "if length bs > ?first then store_at 0 (drop ?first bs) ?m1 else ?m1"
  have mem: "lg_storage s = Some mem" "length mem = ?cap" "?w < ?cap"
    using m by (simp_all add: ring_memory_def)
  have f: "?w + length (take ?first bs) \<le> length mem" "length (drop ?first bs) \<le> ?cap"
    using mem len by auto
  have l1: "length ?m1 = ?cap" using f mem by simp
  have l2: "length ?m2 = ?cap" using f l1 by simp
  have wrap: "(?w + i) mod ?cap = (if ?w + i < ?cap then ?w + i else ?w + i - ?cap)"
    if "i < length bs" for i using that len mem by (auto simp: le_mod_geq)
  have at: "?m2 ! j = (if length bs > ?first \<and> j < length bs - ?first then bs ! (?first + j)
      else if ?w \<le> j \<and> j < ?w + ?first then bs ! (j - ?w) else mem ! j)" if "j < ?cap" for j
    using that f l1 mem by (auto simp: nth_store_at)
  have "?m2 ! ((?w + i) mod ?cap) = bs ! i" if i: "i < length bs" for i
  proof (cases "?w + i < ?cap")
    case True
    then have "\<not> (length bs > ?first \<and> ?w + i < length bs - ?first)" using len mem i by auto
    then show ?thesis using at [of "?w + i"] wrap [OF i] True i by auto
  next
    case over: False
    then have "length bs > ?first" "?first = ?cap - ?w" using i by auto
    then show ?thesis using at [of "?w + i - ?cap"] wrap [OF i] over i len mem by auto
  qed
  moreover have "?m2 ! j = mem ! j"
    if j: "j < ?cap" and out: "\<forall>i < length bs. j \<noteq> (?w + i) mod ?cap" for j
  proof -
    have a: "\<not> (?w \<le> j \<and> j < ?w + ?first)"
    proof
      assume b: "?w \<le> j \<and> j < ?w + ?first"
      then have "j - ?w < length bs" by (auto split: if_splits)
      with out wrap [OF this] b j show False by auto
    qed
    have "\<not> (length bs > ?first \<and> j < length bs - ?first)"
    proof
      assume b: "length bs > ?first \<and> j < length bs - ?first"
      then have c: "?first = ?cap - ?w" "j + (?cap - ?w) < length bs" by (auto split: if_splits)
      from out c(2) wrap [OF c(2)] j mem show False by auto
    qed
    with a at [OF j] show ?thesis by auto
  qed
  ultimately show ?thesis
    using False mem l2
    by (intro exI [of _ ?m2]) (simp add: write_to_ring_def Let_def del: length_store_at)
qed

lemma write_appends:
  assumes m: "ring_memory mem s" and w: "lg_write_offset s = (r + u) mod lg_capacity s"
    and room: "u + length bs \<le> lg_capacity s"
  shows "\<exists>mem'. write_to_ring bs s = s\<lparr>lg_storage := Some mem',
      lg_write_offset := (r + (u + length bs)) mod lg_capacity s\<rparr> \<and>
    length mem' = lg_capacity s \<and>
    ring_list (lg_capacity s) mem' r (u + length bs) = ring_list (lg_capacity s) mem r u @ bs"
proof -
  let ?cap = "lg_capacity s"
  have cap: "0 < ?cap" using m by (simp add: ring_memory_def)
  obtain mem' where e: "write_to_ring bs s = s\<lparr>lg_storage := Some mem',
      lg_write_offset := (lg_write_offset s + length bs) mod ?cap\<rparr>" "length mem' = ?cap"
    and new: "\<forall>i < length bs. mem' ! ((lg_write_offset s + i) mod ?cap) = bs ! i"
    and old: "\<forall>j < ?cap. (\<forall>i < length bs. j \<noteq> (lg_write_offset s + i) mod ?cap) \<longrightarrow> mem' ! j = mem ! j"
    using write_to_ring_effect [OF m, of bs] room by auto
  have pos: "(lg_write_offset s + i) mod ?cap = (r + (u + i)) mod ?cap" for i
    by (simp add: w mod_add_left_eq add.assoc)
  have "ring_list ?cap mem' ((r + u) mod ?cap) (length bs) = bs"
    using new by (intro nth_equalityI) (auto simp: nth_ring_list w)
  moreover have "ring_list ?cap mem' r u = ring_list ?cap mem r u"
  proof (rule nth_equalityI)
    fix i assume "i < length (ring_list ?cap mem' r u)"
    then have i: "i < u" by simp
    have "(r + i) mod ?cap \<noteq> (lg_write_offset s + k) mod ?cap" if "k < length bs" for k
      unfolding pos using mod_add_left_inj [of i ?cap "u + k" r] i that room by auto
    then have "mem' ! ((r + i) mod ?cap) = mem ! ((r + i) mod ?cap)" using old cap by auto
    then show "ring_list ?cap mem' r u ! i = ring_list ?cap mem r u ! i" using i by (simp add: nth_ring_list)
  qed simp
  ultimately show ?thesis
    using e pos [of "length bs"] by (intro exI [of _ mem']) (simp add: ring_list_split)
qed

section \<open>Records in the ring\<close>

type_synonym log_record = "log_header \<times> bytes"

definition rec_bytes :: "log_record \<Rightarrow> bytes" where
  "rec_bytes r = header_bytes (fst r) @ snd r"

definition rec_size :: "log_record \<Rightarrow> nat" where
  "rec_size r = kHeaderSize + unat (lh_length (fst r))"

definition rec_ok :: "log_record \<Rightarrow> bool" where
  "rec_ok r \<longleftrightarrow> length (snd r) = unat (lh_length (fst r)) \<and> lh_length (fst r) > 0"

definition total_size :: "log_record list \<Rightarrow> nat" where
  "total_size rs = sum_list (map rec_size rs)"

lemma total_size_simps [simp]:
  "total_size [] = 0" "total_size (r # rs) = rec_size r + total_size rs"
  "total_size (rs @ rs') = total_size rs + total_size rs'"
  by (simp_all add: total_size_def)

lemma length_header_bytes [simp]: "length (header_bytes h) = kHeaderSize"
  by (simp add: header_bytes_def kHeaderSize_def)

lemma log_type_of_num [simp]: "log_type_of (log_type_num t) = t"
  by (cases t) (simp_all add: log_type_of_def)

lemma log_type_num_small: "log_type_num t < 256"
  by (cases t) simp_all

lemma header_roundtrip: "header_of_bytes (header_bytes h) = h"
proof -
  have small: "unat (lh_timestamp_us h) < 256 ^ 8" "unat (lh_sequence h) < 256 ^ 4"
    "unat (lh_length h) < 256 ^ 2"
    using unsigned_less [of "lh_timestamp_us h", where 'a = nat]
      unsigned_less [of "lh_sequence h", where 'a = nat] unsigned_less [of "lh_length h", where 'a = nat]
    by simp_all
  have ty: "unat (word_of_nat (log_type_num (lh_type h)) :: u8) = log_type_num (lh_type h)"
    using log_type_num_small [of "lh_type h"] by (simp add: unat_of_nat)
  have at: "header_bytes h ! 14 = word_of_nat (log_type_num (lh_type h))" "header_bytes h ! 15 = lh_reserved h"
    by (simp_all add: header_bytes_def nth_append)
  have parts: "take 8 (header_bytes h) = le_encode 8 (unat (lh_timestamp_us h))"
    "take 4 (drop 8 (header_bytes h)) = le_encode 4 (unat (lh_sequence h))"
    "take 2 (drop 12 (header_bytes h)) = le_encode 2 (unat (lh_length h))"
    by (simp_all add: header_bytes_def)
  show ?thesis
    unfolding header_of_bytes_def parts at ty le_decode_encode [OF small(1)]
      le_decode_encode [OF small(2)] le_decode_encode [OF small(3)] by simp
qed

lemma length_rec_bytes: "rec_ok r \<Longrightarrow> length (rec_bytes r) = rec_size r"
  by (simp add: rec_bytes_def rec_size_def rec_ok_def)

lemma length_recs: "list_all rec_ok rs \<Longrightarrow> length (concat (map rec_bytes rs)) = total_size rs"
  by (induction rs) (simp_all add: length_rec_bytes)

text \<open>\<open>sent\<close> has gone over the radio already, \<open>unsent\<close> has not; both are retained.\<close>

definition log_inv :: "log_record list \<Rightarrow> log_record list \<Rightarrow> 'w logger \<Rightarrow> bool" where
  "log_inv sent unsent s \<longleftrightarrow> (\<exists>mem. ring_memory mem s \<and>
     ring_list (lg_capacity s) mem (lg_read_offset s) (lg_used s) = concat (map rec_bytes (sent @ unsent))) \<and>
     lg_capacity s < 2 ^ 31 \<and> lg_read_offset s < lg_capacity s \<and> lg_used s \<le> lg_capacity s \<and>
     list_all rec_ok (sent @ unsent) \<and>
     lg_used s = total_size (sent @ unsent) \<and> lg_pending s = total_size unsent \<and>
     lg_write_offset s = (lg_read_offset s + lg_used s) mod lg_capacity s \<and>
     lg_send_offset s = (lg_read_offset s + total_size sent) mod lg_capacity s"

text \<open>The record being sent in chunks is the oldest unsent one.\<close>

definition active_ok :: "log_record list \<Rightarrow> 'w logger \<Rightarrow> bool" where
  "active_ok unsent s \<longleftrightarrow> (lg_send_active s \<longrightarrow>
     (\<exists>p rs. unsent = (lg_send_header s, p) # rs) \<and> lg_send_done s < unat (lh_length (lg_send_header s)))"

lemma log_inv_bounds:
  assumes "log_inv sent unsent s"
  shows "lg_used s \<le> lg_capacity s" "lg_capacity s < 2 ^ 31" "lg_pending s \<le> lg_used s"
    "total_size unsent \<le> lg_capacity s" "lg_storage s \<noteq> None" "0 < lg_capacity s"
    "lg_send_offset s < lg_capacity s"
  using assms by (auto simp: log_inv_def ring_memory_def)

text \<open>\<open>log_inv\<close> reads only the ring, so other fields may change.\<close>

lemma log_inv_frame [simp]:
  "log_inv a b (s\<lparr>lg_world := w\<rparr>) = log_inv a b s"
  "log_inv a b (s\<lparr>lg_consumer_busy := c\<rparr>) = log_inv a b s"
  "log_inv a b (s\<lparr>lg_send_header := h\<rparr>) = log_inv a b s"
  "log_inv a b (s\<lparr>lg_send_active := c\<rparr>) = log_inv a b s"
  "log_inv a b (s\<lparr>lg_send_done := n\<rparr>) = log_inv a b s"
  "log_inv a b (s\<lparr>lg_capture_buf := k\<rparr>) = log_inv a b s"
  by (simp_all add: log_inv_def ring_memory_def)

lemma new_record_fits:
  assumes inv: "log_inv sent unsent s" and ok: "rec_ok r"
    and room: "lg_used s + rec_size r \<le> lg_capacity s"
  shows "log_inv sent (unsent @ [r])
     ((write_to_ring (snd r) (write_to_ring (header_bytes (fst r)) s))\<lparr>
        lg_used := lg_used s + rec_size r, lg_pending := lg_pending s + rec_size r\<rparr>)"
proof -
  let ?cap = "lg_capacity s" and ?r = "lg_read_offset s" and ?u = "lg_used s"
  obtain mem where m: "ring_memory mem s"
    and list: "ring_list ?cap mem ?r ?u = concat (map rec_bytes (sent @ unsent))"
    and w: "lg_write_offset s = (?r + ?u) mod ?cap"
    using inv by (auto simp: log_inv_def)
  have cap: "0 < ?cap" using m by (simp add: ring_memory_def)
  have sz: "rec_size r = kHeaderSize + length (snd r)" using ok by (simp add: rec_size_def rec_ok_def)
  obtain m1 where e1: "write_to_ring (header_bytes (fst r)) s = s\<lparr>lg_storage := Some m1,
      lg_write_offset := (?r + (?u + kHeaderSize)) mod ?cap\<rparr>" "length m1 = ?cap"
    and l1: "ring_list ?cap m1 ?r (?u + kHeaderSize) = ring_list ?cap mem ?r ?u @ header_bytes (fst r)"
    using write_appends [OF m w, of "header_bytes (fst r)"] room sz by auto
  let ?s1 = "write_to_ring (header_bytes (fst r)) s"
  have m1: "ring_memory m1 ?s1" "lg_capacity ?s1 = ?cap" using e1 cap by (simp_all add: ring_memory_def)
  have w1: "lg_write_offset ?s1 = (?r + (?u + kHeaderSize)) mod lg_capacity ?s1" using e1 by simp
  obtain m2 where e2: "write_to_ring (snd r) ?s1 = ?s1\<lparr>lg_storage := Some m2,
      lg_write_offset := (?r + (?u + kHeaderSize + length (snd r))) mod ?cap\<rparr>" "length m2 = ?cap"
    and l2: "ring_list ?cap m2 ?r (?u + kHeaderSize + length (snd r)) =
      ring_list ?cap m1 ?r (?u + kHeaderSize) @ snd r"
    using write_appends [OF m1(1) w1, of "snd r"] room sz m1(2) by (auto simp: add.assoc)
  have "ring_list ?cap m2 ?r (?u + rec_size r) = concat (map rec_bytes (sent @ unsent @ [r]))"
    using l1 l2 list sz by (simp add: rec_bytes_def add.assoc)
  moreover have "ring_memory m2 (write_to_ring (snd r) ?s1)"
    using e1(1) e2 cap by (simp add: ring_memory_def)
  ultimately show ?thesis
    using inv ok room e1(1) e2(1) sz cap
    by (simp add: log_inv_def ring_memory_def add.assoc)
qed

definition stored_length :: "'w log_endpoint \<Rightarrow> bytes \<Rightarrow> nat" where
  "stored_length ep data = (if length data > ep_max_payload ep * 255 then ep_max_payload ep * 255
     else length data)"

definition frame_limit :: "'w log_endpoint \<Rightarrow> bool" where
  "frame_limit ep \<longleftrightarrow> 0 < ep_max_payload ep \<and> ep_max_payload ep * 255 < 65536"

definition new_record :: "'w log_endpoint \<Rightarrow> bytes \<Rightarrow> log_type \<Rightarrow> u64 \<Rightarrow> u32 \<Rightarrow> log_record" where
  "new_record ep data t ts seq =
     (\<lparr>lh_timestamp_us = ts, lh_sequence = seq, lh_length = word_of_nat (stored_length ep data),
       lh_type = t, lh_reserved = 0\<rparr>, take (stored_length ep data) data)"

lemma unat_stored_length:
  "frame_limit ep \<Longrightarrow> unat (word_of_nat (stored_length ep data) :: u16) = stored_length ep data"
  by (simp add: unat_of_nat take_bit_nat_eq_self stored_length_def frame_limit_def)

lemma new_record_ok:
  assumes "frame_limit ep" and "data \<noteq> []"
  shows "rec_ok (new_record ep data t ts seq)"
    and "rec_size (new_record ep data t ts seq) = kHeaderSize + stored_length ep data"
proof -
  have "0 < stored_length ep data" using assms by (simp add: stored_length_def frame_limit_def)
  then show "rec_ok (new_record ep data t ts seq)"
    using unat_stored_length [OF assms(1), of data]
    by (simp add: rec_ok_def new_record_def word_less_nat_alt) (simp add: stored_length_def)
  show "rec_size (new_record ep data t ts seq) = kHeaderSize + stored_length ep data"
    using unat_stored_length [OF assms(1), of data] by (simp add: rec_size_def new_record_def)
qed

lemma write_to_ring_fields [simp]:
  "lg_used (write_to_ring bs s) = lg_used s" "lg_pending (write_to_ring bs s) = lg_pending s"
  "lg_world (write_to_ring bs s) = lg_world s" "lg_capacity (write_to_ring bs s) = lg_capacity s"
  "lg_send_active (write_to_ring bs s) = lg_send_active s"
  "lg_send_header (write_to_ring bs s) = lg_send_header s"
  "lg_send_done (write_to_ring bs s) = lg_send_done s"
  by (simp_all add: write_to_ring_def Let_def)

lemma insert_appends:
  assumes inv: "log_inv sent unsent s" and ep: "lg_endpoint s = Some ep" and lim: "frame_limit ep"
    and data: "data \<noteq> []" and seq: "ep_reserve ep (lg_world s) = (Some seq, w)"
    and room: "lg_used s + kHeaderSize + stored_length ep data \<le> lg_capacity s"
  shows "log_inv sent (unsent @ [new_record ep data t ts seq]) (insert_log_impl data t ts s) \<and>
    lg_world (insert_log_impl data t ts s) = w"
proof -
  let ?n = "stored_length ep data" and ?r = "new_record ep data t ts seq"
  note b = log_inv_bounds [OF inv]
  have un: "unat (word_of_nat ?n :: u16) = ?n" using lim by (rule unat_stored_length)
  have big: "\<not> kHeaderSize + ?n > lg_capacity s" "\<not> sub32 (lg_capacity s) (lg_used s) < kHeaderSize + ?n"
    using room b by (simp_all add: sub32_le)
  have some: "\<not> (data = [] \<or> Option.is_none (lg_storage s))"
    using data b(5) by (simp add: Option.is_none_def)
  have "insert_log_impl data t ts s =
      (write_to_ring (snd ?r) (write_to_ring (header_bytes (fst ?r)) (s\<lparr>lg_world := w\<rparr>)))\<lparr>
        lg_used := lg_used s + rec_size ?r, lg_pending := lg_pending s + rec_size ?r\<rparr>"
    using some big seq ep un new_record_ok(2) [OF lim data] room b
    by (simp add: insert_log_impl_def Let_def stored_length_def [symmetric] new_record_def add32_small)
  moreover have "log_inv sent (unsent @ [?r])
     ((write_to_ring (snd ?r) (write_to_ring (header_bytes (fst ?r)) (s\<lparr>lg_world := w\<rparr>)))\<lparr>
        lg_used := lg_used (s\<lparr>lg_world := w\<rparr>) + rec_size ?r,
        lg_pending := lg_pending (s\<lparr>lg_world := w\<rparr>) + rec_size ?r\<rparr>)"
    by (rule new_record_fits) (use inv new_record_ok [OF lim data] room in auto)
  ultimately show ?thesis by simp
qed

lemma insert_rejects:
  assumes inv: "log_inv sent unsent s" and ep: "lg_endpoint s = Some ep" and lim: "frame_limit ep"
    and full: "lg_used s + kHeaderSize + stored_length ep data > lg_capacity s"
  shows "insert_log_impl data t ts s = s"
proof -
  note b = log_inv_bounds [OF inv]
  have un: "unat (word_of_nat (stored_length ep data) :: u16) = stored_length ep data"
    using lim by (rule unat_stored_length)
  have "sub32 (lg_capacity s) (lg_used s) < kHeaderSize + stored_length ep data"
    using full b by (simp add: sub32_le)
  then show ?thesis
    using ep un by (simp add: insert_log_impl_def Let_def stored_length_def [symmetric])
qed

section \<open>Saving, stated on records\<close>

fun store_payloads ::
    "'w storage_callback \<Rightarrow> 'w log_endpoint \<Rightarrow> log_header \<Rightarrow> (nat \<times> bytes) list \<Rightarrow> 'w \<Rightarrow> bool \<times> 'w" where
  "store_payloads cb ep h [] w = (True, w)"
| "store_payloads cb ep h ((i, payload) # ps) w =
     (case ep_encode ep \<lparr>fa_type = lh_type h, fa_sequence = lh_sequence h,
              fa_timestamp_us = lh_timestamp_us h, fa_index = i, fa_count = fragment_count ep h,
              fa_sealed = False\<rparr> payload of
        None \<Rightarrow> (False, w)
      | Some frame \<Rightarrow>
          (case cb frame w of (False, w') \<Rightarrow> (False, w') | (True, w') \<Rightarrow> store_payloads cb ep h ps w'))"

definition payload_at :: "'w log_endpoint \<Rightarrow> bytes \<Rightarrow> nat \<Rightarrow> bytes" where
  "payload_at ep p i = take (ep_max_payload ep) (drop (i * ep_max_payload ep) p)"

definition store_record :: "'w storage_callback \<Rightarrow> 'w log_endpoint \<Rightarrow> log_record \<Rightarrow> 'w \<Rightarrow> bool \<times> 'w" where
  "store_record cb ep r w = store_payloads cb ep (fst r)
     (map (\<lambda>i. (i, payload_at ep (snd r) i)) [0..<fragment_count ep (fst r)]) w"

text \<open>The records in order, until one cannot be stored completely; what is left is kept.\<close>

fun store_records ::
    "'w storage_callback \<Rightarrow> 'w log_endpoint \<Rightarrow> log_record list \<Rightarrow> 'w \<Rightarrow> bool \<times> log_record list \<times> 'w" where
  "store_records cb ep [] w = (True, [], w)"
| "store_records cb ep (r # rs) w =
     (case store_record cb ep r w of
        (False, w') \<Rightarrow> (False, r # rs, w')
      | (True, w') \<Rightarrow> store_records cb ep rs w')"

definition fits :: "'w log_endpoint \<Rightarrow> log_record \<Rightarrow> bool" where
  "fits ep r \<longleftrightarrow> unat (lh_length (fst r)) \<le> ep_max_payload ep * 255"

lemma read_inside:
  assumes inv: "log_inv sent unsent s"
    and parts: "concat (map rec_bytes (sent @ unsent)) = pre @ mid @ post"
  shows "read_from_ring ((lg_read_offset s + length pre) mod lg_capacity s) (length mid) s = mid"
proof -
  let ?cap = "lg_capacity s" and ?r = "lg_read_offset s"
  obtain mem where m: "ring_memory mem s"
    and list: "ring_list ?cap mem ?r (lg_used s) = pre @ mid @ post"
    using inv parts by (auto simp: log_inv_def)
  have u: "lg_used s = length pre + (length mid + length post)"
    using list by (metis length_append length_ring_list)
  have mid: "ring_list ?cap mem ((?r + length pre) mod ?cap) (length mid) = mid"
    using list unfolding u ring_list_split
    by (simp add: append_eq_append_conv)
  show ?thesis
    using m u log_inv_bounds(1) [OF inv] mid
    by (subst read_is_ring_list [of s mem]) (auto simp: ring_memory_def)
qed

lemma read_first_header:
  assumes inv: "log_inv sent unsent s" and recs: "sent @ unsent = r # rs"
    and avail: "rec_size r \<le> remaining"
  shows "read_header_at (lg_read_offset s) remaining s = (True, Some (fst r))"
proof -
  have ok: "rec_ok r" using inv recs by (simp add: log_inv_def)
  have "read_from_ring ((lg_read_offset s + length ([] :: bytes)) mod lg_capacity s)
      (length (header_bytes (fst r))) s = header_bytes (fst r)"
    by (rule read_inside [OF inv, of _ _ "snd r @ concat (map rec_bytes rs)"])
       (simp add: recs rec_bytes_def)
  moreover have "lg_read_offset s < lg_capacity s" using inv by (simp add: log_inv_def)
  moreover have "rec_size r \<le> lg_capacity s"
  proof -
    have "rec_size r \<le> lg_used s" using inv recs by (simp add: log_inv_def)
    then show ?thesis using log_inv_bounds(1) [OF inv] by simp
  qed
  ultimately show ?thesis
    using ok avail by (simp add: read_header_at_def Let_def header_roundtrip rec_size_def rec_ok_def)
qed

lemma read_first_payload:
  assumes inv: "log_inv sent unsent s" and recs: "sent @ unsent = r # rs"
    and "po + n \<le> length (snd r)"
  shows "read_from_ring ((lg_read_offset s + kHeaderSize + po) mod lg_capacity s) n s =
    take n (drop po (snd r))"
proof -
  let ?mid = "take n (drop po (snd r))"
  have "snd r = take po (snd r) @ ?mid @ drop (po + n) (snd r)"
    by (metis append_take_drop_id drop_drop add.commute)
  then have "concat (map rec_bytes (sent @ unsent)) = (header_bytes (fst r) @ take po (snd r)) @ ?mid @
      (drop (po + n) (snd r) @ concat (map rec_bytes rs))"
    by (simp add: recs rec_bytes_def)
  from read_inside [OF inv this] show ?thesis
    using assms(3) by (simp add: add.assoc)
qed

lemma save_fragments_store:
  assumes inv: "log_inv sent unsent s" and recs: "sent @ unsent = r # rs" and lim: "frame_limit ep"
    and small: "\<And>i. i \<in> set is \<Longrightarrow> i * ep_max_payload ep < length (snd r)"
  shows "save_fragments cb ep (lg_read_offset s) (fst r) is s =
    (case store_payloads cb ep (fst r) (map (\<lambda>i. (i, payload_at ep (snd r) i)) is) (lg_world s) of
       (ok, w) \<Rightarrow> (ok, s\<lparr>lg_world := w\<rparr>))"
  using inv small
proof (induction "is" arbitrary: s)
  case Nil
  then show ?case by simp
next
  case (Cons i "is")
  let ?mx = "ep_max_payload ep" and ?len = "length (snd r)"
  have ok: "rec_ok r" using Cons.prems(1) recs by (simp add: log_inv_def)
  then have len: "unat (lh_length (fst r)) = ?len" by (simp add: rec_ok_def)
  have "unat (lh_length (fst r)) < 65536" using unsigned_less [of "lh_length (fst r)", where 'a = nat] by simp
  then have rem: "sub32 ?len (i * ?mx) = ?len - i * ?mx" and n16: "?len < 65536"
    using Cons.prems(2) [of i] len by (simp_all add: sub32_le)
  let ?n = "if ?len - i * ?mx < ?mx then ?len - i * ?mx else ?mx"
  have mx: "?mx < 65536" using lim by (simp add: frame_limit_def)
  have n: "?n mod 2 ^ 16 = ?n" "i * ?mx + ?n \<le> ?len"
    using mx n16 Cons.prems(2) [of i] by auto
  have read: "read_from_ring ((lg_read_offset s + kHeaderSize + i * ?mx) mod lg_capacity s) ?n s =
      payload_at ep (snd r) i"
    using read_first_payload [OF Cons.prems(1) recs n(2)] by (auto simp: payload_at_def)
  have IH: "save_fragments cb ep (lg_read_offset s) (fst r) is (s\<lparr>lg_world := w\<rparr>) =
      (case store_payloads cb ep (fst r) (map (\<lambda>i. (i, payload_at ep (snd r) i)) is) w of
         (ok, w') \<Rightarrow> (ok, s\<lparr>lg_world := w'\<rparr>))" for w
    using Cons.IH [of "s\<lparr>lg_world := w\<rparr>"] Cons.prems by simp
  show ?case
    unfolding save_fragments.simps Let_def len rem n(1) read IH
    by (simp split: option.split prod.split bool.split)
qed

lemma fragment_count_exact:
  assumes "rec_ok r" and "fits ep r" and "frame_limit ep"
  shows "i \<in> set [0..<fragment_count ep (fst r)] \<Longrightarrow> i * ep_max_payload ep < length (snd r)"
proof -
  let ?mx = "ep_max_payload ep" and ?len = "length (snd r)"
  assume i: "i \<in> set [0..<fragment_count ep (fst r)]"
  have len: "unat (lh_length (fst r)) = ?len" using assms(1) by (simp add: rec_ok_def)
  have mx: "0 < ?mx" using assms(3) by (simp add: frame_limit_def)
  have "i < (?len + ?mx - 1) div ?mx"
    using i unfolding fragment_count_def len
    by (metis atLeastLessThan_iff less_le_trans mod_less_eq_dividend set_upt)
  then have "i + 1 \<le> (?len + ?mx - 1) div ?mx" by simp
  then have "(i + 1) * ?mx \<le> ?len + ?mx - 1"
    using mx by (metis div_times_less_eq_dividend le_trans mult_le_mono1)
  then show ?thesis using mx by (simp add: algebra_simps)
qed

lemma release_first:
  assumes inv: "log_inv sent unsent s" and recs: "sent @ unsent = r # rs"
  shows "\<exists>sent' unsent'. sent' @ unsent' = rs \<and> log_inv sent' unsent' (release_record (fst r) s)"
proof -
  let ?cap = "lg_capacity s" and ?r = "lg_read_offset s" and ?n = "rec_size r"
  obtain mem where m: "ring_memory mem s"
    and list: "ring_list ?cap mem ?r (lg_used s) = rec_bytes r @ concat (map rec_bytes rs)"
    using inv recs by (auto simp: log_inv_def)
  have ok: "rec_ok r" and oks: "list_all rec_ok rs" using inv recs by (auto simp: log_inv_def)
  have used: "lg_used s = ?n + total_size rs" using inv recs by (simp add: log_inv_def)
  have pos: "0 < ?n" by (simp add: rec_size_def kHeaderSize_def)
  note b = log_inv_bounds [OF inv]
  have tail: "ring_list ?cap mem ((?r + ?n) mod ?cap) (total_size rs) = concat (map rec_bytes rs)"
    using list length_rec_bytes [OF ok] unfolding used ring_list_split
    by (simp add: append_eq_append_conv)
  have rd: "(?r + ?n) mod ?cap < ?cap" using b(6) by simp
  have w: "lg_write_offset s = ((?r + ?n) mod ?cap + total_size rs) mod ?cap"
    using inv used by (simp add: log_inv_def mod_add_left_eq add.assoc)
  have sub: "sub32 (lg_used s) ?n = total_size rs" using used b by (simp add: sub32_le)
  show ?thesis
  proof (cases sent)
    case Nil
    then have un: "unsent = r # rs" and pend: "lg_pending s = lg_used s"
      using recs inv by (simp_all add: log_inv_def)
    have so: "lg_send_offset s = ?r" using inv Nil by (simp add: log_inv_def)
    have "log_inv [] rs (release_record (fst r) s)"
      using inv tail rd w sub m oks pend so used b(1)
      by (simp add: log_inv_def release_record_def Let_def rec_size_def [symmetric] ring_memory_def)
    then show ?thesis by (metis append_Nil)
  next
    case (Cons r' sent')
    then have r': "r' = r" "rs = sent' @ unsent" using recs by simp_all
    have pend: "lg_pending s \<noteq> lg_used s"
      using inv Cons r' pos by (simp add: log_inv_def)
    have so: "lg_send_offset s = ((?r + ?n) mod ?cap + total_size sent') mod ?cap"
      using inv Cons r' by (simp add: log_inv_def mod_add_left_eq add.assoc)
    have "log_inv sent' unsent (release_record (fst r) s)"
      using inv tail rd w sub m oks pend so used b(1) r'
      by (simp add: log_inv_def release_record_def Let_def rec_size_def [symmetric] ring_memory_def)
    then show ?thesis using r'(2) by blast
  qed
qed

lemma release_frame [simp]:
  "lg_world (release_record h s) = lg_world s" "lg_endpoint (release_record h s) = lg_endpoint s"
  "lg_mutex (release_record h s) = lg_mutex s" "lg_send_active (release_record h s) = lg_send_active s"
  "lg_send_header (release_record h s) = lg_send_header s" "lg_send_done (release_record h s) = lg_send_done s"
  by (simp_all add: release_record_def Let_def)

lemma save_loop_stores:
  assumes "log_inv sent unsent s" and "sent @ unsent = recs" and "lg_endpoint s = Some ep"
    and "frame_limit ep" and "list_all (fits ep) recs"
    and "store_records cb ep recs (lg_world s) = (ok, rest, w)"
  shows "\<exists>s' sent' unsent'. save_loop cb (total_size recs) s = (ok, s') \<and> sent' @ unsent' = rest \<and>
    log_inv sent' unsent' s' \<and> lg_world s' = w"
  using assms
proof (induction recs arbitrary: sent unsent s)
  case Nil
  then show ?case by (auto simp: save_loop.simps [of cb 0 s])
next
  case (Cons r rs)
  have ok: "rec_ok r" using Cons.prems(1,2) by (simp add: log_inv_def)
  have hd: "read_header_at (lg_read_offset s) (total_size (r # rs)) s = (True, Some (fst r))"
    using read_first_header [OF Cons.prems(1,2)] by simp
  have frag: "save_fragments cb ep (lg_read_offset s) (fst r) [0..<fragment_count ep (fst r)] s =
      (case store_record cb ep r (lg_world s) of (ok, w) \<Rightarrow> (ok, s\<lparr>lg_world := w\<rparr>))"
    unfolding store_record_def
    by (rule save_fragments_store [OF Cons.prems(1,2,4)])
       (rule fragment_count_exact [OF ok], use Cons.prems(4,5) in simp_all)
  have pos: "0 < rec_size r" by (simp add: rec_size_def kHeaderSize_def)
  have rest: "total_size (r # rs) - (kHeaderSize + unat (lh_length (fst r))) = total_size rs"
    by (simp add: rec_size_def)
  obtain good w1 where st: "store_record cb ep r (lg_world s) = (good, w1)" by fastforce
  show ?case
  proof (cases good)
    case False
    have loop: "save_loop cb (total_size (r # rs)) s = (False, s\<lparr>lg_world := w1\<rparr>)"
      using False pos hd frag st Cons.prems(3) by (subst save_loop.simps) simp
    have r: "ok = False" "rest = r # rs" "w = w1" using False st Cons.prems(6) by simp_all
    show ?thesis
      unfolding loop r
    proof (intro exI conjI)
      show "(False, s\<lparr>lg_world := w1\<rparr>) = (False, s\<lparr>lg_world := w1\<rparr>)" ..
      show "sent @ unsent = r # rs" by (rule Cons.prems(2))
    qed (use Cons.prems(1) in simp_all)
  next
    case True
    let ?s1 = "release_record (fst r) (s\<lparr>lg_world := w1\<rparr>)"
    have step: "save_loop cb (total_size (r # rs)) s = save_loop cb (total_size rs) ?s1"
      using pos hd frag st Cons.prems(3) True rest by (subst save_loop.simps) simp
    have inv1: "log_inv sent unsent (s\<lparr>lg_world := w1\<rparr>)" using Cons.prems(1) by simp
    obtain sent' unsent' where rel: "sent' @ unsent' = rs" "log_inv sent' unsent' ?s1"
      using release_first [OF inv1 Cons.prems(2)] by blast
    have "store_records cb ep rs (lg_world ?s1) = (ok, rest, w)" using Cons.prems(6) st True by simp
    then show ?thesis
      unfolding step
      by (intro Cons.IH [OF rel(2,1)]) (use Cons.prems(3-5) in simp_all)
  qed
qed

section \<open>Sending, stated on records\<close>

lemma read_unsent_header:
  assumes inv: "log_inv sent (r # rs) s"
  shows "read_header_at (lg_send_offset s) (lg_pending s) s = (True, Some (fst r))"
proof -
  have ok: "rec_ok r" and oks: "list_all rec_ok sent" using inv by (auto simp: log_inv_def)
  have parts: "concat (map rec_bytes (sent @ r # rs)) =
      concat (map rec_bytes sent) @ header_bytes (fst r) @ (snd r @ concat (map rec_bytes rs))"
    by (simp add: rec_bytes_def)
  have so: "lg_send_offset s = (lg_read_offset s + total_size sent) mod lg_capacity s"
    using inv by (simp add: log_inv_def)
  have "read_from_ring (lg_send_offset s) kHeaderSize s = header_bytes (fst r)"
    using read_inside [OF inv parts] by (simp add: length_recs [OF oks] so)
  moreover have "lg_pending s = rec_size r + total_size rs" using inv by (simp add: log_inv_def)
  ultimately show ?thesis
    using ok log_inv_bounds [OF inv]
    by (simp add: read_header_at_def Let_def header_roundtrip rec_size_def rec_ok_def)
qed

lemma read_unsent_payload:
  assumes inv: "log_inv sent (r # rs) s" and "po + n \<le> length (snd r)"
  shows "read_from_ring ((lg_send_offset s + kHeaderSize + po) mod lg_capacity s) n s =
    take n (drop po (snd r))"
proof -
  let ?mid = "take n (drop po (snd r))"
  have oks: "list_all rec_ok sent" using inv by (simp add: log_inv_def)
  have "snd r = take po (snd r) @ ?mid @ drop (po + n) (snd r)"
    by (metis append_take_drop_id drop_drop add.commute)
  then have parts: "concat (map rec_bytes (sent @ r # rs)) =
      (concat (map rec_bytes sent) @ header_bytes (fst r) @ take po (snd r)) @ ?mid @
      (drop (po + n) (snd r) @ concat (map rec_bytes rs))"
    by (simp add: rec_bytes_def)
  have so: "lg_send_offset s = (lg_read_offset s + total_size sent) mod lg_capacity s"
    using inv by (simp add: log_inv_def)
  have "(lg_send_offset s + kHeaderSize + po) mod lg_capacity s =
      (lg_read_offset s + (total_size sent + (kHeaderSize + po))) mod lg_capacity s"
    unfolding so by (metis add.assoc mod_add_left_eq)
  then show ?thesis
    using read_inside [OF inv parts] assms(2) by (simp add: length_recs [OF oks])
qed

lemma flush_take_chunk:
  assumes inv: "log_inv sent unsent s" and act: "active_ok unsent s" and lim: "frame_limit ep"
    and take: "flush_take ep s = (Some c, s1)"
  shows "log_inv sent unsent s1 \<and> active_ok unsent s1 \<and> lg_send_active s1 \<and>
    (\<exists>p rs. unsent = (lg_send_header s1, p) # rs \<and>
       ck_payload c = take (chunk_stride ep (lg_sealed s1)) (drop (lg_send_done s1) p))"
proof -
  have pend: "lg_pending s \<noteq> 0" using take by (auto simp: flush_take_def split: if_splits)
  then obtain r rs where un: "unsent = r # rs" using inv by (cases unsent) (auto simp: log_inv_def)
  have ok: "rec_ok r" using inv un by (simp add: log_inv_def)
  note hdr = read_unsent_header [OF inv [unfolded un]]
  have s1: "s1 = (if lg_send_active s then s
      else s\<lparr>lg_send_header := fst r, lg_send_active := True, lg_send_done := 0\<rparr>)"
    and c: "ck_payload c = read_from_ring ((lg_send_offset s1 + kHeaderSize + lg_send_done s1) mod lg_capacity s1)
      ((if sub32 (unat (lh_length (lg_send_header s1))) (lg_send_done s1) < chunk_stride ep (lg_sealed s1)
        then sub32 (unat (lh_length (lg_send_header s1))) (lg_send_done s1)
        else chunk_stride ep (lg_sealed s1)) mod 2 ^ 16) s1"
    using take hdr by (auto simp: flush_take_def Let_def split: if_splits)
  have inv1: "log_inv sent unsent s1" using inv s1 by simp
  have head: "lg_send_header s1 = fst r" "lg_send_done s1 < length (snd r)" "lg_send_active s1"
    using s1 act un ok by (auto simp: active_ok_def rec_ok_def word_less_nat_alt split: if_splits)
  let ?d = "lg_send_done s1" and ?st = "chunk_stride ep (lg_sealed s1)"
  have len: "unat (lh_length (fst r)) = length (snd r)" using ok by (simp add: rec_ok_def)
  have "unat (lh_length (fst r)) < 65536"
    using unsigned_less [of "lh_length (fst r)", where 'a = nat] by simp
  then have rem: "sub32 (length (snd r)) ?d = length (snd r) - ?d" "length (snd r) < 65536"
    using head len by (simp_all add: sub32_le)
  have "?st < 65536" using lim by (auto simp: chunk_stride_def frame_limit_def)
  then have "ck_payload c = read_from_ring ((lg_send_offset s1 + kHeaderSize + ?d) mod lg_capacity s1)
      (min (length (snd r) - ?d) ?st) s1"
    using c rem head by (simp add: len min_def)
  also have "\<dots> = take (min (length (snd r) - ?d) ?st) (drop ?d (snd r))"
    by (rule read_unsent_payload [OF inv1 [unfolded un]]) (use head in simp)
  also have "\<dots> = take ?st (drop ?d (snd r))" by (simp add: min_def)
  finally have "ck_payload c = take ?st (drop ?d (snd r))" .
  moreover have un1: "unsent = (lg_send_header s1, snd r) # rs" using un head by simp
  moreover have "active_ok unsent s1"
    unfolding active_ok_def using un1 head len by (metis (no_types))
  ultimately show ?thesis using inv1 head(3) by blast
qed

lemma flush_commit_inv:
  assumes inv: "log_inv sent ((lg_send_header s, p) # rs) s" and act: "lg_send_active s"
    and small: "lg_send_done s + n < 2 ^ 32"
  shows "\<exists>sent' unsent'. sent' @ unsent' = sent @ (lg_send_header s, p) # rs \<and>
    log_inv sent' unsent' (flush_commit n s) \<and> active_ok unsent' (flush_commit n s)"
proof -
  let ?h = "lg_send_header s"
  have ok: "rec_ok (?h, p)" using inv by (simp add: log_inv_def)
  then have len: "unat (lh_length ?h) = length p" by (simp add: rec_ok_def)
  have sum: "add32 (lg_send_done s) n = lg_send_done s + n" using small by (rule add32_small)
  note b = log_inv_bounds [OF inv]
  show ?thesis
  proof (cases "lg_send_done s + n \<ge> length p")
    case whole: True
    have pend: "lg_pending s = rec_size (?h, p) + total_size rs" using inv by (simp add: log_inv_def)
    have sub: "sub32 (lg_pending s) (rec_size (?h, p)) = total_size rs"
      using pend b by (simp add: sub32_le)
    have so: "(lg_send_offset s + rec_size (?h, p)) mod lg_capacity s =
        (lg_read_offset s + total_size (sent @ [(?h, p)])) mod lg_capacity s"
      using inv by (simp add: log_inv_def mod_add_left_eq add.assoc)
    have e: "flush_commit n s = s\<lparr>lg_send_offset := (lg_send_offset s + rec_size (?h, p)) mod lg_capacity s,
        lg_pending := total_size rs, lg_send_active := False, lg_send_header := zero_header, lg_send_done := 0\<rparr>"
      using whole sub by (simp add: flush_commit_def Let_def sum len rec_size_def)
    have "log_inv (sent @ [(?h, p)]) rs (flush_commit n s)"
      unfolding e using inv so by (auto simp: log_inv_def ring_memory_def)
    moreover have "active_ok rs (flush_commit n s)" unfolding e by (simp add: active_ok_def)
    moreover have "(sent @ [(?h, p)]) @ rs = sent @ (?h, p) # rs" by simp
    ultimately show ?thesis by blast
  next
    case part: False
    then have e: "flush_commit n s = s\<lparr>lg_send_done := lg_send_done s + n\<rparr>"
      by (simp add: flush_commit_def Let_def sum len)
    have "log_inv sent ((?h, p) # rs) (flush_commit n s)" unfolding e using inv by simp
    moreover have "active_ok ((?h, p) # rs) (flush_commit n s)"
      unfolding e using part len by (simp add: active_ok_def)
    ultimately show ?thesis by blast
  qed
qed

lemma flush_take_none:
  assumes "log_inv sent unsent s" and "active_ok unsent s" and "flush_take ep s = (None, s1)"
  shows "s1 = s"
proof (cases "unsent")
  case Nil
  then have "lg_pending s = 0" using assms(1) by (simp add: log_inv_def)
  then show ?thesis using assms(3) by (simp add: flush_take_def)
next
  case (Cons r rs)
  then have hdr: "read_header_at (lg_send_offset s) (lg_pending s) s = (True, Some (fst r))"
    using read_unsent_header assms(1) by blast
  then show ?thesis using assms(3) by (auto simp: flush_take_def Let_def split: if_splits)
qed

lemma active_ok_frame [simp]:
  "active_ok u (s\<lparr>lg_world := w\<rparr>) = active_ok u s"
  "active_ok u (s\<lparr>lg_consumer_busy := c\<rparr>) = active_ok u s"
  by (simp_all add: active_ok_def)

lemma flush_loop_keeps:
  assumes "log_inv sent unsent s" and "active_ok unsent s" and lim: "frame_limit ep"
  shows "\<exists>sent' unsent'. sent' @ unsent' = sent @ unsent \<and>
    log_inv sent' unsent' (flush_loop n ep s) \<and> active_ok unsent' (flush_loop n ep s)"
  using assms(1,2)
proof (induction n arbitrary: sent unsent s)
  case 0
  then show ?case by auto
next
  case (Suc n)
  obtain oc s1 where take: "flush_take ep s = (oc, s1)" by fastforce
  show ?case
  proof (cases oc)
    case None
    then show ?thesis using take flush_take_none [OF Suc.prems] Suc.prems by auto
  next
    case (Some c)
    note tk = flush_take_chunk [OF Suc.prems lim take [unfolded Some]]
    obtain p rs where un: "unsent = (lg_send_header s1, p) # rs"
      and pl: "ck_payload c = take (chunk_stride ep (lg_sealed s1)) (drop (lg_send_done s1) p)"
      using tk by blast
    obtain good w where send: "flush_send ep (lg_sealed s1) c (lg_world s1) = (good, w)" by fastforce
    show ?thesis
    proof (cases good)
      case False
      then have e: "flush_loop (Suc n) ep s = s1\<lparr>lg_world := w\<rparr>" using take Some send by simp
      show ?thesis unfolding e
        by (intro exI [of _ sent] exI [of _ unsent] conjI) (use tk in simp_all)
    next
      case True
      let ?s2 = "s1\<lparr>lg_world := w\<rparr>" and ?k = "length (ck_payload c)"
      have step: "flush_loop (Suc n) ep s = flush_loop n ep (flush_commit ?k ?s2)"
        using take Some send True tk by simp
      have inv2: "log_inv sent ((lg_send_header ?s2, p) # rs) ?s2" using tk un by simp
      have ok: "rec_ok (lg_send_header s1, p)" using tk un by (simp add: log_inv_def)
      have d: "lg_send_done s1 < length p"
        using tk ok un by (auto simp: active_ok_def rec_ok_def)
      have "length p < 65536"
        using ok unsigned_less [of "lh_length (lg_send_header s1)", where 'a = nat]
        by (simp add: rec_ok_def)
      moreover have "?k \<le> length p" using pl by simp
      ultimately have small: "lg_send_done ?s2 + ?k < 2 ^ 32" using d by simp
      obtain sent' unsent' where c: "sent' @ unsent' = sent @ unsent"
        "log_inv sent' unsent' (flush_commit ?k ?s2)" "active_ok unsent' (flush_commit ?k ?s2)"
        using flush_commit_inv [OF inv2 _ small] tk un by auto
      show ?thesis unfolding step using Suc.IH [OF c(2,3)] c(1) by simp
    qed
  qed
qed

text \<open>The capture buffer, documented as bounded by its capacity, gets one byte more.\<close>

lemma capture_overruns_by_one:
  assumes "lg_capture_active s" and "lg_capture_task s = task"
    and "length (lg_capture_buf s) < kCaptureCapacity" and "data \<noteq> []"
    and "kCaptureCapacity \<le> length (lg_capture_buf s) + length data"
  shows "length (lg_capture_buf (capture_text task data s)) = kCaptureCapacity + 1"
  using assms by (simp add: capture_text_def Let_def)

section \<open>Properties\<close>

text \<open>C11: A log record is appended or refused, never overwriting another: with a free ring position
  for its header and (cut to 255 frames) text, a message becomes the newest retained record, still
  to be sent; without one, nothing changes and no sequence number is used up.\<close>

theorem insert_appends_or_rejects:
  assumes "log_inv sent unsent s" and "lg_endpoint s = Some ep" and "frame_limit ep" and "data \<noteq> []"
    and "ep_reserve ep (lg_world s) = (Some seq, w)"
  shows "if lg_used s + kHeaderSize + stored_length ep data \<le> lg_capacity s
    then log_inv sent (unsent @ [new_record ep data t ts seq]) (insert_log_impl data t ts s) \<and>
         lg_world (insert_log_impl data t ts s) = w
    else insert_log_impl data t ts s = s"
  using insert_appends [OF assms] insert_rejects [OF assms(1-3)] by simp

text \<open>A radio that takes as many frames as its budget says, and a card that takes everything.\<close>

definition demo_endpoint :: "(nat \<times> bytes list) log_endpoint" where
  "demo_endpoint = \<lparr>ep_reserve = (\<lambda>w. (Some 1, w)),
     ep_send = (\<lambda>a p w. if fst w = 0 then (False, w) else (True, (fst w - 1, snd w @ [p]))),
     ep_encode = (\<lambda>a p. Some p), ep_max_payload = 4\<rparr>"

definition demo_logger :: "nat \<Rightarrow> (nat \<times> bytes list) logger" where
  "demo_logger budget = (new_logger 30 (Some (replicate 30 0)) (budget, []))\<lparr>
     lg_mutex := True, lg_endpoint := Some demo_endpoint\<rparr>"

lemma demo_logger_inv: "log_inv [] [] (demo_logger n)"
  by (simp add: log_inv_def ring_memory_def demo_logger_def new_logger_def)

lemma demo_limit: "frame_limit demo_endpoint"
  by (simp add: frame_limit_def demo_endpoint_def)

theorem insert_appends_or_rejects_witness:
  "log_inv [] [new_record demo_endpoint [7, 8] INFO 5 1] (insert_log_impl [7, 8] INFO 5 (demo_logger 3))"
  using insert_appends_or_rejects [OF demo_logger_inv _ demo_limit, of 3 "[7, 8]" 1 "(3, [])" INFO 5]
  by (simp add: demo_logger_def new_logger_def demo_endpoint_def stored_length_def kHeaderSize_def)

text \<open>Saving to the card writes the retained records in order and releases exactly those it
  stored completely: the result, what the card got, and the records that stay are those of storing
  the list of records one after the other, each as its fragments of one frame, until one fails.\<close>

theorem flush_stores_in_order:
  assumes "log_inv sent unsent s" and "lg_endpoint s = Some ep" and "frame_limit ep"
    and "list_all (fits ep) (sent @ unsent)" and "lg_mutex s" and "\<not> lg_consumer_busy s"
    and "store_records cb ep (sent @ unsent) (lg_world s) = (ok, rest, w)"
  shows "\<exists>s' sent' unsent'. flush_logs_to (Some cb) s = (ok, s') \<and> sent' @ unsent' = rest \<and>
    log_inv sent' unsent' s' \<and> lg_world s' = w"
proof -
  let ?s1 = "s\<lparr>lg_consumer_busy := True\<rparr>"
  have inv: "log_inv sent unsent ?s1" using assms(1) by simp
  have used: "lg_used ?s1 = total_size (sent @ unsent)" using assms(1) by (simp add: log_inv_def)
  obtain s' sent' unsent' where r: "save_loop cb (total_size (sent @ unsent)) ?s1 = (ok, s')"
    "sent' @ unsent' = rest" "log_inv sent' unsent' s'" "lg_world s' = w"
    using save_loop_stores [OF inv refl _ assms(3,4), of cb ok rest w] assms(2,7) by auto
  have "flush_logs_to (Some cb) s = (ok, end_consumer s')"
    using assms(5,6) r(1) used by (simp add: flush_logs_to_def begin_consumer_def)
  moreover have "log_inv sent' unsent' (end_consumer s')" "lg_world (end_consumer s') = w"
    using r by (simp_all add: end_consumer_def)
  ultimately show ?thesis using r(2) by blast
qed

theorem flush_stores_in_order_witness:
  "fst (flush_logs_to (Some (\<lambda>f w. (True, (fst w, snd w @ [f])))) (demo_logger 0))"
  using flush_stores_in_order [OF demo_logger_inv _ demo_limit, of 0
      "\<lambda>f w. (True, (fst w, snd w @ [f]))" True "[]" "(0, [])"]
  by (auto simp: demo_logger_def new_logger_def)

text \<open>Sending over the radio releases nothing: however many frames a pass sends, and wherever
  the radio stops it, every retained record is still retained, in order and unchanged; only the
  point between the sent and the unsent ones moves.\<close>

theorem sending_keeps_records:
  assumes "log_inv sent unsent s" and "active_ok unsent s" and "lg_endpoint s = Some ep"
    and "frame_limit ep"
  shows "\<exists>sent' unsent'. sent' @ unsent' = sent @ unsent \<and>
    log_inv sent' unsent' (flush_logs s) \<and> active_ok unsent' (flush_logs s)"
proof (cases "fst (begin_consumer s)")
  case True
  let ?s1 = "s\<lparr>lg_consumer_busy := True\<rparr>"
  have b: "begin_consumer s = (True, ?s1)" using True by (simp add: begin_consumer_def split: if_splits)
  have "log_inv sent unsent ?s1" "active_ok unsent ?s1" using assms by simp_all
  from flush_loop_keeps [OF this assms(4), of "unat (lg_max_chunks ?s1 * lg_block_size ?s1)"]
  show ?thesis using assms(3) by (auto simp: flush_logs_def b end_consumer_def)
next
  case False
  then have "begin_consumer s = (False, s)" by (simp add: begin_consumer_def split: if_splits)
  then show ?thesis using assms(1,2) by (auto simp: flush_logs_def)
qed

theorem sending_keeps_records_witness:
  "\<exists>sent' unsent'. sent' @ unsent' = [new_record demo_endpoint [7, 8] INFO 5 1] \<and>
    log_inv sent' unsent' (flush_logs (insert_log_impl [7, 8] INFO 5 (demo_logger 3)))"
proof -
  let ?r = "new_record demo_endpoint [7, 8] INFO 5 1"
  have ep: "lg_endpoint (demo_logger 3) = Some demo_endpoint" by (simp add: demo_logger_def)
  have inv: "log_inv [] ([] @ [?r]) (insert_log_impl [7, 8] INFO 5 (demo_logger 3))"
    using insert_appends [OF demo_logger_inv ep demo_limit, of "[7, 8]" 1 "(3, [])" INFO 5]
    by (simp add: demo_logger_def new_logger_def demo_endpoint_def stored_length_def kHeaderSize_def)
  have act: "active_ok ([] @ [?r]) (insert_log_impl [7, 8] INFO 5 (demo_logger 3))"
    and ep': "lg_endpoint (insert_log_impl [7, 8] INFO 5 (demo_logger 3)) = Some demo_endpoint"
    by (simp_all add: insert_log_impl_def demo_logger_def new_logger_def demo_endpoint_def active_ok_def
        Let_def write_to_ring_def)
  from sending_keeps_records [OF inv act ep' demo_limit] show ?thesis unfolding append_Nil by blast
qed

text \<open>The demonstration runs, evaluated step by step.\<close>

definition demo_state ::
    "bytes \<Rightarrow> nat \<Rightarrow> nat \<Rightarrow> nat \<Rightarrow> nat \<Rightarrow> nat \<Rightarrow> bool \<Rightarrow> log_header \<Rightarrow> nat \<Rightarrow> nat \<times> bytes list \<Rightarrow>
     (nat \<times> bytes list) logger" where
  "demo_state mem wr rd used so pend act hdr dn w = (demo_logger 0)\<lparr>lg_storage := Some mem,
     lg_write_offset := wr, lg_read_offset := rd, lg_used := used, lg_send_offset := so,
     lg_pending := pend, lg_send_active := act, lg_send_header := hdr, lg_send_done := dn, lg_world := w\<rparr>"

definition mem1 :: bytes where
  "mem1 = [5, 0, 0, 0, 0, 0, 0, 0, 1, 0, 0, 0, 8, 0, 1, 0, 1, 2, 3, 4, 5, 6, 7, 8, 0, 0, 0, 0, 0, 0]"

definition mem2 :: bytes where
  "mem2 = [0, 0, 1, 0, 0, 0, 2, 0, 1, 0, 90, 91, 8, 0, 1, 0, 1, 2, 3, 4, 5, 6, 7, 8, 6, 0, 0, 0, 0, 0]"

definition hdr1 :: log_header where
  "hdr1 = \<lparr>lh_timestamp_us = 5, lh_sequence = 1, lh_length = 8, lh_type = INFO, lh_reserved = 0\<rparr>"

lemma replicate_30: "replicate 30 (0 :: u8) =
    [0,0,0,0,0,0,0,0,0,0,0,0,0,0,0,0,0,0,0,0,0,0,0,0,0,0,0,0,0,0]"
  by (simp add: numeral_eq_Suc)

lemma upt_0_2: "[0..<2] = [0, 1 :: nat]"
  by (simp add: upt_rec)

lemma le_encode_numeral:
  "le_encode (numeral k) n = of_nat (n mod 256) # le_encode (pred_numeral k) (n div 256)"
  by (subst numeral_eq_Suc) simp

lemma flush_loop_numeral: "flush_loop (numeral k) ep s =
    (case flush_take ep s of
        (None, s1) \<Rightarrow> s1
      | (Some c, s1) \<Rightarrow>
          (case flush_send ep (lg_sealed s1) c (lg_world s1) of
             (False, w) \<Rightarrow> s1\<lparr>lg_world := w\<rparr>
           | (True, w) \<Rightarrow>
               if \<not> lg_send_active s1 then s1\<lparr>lg_world := w\<rparr>
               else flush_loop (pred_numeral k) ep
                      (flush_commit (length (ck_payload c)) (s1\<lparr>lg_world := w\<rparr>))))"
  by (subst numeral_eq_Suc) simp

lemmas log_eval = demo_state_def begin_consumer_def demo_logger_def new_logger_def demo_endpoint_def
  flush_loop_numeral flush_take_def read_header_at_def read_from_ring_def header_of_bytes_def Let_def
  kHeaderSize_def chunk_stride_def log_type_of_def flush_send_def flush_commit_def add32_def sub32_def
  end_consumer_def replicate_30 insert_log_impl_def write_to_ring_def header_bytes_def store_at_def
  le_encode_numeral fragment_count_def release_record_def hdr1_def mem1_def mem2_def upt_0_2

definition half_sent :: "(nat \<times> bytes list) logger" where
  "half_sent = flush_logs (insert_log_impl [1, 2, 3, 4, 5, 6, 7, 8] INFO 5 (demo_logger 1))"

definition saved :: "bool \<times> (nat \<times> bytes list) logger" where
  "saved = flush_logs_to (Some (\<lambda>f w. (True, w))) half_sent"

definition after_save :: "(nat \<times> bytes list) logger" where
  "after_save = flush_logs (insert_log_impl [90, 91] INFO 6 ((snd saved)\<lparr>lg_world := (9, [])\<rparr>))"

lemma demo_inserted: "insert_log_impl [1, 2, 3, 4, 5, 6, 7, 8] INFO 5 (demo_logger 1) =
    demo_state mem1 24 0 24 0 24 False zero_header 0 (1, [])"
  by (simp add: log_eval)

lemma demo_half_sent: "half_sent = demo_state mem1 24 0 24 0 24 True hdr1 4 (0, [[1, 2, 3, 4]])"
  unfolding half_sent_def demo_inserted flush_logs_def by (simp add: log_eval)

lemma demo_saved: "saved = (True, demo_state mem1 24 24 0 24 0 True hdr1 4 (0, [[1, 2, 3, 4]]))"
  unfolding saved_def demo_half_sent flush_logs_to_def by (simp add: log_eval save_loop.simps)

lemma demo_next: "insert_log_impl [90, 91] INFO 6 ((snd saved)\<lparr>lg_world := (9, [])\<rparr>) =
    demo_state mem2 12 24 18 24 18 True hdr1 4 (9, [])"
  unfolding demo_saved snd_conv by (simp add: log_eval)

lemma demo_after_save:
  "snd (lg_world after_save) = [[1, 0, 1, 2]]" "lg_pending after_save = 2 ^ 32 - 6"
  unfolding after_save_def demo_next flush_logs_def by (simp_all add: log_eval)

text \<open>Saving in the middle of a record confuses the radio: after one chunk of an eight-byte
  record was sent, saving everything to the card succeeds and empties the ring, but the next pass
  over a new two-byte record still sends four bytes under the old header, from beyond the new
  record, and leaves the counter of pending bytes wrapped around below zero.\<close>

theorem saving_half_sent_record_corrupts_sending:
  "snd (lg_world half_sent) = [[1, 2, 3, 4]] \<and> fst saved \<and> lg_used (snd saved) = 0 \<and>
   lg_send_active (snd saved) \<and> snd (lg_world after_save) = [[1, 0, 1, 2]] \<and>
   lg_pending after_save = 2 ^ 32 - 6"
  by (simp add: demo_half_sent demo_saved demo_after_save demo_state_def)

end
