(* ===== verification/Terminal_Responder.thy ===== *)
theory Terminal_Responder
  imports Prelude
begin

text \<open>
  \<^verbatim>\<open>lib/TerminalResponder/\<close>: the terminal channel.  Three slots, one per remote origin,
  each with a line editor; bytes come in (\<open>on_terminal_in\<close>), \<open>pump\<close> runs the editors, submits
  completed lines and emits what they echo, and the output of a command comes back through
  \<open>deliver_command_output\<close>.

  The line editor belongs to the shell library, which is not part of the sources: it is a state
  \<open>'e\<close> with the record \<open>'e editor_ops\<close> of the calls made on it; the text a call appends to the
  output is part of its result.  The endpoints and the submit callback are functions over the
  rest of the world \<open>'w\<close>.  Each operation is atomic here; \<open>tr_lock\<close> says that another task
  holds the lock, which the bounded tries see.
\<close>

section \<open>Interfaces\<close>

datatype link_target = EspNow | Tcp | Ble | Serial

record 'e editor_ops =
  eo_reset :: "'e \<Rightarrow> 'e"
  eo_set_completion :: "'e \<Rightarrow> 'e"
  eo_set_prompt :: "string \<Rightarrow> 'e \<Rightarrow> 'e \<times> string"
  eo_write_response :: "string \<Rightarrow> 'e \<Rightarrow> 'e \<times> string"
  eo_write_async :: "string \<Rightarrow> 'e \<Rightarrow> 'e \<times> string"
  eo_refresh_line :: "'e \<Rightarrow> 'e \<times> string"
  eo_feed :: "string \<Rightarrow> 'e \<Rightarrow> 'e"
  eo_poll :: "'e \<Rightarrow> string option \<times> 'e \<times> string"

text \<open>A bound endpoint: sending one logical message, and whether a sealer is set.\<close>

record 'w out_link =
  ol_send :: "string \<Rightarrow> u64 \<Rightarrow> 'w \<Rightarrow> bool \<times> 'w"
  ol_sealed :: bool

definition kMaxOrigins :: nat where "kMaxOrigins = 3"
definition kMaxPendingIn :: nat where "kMaxPendingIn = 1024"
definition kMaxCommandOut :: nat where "kMaxCommandOut = 2048"
definition kMaxAsyncOut :: nat where "kMaxAsyncOut = 1024"
definition kAeadTagSize :: nat where "kAeadTagSize = 16"

section \<open>State\<close>

record 'e slot =
  sl_used :: bool
  sl_source_id :: u32
  sl_boot_id :: u32
  sl_last_used_us :: u64
  sl_target :: link_target
  sl_editor :: 'e
  sl_prompt_painted :: bool
  sl_awaiting_result :: bool
  sl_pending_line :: string
  sl_in :: string
  sl_pending_out :: string
  sl_async_out :: string
  sl_result_ready :: bool
  sl_needs_editor_reset :: bool
  sl_async_prompt_dirty :: bool
  sl_last_async_output_us :: u64

definition empty_slot :: "'e \<Rightarrow> 'e slot" where
  "empty_slot e = \<lparr>sl_used = False, sl_source_id = 0, sl_boot_id = 0, sl_last_used_us = 0,
     sl_target = EspNow, sl_editor = e, sl_prompt_painted = False, sl_awaiting_result = False,
     sl_pending_line = [], sl_in = [], sl_pending_out = [], sl_async_out = [],
     sl_result_ready = False, sl_needs_editor_reset = False, sl_async_prompt_dirty = False,
     sl_last_async_output_us = 0\<rparr>"

record ('e, 'w) responder =
  tr_slots :: "'e slot list"
  tr_links :: "link_target \<Rightarrow> 'w out_link option"
  tr_submit :: "(u32 \<Rightarrow> u32 \<Rightarrow> string \<Rightarrow> 'w \<Rightarrow> bool \<times> 'w) option"
  tr_prompt :: string
  tr_lock :: bool
  tr_origins_seen :: u32
  tr_origins_evicted :: u32
  tr_lines_submitted :: u32
  tr_lines_dropped_busy :: u32
  tr_frames_out :: u32
  tr_in_bytes_dropped :: u32
  tr_async_lines_dropped :: u32
  tr_world :: 'w

definition new_responder :: "'e \<Rightarrow> 'w \<Rightarrow> ('e, 'w) responder" where
  "new_responder e w = \<lparr>tr_slots = replicate kMaxOrigins (empty_slot e), tr_links = (\<lambda>_. None),
     tr_submit = None, tr_prompt = [], tr_lock = False, tr_origins_seen = 0, tr_origins_evicted = 0,
     tr_lines_submitted = 0, tr_lines_dropped_busy = 0, tr_frames_out = 0, tr_in_bytes_dropped = 0,
     tr_async_lines_dropped = 0, tr_world = w\<rparr>"

definition tr_configure ::
    "'w out_link \<Rightarrow> (u32 \<Rightarrow> u32 \<Rightarrow> string \<Rightarrow> 'w \<Rightarrow> bool \<times> 'w) option \<Rightarrow> string option \<Rightarrow>
     ('e, 'w) responder \<Rightarrow> ('e, 'w) responder" where
  "tr_configure link submit prompt r =
     r\<lparr>tr_links := (tr_links r)(EspNow := Some link), tr_submit := submit,
       tr_prompt := (case prompt of None \<Rightarrow> [] | Some p \<Rightarrow> p)\<rparr>"

text \<open>\<open>bind_tcp_target\<close>, \<open>bind_ble_target\<close>, \<open>bind_serial_target\<close> and their reversals.\<close>

definition bind_target :: "link_target \<Rightarrow> 'w out_link \<Rightarrow> ('e, 'w) responder \<Rightarrow> ('e, 'w) responder" where
  "bind_target t link r = r\<lparr>tr_links := (tr_links r)(t := Some link)\<rparr>"

definition drop_target :: "link_target \<Rightarrow> 'e slot \<Rightarrow> 'e slot" where
  "drop_target t s = (if sl_used s \<and> sl_target s = t then s\<lparr>sl_used := False\<rparr> else s)"

definition unbind_target :: "link_target \<Rightarrow> ('e, 'w) responder \<Rightarrow> ('e, 'w) responder" where
  "unbind_target t r =
     (let r1 = r\<lparr>tr_links := (tr_links r)(t := None)\<rparr> in
      if tr_lock r1 then r1 else r1\<lparr>tr_slots := map (drop_target t) (tr_slots r1)\<rparr>)"

section \<open>Finding a slot\<close>

fun find_slot :: "u32 \<Rightarrow> u32 \<Rightarrow> 'e slot list \<Rightarrow> nat option" where
  "find_slot src boot [] = None"
| "find_slot src boot (s # ss) =
     (if sl_used s \<and> sl_source_id s = src \<and> sl_boot_id s = boot then Some 0
      else map_option Suc (find_slot src boot ss))"

text \<open>The victim: the first free slot, else the first with the least time of use.\<close>

fun pick_victim :: "nat \<Rightarrow> nat option \<Rightarrow> 'e slot list \<Rightarrow> 'e slot list \<Rightarrow> nat option" where
  "pick_victim i victim all [] = victim"
| "pick_victim i victim all (s # ss) =
     (if \<not> sl_used s then Some i
      else case victim of
        None \<Rightarrow> pick_victim (Suc i) (Some i) all ss
      | Some v \<Rightarrow>
          if sl_last_used_us s < sl_last_used_us (all ! v) then pick_victim (Suc i) (Some i) all ss
          else pick_victim (Suc i) victim all ss)"

definition claim_slot :: "u32 \<Rightarrow> u32 \<Rightarrow> u64 \<Rightarrow> 'e slot \<Rightarrow> 'e slot" where
  "claim_slot src boot now s = s\<lparr>sl_used := True, sl_source_id := src, sl_boot_id := boot,
     sl_last_used_us := now, sl_in := [], sl_pending_out := [], sl_async_out := [],
     sl_result_ready := False, sl_needs_editor_reset := True\<rparr>"

definition find_or_alloc ::
    "u32 \<Rightarrow> u32 \<Rightarrow> u64 \<Rightarrow> ('e, 'w) responder \<Rightarrow> nat option \<times> ('e, 'w) responder" where
  "find_or_alloc src boot now r =
     (case find_slot src boot (tr_slots r) of
        Some i \<Rightarrow> (Some i, r)
      | None \<Rightarrow>
          (case pick_victim 0 None (tr_slots r) (tr_slots r) of
             None \<Rightarrow> (None, r)
           | Some v \<Rightarrow>
               (Some v, r\<lparr>tr_slots := (tr_slots r)[v := claim_slot src boot now (tr_slots r ! v)],
                  tr_origins_seen := tr_origins_seen r + 1,
                  tr_origins_evicted := (if sl_used (tr_slots r ! v)
                    then tr_origins_evicted r + 1 else tr_origins_evicted r)\<rparr>)))"

section \<open>Input\<close>

definition buffer_input :: "link_target \<Rightarrow> nat \<Rightarrow> string \<Rightarrow> ('e, 'w) responder \<Rightarrow> ('e, 'w) responder" where
  "buffer_input target i data r =
     (let s = tr_slots r ! i;
          room = (if length (sl_in s) < kMaxPendingIn then kMaxPendingIn - length (sl_in s) else 0);
          n = (if length data < room then length data else room);
          s' = s\<lparr>sl_target := target, sl_in := sl_in s @ take n data\<rparr>
      in r\<lparr>tr_slots := (tr_slots r)[i := s'],
           tr_in_bytes_dropped := (if n < length data
             then tr_in_bytes_dropped r + word_of_nat (length data - n) else tr_in_bytes_dropped r)\<rparr>)"

text \<open>\<open>src\<close>, \<open>boot\<close> and \<open>ts\<close> are the origin and the time stamp of the header.\<close>

definition on_terminal_in ::
    "link_target \<Rightarrow> u32 \<Rightarrow> u32 \<Rightarrow> u64 \<Rightarrow> string option \<Rightarrow> ('e, 'w) responder \<Rightarrow> ('e, 'w) responder" where
  "on_terminal_in target src boot ts plaintext r =
     (case plaintext of
        None \<Rightarrow> r
      | Some data \<Rightarrow>
          if data = [] then r
          else if tr_lock r then
            r\<lparr>tr_in_bytes_dropped := tr_in_bytes_dropped r + word_of_nat (length data)\<rparr>
          else case find_or_alloc src boot ts r of
            (None, r1) \<Rightarrow> r1
          | (Some i, r1) \<Rightarrow> buffer_input target i data r1)"

section \<open>Command output\<close>

definition crlf :: string where "crlf = [CHR 0x0D, CHR 0x0A]"

definition rstrip :: "char list \<Rightarrow> string \<Rightarrow> string" where
  "rstrip cs l = rev (dropWhile (\<lambda>c. c \<in> set cs) (rev l))"

function render_lines :: "string \<Rightarrow> string" where
  "render_lines t =
     (let end_part = dropWhile (\<lambda>c. c \<noteq> CHR 0x0A) t;
          line = rstrip [CHR 0x0D, CHR 0x20] (takeWhile (\<lambda>c. c \<noteq> CHR 0x0A) t);
          here = (if line \<noteq> [] then ''! '' @ line @ crlf else [])
      in if end_part = [] then here else here @ render_lines (tl end_part))"
  by pat_completeness auto
termination
proof (relation "measure length")
  fix t end_part line here
  assume e: "end_part = dropWhile (\<lambda>c. c \<noteq> CHR 0x0A) (t :: string)" and ne: "end_part \<noteq> []"
  have "length end_part \<le> length t" unfolding e by (rule length_dropWhile_le)
  moreover have "0 < length end_part" using ne by simp
  ultimately have "length (tl end_part) < length t" unfolding length_tl by linarith
  then show "(tl end_part, t) \<in> measure length" by simp
qed simp

declare render_lines.simps [simp del]

definition render_command_output :: "string \<Rightarrow> u8 \<Rightarrow> string" where
  "render_command_output t status =
     render_lines t @
     (if status \<noteq> 0 then ''! [status='' @ show_dec (unat status) @ '']'' @ crlf else [])"

definition truncated_notice :: string where
  "truncated_notice = crlf @ ''! [output truncated]'' @ crlf"

definition deliver_command_output ::
    "u32 \<Rightarrow> u32 \<Rightarrow> string option \<Rightarrow> u8 \<Rightarrow> ('e, 'w) responder \<Rightarrow> ('e, 'w) responder" where
  "deliver_command_output src boot out status r =
     (let full = render_command_output (case out of None \<Rightarrow> [] | Some t \<Rightarrow> t) status;
          rendered = (if length full > kMaxCommandOut
                      then take kMaxCommandOut full @ truncated_notice else full)
      in case find_slot src boot (tr_slots r) of
           None \<Rightarrow> r
         | Some i \<Rightarrow> r\<lparr>tr_slots := (tr_slots r)[i :=
             (tr_slots r ! i)\<lparr>sl_pending_out := rendered, sl_result_ready := True\<rparr>]\<rparr>)"

definition push_async_output :: "u32 \<Rightarrow> u32 \<Rightarrow> string option \<Rightarrow> ('e, 'w) responder \<Rightarrow> ('e, 'w) responder" where
  "push_async_output src boot out r =
     (case out of
        None \<Rightarrow> r
      | Some t \<Rightarrow>
          if t = [] \<or> Option.is_none (tr_links r EspNow) then r
          else let line = rstrip [CHR 0x0D, CHR 0x0A, CHR 0x20] (''! '' @ t) @ crlf in
            if tr_lock r then r\<lparr>tr_async_lines_dropped := tr_async_lines_dropped r + 1\<rparr>
            else case find_slot src boot (tr_slots r) of
              None \<Rightarrow> r
            | Some i \<Rightarrow>
                if length (sl_async_out (tr_slots r ! i)) + length line \<le> kMaxAsyncOut
                then r\<lparr>tr_slots := (tr_slots r)[i :=
                       (tr_slots r ! i)\<lparr>sl_async_out := sl_async_out (tr_slots r ! i) @ line\<rparr>]\<rparr>
                else r\<lparr>tr_async_lines_dropped := tr_async_lines_dropped r + 1\<rparr>)"

section \<open>Emitting\<close>

definition terminal_out_stride :: "(link_target \<Rightarrow> nat) \<Rightarrow> link_target \<Rightarrow> bool \<Rightarrow> nat" where
  "terminal_out_stride max_payload target sealed =
     (if sealed then max_payload target - kAeadTagSize else max_payload target)"

text \<open>The pieces of one frame each; a stride of zero does not occur, a tag fits in every frame.\<close>

function pieces :: "nat \<Rightarrow> string \<Rightarrow> string list" where
  "pieces n bs = (if bs = [] \<or> n = 0 then [] else take n bs # pieces n (drop n bs))"
  by pat_completeness auto
termination by (relation "measure (\<lambda>(n, bs). length bs)") auto

declare pieces.simps [simp del]

fun send_pieces :: "'w out_link \<Rightarrow> u64 \<Rightarrow> string list \<Rightarrow> ('e, 'w) responder \<Rightarrow> ('e, 'w) responder" where
  "send_pieces link now [] r = r"
| "send_pieces link now (p # ps) r =
     (case ol_send link p now (tr_world r) of (ok, w) \<Rightarrow>
        send_pieces link now ps
          (if ok then r\<lparr>tr_frames_out := tr_frames_out r + 1, tr_world := w\<rparr>
           else r\<lparr>tr_world := w\<rparr>))"

definition emit_terminal_out ::
    "(link_target \<Rightarrow> nat) \<Rightarrow> link_target \<Rightarrow> string \<Rightarrow> u64 \<Rightarrow> ('e, 'w) responder \<Rightarrow> ('e, 'w) responder" where
  "emit_terminal_out max_payload target bs now r =
     (case tr_links r target of
        None \<Rightarrow> r
      | Some link \<Rightarrow>
          if bs = [] then r
          else send_pieces link now (pieces (terminal_out_stride max_payload target (ol_sealed link)) bs) r)"

section \<open>The pump\<close>

text \<open>\<open>submit_line\<close>, on the slot, the output so far and the responder.\<close>

type_synonym ('e, 'w) pumping = "'e slot \<times> string \<times> ('e, 'w) responder"

definition busy_notice :: string where "busy_notice = ''! busy, command dropped''"

definition respond_busy :: "'e editor_ops \<Rightarrow> ('e, 'w) pumping \<Rightarrow> ('e, 'w) pumping" where
  "respond_busy ed p = (case p of (s, out, r) \<Rightarrow>
     case eo_write_response ed busy_notice (sl_editor s) of (e, t) \<Rightarrow>
       (s\<lparr>sl_editor := e\<rparr>, out @ t, r\<lparr>tr_lines_dropped_busy := tr_lines_dropped_busy r + 1\<rparr>))"

definition submit_line ::
    "'e editor_ops \<Rightarrow> u32 \<Rightarrow> u32 \<Rightarrow> string \<Rightarrow> ('e, 'w) pumping \<Rightarrow> ('e, 'w) pumping" where
  "submit_line ed src boot line p = (case p of (s, out, r) \<Rightarrow>
     case tr_submit r of
       None \<Rightarrow> respond_busy ed p
     | Some submit \<Rightarrow>
         (case submit src boot line (tr_world r) of
            (True, w) \<Rightarrow> (s\<lparr>sl_awaiting_result := True\<rparr>, out,
                           r\<lparr>tr_lines_submitted := tr_lines_submitted r + 1, tr_world := w\<rparr>)
          | (False, w) \<Rightarrow> respond_busy ed (s, out, r\<lparr>tr_world := w\<rparr>)))"

text \<open>One line the editor completed.\<close>

definition take_line :: "'e editor_ops \<Rightarrow> u32 \<Rightarrow> u32 \<Rightarrow> string \<Rightarrow> ('e, 'w) pumping \<Rightarrow> ('e, 'w) pumping" where
  "take_line ed src boot line p = (case p of (s, out, r) \<Rightarrow>
     if sl_awaiting_result s then
       (if sl_pending_line s = [] then (s\<lparr>sl_pending_line := line\<rparr>, out, r)
        else respond_busy ed p)
     else submit_line ed src boot line p)"

text \<open>The loop over the completed lines has no bound of its own; \<open>None\<close> is not ending.\<close>

partial_function (option) poll_loop ::
    "'e editor_ops \<Rightarrow> u32 \<Rightarrow> u32 \<Rightarrow> ('e, 'w) pumping \<Rightarrow> ('e, 'w) pumping option" where
  "poll_loop ed src boot p =
     (case p of (s, out, r) \<Rightarrow>
        case eo_poll ed (sl_editor s) of
          (None, e, t) \<Rightarrow> Some (s\<lparr>sl_editor := e\<rparr>, out @ t, r)
        | (Some line, e, t) \<Rightarrow>
            poll_loop ed src boot (take_line ed src boot line (s\<lparr>sl_editor := e\<rparr>, out @ t, r)))"

text \<open>The locked snapshot: what is taken from the slot, and the slot left behind.\<close>

record snapshot =
  sn_needs_reset :: bool
  sn_result :: "string option"
  sn_input :: string
  sn_async :: string

definition snapshot_of :: "'e slot \<Rightarrow> snapshot" where
  "snapshot_of s = \<lparr>sn_needs_reset = sl_needs_editor_reset s,
     sn_result = (if sl_result_ready s then Some (sl_pending_out s) else None),
     sn_input = sl_in s, sn_async = sl_async_out s\<rparr>"

definition drained :: "u64 \<Rightarrow> 'e slot \<Rightarrow> 'e slot" where
  "drained now s = s\<lparr>sl_last_used_us := now, sl_needs_editor_reset := False,
     sl_pending_out := (if sl_result_ready s then [] else sl_pending_out s),
     sl_result_ready := False, sl_in := [], sl_async_out := []\<rparr>"

definition reset_editor :: "'e editor_ops \<Rightarrow> 'e slot \<Rightarrow> 'e slot" where
  "reset_editor ed s = s\<lparr>sl_editor := eo_set_completion ed (eo_reset ed (sl_editor s)),
     sl_prompt_painted := False, sl_awaiting_result := False, sl_pending_line := [],
     sl_async_prompt_dirty := False, sl_last_async_output_us := 0\<rparr>"

definition paint_prompt :: "'e editor_ops \<Rightarrow> string \<Rightarrow> 'e slot \<times> string \<Rightarrow> 'e slot \<times> string" where
  "paint_prompt ed prompt so = (case so of (s, out) \<Rightarrow>
     if sl_prompt_painted s then (s, out)
     else case eo_set_prompt ed prompt (sl_editor s) of (e, t) \<Rightarrow>
       (s\<lparr>sl_editor := e, sl_prompt_painted := True\<rparr>, out @ t))"

definition show_result :: "'e editor_ops \<Rightarrow> string option \<Rightarrow> 'e slot \<times> string \<Rightarrow> 'e slot \<times> string" where
  "show_result ed result so = (case so of (s, out) \<Rightarrow>
     case result of None \<Rightarrow> (s, out)
     | Some t \<Rightarrow> (case eo_write_response ed t (sl_editor s) of (e, u) \<Rightarrow>
         (s\<lparr>sl_editor := e, sl_awaiting_result := False\<rparr>, out @ u)))"

definition submit_held ::
    "'e editor_ops \<Rightarrow> u32 \<Rightarrow> u32 \<Rightarrow> ('e, 'w) pumping \<Rightarrow> ('e, 'w) pumping" where
  "submit_held ed src boot p = (case p of (s, out, r) \<Rightarrow>
     if \<not> sl_awaiting_result s \<and> sl_pending_line s \<noteq> []
     then submit_line ed src boot (sl_pending_line s) (s\<lparr>sl_pending_line := []\<rparr>, out, r)
     else p)"

definition async_part :: "'e editor_ops \<Rightarrow> string \<Rightarrow> u64 \<Rightarrow> 'e slot \<times> string \<Rightarrow> 'e slot \<times> string" where
  "async_part ed async now so = (case so of (s, out) \<Rightarrow>
     if async \<noteq> [] then
       (case eo_write_async ed async (sl_editor s) of (e, t) \<Rightarrow>
          (s\<lparr>sl_editor := e, sl_async_prompt_dirty := True, sl_last_async_output_us := now\<rparr>, out @ t))
     else if sl_async_prompt_dirty s \<and> now - sl_last_async_output_us s \<ge> 250000 then
       (case eo_refresh_line ed (sl_editor s) of (e, t) \<Rightarrow>
          (s\<lparr>sl_editor := e, sl_async_prompt_dirty := False\<rparr>, out @ t))
     else (s, out))"

text \<open>One slot of the pump, after the lock was taken and found it in use.\<close>

definition pump_slot ::
    "'e editor_ops \<Rightarrow> (link_target \<Rightarrow> nat) \<Rightarrow> u64 \<Rightarrow> nat \<Rightarrow> ('e, 'w) responder \<Rightarrow> ('e, 'w) responder option" where
  "pump_slot ed max_payload now i r =
     (let s0 = tr_slots r ! i in
      if tr_lock r \<or> \<not> sl_used s0 then Some r
      else
        let sn = snapshot_of s0; src = sl_source_id s0; boot = sl_boot_id s0; target = sl_target s0;
            s1 = (if sn_needs_reset sn then reset_editor ed (drained now s0) else drained now s0);
            (s2, out2) = paint_prompt ed (tr_prompt r) (s1, []);
            (s3, out3) = show_result ed (sn_result sn) (s2, out2);
            s4 = (if sn_input sn \<noteq> [] then s3\<lparr>sl_editor := eo_feed ed (sn_input sn) (sl_editor s3)\<rparr> else s3)
        in case poll_loop ed src boot (submit_held ed src boot (s4, out3, r)) of
             None \<Rightarrow> None
           | Some (s5, out5, r5) \<Rightarrow>
               (case async_part ed (sn_async sn) now (s5, out5) of (s6, out6) \<Rightarrow>
                  Some (emit_terminal_out max_payload target out6 now
                          (r5\<lparr>tr_slots := (tr_slots r5)[i := s6]\<rparr>))))"

fun pump_slots ::
    "'e editor_ops \<Rightarrow> (link_target \<Rightarrow> nat) \<Rightarrow> u64 \<Rightarrow> nat list \<Rightarrow> ('e, 'w) responder \<Rightarrow> ('e, 'w) responder option" where
  "pump_slots ed mp now [] r = Some r"
| "pump_slots ed mp now (i # is) r =
     (case pump_slot ed mp now i r of None \<Rightarrow> None | Some r' \<Rightarrow> pump_slots ed mp now is r')"

definition responder_pump :: "'e editor_ops \<Rightarrow> (link_target \<Rightarrow> nat) \<Rightarrow> u64 \<Rightarrow> ('e, 'w) responder \<Rightarrow> ('e, 'w) responder option" where
  "responder_pump ed max_payload now r = pump_slots ed max_payload now [0..<length (tr_slots r)] r"

record terminal_stats =
  te_origins_seen :: u32
  te_origins_evicted :: u32
  te_lines_submitted :: u32
  te_lines_dropped_busy :: u32
  te_frames_out :: u32
  te_in_bytes_dropped :: u32
  te_async_lines_dropped :: u32

definition terminal_stats :: "('e, 'w) responder \<Rightarrow> terminal_stats" where
  "terminal_stats r = \<lparr>te_origins_seen = tr_origins_seen r, te_origins_evicted = tr_origins_evicted r,
     te_lines_submitted = tr_lines_submitted r, te_lines_dropped_busy = tr_lines_dropped_busy r,
     te_frames_out = tr_frames_out r, te_in_bytes_dropped = tr_in_bytes_dropped r,
     te_async_lines_dropped = tr_async_lines_dropped r\<rparr>"

section \<open>Pieces and lines\<close>

lemma concat_pieces: "0 < n \<Longrightarrow> concat (pieces n bs) = bs"
  by (induction n bs rule: pieces.induct) (subst pieces.simps, simp)

lemma pieces_small: "p \<in> set (pieces n bs) \<Longrightarrow> length p \<le> n \<and> p \<noteq> []"
proof (induction n bs rule: pieces.induct)
  case (1 n bs)
  show ?case
  proof (cases "bs = [] \<or> n = 0")
    case True
    then show ?thesis using "1.prems" by (simp add: pieces.simps [of n bs])
  next
    case False
    then have "p = take n bs \<or> p \<in> set (pieces n (drop n bs))"
      using "1.prems" by (simp add: pieces.simps [of n bs])
    then show ?thesis using "1.IH" False by auto
  qed
qed

text \<open>What the line-by-line rendering means, on the list of lines.\<close>

fun join_lines :: "string list \<Rightarrow> string" where
  "join_lines [] = []"
| "join_lines [l] = l"
| "join_lines (l # ls) = l @ CHR 0x0A # join_lines ls"

definition render_line :: "string \<Rightarrow> string" where
  "render_line l = (let t = rstrip [CHR 0x0D, CHR 0x20] l in if t = [] then [] else ''! '' @ t @ crlf)"

lemma takeWhile_line: "CHR 0x0A \<notin> set l \<Longrightarrow> takeWhile (\<lambda>c. c \<noteq> CHR 0x0A) (l @ CHR 0x0A # t) = l"
  by (induction l) auto

lemma dropWhile_line: "CHR 0x0A \<notin> set l \<Longrightarrow> dropWhile (\<lambda>c. c \<noteq> CHR 0x0A) (l @ CHR 0x0A # t) = CHR 0x0A # t"
  by (induction l) auto

lemma whole_line:
  assumes "CHR 0x0A \<notin> set l"
  shows "takeWhile (\<lambda>c. c \<noteq> CHR 0x0A) l = l" "dropWhile (\<lambda>c. c \<noteq> CHR 0x0A) l = []"
  using assms by (auto simp: takeWhile_eq_all_conv dropWhile_eq_Nil_conv)

lemma render_lines_join:
  "\<forall>l \<in> set ls. CHR 0x0A \<notin> set l \<Longrightarrow> render_lines (join_lines ls) = concat (map render_line ls)"
proof (induction ls rule: join_lines.induct)
  case 1
  then show ?case by (simp add: render_lines.simps [of "[]"] rstrip_def)
next
  case (2 l)
  then show ?case by (simp add: render_lines.simps [of l] whole_line render_line_def Let_def)
next
  case (3 l l' ls)
  then have "render_lines (join_lines (l # l' # ls)) = render_line l @ render_lines (join_lines (l' # ls))"
    by (simp add: render_lines.simps [of "l @ CHR 0x0A # _"] takeWhile_line dropWhile_line
        render_line_def Let_def)
  with 3 show ?case by simp
qed

section \<open>The slots\<close>

definition origin :: "'e slot \<Rightarrow> u32 \<times> u32" where
  "origin s = (sl_source_id s, sl_boot_id s)"

definition slot_ok :: "'e slot \<Rightarrow> bool" where
  "slot_ok s \<longleftrightarrow> length (sl_in s) \<le> kMaxPendingIn \<and> length (sl_async_out s) \<le> kMaxAsyncOut \<and>
     length (sl_pending_out s) \<le> kMaxCommandOut + length truncated_notice"

text \<open>At most one slot per origin, and all buffers within their bounds.\<close>

definition slots_ok :: "'e slot list \<Rightarrow> bool" where
  "slots_ok ss \<longleftrightarrow> distinct (map origin (filter sl_used ss)) \<and> list_all slot_ok ss"

lemma find_slot_some:
  "find_slot src boot ss = Some i \<Longrightarrow>
   i < length ss \<and> sl_used (ss ! i) \<and> origin (ss ! i) = (src, boot)"
  by (induction ss arbitrary: i) (auto simp: origin_def split: if_splits option.splits)

lemma find_slot_none:
  "find_slot src boot ss = None \<longleftrightarrow> (\<forall>s \<in> set ss. sl_used s \<longrightarrow> origin s \<noteq> (src, boot))"
  by (induction ss) (auto simp: origin_def)

lemma find_slot_at:
  assumes "distinct (map origin (filter sl_used ss))" and "i < length ss" and "sl_used (ss ! i)"
  shows "find_slot (sl_source_id (ss ! i)) (sl_boot_id (ss ! i)) ss = Some i"
  using assms
proof (induction ss arbitrary: i)
  case Nil
  then show ?case by simp
next
  case (Cons s ss)
  show ?case
  proof (cases i)
    case 0
    then show ?thesis using Cons.prems by simp
  next
    case (Suc k)
    have k: "k < length ss" "sl_used (ss ! k)" using Cons.prems Suc by simp_all
    then have "ss ! k \<in> set (filter sl_used ss)" by simp
    then have "\<not> (sl_used s \<and> origin s = origin (ss ! k))"
      using Cons.prems(1) by (auto split: if_splits)
    moreover have "find_slot (sl_source_id (ss ! k)) (sl_boot_id (ss ! k)) ss = Some k"
      using Cons k by (auto split: if_splits)
    ultimately show ?thesis using Suc by (auto simp: origin_def)
  qed
qed

lemma pick_victim_range:
  "pick_victim i v all ss = Some k \<Longrightarrow> (v = None \<or> the v < i) \<Longrightarrow> k < i + length ss"
proof (induction ss arbitrary: i v)
  case Nil
  then show ?case by auto
next
  case (Cons s ss)
  have IH: "pick_victim (Suc i) (Some j) all ss = Some k \<Longrightarrow> j \<le> i \<Longrightarrow> k < i + length (s # ss)" for j
    using Cons.IH [of "Suc i" "Some j"] by simp
  show ?case
    using Cons.prems IH [of i] IH [of "the v"] by (auto split: if_splits option.splits)
qed

text \<open>Changing a slot without changing its use or origin, or giving it a new origin.\<close>

lemma distinct_same:
  assumes "distinct (map origin (filter sl_used ss))" and "i < length ss"
    and "sl_used s' = sl_used (ss ! i)" and "origin s' = origin (ss ! i)"
  shows "distinct (map origin (filter sl_used (ss[i := s'])))"
proof -
  have "map origin (filter sl_used (ss[i := s'])) = map origin (filter sl_used ss)"
    using assms(2-4) by (induction ss arbitrary: i) (auto split: nat.splits)
  then show ?thesis using assms(1) by simp
qed

lemma slots_ok_update:
  assumes "slots_ok ss" and "i < length ss" and "slot_ok s'"
    and "sl_used s' = sl_used (ss ! i)" and "origin s' = origin (ss ! i)"
  shows "slots_ok (ss[i := s'])"
  using assms distinct_same [of ss i s']
  by (auto simp: slots_ok_def list_all_iff dest!: set_update_subset_insert [THEN subsetD])

lemma slots_ok_claim:
  assumes "slots_ok ss" and "i < length ss" and "find_slot src boot ss = None"
  shows "slots_ok (ss[i := claim_slot src boot now (ss ! i)])"
proof -
  let ?s = "claim_slot src boot now (ss ! i)"
  have free: "(src, boot) \<notin> set (map origin (filter sl_used ss))"
    using assms(3) unfolding find_slot_none by auto
  have "distinct (map origin (filter sl_used (ss[i := ?s])))"
  proof -
    have ss: "ss = take i ss @ ss ! i # drop (Suc i) ss" by (rule id_take_nth_drop [OF assms(2)])
    have d: "distinct (map origin (filter sl_used (take i ss @ ss ! i # drop (Suc i) ss)))"
      using assms(1) ss by (simp add: slots_ok_def)
    have f: "(src, boot) \<notin> set (map origin (filter sl_used (take i ss @ ss ! i # drop (Suc i) ss)))"
      using free ss by simp
    have o: "origin ?s = (src, boot)" "sl_used ?s" by (simp_all add: claim_slot_def origin_def)
    have "ss[i := ?s] = take i ss @ ?s # drop (Suc i) ss"
      by (rule upd_conv_take_nth_drop [OF assms(2)])
    then show ?thesis using d f o by (auto split: if_splits)
  qed
  moreover have "slot_ok ?s" by (simp add: slot_ok_def claim_slot_def)
  ultimately show ?thesis
    using assms(1) by (auto simp: slots_ok_def list_all_iff dest!: set_update_subset_insert [THEN subsetD])
qed

lemma slots_ok_new: "slots_ok (tr_slots (new_responder e w))"
  by (simp add: slots_ok_def new_responder_def kMaxOrigins_def slot_ok_def empty_slot_def
      list_all_iff)

lemma slot_ok_at: "slots_ok ss \<Longrightarrow> i < length ss \<Longrightarrow> slot_ok (ss ! i)"
  by (simp add: slots_ok_def list_all_length)

lemma find_or_alloc_ok:
  assumes "slots_ok (tr_slots r)" and "find_or_alloc src boot now r = (oi, r')"
  shows "slots_ok (tr_slots r') \<and> (\<forall>i. oi = Some i \<longrightarrow> i < length (tr_slots r')) \<and>
    length (tr_slots r') = length (tr_slots r)"
proof (cases "find_slot src boot (tr_slots r)")
  case None
  show ?thesis
  proof (cases "pick_victim 0 None (tr_slots r) (tr_slots r)")
    case no: None
    then show ?thesis using assms None by (auto simp: find_or_alloc_def)
  next
    case (Some v)
    have "v < length (tr_slots r)" using pick_victim_range [OF Some] by simp
    then show ?thesis
      using assms None Some slots_ok_claim [OF assms(1) _ None] by (auto simp: find_or_alloc_def)
  qed
next
  case (Some i)
  then show ?thesis using assms find_slot_some [OF Some] by (auto simp: find_or_alloc_def)
qed

lemma on_terminal_in_ok:
  assumes "slots_ok (tr_slots r)"
  shows "slots_ok (tr_slots (on_terminal_in target src boot ts input r)) \<and>
    length (tr_slots (on_terminal_in target src boot ts input r)) = length (tr_slots r)"
proof -
  obtain oi r1 where f: "find_or_alloc src boot ts r = (oi, r1)" by fastforce
  note ok = find_or_alloc_ok [OF assms f]
  have "slots_ok (tr_slots (buffer_input target i data r1)) \<and>
      length (tr_slots (buffer_input target i data r1)) = length (tr_slots r1)"
    if i: "i < length (tr_slots r1)" for i data
  proof -
    have "slot_ok (tr_slots r1 ! i)" using ok i slot_ok_at by blast
    then show ?thesis
      using ok i by (auto simp: buffer_input_def Let_def slot_ok_def origin_def intro!: slots_ok_update)
  qed
  then show ?thesis using assms ok f by (auto simp: on_terminal_in_def split: option.split)
qed

lemma deliver_ok:
  assumes "slots_ok (tr_slots r)"
  shows "slots_ok (tr_slots (deliver_command_output src boot out status r))"
  using assms slot_ok_at [OF assms]
  by (auto simp: deliver_command_output_def Let_def slot_ok_def origin_def
      dest: find_slot_some intro!: slots_ok_update split: option.split)

lemma push_ok:
  assumes "slots_ok (tr_slots r)"
  shows "slots_ok (tr_slots (push_async_output src boot out r))"
  using assms slot_ok_at [OF assms]
  by (auto simp: push_async_output_def Let_def slot_ok_def origin_def
      dest: find_slot_some intro!: slots_ok_update split: option.split)

lemma drop_target_distinct:
  "distinct (map origin (filter sl_used ss)) \<Longrightarrow>
   distinct (map origin (filter sl_used (map (drop_target t) ss)))"
proof -
  assume d: "distinct (map origin (filter sl_used ss))"
  have "map origin (filter sl_used (map (drop_target t) ss)) =
      map origin (filter (\<lambda>s. sl_target s \<noteq> t) (filter sl_used ss))"
    by (induction ss) (auto simp: drop_target_def origin_def)
  then show ?thesis using d by (simp only: distinct_map_filter)
qed

lemma unbind_ok:
  assumes "slots_ok (tr_slots r)"
  shows "slots_ok (tr_slots (unbind_target t r))"
  using assms drop_target_distinct [of "tr_slots r" t]
  by (auto simp: unbind_target_def Let_def slots_ok_def list_all_iff drop_target_def slot_ok_def)

section \<open>The pump\<close>

text \<open>What the work outside the lock leaves alone: the handed-over fields of the slot, the table.\<close>

definition same_handoff :: "'e slot \<Rightarrow> 'e slot \<Rightarrow> bool" where
  "same_handoff s s' \<longleftrightarrow> sl_used s' = sl_used s \<and> origin s' = origin s \<and> sl_in s' = sl_in s \<and>
     sl_pending_out s' = sl_pending_out s \<and> sl_async_out s' = sl_async_out s \<and>
     sl_target s' = sl_target s \<and> sl_last_used_us s' = sl_last_used_us s"

definition same_table :: "('e, 'w) responder \<Rightarrow> ('e, 'w) responder \<Rightarrow> bool" where
  "same_table r r' \<longleftrightarrow> tr_slots r' = tr_slots r \<and> tr_links r' = tr_links r \<and>
     tr_submit r' = tr_submit r \<and> tr_prompt r' = tr_prompt r \<and> tr_lock r' = tr_lock r \<and>
     tr_origins_seen r' = tr_origins_seen r \<and> tr_origins_evicted r' = tr_origins_evicted r"

text \<open>
  One step of the submitting work against another: nothing submitted, or one line submitted by a
  slot that was waiting for nothing and now waits for its result.
\<close>

definition one_command :: "('e, 'w) pumping \<Rightarrow> ('e, 'w) pumping \<Rightarrow> bool" where
  "one_command p p' \<longleftrightarrow> (case (p, p') of ((s, out, r), (s', out', r')) \<Rightarrow>
     same_handoff s s' \<and> same_table r r' \<and>
     (sl_awaiting_result s' = sl_awaiting_result s \<and> tr_lines_submitted r' = tr_lines_submitted r \<or>
      \<not> sl_awaiting_result s \<and> sl_awaiting_result s' \<and>
        tr_lines_submitted r' = tr_lines_submitted r + 1))"

lemma one_command_refl: "one_command p p"
  by (cases p) (simp add: one_command_def same_handoff_def same_table_def)

lemma one_command_trans: "one_command p q \<Longrightarrow> one_command q t \<Longrightarrow> one_command p t"
  by (cases p; cases q; cases t) (auto simp: one_command_def same_handoff_def same_table_def)

lemma respond_busy_one: "one_command p (respond_busy ed p)"
  by (cases p)
    (auto simp: respond_busy_def one_command_def same_handoff_def same_table_def origin_def
      split: prod.split)

lemma submit_line_one:
  assumes "\<not> sl_awaiting_result (fst p)"
  shows "one_command p (submit_line ed src boot line p)"
proof -
  obtain s out r where p: "p = (s, out, r)" by (cases p)
  have busy: "one_command (s, out, r) (respond_busy ed (s, out, r\<lparr>tr_world := w\<rparr>))" for w
    by (rule one_command_trans [OF _ respond_busy_one])
      (simp add: one_command_def same_handoff_def same_table_def)
  have sent: "one_command (s, out, r) (s\<lparr>sl_awaiting_result := True\<rparr>, out,
      r\<lparr>tr_lines_submitted := tr_lines_submitted r + 1, tr_world := w\<rparr>)" for w
    using assms p by (simp add: one_command_def same_handoff_def same_table_def origin_def)
  show ?thesis
    using busy sent respond_busy_one [of p ed]
    by (simp add: submit_line_def p split: option.split prod.split bool.split)
qed

lemma take_line_one: "one_command p (take_line ed src boot line p)"
proof -
  obtain s out r where p: "p = (s, out, r)" by (cases p)
  show ?thesis
  proof (cases "sl_awaiting_result s")
    case True
    then show ?thesis
      using respond_busy_one [of p ed]
      by (auto simp: take_line_def p one_command_def same_handoff_def same_table_def origin_def)
  next
    case False
    then show ?thesis using submit_line_one [of p] by (simp add: take_line_def p)
  qed
qed

lemma submit_held_one: "one_command p (submit_held ed src boot p)"
proof -
  obtain s out r where p: "p = (s, out, r)" by (cases p)
  show ?thesis
  proof (cases "\<not> sl_awaiting_result s \<and> sl_pending_line s \<noteq> []")
    case True
    then have "one_command (s\<lparr>sl_pending_line := []\<rparr>, out, r) (submit_held ed src boot p)"
      using submit_line_one [of "(s\<lparr>sl_pending_line := []\<rparr>, out, r)"]
      by (simp add: submit_held_def p)
    moreover have "one_command p (s\<lparr>sl_pending_line := []\<rparr>, out, r)"
      by (simp add: p one_command_def same_handoff_def same_table_def origin_def)
    ultimately show ?thesis by (rule one_command_trans [rotated])
  next
    case False
    then show ?thesis using one_command_refl [of p] by (auto simp: submit_held_def p)
  qed
qed

lemma editor_step_one: "one_command (s, out, r) (s\<lparr>sl_editor := e\<rparr>, out', r)"
  by (simp add: one_command_def same_handoff_def same_table_def origin_def)

lemma poll_loop_one:
  assumes "poll_loop ed src boot p = Some p'"
  shows "one_command p p'"
proof (rule poll_loop.raw_induct [where P = "\<lambda>_ _ _ p p'. one_command p p'"])
  fix loop :: "'a editor_ops \<Rightarrow> u32 \<Rightarrow> u32 \<Rightarrow> ('a, 'b) pumping \<Rightarrow> ('a, 'b) pumping option"
  fix ed src boot p p'
  assume IH: "\<And>ed src boot p p'. loop ed src boot p = Some p' \<Longrightarrow> one_command p p'"
    and now: "(case p of (s, out, r) \<Rightarrow>
        case eo_poll ed (sl_editor s) of
          (None, e, t) \<Rightarrow> Some (s\<lparr>sl_editor := e\<rparr>, out @ t, r)
        | (Some line, e, t) \<Rightarrow>
            loop ed src boot (take_line ed src boot line (s\<lparr>sl_editor := e\<rparr>, out @ t, r))) = Some p'"
  obtain s out r where p: "p = (s, out, r)" by (cases p)
  obtain ol e t where e: "eo_poll ed (sl_editor s) = (ol, e, t)" by (cases "eo_poll ed (sl_editor s)")
  show "one_command p p'"
  proof (cases ol)
    case None
    then have "p' = (s\<lparr>sl_editor := e\<rparr>, out @ t, r)" using now p e by simp
    then show ?thesis by (simp only: p editor_step_one)
  next
    case (Some line)
    let ?q = "take_line ed src boot line (s\<lparr>sl_editor := e\<rparr>, out @ t, r)"
    have "loop ed src boot ?q = Some p'" using now p e Some by simp
    then have "one_command ?q p'" by (rule IH)
    then show ?thesis
      unfolding p by (rule one_command_trans [OF one_command_trans [OF editor_step_one take_line_one]])
  qed
qed (rule assms)

text \<open>Emitting leaves the table alone.\<close>

lemma send_pieces_frame:
  "same_table r (send_pieces link now ps r) \<and>
   tr_lines_submitted (send_pieces link now ps r) = tr_lines_submitted r"
  by (induction link now ps r rule: send_pieces.induct)
    (auto simp: same_table_def split: prod.splits)

lemma emit_frame:
  "tr_slots (emit_terminal_out mp target bs now r) = tr_slots r"
  "tr_lines_submitted (emit_terminal_out mp target bs now r) = tr_lines_submitted r"
  "tr_lock (emit_terminal_out mp target bs now r) = tr_lock r"
  using send_pieces_frame [of r _ now "pieces _ bs"]
  by (simp_all add: emit_terminal_out_def same_table_def split: option.split)

text \<open>The slot the work outside the lock starts from.\<close>

definition opened :: "'e editor_ops \<Rightarrow> string \<Rightarrow> u64 \<Rightarrow> 'e slot \<Rightarrow> 'e slot \<times> string" where
  "opened ed prompt now s0 =
     (let sn = snapshot_of s0;
          s1 = (if sn_needs_reset sn then reset_editor ed (drained now s0) else drained now s0);
          (s3, out3) = show_result ed (sn_result sn) (paint_prompt ed prompt (s1, []))
      in (if sn_input sn \<noteq> [] then s3\<lparr>sl_editor := eo_feed ed (sn_input sn) (sl_editor s3)\<rparr> else s3,
          out3))"

lemma pump_slot_opened:
  assumes "\<not> tr_lock r" and "sl_used (tr_slots r ! i)"
  shows "pump_slot ed mp now i r =
    (case opened ed (tr_prompt r) now (tr_slots r ! i) of (s4, out3) \<Rightarrow>
       case poll_loop ed (sl_source_id (tr_slots r ! i)) (sl_boot_id (tr_slots r ! i))
              (submit_held ed (sl_source_id (tr_slots r ! i)) (sl_boot_id (tr_slots r ! i)) (s4, out3, r)) of
         None \<Rightarrow> None
       | Some (s5, out5, r5) \<Rightarrow>
           (case async_part ed (sl_async_out (tr_slots r ! i)) now (s5, out5) of (s6, out6) \<Rightarrow>
              Some (emit_terminal_out mp (sl_target (tr_slots r ! i)) out6 now
                      (r5\<lparr>tr_slots := (tr_slots r5)[i := s6]\<rparr>))))"
  using assms
  by (simp add: pump_slot_def opened_def Let_def snapshot_of_def prod.case_eq_if split: option.split)

definition busy :: "'e slot \<Rightarrow> bool" where
  "busy s \<longleftrightarrow> sl_awaiting_result s \<and> \<not> sl_needs_editor_reset s \<and> \<not> sl_result_ready s"

lemma opened_slot:
  assumes "opened ed prompt now s0 = (s4, out3)"
  shows "sl_used s4 = sl_used s0 \<and> origin s4 = origin s0 \<and> sl_in s4 = [] \<and> sl_async_out s4 = [] \<and>
    sl_last_used_us s4 = now \<and> sl_target s4 = sl_target s0 \<and>
    (sl_pending_out s4 = [] \<or> sl_pending_out s4 = sl_pending_out s0) \<and>
    sl_awaiting_result s4 = busy s0"
  using assms
  by (auto simp: opened_def Let_def snapshot_of_def drained_def reset_editor_def paint_prompt_def
      show_result_def busy_def origin_def split: prod.splits if_splits option.splits)

lemma async_part_frame:
  "async_part ed async now (s, out) = (s', out') \<Longrightarrow>
   same_handoff s s' \<and> sl_awaiting_result s' = sl_awaiting_result s"
  by (auto simp: async_part_def same_handoff_def origin_def split: prod.splits if_splits)

text \<open>All that one pass does to one slot, its table and the count of submitted lines.\<close>

lemma pump_slot_effect:
  assumes "pump_slot ed mp now i r = Some r'" and i: "i < length (tr_slots r)"
    and "\<not> tr_lock r" and "sl_used (tr_slots r ! i)"
  shows "\<exists>s'. tr_slots r' = (tr_slots r)[i := s'] \<and> tr_lock r' = tr_lock r \<and>
    sl_used s' = sl_used (tr_slots r ! i) \<and> origin s' = origin (tr_slots r ! i) \<and>
    sl_last_used_us s' = now \<and> (slot_ok (tr_slots r ! i) \<longrightarrow> slot_ok s') \<and>
    (sl_awaiting_result s' = busy (tr_slots r ! i) \<and> tr_lines_submitted r' = tr_lines_submitted r \<or>
     \<not> busy (tr_slots r ! i) \<and> sl_awaiting_result s' \<and>
       tr_lines_submitted r' = tr_lines_submitted r + 1)"
proof -
  let ?s = "tr_slots r ! i"
  let ?src = "sl_source_id ?s" and ?boot = "sl_boot_id ?s"
  obtain s4 out3 where o: "opened ed (tr_prompt r) now ?s = (s4, out3)" by fastforce
  obtain s5 out5 r5 where l: "poll_loop ed ?src ?boot (submit_held ed ?src ?boot (s4, out3, r)) =
      Some (s5, out5, r5)"
    using assms(1) o unfolding pump_slot_opened [OF assms(3,4)] by (auto split: option.splits)
  obtain s6 out6 where a: "async_part ed (sl_async_out ?s) now (s5, out5) = (s6, out6)" by fastforce
  have r': "r' = emit_terminal_out mp (sl_target ?s) out6 now (r5\<lparr>tr_slots := (tr_slots r5)[i := s6]\<rparr>)"
    using assms(1) o l a unfolding pump_slot_opened [OF assms(3,4)] by simp
  have one: "one_command (s4, out3, r) (s5, out5, r5)"
    using one_command_trans [OF submit_held_one poll_loop_one [OF l]] by simp
  show ?thesis
    using opened_slot [OF o] one async_part_frame [OF a]
    by (intro exI [of _ s6])
      (auto simp: r' emit_frame one_command_def same_handoff_def same_table_def slot_ok_def)
qed

lemma pump_slot_ok:
  assumes "pump_slot ed mp now i r = Some r'" and "i < length (tr_slots r)" and "slots_ok (tr_slots r)"
  shows "slots_ok (tr_slots r') \<and> length (tr_slots r') = length (tr_slots r)"
proof (cases "tr_lock r \<or> \<not> sl_used (tr_slots r ! i)")
  case True
  then show ?thesis using assms by (auto simp: pump_slot_def Let_def)
next
  case False
  then show ?thesis
    using pump_slot_effect [OF assms(1,2)] slot_ok_at [OF assms(3,2)]
      slots_ok_update [OF assms(3,2)] by (metis length_list_update)
qed

lemma pump_slots_ok:
  "pump_slots ed mp now is r = Some r' \<Longrightarrow> \<forall>i \<in> set is. i < length (tr_slots r) \<Longrightarrow>
   slots_ok (tr_slots r) \<Longrightarrow> slots_ok (tr_slots r') \<and> length (tr_slots r') = length (tr_slots r)"
proof (induction "is" arbitrary: r)
  case Nil
  then show ?case by simp
next
  case (Cons i "is")
  obtain r1 where r1: "pump_slot ed mp now i r = Some r1" and rest: "pump_slots ed mp now is r1 = Some r'"
    using Cons.prems(1) by (auto split: option.splits)
  have "slots_ok (tr_slots r1) \<and> length (tr_slots r1) = length (tr_slots r)"
    using pump_slot_ok [OF r1] Cons.prems by simp
  then show ?case using Cons.IH [OF rest] Cons.prems(2) by simp
qed

section \<open>Reachable responders\<close>

text \<open>The calls of the tasks around it, in any order; \<open>lock\<close> is another task at the lock.\<close>

inductive tr_reachable :: "'e editor_ops \<Rightarrow> (link_target \<Rightarrow> nat) \<Rightarrow> ('e, 'w) responder \<Rightarrow> bool"
  for ed :: "'e editor_ops" and mp :: "link_target \<Rightarrow> nat" where
  start: "tr_reachable ed mp (new_responder e w)"
| configured: "tr_reachable ed mp r \<Longrightarrow> tr_reachable ed mp (tr_configure link submit prompt r)"
| bound: "tr_reachable ed mp r \<Longrightarrow> tr_reachable ed mp (bind_target t link r)"
| unbound: "tr_reachable ed mp r \<Longrightarrow> tr_reachable ed mp (unbind_target t r)"
| typed: "tr_reachable ed mp r \<Longrightarrow> tr_reachable ed mp (on_terminal_in t src boot ts data r)"
| result: "tr_reachable ed mp r \<Longrightarrow> tr_reachable ed mp (deliver_command_output src boot out status r)"
| mirrored: "tr_reachable ed mp r \<Longrightarrow> tr_reachable ed mp (push_async_output src boot out r)"
| pumped: "tr_reachable ed mp r \<Longrightarrow> responder_pump ed mp now r = Some r' \<Longrightarrow> tr_reachable ed mp r'"
| locked: "tr_reachable ed mp r \<Longrightarrow> tr_reachable ed mp (r\<lparr>tr_lock := b\<rparr>)"

lemma pump_ok:
  assumes "responder_pump ed mp now r = Some r'" and "slots_ok (tr_slots r)"
  shows "slots_ok (tr_slots r') \<and> length (tr_slots r') = length (tr_slots r)"
  using assms pump_slots_ok by (fastforce simp: responder_pump_def)

lemma slot_counts:
  "length (tr_slots (unbind_target t r)) = length (tr_slots r)"
  "length (tr_slots (deliver_command_output src boot out status r)) = length (tr_slots r)"
  "length (tr_slots (push_async_output src boot out r)) = length (tr_slots r)"
  by (simp_all add: unbind_target_def deliver_command_output_def push_async_output_def Let_def
      split: option.split)

text \<open>Whatever the tasks do, in whatever order: there are three slots, no two used ones belong
  to the same origin (so two terminals never share an editor and output has one place to go), and
  none of the hand-over buffers grows past its bound (the output of a command by the truncation
  notice at most).\<close>

theorem terminal_slots_invariant:
  assumes "tr_reachable ed mp r"
  shows "length (tr_slots r) = kMaxOrigins \<and>
    distinct (map origin (filter sl_used (tr_slots r))) \<and>
    (\<forall>s \<in> set (tr_slots r). length (sl_in s) \<le> kMaxPendingIn \<and>
       length (sl_async_out s) \<le> kMaxAsyncOut \<and>
       length (sl_pending_out s) \<le> kMaxCommandOut + length truncated_notice)"
proof -
  have "slots_ok (tr_slots r) \<and> length (tr_slots r) = kMaxOrigins"
    using assms
  proof (induction rule: tr_reachable.induct)
    case (start e w)
    then show ?case using slots_ok_new by (simp add: new_responder_def)
  qed (auto simp: tr_configure_def bind_target_def unbind_ok on_terminal_in_ok deliver_ok push_ok
      slot_counts dest: pump_ok)
  then show ?thesis by (auto simp: slots_ok_def list_all_iff slot_ok_def)
qed


text \<open>A line editor over a queue of completed lines, echoing nothing.\<close>

definition queue_editor :: "string list editor_ops" where
  "queue_editor = \<lparr>eo_reset = (\<lambda>_. []), eo_set_completion = id, eo_set_prompt = (\<lambda>p e. (e, p)),
     eo_write_response = (\<lambda>t e. (e, t)), eo_write_async = (\<lambda>t e. (e, t)),
     eo_refresh_line = (\<lambda>e. (e, [])), eo_feed = (\<lambda>t e. e @ [t]),
     eo_poll = (\<lambda>e. case e of [] \<Rightarrow> (None, [], []) | l # ls \<Rightarrow> (Some l, ls, []))\<rparr>"

section \<open>The pump returns\<close>

definition editor_drains :: "'e editor_ops \<Rightarrow> ('e \<Rightarrow> nat) \<Rightarrow> bool" where
  "editor_drains ed left \<longleftrightarrow>
     (\<forall>e line e' t. eo_poll ed e = (Some line, e', t) \<longrightarrow> left e' < left e) \<and>
     (\<forall>e t. left (fst (eo_write_response ed t e)) \<le> left e)"

lemma take_line_left:
  assumes "editor_drains ed left"
  shows "left (sl_editor (fst (take_line ed src boot line p))) \<le> left (sl_editor (fst p))"
proof -
  have w: "left e' \<le> left e" if "eo_write_response ed t e = (e', u)" for t e e' u
    using assms that unfolding editor_drains_def by (metis fst_conv)
  show ?thesis
    by (auto simp: take_line_def submit_line_def respond_busy_def
        split: prod.split option.split bool.split intro: w)
qed

lemma poll_loop_returns:
  assumes "editor_drains ed left"
  shows "\<exists>p'. poll_loop ed src boot p = Some p'"
proof (induction "left (sl_editor (fst p))" arbitrary: p rule: less_induct)
  case less
  obtain s out r where p: "p = (s, out, r)" by (cases p)
  obtain ol e t where e: "eo_poll ed (sl_editor s) = (ol, e, t)" by (cases "eo_poll ed (sl_editor s)")
  show ?case
  proof (cases ol)
    case None
    then show ?thesis using e by (subst poll_loop.simps) (simp add: p)
  next
    case (Some line)
    let ?q = "take_line ed src boot line (s\<lparr>sl_editor := e\<rparr>, out @ t, r)"
    have "left e < left (sl_editor s)" using assms e Some by (auto simp: editor_drains_def)
    then have "left (sl_editor (fst ?q)) < left (sl_editor (fst p))"
      using take_line_left [OF assms, of src boot line "(s\<lparr>sl_editor := e\<rparr>, out @ t, r)"] p by simp
    then have "\<exists>p'. poll_loop ed src boot ?q = Some p'" by (rule less)
    then show ?thesis using e Some by (subst poll_loop.simps) (simp add: p)
  qed
qed

lemma pump_slot_returns:
  assumes "editor_drains ed left"
  shows "\<exists>r'. pump_slot ed mp now i r = Some r'"
proof (cases "tr_lock r \<or> \<not> sl_used (tr_slots r ! i)")
  case True
  then show ?thesis by (simp add: pump_slot_def Let_def)
next
  case False
  then have nl: "\<not> tr_lock r" "sl_used (tr_slots r ! i)" by simp_all
  let ?src = "sl_source_id (tr_slots r ! i)" and ?boot = "sl_boot_id (tr_slots r ! i)"
  obtain s4 out3 where o: "opened ed (tr_prompt r) now (tr_slots r ! i) = (s4, out3)" by fastforce
  obtain s5 out5 r5 where
    l: "poll_loop ed ?src ?boot (submit_held ed ?src ?boot (s4, out3, r)) = Some (s5, out5, r5)"
    using poll_loop_returns [OF assms] by (metis prod_cases3)
  obtain s6 out6 where "async_part ed (sl_async_out (tr_slots r ! i)) now (s5, out5) = (s6, out6)"
    by fastforce
  then show ?thesis using o l by (simp add: pump_slot_opened [OF nl])
qed

lemma pump_slots_return: "editor_drains ed left \<Longrightarrow> \<exists>r'. pump_slots ed mp now is r = Some r'"
proof (induction "is" arbitrary: r)
  case (Cons i "is")
  then show ?case using pump_slot_returns [OF Cons.prems, of mp now i r] by auto
qed simp



section \<open>Witnesses on a small run\<close>

text \<open>A responder whose commands are recorded in the world, after one typed line.\<close>

definition demo_link :: "(string list \<times> string list) out_link" where
  "demo_link = \<lparr>ol_send = (\<lambda>p now w. (True, (fst w, snd w @ [p]))), ol_sealed = True\<rparr>"

definition demo_responder :: "(string list, string list \<times> string list) responder" where
  "demo_responder = on_terminal_in EspNow 7 1 100 (Some ''status'')
     (tr_configure demo_link (Some (\<lambda>src boot l w. (True, (fst w @ [l], snd w)))) (Some ''> '')
        (new_responder [] ([], [])))"

lemma demo_reachable: "tr_reachable queue_editor (\<lambda>_. 232) demo_responder"
  unfolding demo_responder_def by (intro tr_reachable.intros)

lemmas demo_simps = demo_responder_def on_terminal_in_def tr_configure_def new_responder_def
  kMaxOrigins_def find_or_alloc_def buffer_input_def claim_slot_def empty_slot_def Let_def
  kMaxPendingIn_def numeral_3_eq_3

lemma demo_slot: "\<not> tr_lock demo_responder" "sl_used (tr_slots demo_responder ! 0)"
  "sl_in (tr_slots demo_responder ! 0) = ''status''" "0 < length (tr_slots demo_responder)"
  by (simp_all add: demo_simps)

lemma terminal_slots_invariant_witness:
  "length (tr_slots demo_responder) = kMaxOrigins \<and>
   sl_in (tr_slots demo_responder ! 0) = ''status''"
  using terminal_slots_invariant [OF demo_reachable] demo_slot by simp


section \<open>Emitting and eviction\<close>

text \<open>What a pass writes to a terminal goes out complete and in order: the pieces sent are not
  empty, joined they are the text, and each fits one frame of the transport of the origin together
  with the tag of the seal.\<close>

theorem emitted_pieces:
  assumes "tr_links r target = Some link" and "kAeadTagSize < mp target"
  shows "\<exists>ps. emit_terminal_out mp target bs now r = send_pieces link now ps r \<and> concat ps = bs \<and>
    (\<forall>p \<in> set ps. p \<noteq> [] \<and>
       length p + (if ol_sealed link then kAeadTagSize else 0) \<le> mp target)"
proof -
  let ?n = "terminal_out_stride mp target (ol_sealed link)"
  have n: "0 < ?n" "?n + (if ol_sealed link then kAeadTagSize else 0) = mp target"
    using assms(2) by (simp_all add: terminal_out_stride_def)
  have e: "emit_terminal_out mp target bs now r = send_pieces link now (pieces ?n bs) r"
    using assms(1) by (simp add: emit_terminal_out_def pieces.simps [of _ "[]"])
  show ?thesis
    using concat_pieces [OF n(1)] pieces_small [of _ ?n bs] n(2)
    by (intro exI [of _ "pieces ?n bs"] conjI e) (auto, fastforce+)
qed

lemma emitted_pieces_witness:
  "\<exists>ps. emit_terminal_out (\<lambda>_. 232) EspNow ''ok'' 1 demo_responder = send_pieces demo_link 1 ps demo_responder \<and>
     concat ps = ''ok''"
proof -
  have "tr_links demo_responder EspNow = Some demo_link" by (simp add: demo_simps)
  moreover have "kAeadTagSize < 232" by (simp add: kAeadTagSize_def)
  ultimately show ?thesis
    using emitted_pieces [of demo_responder EspNow demo_link "\<lambda>_. 232" "''ok''" 1] by blast
qed

text \<open>Every pass stamps all slots in use with the same time.\<close>

lemma pick_first:
  "\<forall>s \<in> set ss. sl_used s \<and> sl_last_used_us s = sl_last_used_us (all ! v) \<Longrightarrow>
   pick_victim i (Some v) all ss = Some v"
  by (induction ss arbitrary: i) auto

lemma pump_slots_stamp:
  "pump_slots ed mp now is r = Some r' \<Longrightarrow> \<not> tr_lock r \<Longrightarrow> \<forall>i \<in> set is. i < length (tr_slots r) \<Longrightarrow>
   length (tr_slots r') = length (tr_slots r) \<and>
   (\<forall>j < length (tr_slots r). sl_used (tr_slots r' ! j) = sl_used (tr_slots r ! j) \<and>
      origin (tr_slots r' ! j) = origin (tr_slots r ! j) \<and>
      (sl_used (tr_slots r ! j) \<longrightarrow> j \<in> set is \<or> sl_last_used_us (tr_slots r ! j) = now \<longrightarrow>
         sl_last_used_us (tr_slots r' ! j) = now))"
proof (induction "is" arbitrary: r)
  case Nil
  then show ?case by simp
next
  case (Cons i "is")
  obtain r1 where r1: "pump_slot ed mp now i r = Some r1" and rest: "pump_slots ed mp now is r1 = Some r'"
    using Cons.prems(1) by (auto split: option.splits)
  have i: "i < length (tr_slots r)" using Cons.prems(3) by simp
  have step: "\<exists>s'. tr_slots r1 = (tr_slots r)[i := s'] \<and> tr_lock r1 = tr_lock r \<and>
      sl_used s' = sl_used (tr_slots r ! i) \<and> origin s' = origin (tr_slots r ! i) \<and>
      (sl_used (tr_slots r ! i) \<longrightarrow> sl_last_used_us s' = now)"
  proof (cases "sl_used (tr_slots r ! i)")
    case True
    then show ?thesis using pump_slot_effect [OF r1 i Cons.prems(2) True] by blast
  next
    case False
    then have "r1 = r" using r1 by (simp add: pump_slot_def Let_def)
    then show ?thesis using False by (intro exI [of _ "tr_slots r ! i"]) simp
  qed
  then obtain s' where s': "tr_slots r1 = (tr_slots r)[i := s']" "tr_lock r1 = tr_lock r"
      "sl_used s' = sl_used (tr_slots r ! i)" "origin s' = origin (tr_slots r ! i)"
      "sl_used (tr_slots r ! i) \<longrightarrow> sl_last_used_us s' = now" by blast
  have "\<not> tr_lock r1" "\<forall>i \<in> set is. i < length (tr_slots r1)" using s' Cons.prems by simp_all
  note IH = Cons.IH [OF rest this]
  have at: "tr_slots r1 ! j = (if j = i then s' else tr_slots r ! j)" if "j < length (tr_slots r)" for j
    using s'(1) that by (simp add: nth_list_update)
  show ?case using IH at s'(2-5) arg_cong [OF s'(1), of length] by simp
qed

text \<open>After a pass of the pump that found the lock free, the pool does not know which of its
  origins was heard from least recently: every slot has the same time of use, hearing from a known
  origin does not renew it, and the origin evicted for a newcomer is always the one in slot 0.\<close>

theorem eviction_ignores_use:
  assumes "responder_pump ed mp now r = Some r1" and "\<not> tr_lock r"
    and "tr_slots r \<noteq> []" and "\<forall>s \<in> set (tr_slots r). sl_used s"
    and "\<forall>s \<in> set (tr_slots r). origin s \<noteq> (src, boot)"
  shows "fst (find_or_alloc src boot ts r1) = Some 0 \<and>
    (\<forall>i t ts' data. find_slot (sl_source_id (tr_slots r1 ! i)) (sl_boot_id (tr_slots r1 ! i)) (tr_slots r1) = Some i \<longrightarrow>
       sl_last_used_us (tr_slots (on_terminal_in t (sl_source_id (tr_slots r1 ! i))
         (sl_boot_id (tr_slots r1 ! i)) ts' data r1) ! i) = now)"
proof -
  have "\<forall>i \<in> set [0..<length (tr_slots r)]. i < length (tr_slots r)" by simp
  note st = pump_slots_stamp [OF assms(1) [unfolded responder_pump_def] assms(2) this]
  have stamp: "length (tr_slots r1) = length (tr_slots r)" using st by blast
  have at: "sl_used (tr_slots r1 ! j) \<and> sl_last_used_us (tr_slots r1 ! j) = now \<and>
      origin (tr_slots r1 ! j) \<noteq> (src, boot)" if "j < length (tr_slots r1)" for j
    using st that stamp assms(4,5) by (simp add: all_set_conv_all_nth)
  have all: "\<forall>s \<in> set (tr_slots r1). sl_used s \<and> sl_last_used_us s = now"
    using at by (simp add: all_set_conv_all_nth)
  have new: "find_slot src boot (tr_slots r1) = None"
    using at unfolding find_slot_none by (simp add: all_set_conv_all_nth)
  obtain s ss where ss: "tr_slots r1 = s # ss" using stamp assms(3) by (cases "tr_slots r1") auto
  have "pick_victim 0 None (tr_slots r1) (tr_slots r1) = Some 0"
    using all pick_first [of ss "s # ss" 0 1] by (simp add: ss)
  then have "fst (find_or_alloc src boot ts r1) = Some 0" using new by (simp add: find_or_alloc_def)
  moreover have "sl_last_used_us (tr_slots (on_terminal_in t (sl_source_id (tr_slots r1 ! i))
      (sl_boot_id (tr_slots r1 ! i)) ts' data r1) ! i) = now"
    if f: "find_slot (sl_source_id (tr_slots r1 ! i)) (sl_boot_id (tr_slots r1 ! i)) (tr_slots r1) = Some i"
    for i t ts' data
    using f find_slot_some [OF f] at [of i]
    by (simp add: on_terminal_in_def find_or_alloc_def buffer_input_def Let_def split: option.split)
  ultimately show ?thesis by blast
qed

definition demo_full :: "(string list, string list \<times> string list) responder" where
  "demo_full = on_terminal_in EspNow 9 1 102 (Some ''b'') (on_terminal_in EspNow 8 1 101 (Some ''a'') demo_responder)"

lemma eviction_ignores_use_witness:
  "\<exists>r1. responder_pump queue_editor (\<lambda>_. 232) 200 demo_full = Some r1 \<and>
     fst (find_or_alloc 10 1 300 r1) = Some 0"
proof -
  have "editor_drains queue_editor length"
    by (auto simp: editor_drains_def queue_editor_def split: list.splits)
  from pump_slots_return [OF this] obtain r1 where
    r1: "responder_pump queue_editor (\<lambda>_. 232) 200 demo_full = Some r1" unfolding responder_pump_def by blast
  have "\<not> tr_lock demo_full" "tr_slots demo_full \<noteq> []" "\<forall>s \<in> set (tr_slots demo_full). sl_used s"
    "\<forall>s \<in> set (tr_slots demo_full). origin s \<noteq> (10, 1)"
    by (simp_all add: demo_full_def demo_simps origin_def)
  from eviction_ignores_use [OF r1 this] show ?thesis using r1 by blast
qed

end
