(* ===== verification/Btp_Command.thy ===== *)
theory Btp_Command
  imports Channels
begin

text \<open>
  The command part of \<^verbatim>\<open>lib/BtpTransport/\<close>: the checks a command request passes before its
  text may reach the shell, the radio filter on addresses, the COBS stream framing around a frame
  and the admission rule of \<^verbatim>\<open>TcpSendAdmission.h\<close>.

  Decoding the wire layout and the COBS code are the protocol library's and are arguments.  A
  \<open>byte_view\<close> is the library's pointer and size; a null pointer still has a size.
\<close>

section \<open>Data\<close>

datatype byte_view = Null nat | View bytes

fun view_size :: "byte_view \<Rightarrow> nat" where
  "view_size (Null n) = n"
| "view_size (View bs) = length bs"

text \<open>The header fields the command path reads.\<close>

record msg_header =
  mh_type :: message_type
  mh_flags :: u16
  mh_object_id :: u16
  mh_source_id :: u32
  mh_boot_id :: u32
  mh_sequence :: u32
  mh_fragment_index :: u8
  mh_fragment_count :: u8

text \<open>What decoding can answer besides a request; the last one stands for the other errors.\<close>

datatype message_error =
  ME_PayloadTooShort | ME_ReservedNotZero | ME_TrailingBytes | ME_LengthOverflow | ME_CountTooLarge
| ME_Other

record command_request =
  cr_target_source_id :: u32
  cr_target_boot_id :: u32
  cr_action_id :: u16
  cr_action_version :: u16
  cr_parameters :: byte_view

datatype parse_error =
  PE_Ok | PE_WrongType | PE_WrongObject | PE_InvalidEnvelope | PE_PayloadTooShort | PE_WrongTarget
| PE_InvalidAction | PE_InvalidFlags | PE_SizeMismatch | PE_ParametersTooLarge
| PE_UnsupportedAction | PE_InvalidShellText | PE_OutputTooSmall

definition kShellActionId :: u16 where "kShellActionId = 1"
definition kShellActionVersion :: u16 where "kShellActionVersion = 1"
definition kPingActionId :: u16 where "kPingActionId = 2"
definition kRequestPrefixSize :: nat where "kRequestPrefixSize = 20"
definition kMaxShellCommandSize :: nat where "kMaxShellCommandSize = 512"
definition kMaxLogicalRequestSize :: nat where
  "kMaxLogicalRequestSize = kRequestPrefixSize + kMaxShellCommandSize"

section \<open>Requests\<close>

definition decode_failure :: "message_error \<Rightarrow> parse_error" where
  "decode_failure e = (case e of
     ME_PayloadTooShort \<Rightarrow> PE_PayloadTooShort
   | ME_ReservedNotZero \<Rightarrow> PE_InvalidFlags
   | ME_TrailingBytes \<Rightarrow> PE_SizeMismatch
   | ME_LengthOverflow \<Rightarrow> PE_SizeMismatch
   | ME_CountTooLarge \<Rightarrow> PE_ParametersTooLarge
   | ME_Other \<Rightarrow> PE_InvalidEnvelope)"

definition parse_request ::
    "(byte_view \<Rightarrow> message_error + command_request) \<Rightarrow> msg_header \<Rightarrow> byte_view \<Rightarrow> u32 \<Rightarrow> u32 \<Rightarrow>
     parse_error + command_request" where
  "parse_request decode h payload local_source local_boot =
     (if (case payload of Null n \<Rightarrow> n \<noteq> 0 | View bs \<Rightarrow> False) then Inl PE_InvalidEnvelope
      else if mh_type h \<noteq> MtCommand then Inl PE_WrongType
      else if mh_object_id h \<noteq> kCommandRequestObjectId then Inl PE_WrongObject
      else if mh_flags h \<noteq> 0 \<or> mh_fragment_index h \<noteq> 0 \<or> mh_fragment_count h \<noteq> 1 \<or>
        mh_source_id h = 0 \<or> mh_boot_id h = 0 then Inl PE_InvalidEnvelope
      else case decode payload of
          Inl e \<Rightarrow> Inl (decode_failure e)
        | Inr cmd \<Rightarrow>
            if cr_target_source_id cmd \<noteq> local_source \<or> cr_target_boot_id cmd \<noteq> local_boot
            then Inl PE_WrongTarget
            else if view_size (cr_parameters cmd) > kMaxShellCommandSize
            then Inl PE_ParametersTooLarge
            else Inr cmd)"

text \<open>The octets no shell command may hold: NUL, line ends, DEL and controls other than a tab.\<close>

definition forbidden_byte :: "u8 \<Rightarrow> bool" where
  "forbidden_byte b \<longleftrightarrow> b = 0 \<or> b = 13 \<or> b = 10 \<or> b = 0x7F \<or> (b < 0x20 \<and> b \<noteq> 9)"

text \<open>\<open>capacity\<close> is \<open>None\<close> for a null output; the terminating NUL is left out of the result.\<close>

definition copy_shell_command :: "command_request \<Rightarrow> nat option \<Rightarrow> parse_error + bytes" where
  "copy_shell_command request capacity =
     (if cr_action_id request \<noteq> kShellActionId \<or> cr_action_version request \<noteq> kShellActionVersion
      then Inl PE_UnsupportedAction
      else case cr_parameters request of
          Null n \<Rightarrow> Inl PE_InvalidShellText
        | View bs \<Rightarrow>
            if bs = [] \<or> length bs > kMaxShellCommandSize then Inl PE_InvalidShellText
            else if (case capacity of None \<Rightarrow> True | Some c \<Rightarrow> c \<le> length bs) then Inl PE_OutputTooSmall
            else if list_ex forbidden_byte bs then Inl PE_InvalidShellText
            else Inr bs)"

definition parse_error_string :: "parse_error \<Rightarrow> string" where
  "parse_error_string e = (case e of
     PE_Ok \<Rightarrow> ''ok''
   | PE_WrongType \<Rightarrow> ''not a COMMAND message''
   | PE_WrongObject \<Rightarrow> ''not COMMAND_REQUEST''
   | PE_InvalidEnvelope \<Rightarrow> ''invalid logical envelope''
   | PE_PayloadTooShort \<Rightarrow> ''command payload too short''
   | PE_WrongTarget \<Rightarrow> ''command target does not match this boot''
   | PE_InvalidAction \<Rightarrow> ''invalid action identity''
   | PE_InvalidFlags \<Rightarrow> ''command reserved field is nonzero''
   | PE_SizeMismatch \<Rightarrow> ''command parameter size mismatch''
   | PE_ParametersTooLarge \<Rightarrow> ''command parameters too large''
   | PE_UnsupportedAction \<Rightarrow> ''unsupported action''
   | PE_InvalidShellText \<Rightarrow> ''invalid shell command bytes''
   | PE_OutputTooSmall \<Rightarrow> ''shell output buffer too small'')"

section \<open>Addresses\<close>

text \<open>Six octets, or \<open>None\<close> for a null pointer.\<close>

definition source_id_from_mac :: "bytes option \<Rightarrow> u32" where
  "source_id_from_mac mac =
     (case mac of
        None \<Rightarrow> 0
      | Some m \<Rightarrow>
          let source_id = or (or (or (push_bit 24 (ucast (m ! 2))) (push_bit 16 (ucast (m ! 3))))
                (push_bit 8 (ucast (m ! 4)))) (ucast (m ! 5))
          in if source_id = 0 then 1 else source_id)"

definition authorized_source :: "bytes option \<Rightarrow> bytes option \<Rightarrow> bool" where
  "authorized_source expected received =
     (case expected of None \<Rightarrow> False | Some e \<Rightarrow>
        (case received of None \<Rightarrow> False | Some r \<Rightarrow> take 6 e = take 6 r))"

section \<open>Stream framing and admission\<close>

text \<open>\<open>max_encoded\<close> and \<open>cobs\<close> are the library's size bound and encoder into a given capacity.\<close>

definition cobs_stream_capacity :: "(nat \<Rightarrow> nat option) \<Rightarrow> nat \<Rightarrow> nat" where
  "cobs_stream_capacity max_encoded frame_size =
     (case max_encoded frame_size of None \<Rightarrow> 0 | Some n \<Rightarrow> n + 2)"

definition cobs_stream_encode ::
    "(bytes \<Rightarrow> nat \<Rightarrow> bytes option) \<Rightarrow> bytes option \<Rightarrow> nat \<Rightarrow> bytes option" where
  "cobs_stream_encode cobs frame capacity =
     (case frame of
        None \<Rightarrow> None
      | Some f \<Rightarrow>
          if capacity < 2 then None
          else (case cobs f (capacity - 2) of None \<Rightarrow> None | Some bs \<Rightarrow> Some (0 # bs @ [0])))"

datatype frame_priority = FP_Normal | FP_Telemetry

definition admit :: "frame_priority \<Rightarrow> nat \<Rightarrow> nat \<Rightarrow> nat \<Rightarrow> bool" where
  "admit priority queue_count queue_depth telemetry_ceiling =
     (if queue_count \<ge> queue_depth then False
      else if priority = FP_Telemetry \<and> queue_count \<ge> telemetry_ceiling then False
      else True)"

section \<open>Facts\<close>

lemma copy_shell_command_ok:
  assumes "copy_shell_command request capacity = Inr cmd"
  shows "cr_parameters request = View cmd" "cmd \<noteq> []" "length cmd \<le> kMaxShellCommandSize"
    "\<forall>b \<in> set cmd. \<not> forbidden_byte b" "cr_action_id request = kShellActionId"
    "\<exists>c. capacity = Some c \<and> length cmd < c"
  using assms
  by (auto simp: copy_shell_command_def list_ex_iff split: if_splits byte_view.splits option.splits)

lemma parse_request_ok:
  assumes "parse_request decode h payload src boot = Inr cmd"
  shows "mh_type h = MtCommand" "mh_object_id h = kCommandRequestObjectId" "mh_flags h = 0"
    "mh_source_id h \<noteq> 0" "mh_boot_id h \<noteq> 0" "decode payload = Inr cmd"
    "cr_target_source_id cmd = src" "cr_target_boot_id cmd = boot"
  using assms by (auto simp: parse_request_def split: if_splits byte_view.splits sum.splits)

text \<open>A refused parse never carries \<open>PE_Ok\<close>.\<close>

lemma parse_request_error: "parse_request decode h payload src boot \<noteq> Inl PE_Ok"
  by (auto simp: parse_request_def decode_failure_def split: byte_view.splits sum.splits message_error.splits)

lemma copy_shell_command_error: "copy_shell_command request capacity \<noteq> Inl PE_Ok"
  by (auto simp: copy_shell_command_def split: byte_view.splits)

text \<open>The reserved margin: whatever the telemetry, a normal frame finds \<open>depth - ceiling\<close> places.\<close>

lemma telemetry_leaves_margin:
  "admit FP_Telemetry n depth ceiling \<Longrightarrow> ceiling \<le> depth \<Longrightarrow> Suc n \<le> ceiling"
  by (simp add: admit_def split: if_splits)

end
