(* ===== verification/Command_Processor.thy ===== *)
theory Command_Processor
  imports Btp_Command
begin

text \<open>
  \<^verbatim>\<open>lib/CommandProcessor/\<close>: from a received command request to at most one execution and a
  reply that a repeated request gets again, octet for octet.

  The duplicate cache, the codec of requests and results, and the endpoint are the protocol
  library's: the records \<open>'d btp_ops\<close> and \<open>('w, 's) command_endpoint\<close>, over the state \<open>'d\<close> of the
  cache and the rest of the world \<open>'w\<close>; \<open>'s\<close> is a sealer with its context.  A result view holds
  its payload by value.  \<open>cp_lock\<close> says that another task holds \<open>cache_lock_\<close>, which only
  \<open>intake\<close> sees: the other operations wait for it.
\<close>

section \<open>The library\<close>

record dedup_key =
  dk_source_id :: u32
  dk_boot_id :: u32
  dk_sequence :: u32

datatype dedup_verdict =
  DuplicateComplete byte_view | DuplicateInFlight | Conflict | Evicted | CapacityExhausted
| InvalidArgument | Fresh nat

record command_result =
  co_request :: dedup_key
  co_action_id :: u16
  co_action_version :: u16
  co_status :: u8
  co_error_code :: u16
  co_message :: string

record 'd btp_ops =
  bo_decode :: "byte_view \<Rightarrow> message_error + command_request"
  bo_encode :: "command_result \<Rightarrow> nat \<Rightarrow> bytes option"
  bo_classify :: "dedup_key \<Rightarrow> bytes \<Rightarrow> 'd \<Rightarrow> dedup_verdict \<times> 'd"
  bo_record :: "nat \<Rightarrow> bytes \<Rightarrow> 'd \<Rightarrow> bool \<times> 'd"

record ('w, 's) command_endpoint =
  ce_source_id :: "'w \<Rightarrow> u32"
  ce_boot_id :: "'w \<Rightarrow> u32"
  ce_reserve :: "'w \<Rightarrow> u32 option \<times> 'w"
  ce_send :: "u16 \<Rightarrow> u32 \<Rightarrow> u64 \<Rightarrow> bytes \<Rightarrow> 's option \<Rightarrow> 'w \<Rightarrow> bool \<times> 'w"

section \<open>Data and state\<close>

datatype status = Success | Rejected | Failed | Timeout | Cancelled | Unsupported | Busy

fun status_num :: "status \<Rightarrow> u8" where
  "status_num Success = 0"
| "status_num Rejected = 1"
| "status_num Failed = 2"
| "status_num Timeout = 3"
| "status_num Cancelled = 4"
| "status_num Unsupported = 5"
| "status_num Busy = 6"

datatype error_code =
  EC_None | EC_MalformedPayload | EC_UnknownObject | EC_InvalidArgument | EC_NotAuthorized
| EC_CapacityExhausted | EC_ExecutionTimeout | EC_InternalError | EC_UnsupportedVersion
| EC_StaleTargetBoot | EC_RequestConflict

fun error_num :: "error_code \<Rightarrow> u16" where
  "error_num EC_None = 0"
| "error_num EC_MalformedPayload = 1"
| "error_num EC_UnknownObject = 2"
| "error_num EC_InvalidArgument = 3"
| "error_num EC_NotAuthorized = 4"
| "error_num EC_CapacityExhausted = 5"
| "error_num EC_ExecutionTimeout = 6"
| "error_num EC_InternalError = 7"
| "error_num EC_UnsupportedVersion = 8"
| "error_num EC_StaleTargetBoot = 9"
| "error_num EC_RequestConflict = 10"

definition kCacheCapacity :: nat where "kCacheCapacity = 16"
definition kMaxResultPayloadSize :: nat where "kMaxResultPayloadSize = 128"
definition kReplayPrefix :: nat where "kReplayPrefix = 12"

record result_view =
  rv_sequence :: u32
  rv_timestamp_us :: u64
  rv_payload :: byte_view
  rv_channel :: channel

definition empty_view :: result_view where
  "empty_view = \<lparr>rv_sequence = 0, rv_timestamp_us = 0, rv_payload = Null 0, rv_channel = C_Link\<rparr>"

text \<open>\<open>IntakeKind\<close> with what goes with it: a command for the shell and its slot, or a reply.\<close>

datatype intake_result =
  Ready u8 bytes | DuplicateInProgress | ResultReady result_view | Ignored

record slot_meta =
  me_key :: dedup_key
  me_action_id :: u16
  me_action_version :: u16
  me_channel :: channel

definition zero_meta :: slot_meta where
  "zero_meta = \<lparr>me_key = \<lparr>dk_source_id = 0, dk_boot_id = 0, dk_sequence = 0\<rparr>, me_action_id = 0,
     me_action_version = 0, me_channel = C_Link\<rparr>"

record ('d, 'w, 's) processor =
  cp_endpoint :: "('w, 's) command_endpoint option"
  cp_seal_link :: "'s option"
  cp_seal_endpoint :: "'s option"
  cp_lock :: bool
  cp_dedup :: 'd
  cp_meta :: "slot_meta list"
  cp_accepted :: u32
  cp_executed :: u32
  cp_duplicates :: u32
  cp_replayed :: u32
  cp_rejected :: u32
  cp_dropped :: u32
  cp_unauthorized :: u32
  cp_world :: 'w

definition new_processor :: "'d \<Rightarrow> 'w \<Rightarrow> ('d, 'w, 's) processor" where
  "new_processor d w = \<lparr>cp_endpoint = None, cp_seal_link = None, cp_seal_endpoint = None,
     cp_lock = False, cp_dedup = d, cp_meta = replicate kCacheCapacity zero_meta, cp_accepted = 0,
     cp_executed = 0, cp_duplicates = 0, cp_replayed = 0, cp_rejected = 0, cp_dropped = 0,
     cp_unauthorized = 0, cp_world = w\<rparr>"

definition cp_configure ::
    "('w, 's) command_endpoint \<Rightarrow> 's option \<Rightarrow> 's option \<Rightarrow> ('d, 'w, 's) processor \<Rightarrow>
     ('d, 'w, 's) processor" where
  "cp_configure ep seal_link seal_endpoint c =
     c\<lparr>cp_endpoint := Some ep, cp_seal_link := seal_link, cp_seal_endpoint := seal_endpoint\<rparr>"

definition note_drop :: "('d, 'w, 's) processor \<Rightarrow> ('d, 'w, 's) processor" where
  "note_drop c = c\<lparr>cp_dropped := cp_dropped c + 1\<rparr>"

definition note_unauthorized :: "('d, 'w, 's) processor \<Rightarrow> ('d, 'w, 's) processor" where
  "note_unauthorized c = c\<lparr>cp_unauthorized := cp_unauthorized c + 1\<rparr>"

section \<open>Octets\<close>

definition read_u16 :: "bytes \<Rightarrow> u16" where
  "read_u16 bs = or (ucast (bs ! 0)) (push_bit 8 (ucast (bs ! 1)))"

definition read_u32 :: "bytes \<Rightarrow> u32" where
  "read_u32 bs = or (or (or (ucast (bs ! 0)) (push_bit 8 (ucast (bs ! 1))))
     (push_bit 16 (ucast (bs ! 2)))) (push_bit 24 (ucast (bs ! 3)))"

fun read_u64_from :: "nat \<Rightarrow> nat \<Rightarrow> bytes \<Rightarrow> u64 \<Rightarrow> u64" where
  "read_u64_from i 0 bs v = v"
| "read_u64_from i (Suc n) bs v =
     read_u64_from (Suc i) n bs (or v (push_bit (i * 8) (ucast (bs ! i))))"

definition read_u64 :: "bytes \<Rightarrow> u64" where
  "read_u64 bs = read_u64_from 0 8 bs 0"

definition write_u32 :: "u32 \<Rightarrow> bytes" where
  "write_u32 v = [ucast v, ucast (drop_bit 8 v), ucast (drop_bit 16 v), ucast (drop_bit 24 v)]"

definition write_u64 :: "u64 \<Rightarrow> bytes" where
  "write_u64 v = map (\<lambda>i. ucast (drop_bit (i * 8) v)) [0..<8]"

section \<open>Answers to a failed parse\<close>

definition parse_message :: "parse_error \<Rightarrow> string" where
  "parse_message e = (case e of
     PE_WrongTarget \<Rightarrow> ''stale command target''
   | PE_UnsupportedAction \<Rightarrow> ''unsupported action''
   | PE_InvalidAction \<Rightarrow> ''invalid action''
   | PE_ParametersTooLarge \<Rightarrow> ''parameters too large''
   | PE_InvalidShellText \<Rightarrow> ''invalid shell command''
   | _ \<Rightarrow> ''malformed command request'')"

definition parse_status :: "parse_error \<Rightarrow> status" where
  "parse_status e = (if e = PE_UnsupportedAction then Unsupported else Rejected)"

definition parse_error_code :: "parse_error \<Rightarrow> error_code" where
  "parse_error_code e = (case e of
     PE_WrongTarget \<Rightarrow> EC_StaleTargetBoot
   | PE_UnsupportedAction \<Rightarrow> EC_UnsupportedVersion
   | PE_InvalidAction \<Rightarrow> EC_InvalidArgument
   | PE_ParametersTooLarge \<Rightarrow> EC_InvalidArgument
   | PE_InvalidShellText \<Rightarrow> EC_InvalidArgument
   | PE_OutputTooSmall \<Rightarrow> EC_InvalidArgument
   | _ \<Rightarrow> EC_MalformedPayload)"

section \<open>Results\<close>

definition encode_result ::
    "'d btp_ops \<Rightarrow> dedup_key \<Rightarrow> u16 \<Rightarrow> u16 \<Rightarrow> status \<Rightarrow> error_code \<Rightarrow> string \<Rightarrow> nat \<Rightarrow> bytes option" where
  "encode_result bo key action_id action_version st ec message capacity =
     bo_encode bo \<lparr>co_request = key, co_action_id = action_id, co_action_version = action_version,
       co_status = status_num st, co_error_code = error_num ec, co_message = message\<rparr> capacity"

text \<open>Reserving a number and then encoding; both are done before anything is stored or shown.\<close>

definition reserve_and_encode ::
    "'d btp_ops \<Rightarrow> ('w, 's) command_endpoint \<Rightarrow> dedup_key \<Rightarrow> u16 \<Rightarrow> u16 \<Rightarrow> status \<Rightarrow> error_code \<Rightarrow>
     string \<Rightarrow> ('d, 'w, 's) processor \<Rightarrow> (u32 \<times> bytes) option \<times> ('d, 'w, 's) processor" where
  "reserve_and_encode bo ep key action_id action_version st ec message c =
     (case ce_reserve ep (cp_world c) of
        (None, w) \<Rightarrow> (None, note_drop (c\<lparr>cp_world := w\<rparr>))
      | (Some sequence, w) \<Rightarrow>
          (case encode_result bo key action_id action_version st ec message kMaxResultPayloadSize of
             None \<Rightarrow> (None, note_drop (c\<lparr>cp_world := w\<rparr>))
           | Some payload \<Rightarrow> (Some (sequence, payload), c\<lparr>cp_world := w\<rparr>)))"

definition packed_result :: "u32 \<Rightarrow> u64 \<Rightarrow> bytes \<Rightarrow> bytes" where
  "packed_result sequence now payload = write_u32 sequence @ write_u64 now @ payload"

definition finish ::
    "'d btp_ops \<Rightarrow> nat \<Rightarrow> status \<Rightarrow> error_code \<Rightarrow> string \<Rightarrow> u64 \<Rightarrow> ('d, 'w, 's) processor \<Rightarrow>
     result_view option \<times> ('d, 'w, 's) processor" where
  "finish bo slot st ec message now c =
     (case cp_endpoint c of
        None \<Rightarrow> (None, c)
      | Some ep \<Rightarrow>
          if slot \<ge> kCacheCapacity then (None, c)
          else let meta = cp_meta c ! slot in
            (case reserve_and_encode bo ep (me_key meta) (me_action_id meta) (me_action_version meta)
                    st ec message c of
               (None, c1) \<Rightarrow> (None, c1)
             | (Some (sequence, payload), c1) \<Rightarrow>
                 (case bo_record bo slot (packed_result sequence now payload) (cp_dedup c1) of
                    (False, d) \<Rightarrow> (None, note_drop (c1\<lparr>cp_dedup := d\<rparr>))
                  | (True, d) \<Rightarrow>
                      (Some \<lparr>rv_sequence = sequence, rv_timestamp_us = now, rv_payload = View payload,
                         rv_channel = me_channel meta\<rparr>, c1\<lparr>cp_dedup := d\<rparr>))))"

definition make_transient ::
    "'d btp_ops \<Rightarrow> dedup_key \<Rightarrow> u16 \<Rightarrow> u16 \<Rightarrow> status \<Rightarrow> error_code \<Rightarrow> string \<Rightarrow> u64 \<Rightarrow> channel \<Rightarrow>
     ('d, 'w, 's) processor \<Rightarrow> result_view option \<times> ('d, 'w, 's) processor" where
  "make_transient bo key action_id action_version st ec message now channel c =
     (case cp_endpoint c of
        None \<Rightarrow> (None, c)
      | Some ep \<Rightarrow>
          (case reserve_and_encode bo ep key action_id action_version st ec message c of
             (None, c1) \<Rightarrow> (None, c1)
           | (Some (sequence, payload), c1) \<Rightarrow>
               (Some \<lparr>rv_sequence = sequence, rv_timestamp_us = now, rv_payload = View payload,
                  rv_channel = channel\<rparr>, c1)))"

definition replay_view :: "byte_view \<Rightarrow> channel \<Rightarrow> result_view" where
  "replay_view stored channel =
     (case stored of
        Null n \<Rightarrow> empty_view
      | View bs \<Rightarrow>
          if length bs < kReplayPrefix then empty_view
          else \<lparr>rv_sequence = read_u32 bs, rv_timestamp_us = read_u64 (drop 4 bs),
             rv_payload = View (take kMaxResultPayloadSize (drop kReplayPrefix bs)),
             rv_channel = channel\<rparr>)"

section \<open>Intake\<close>

definition answer :: "result_view option \<Rightarrow> intake_result" where
  "answer r = (case r of None \<Rightarrow> Ignored | Some v \<Rightarrow> ResultReady v)"

definition key_of_header :: "msg_header \<Rightarrow> dedup_key" where
  "key_of_header h = \<lparr>dk_source_id = mh_source_id h, dk_boot_id = mh_boot_id h, dk_sequence = mh_sequence h\<rparr>"

text \<open>A fresh request: its slot is reserved and described, then it is parsed.\<close>

definition intake_fresh ::
    "'d btp_ops \<Rightarrow> ('w, 's) command_endpoint \<Rightarrow> nat \<Rightarrow> msg_header \<Rightarrow> bytes \<Rightarrow> u16 \<Rightarrow> u16 \<Rightarrow> u64 \<Rightarrow> channel \<Rightarrow>
     ('d, 'w, 's) processor \<Rightarrow> intake_result \<times> ('d, 'w, 's) processor" where
  "intake_fresh bo ep slot h payload action_id action_version now channel c =
     (let c1 = c\<lparr>cp_meta := (cp_meta c)[slot := \<lparr>me_key = key_of_header h, me_action_id = action_id,
            me_action_version = action_version, me_channel = channel\<rparr>]\<rparr>;
          refuse = (\<lambda>e. let (r, c2) = finish bo slot (parse_status e) (parse_error_code e)
                (parse_message e) now (c1\<lparr>cp_rejected := cp_rejected c1 + 1\<rparr>) in (answer r, c2))
      in case parse_request (bo_decode bo) h (View payload) (ce_source_id ep (cp_world c1))
                (ce_boot_id ep (cp_world c1)) of
           Inl e \<Rightarrow> refuse e
         | Inr request \<Rightarrow>
             if action_id = kPingActionId then
               (let (r, c2) = finish bo slot Success EC_None [] now
                   (c1\<lparr>cp_accepted := cp_accepted c1 + 1\<rparr>) in (answer r, c2))
             else (case copy_shell_command request (Some (kMaxShellCommandSize + 1)) of
                 Inl e \<Rightarrow> refuse e
               | Inr command \<Rightarrow>
                   (Ready (word_of_nat slot) command, c1\<lparr>cp_accepted := cp_accepted c1 + 1\<rparr>)))"

definition intake ::
    "'d btp_ops \<Rightarrow> msg_header \<Rightarrow> byte_view \<Rightarrow> u64 \<Rightarrow> channel \<Rightarrow> ('d, 'w, 's) processor \<Rightarrow>
     intake_result \<times> ('d, 'w, 's) processor" where
  "intake bo h payload now channel c =
     (if cp_lock c then (Ignored, note_drop c)
      else case cp_endpoint c of
        None \<Rightarrow> (Ignored, note_drop c)
      | Some ep \<Rightarrow>
        (case payload of
          Null n \<Rightarrow> (Ignored, note_drop c)
        | View bs \<Rightarrow>
            if mh_type h \<noteq> MtCommand \<or> mh_object_id h \<noteq> kCommandRequestObjectId \<or>
               mh_source_id h = 0 \<or> mh_boot_id h = 0 \<or> mh_sequence h = 0 \<or>
               length bs > kMaxLogicalRequestSize
            then (Ignored, note_drop c)
            else
              let action_id = (if length bs \<ge> 12 then read_u16 (drop 8 bs) else 0);
                  action_version = (if length bs \<ge> 12 then read_u16 (drop 10 bs) else 0);
                  key = key_of_header h
              in case bo_classify bo key bs (cp_dedup c) of (verdict, d) \<Rightarrow>
                let c0 = c\<lparr>cp_dedup := d\<rparr> in
                (case verdict of
                   DuplicateComplete stored \<Rightarrow>
                     (ResultReady (replay_view stored channel),
                      c0\<lparr>cp_duplicates := cp_duplicates c0 + 1, cp_replayed := cp_replayed c0 + 1\<rparr>)
                 | DuplicateInFlight \<Rightarrow>
                     (DuplicateInProgress, c0\<lparr>cp_duplicates := cp_duplicates c0 + 1\<rparr>)
                 | Conflict \<Rightarrow>
                     (let (r, c1) = make_transient bo key action_id action_version Rejected
                            EC_RequestConflict ''request identity conflict'' now channel
                            (c0\<lparr>cp_duplicates := cp_duplicates c0 + 1, cp_rejected := cp_rejected c0 + 1\<rparr>)
                      in (answer r, c1))
                 | Evicted \<Rightarrow>
                     (let (r, c1) = make_transient bo key action_id action_version Busy
                            EC_CapacityExhausted ''command cache exhausted'' now channel
                            (c0\<lparr>cp_rejected := cp_rejected c0 + 1\<rparr>)
                      in (answer r, c1))
                 | CapacityExhausted \<Rightarrow>
                     (let (r, c1) = make_transient bo key action_id action_version Busy
                            EC_CapacityExhausted ''command cache exhausted'' now channel
                            (c0\<lparr>cp_rejected := cp_rejected c0 + 1\<rparr>)
                      in (answer r, c1))
                 | InvalidArgument \<Rightarrow> (Ignored, note_drop c0)
                 | Fresh slot \<Rightarrow> intake_fresh bo ep slot h bs action_id action_version now channel c0)))"

section \<open>Completion\<close>

definition complete ::
    "'d btp_ops \<Rightarrow> u8 \<Rightarrow> u8 \<Rightarrow> u64 \<Rightarrow> string option \<Rightarrow> ('d, 'w, 's) processor \<Rightarrow>
     result_view option \<times> ('d, 'w, 's) processor" where
  "complete bo cache_slot shell_status now message c =
     (if unat cache_slot \<ge> kCacheCapacity then (None, c)
      else let success = (shell_status = 0) in
        (case finish bo (unat cache_slot) (if success then Success else Failed)
                (if success then EC_None else EC_InternalError)
                (if success then (case message of None \<Rightarrow> [] | Some m \<Rightarrow> m) else ''shell command failed'')
                now c of
           (None, c1) \<Rightarrow> (None, c1)
         | (Some v, c1) \<Rightarrow> (Some v, c1\<lparr>cp_executed := cp_executed c1 + 1\<rparr>)))"

definition complete_silent ::
    "'d btp_ops \<Rightarrow> u8 \<Rightarrow> u8 \<Rightarrow> u64 \<Rightarrow> ('d, 'w, 's) processor \<Rightarrow>
     result_view option \<times> ('d, 'w, 's) processor" where
  "complete_silent bo cache_slot shell_status now c = complete bo cache_slot shell_status now (Some []) c"

definition reject_busy ::
    "'d btp_ops \<Rightarrow> u8 \<Rightarrow> u64 \<Rightarrow> ('d, 'w, 's) processor \<Rightarrow> result_view option \<times> ('d, 'w, 's) processor" where
  "reject_busy bo cache_slot now c =
     (if unat cache_slot \<ge> kCacheCapacity then (None, c)
      else finish bo (unat cache_slot) Busy EC_CapacityExhausted ''command execution queue full'' now
             (c\<lparr>cp_rejected := cp_rejected c + 1\<rparr>))"

section \<open>Sending\<close>

text \<open>\<open>espnow_max\<close> is the payload size of the radio frame, a constant of the library.\<close>

definition send_result_via ::
    "nat \<Rightarrow> result_view \<Rightarrow> ('w, 's) command_endpoint option \<Rightarrow> bool \<Rightarrow> ('d, 'w, 's) processor \<Rightarrow>
     bool \<times> ('d, 'w, 's) processor" where
  "send_result_via espnow_max v endpoint cleartext c =
     (case endpoint of
        None \<Rightarrow> (False, note_drop c)
      | Some ep \<Rightarrow>
        (case rv_payload v of
           Null n \<Rightarrow> (False, note_drop c)
         | View payload \<Rightarrow>
             if rv_sequence v = 0 \<or> payload = [] \<or> length payload > espnow_max
             then (False, note_drop c)
             else let seal = (if cleartext then None
                              else if rv_channel v = B_Endpoint then cp_seal_endpoint c else cp_seal_link c)
               in if \<not> cleartext \<and> seal = None \<and> (cp_seal_link c \<noteq> None \<or> cp_seal_endpoint c \<noteq> None)
               then (False, note_drop c)
               else (case ce_send ep kCommandResultObjectId (rv_sequence v) (rv_timestamp_us v) payload
                            seal (cp_world c) of
                   (True, w) \<Rightarrow> (True, c\<lparr>cp_world := w\<rparr>)
                 | (False, w) \<Rightarrow> (False, note_drop (c\<lparr>cp_world := w\<rparr>)))))"

definition send_result ::
    "nat \<Rightarrow> result_view \<Rightarrow> ('d, 'w, 's) processor \<Rightarrow> bool \<times> ('d, 'w, 's) processor" where
  "send_result espnow_max v c = send_result_via espnow_max v (cp_endpoint c) False c"

definition send_result_to ::
    "nat \<Rightarrow> result_view \<Rightarrow> ('w, 's) command_endpoint \<Rightarrow> ('d, 'w, 's) processor \<Rightarrow>
     bool \<times> ('d, 'w, 's) processor" where
  "send_result_to espnow_max v ep c = send_result_via espnow_max v (Some ep) False c"

definition send_result_cleartext ::
    "nat \<Rightarrow> result_view \<Rightarrow> ('w, 's) command_endpoint \<Rightarrow> ('d, 'w, 's) processor \<Rightarrow>
     bool \<times> ('d, 'w, 's) processor" where
  "send_result_cleartext espnow_max v ep c = send_result_via espnow_max v (Some ep) True c"

record command_stats =
  cs_accepted :: u32
  cs_executed :: u32
  cs_duplicates :: u32
  cs_replayed :: u32
  cs_rejected :: u32
  cs_dropped :: u32
  cs_unauthorized :: u32

definition command_stats :: "('d, 'w, 's) processor \<Rightarrow> command_stats" where
  "command_stats c = \<lparr>cs_accepted = cp_accepted c, cs_executed = cp_executed c,
     cs_duplicates = cp_duplicates c, cs_replayed = cp_replayed c, cs_rejected = cp_rejected c,
     cs_dropped = cp_dropped c, cs_unauthorized = cp_unauthorized c\<rparr>"

section \<open>Octets round trip\<close>

lemma read_write_u32: "read_u32 (write_u32 v @ rest) = v"
proof (rule bit_word_eqI)
  fix n
  assume "n < LENGTH(32)"
  then consider "n < 8" | k where "n = 8 + k" "k < 8" | k where "n = 16 + k" "k < 8"
    | k where "n = 24 + k" "k < 8"
  proof -
    assume n: "n < LENGTH(32)"
    have "n < 8 \<or> n = 8 + (n - 8) \<and> n - 8 < 8 \<or> n = 16 + (n - 16) \<and> n - 16 < 8 \<or>
        n = 24 + (n - 24) \<and> n - 24 < 8"
      using n by auto
    then show thesis using that by blast
  qed
  then show "bit (read_u32 (write_u32 v @ rest)) n = bit v n"
    by cases (auto simp: read_u32_def write_u32_def bit_simps)
qed

lemma read_u64_bits:
  "m < 64 \<Longrightarrow> bit (read_u64_from i n bs v) m \<longleftrightarrow>
     bit v m \<or> (\<exists>j. i \<le> j \<and> j < i + n \<and> j * 8 \<le> m \<and> m < j * 8 + 8 \<and> bit (bs ! j) (m - j * 8))"
proof (induction n arbitrary: i v)
  case 0
  then show ?case by auto
next
  case (Suc n)
  have "{i..<i + Suc n} = insert i {Suc i..<Suc i + n}" by auto
  then have split: "(\<exists>j. i \<le> j \<and> j < i + Suc n \<and> P j) \<longleftrightarrow> P i \<or> (\<exists>j. Suc i \<le> j \<and> j < Suc i + n \<and> P j)"
    for P :: "nat \<Rightarrow> bool"
    by (metis atLeastLessThan_iff insert_iff)
  have b: "bit (push_bit (i * 8) (ucast (bs ! i)) :: u64) m \<longleftrightarrow>
      i * 8 \<le> m \<and> m < i * 8 + 8 \<and> bit (bs ! i) (m - i * 8)"
    using Suc.prems bit_imp_le_length [of "bs ! i" "m - i * 8"] by (auto simp: bit_simps)
  show ?case
    unfolding read_u64_from.simps Suc.IH [OF Suc.prems] split
    by (simp add: bit_or_iff b)
qed

lemma read_write_u64: "read_u64 (write_u64 v @ rest) = v"
proof (rule bit_word_eqI)
  fix m
  assume "m < LENGTH(64)"
  then have m: "m < 64" by simp
  have at: "(write_u64 v @ rest) ! j = ucast (drop_bit (j * 8) v)" if "j < 8" for j
    using that by (simp add: write_u64_def nth_append)
  have "bit (read_u64 (write_u64 v @ rest)) m \<longleftrightarrow>
      (\<exists>j < 8. j * 8 \<le> m \<and> m < j * 8 + 8 \<and> bit (ucast (drop_bit (j * 8) v) :: u8) (m - j * 8))"
    unfolding read_u64_def read_u64_bits [OF m] by (auto simp: at)
  also have "\<dots> \<longleftrightarrow> (\<exists>j < 8. j * 8 \<le> m \<and> m < j * 8 + 8 \<and> bit v m)"
    by (auto simp: bit_simps)
  also have "\<dots> \<longleftrightarrow> bit v m"
    using m by (auto intro!: exI [of _ "m div 8"])
  finally show "bit (read_u64 (write_u64 v @ rest)) m = bit v m" .
qed

lemma length_write [simp]: "length (write_u32 v) = 4" "length (write_u64 w) = 8"
  by (simp_all add: write_u32_def write_u64_def)

lemma replay_packed:
  assumes "length payload \<le> kMaxResultPayloadSize"
  shows "replay_view (View (packed_result sequence now payload)) channel =
    \<lparr>rv_sequence = sequence, rv_timestamp_us = now, rv_payload = View payload, rv_channel = channel\<rparr>"
  using assms read_write_u64 [of now payload]
  by (simp add: replay_view_def packed_result_def kReplayPrefix_def read_write_u32)

section \<open>What the operations leave alone\<close>

lemma note_drop_frame [simp]:
  "cp_dedup (note_drop c) = cp_dedup c" "cp_meta (note_drop c) = cp_meta c"
  "cp_lock (note_drop c) = cp_lock c" "cp_endpoint (note_drop c) = cp_endpoint c"
  "cp_world (note_drop c) = cp_world c" "cp_executed (note_drop c) = cp_executed c"
  by (simp_all add: note_drop_def)

lemma reserve_and_encode_frame:
  "reserve_and_encode bo ep key a v st ec m c = (r, c') \<Longrightarrow>
   cp_dedup c' = cp_dedup c \<and> cp_meta c' = cp_meta c \<and> cp_lock c' = cp_lock c \<and>
   cp_endpoint c' = cp_endpoint c \<and> cp_executed c' = cp_executed c"
  by (auto simp: reserve_and_encode_def split: prod.splits option.splits)

lemma reserve_and_encode_some:
  "reserve_and_encode bo ep key a v st ec m c = (Some (sequence, payload), c') \<Longrightarrow>
   encode_result bo key a v st ec m kMaxResultPayloadSize = Some payload \<and>
   cp_dedup c' = cp_dedup c \<and> cp_meta c' = cp_meta c"
  by (auto simp: reserve_and_encode_def split: prod.splits option.splits)

lemma make_transient_dedup:
  "make_transient bo key a v st ec m now ch c = (r, c') \<Longrightarrow> cp_dedup c' = cp_dedup c"
  by (auto simp: make_transient_def split: option.splits prod.splits dest: reserve_and_encode_frame)

text \<open>A result that is handed out has been encoded, packed and recorded.\<close>

lemma finish_some:
  assumes "finish bo slot st ec m now c = (Some v, c')"
  obtains sequence payload where
    "encode_result bo (me_key (cp_meta c ! slot)) (me_action_id (cp_meta c ! slot))
       (me_action_version (cp_meta c ! slot)) st ec m kMaxResultPayloadSize = Some payload"
    "v = \<lparr>rv_sequence = sequence, rv_timestamp_us = now, rv_payload = View payload,
       rv_channel = me_channel (cp_meta c ! slot)\<rparr>"
    "bo_record bo slot (packed_result sequence now payload) (cp_dedup c) = (True, cp_dedup c')"
  using assms
  by (auto simp: finish_def Let_def split: option.splits if_splits prod.splits bool.splits
      dest!: reserve_and_encode_some)

text \<open>What the cache has seen, by any measure that only grows.\<close>

definition cache_grows :: "'d btp_ops \<Rightarrow> ('d \<Rightarrow> dedup_key set) \<Rightarrow> bool" where
  "cache_grows bo seen \<longleftrightarrow>
     (\<forall>key bs d verdict d'. bo_classify bo key bs d = (verdict, d') \<longrightarrow> seen d \<subseteq> seen d' \<and>
        (\<forall>slot. verdict = Fresh slot \<longrightarrow> key \<notin> seen d \<and> key \<in> seen d')) \<and>
     (\<forall>slot bs d ok d'. bo_record bo slot bs d = (ok, d') \<longrightarrow> seen d \<subseteq> seen d')"

lemma finish_seen:
  assumes "cache_grows bo seen" and "finish bo slot st ec m now c = (r, c')"
  shows "seen (cp_dedup c) \<subseteq> seen (cp_dedup c')"
proof -
  have rec: "seen d \<subseteq> seen d'" if "bo_record bo slot bs d = (ok, d')" for bs d ok d'
    using assms(1) that unfolding cache_grows_def by blast
  show ?thesis
    using assms(2)
    by (auto simp: finish_def Let_def split: option.splits if_splits prod.splits bool.splits
        dest!: reserve_and_encode_frame dest: rec [THEN subsetD])
qed

lemma intake_fresh_seen:
  assumes "cache_grows bo seen"
    and "intake_fresh bo ep slot h bs a v now ch c = (res, c')"
  shows "seen (cp_dedup c) \<subseteq> seen (cp_dedup c')"
  using assms(2)
  by (auto simp: intake_fresh_def Let_def split: sum.splits if_splits prod.splits
      dest: finish_seen [OF assms(1), THEN subsetD])

text \<open>Intake as a case distinction on what it decides.\<close>

definition well_formed :: "msg_header \<Rightarrow> bytes \<Rightarrow> bool" where
  "well_formed h bs \<longleftrightarrow> mh_type h = MtCommand \<and> mh_object_id h = kCommandRequestObjectId \<and>
     mh_source_id h \<noteq> 0 \<and> mh_boot_id h \<noteq> 0 \<and> mh_sequence h \<noteq> 0 \<and>
     length bs \<le> kMaxLogicalRequestSize"

lemma intake_ready:
  assumes "intake bo h payload now ch c = (Ready s cmd, c')"
  shows "\<exists>ep bs slot d. \<not> cp_lock c \<and> cp_endpoint c = Some ep \<and> payload = View bs \<and> well_formed h bs \<and>
    bo_classify bo (key_of_header h) bs (cp_dedup c) = (Fresh slot, d) \<and> cp_dedup c' = d \<and>
    s = word_of_nat slot \<and>
    (\<exists>request. parse_request (bo_decode bo) h (View bs) (ce_source_id ep (cp_world c))
        (ce_boot_id ep (cp_world c)) = Inr request \<and>
      copy_shell_command request (Some (kMaxShellCommandSize + 1)) = Inr cmd)"
  using assms
  by (auto simp: intake_def intake_fresh_def well_formed_def answer_def Let_def
      split: if_splits option.splits byte_view.splits prod.splits dedup_verdict.splits sum.splits)

lemma intake_seen:
  assumes grows: "cache_grows bo seen" and "intake bo h payload now ch c = (res, c')"
  shows "seen (cp_dedup c) \<subseteq> seen (cp_dedup c')"
proof -
  have step: "seen d \<subseteq> seen d'" if "bo_classify bo key bs d = (v, d')" for key bs d v d'
    using grows that unfolding cache_grows_def by blast
  have fresh: "seen d \<subseteq> seen (cp_dedup c')"
    if "intake_fresh bo ep slot h bs a v now ch (c\<lparr>cp_dedup := d\<rparr>) = (res, c')" for ep slot bs a v d
    using intake_fresh_seen [OF grows that] by simp
  show ?thesis
    using assms(2)
    by (auto simp: intake_def Let_def
        split: if_splits option.splits byte_view.splits prod.splits dedup_verdict.splits
        dest: step [THEN subsetD] fresh [THEN subsetD] dest!: make_transient_dedup)
qed

section \<open>At most one execution\<close>

text \<open>The calls on the processor, by the radio and the shell task; a run yields the identities of
  the requests handed to the shell.\<close>

datatype cp_call =
  CallIntake msg_header byte_view u64 channel
| CallComplete u8 u8 u64 "string option"
| CallReject u8 u64
| CallLock bool

fun cp_step :: "'d btp_ops \<Rightarrow> cp_call \<Rightarrow> ('d, 'w, 's) processor \<Rightarrow>
    dedup_key option \<times> ('d, 'w, 's) processor" where
  "cp_step bo (CallIntake h payload now ch) c =
     (case intake bo h payload now ch c of
        (Ready s cmd, c') \<Rightarrow> (Some (key_of_header h), c') | (_, c') \<Rightarrow> (None, c'))"
| "cp_step bo (CallComplete slot st now m) c = (None, snd (complete bo slot st now m c))"
| "cp_step bo (CallReject slot now) c = (None, snd (reject_busy bo slot now c))"
| "cp_step bo (CallLock b) c = (None, c\<lparr>cp_lock := b\<rparr>)"

fun handed_to_shell :: "'d btp_ops \<Rightarrow> cp_call list \<Rightarrow> ('d, 'w, 's) processor \<Rightarrow> dedup_key list" where
  "handed_to_shell bo [] c = []"
| "handed_to_shell bo (call # calls) c =
     (case cp_step bo call c of
        (None, c') \<Rightarrow> handed_to_shell bo calls c'
      | (Some key, c') \<Rightarrow> key # handed_to_shell bo calls c')"

lemma cp_step_seen:
  assumes grows: "cache_grows bo seen" and "cp_step bo call c = (r, c')"
  shows "seen (cp_dedup c) \<subseteq> seen (cp_dedup c') \<and>
    (\<forall>key. r = Some key \<longrightarrow> key \<notin> seen (cp_dedup c) \<and> key \<in> seen (cp_dedup c'))"
proof (cases call)
  case (CallIntake h payload now ch)
  obtain res c1 where i: "intake bo h payload now ch c = (res, c1)" by fastforce
  have "seen (cp_dedup c) \<subseteq> seen (cp_dedup c1)" by (rule intake_seen [OF grows i])
  moreover have "key_of_header h \<notin> seen (cp_dedup c) \<and> key_of_header h \<in> seen (cp_dedup c1)"
    if "res = Ready s cmd" for s cmd
    using intake_ready [OF i [unfolded that]] grows unfolding cache_grows_def by blast
  ultimately show ?thesis
    using assms(2) i by (auto simp: CallIntake split: intake_result.splits)
next
  case (CallComplete slot st now m)
  then show ?thesis
    using assms(2)
    by (auto simp: complete_def Let_def split: option.splits prod.splits if_splits
        dest: finish_seen [OF grows, THEN subsetD])
next
  case (CallReject slot now)
  obtain r' c1 where f: "reject_busy bo slot now c = (r', c1)" by fastforce
  have "seen (cp_dedup c) \<subseteq> seen (cp_dedup c1)"
    using f finish_seen [OF grows, of "unat slot" Busy EC_CapacityExhausted _ now
        "c\<lparr>cp_rejected := cp_rejected c + 1\<rparr>" r' c1]
    by (auto simp: reject_busy_def split: if_splits)
  then show ?thesis using CallReject assms(2) f by simp
next
  case (CallLock b)
  then show ?thesis using assms(2) by auto
qed

lemma handed_fresh:
  assumes "cache_grows bo seen"
  shows "distinct (handed_to_shell bo calls c) \<and>
    set (handed_to_shell bo calls c) \<inter> seen (cp_dedup c) = {}"
proof (induction calls arbitrary: c)
  case Nil
  then show ?case by simp
next
  case (Cons call calls)
  obtain r c' where s: "cp_step bo call c = (r, c')" by fastforce
  show ?case
    using cp_step_seen [OF assms s] Cons.IH [of c'] s by (cases r) auto
qed


text \<open>Only a well-formed command request gets to the shell: it is a COMMAND_REQUEST with non-zero
  identities, addressed to this robot in this boot, and its text is one command of 1 to 512 octets
  without NUL, line end or other control character except tabs.\<close>

theorem shell_gets_valid_commands:
  assumes "intake bo h payload now ch c = (Ready s cmd, c')"
  shows "\<exists>ep request. cp_endpoint c = Some ep \<and> \<not> cp_lock c \<and>
    mh_type h = MtCommand \<and> mh_object_id h = kCommandRequestObjectId \<and>
    mh_source_id h \<noteq> 0 \<and> mh_boot_id h \<noteq> 0 \<and> mh_sequence h \<noteq> 0 \<and>
    bo_decode bo payload = Inr request \<and>
    cr_target_source_id request = ce_source_id ep (cp_world c) \<and>
    cr_target_boot_id request = ce_boot_id ep (cp_world c) \<and>
    cr_action_id request = kShellActionId \<and> cr_parameters request = View cmd \<and>
    cmd \<noteq> [] \<and> length cmd \<le> 512 \<and>
    (\<forall>b \<in> set cmd. b \<noteq> 0 \<and> b \<noteq> 10 \<and> b \<noteq> 13 \<and> b \<noteq> 0x7F \<and> (b \<ge> 0x20 \<or> b = 9))"
proof -
  obtain ep bs request where r: "\<not> cp_lock c" "cp_endpoint c = Some ep" "payload = View bs"
      "well_formed h bs"
      "parse_request (bo_decode bo) h (View bs) (ce_source_id ep (cp_world c)) (ce_boot_id ep (cp_world c)) =
        Inr request"
      "copy_shell_command request (Some (kMaxShellCommandSize + 1)) = Inr cmd"
    using intake_ready [OF assms] by blast
  have "\<forall>b \<in> set cmd. b \<noteq> 0 \<and> b \<noteq> 10 \<and> b \<noteq> 13 \<and> b \<noteq> 0x7F \<and> (b \<ge> 0x20 \<or> b = 9)"
    using copy_shell_command_ok(4) [OF r(6)] by (auto simp: forbidden_byte_def not_less)
  then show ?thesis
    using r parse_request_ok [OF r(5)] copy_shell_command_ok(1,2,3,5) [OF r(6)]
    by (auto simp: well_formed_def kMaxShellCommandSize_def)
qed

text \<open>C15: A reply is repeated octet for octet: what \<open>complete\<close> hands out and records is, when the
  library later gives the record back for a repeated request, the same sequence number, time stamp
  and payload; only the channel is that of the repetition.\<close>

theorem replay_is_identical:
  assumes "\<And>r n bs. bo_encode bo r n = Some bs \<Longrightarrow> length bs \<le> n"
    and "complete bo slot st now m c = (Some v, c')"
  shows "\<exists>stored. bo_record bo (unat slot) stored (cp_dedup c) = (True, cp_dedup c') \<and>
    (\<forall>h bs now' ch c2 d2. well_formed h bs \<longrightarrow> \<not> cp_lock c2 \<longrightarrow> cp_endpoint c2 \<noteq> None \<longrightarrow>
       bo_classify bo (key_of_header h) bs (cp_dedup c2) = (DuplicateComplete (View stored), d2) \<longrightarrow>
       fst (intake bo h (View bs) now' ch c2) = ResultReady (v\<lparr>rv_channel := ch\<rparr>))"
proof -
  let ?st = "if st = 0 then Success else Failed" and ?ec = "if st = 0 then EC_None else EC_InternalError"
  let ?msg = "if st = 0 then (case m of None \<Rightarrow> [] | Some t \<Rightarrow> t) else ''shell command failed''"
  obtain r c1 where f0: "finish bo (unat slot) ?st ?ec ?msg now c = (r, c1)" by fastforce
  have "r = Some v \<and> cp_dedup c1 = cp_dedup c'"
    using assms(2) unfolding complete_def Let_def f0 by (auto split: if_splits option.splits)
  then have f: "finish bo (unat slot) ?st ?ec ?msg now c = (Some v, c1)"
    and c1: "cp_dedup c1 = cp_dedup c'" using f0 by simp_all
  obtain sequence payload where
    e: "encode_result bo (me_key (cp_meta c ! unat slot)) (me_action_id (cp_meta c ! unat slot))
       (me_action_version (cp_meta c ! unat slot)) ?st ?ec ?msg kMaxResultPayloadSize = Some payload"
    and v: "v = \<lparr>rv_sequence = sequence, rv_timestamp_us = now, rv_payload = View payload,
       rv_channel = me_channel (cp_meta c ! unat slot)\<rparr>"
    and r: "bo_record bo (unat slot) (packed_result sequence now payload) (cp_dedup c) = (True, cp_dedup c1)"
    by (rule finish_some [OF f])
  have "length payload \<le> kMaxResultPayloadSize"
    using assms(1) e unfolding encode_result_def by blast
  note replay = replay_packed [OF this, of sequence now]
  show ?thesis
    using r c1 replay
    by (intro exI [of _ "packed_result sequence now payload"])
      (auto simp: intake_def well_formed_def Let_def v not_less)
qed

text \<open>C16: A reply is sealed for the channel its request came on or not sent at all: once either key
  is configured, a reply over the radio is handed to the endpoint only with the sealer of its own
  channel, and if that one is missing nothing is handed over and the loss is counted.\<close>

theorem reply_fails_closed:
  assumes "cp_seal_link c \<noteq> None \<or> cp_seal_endpoint c \<noteq> None"
  shows "(let own = (if rv_channel v = B_Endpoint then cp_seal_endpoint c else cp_seal_link c) in
     (own = None \<longrightarrow> send_result_via espnow_max v endpoint False c = (False, note_drop c)) \<and>
     (\<forall>c'. send_result_via espnow_max v endpoint False c = (True, c') \<longrightarrow>
        (\<exists>ep payload key. endpoint = Some ep \<and> rv_payload v = View payload \<and> own = Some key \<and>
           length payload \<le> espnow_max \<and>
           ce_send ep kCommandResultObjectId (rv_sequence v) (rv_timestamp_us v) payload (Some key)
             (cp_world c) = (True, cp_world c'))))"
  using assms
  by (auto simp: send_result_via_def Let_def split: option.splits byte_view.splits if_splits prod.splits bool.splits)

text \<open>A remote command with a long output is never answered: the encoder cannot put a message
  that is longer than the 128 octets of a result into one, so \<open>complete\<close> reports failure, records
  nothing, and every repetition of the request is told that it is still in progress.\<close>

theorem long_output_never_answered:
  assumes "\<And>r n bs. bo_encode bo r n = Some bs \<Longrightarrow> length (co_message r) \<le> length bs \<and> length bs \<le> n"
    and "length output > kMaxResultPayloadSize"
  shows "fst (complete bo slot 0 now (Some output) c) = None \<and>
    cp_dedup (snd (complete bo slot 0 now (Some output) c)) = cp_dedup c \<and>
    (\<forall>h bs now' ch d2. well_formed h bs \<longrightarrow> \<not> cp_lock c \<longrightarrow> cp_endpoint c \<noteq> None \<longrightarrow>
       bo_classify bo (key_of_header h) bs (cp_dedup c) = (DuplicateInFlight, d2) \<longrightarrow>
       fst (intake bo h (View bs) now' ch (snd (complete bo slot 0 now (Some output) c))) =
         DuplicateInProgress)"
proof -
  have no: "encode_result bo key a v st ec output kMaxResultPayloadSize = None" for key a v st ec
  proof (rule ccontr)
    assume "encode_result bo key a v st ec output kMaxResultPayloadSize \<noteq> None"
    then obtain bs where "encode_result bo key a v st ec output kMaxResultPayloadSize = Some bs" by blast
    then have "length output \<le> length bs \<and> length bs \<le> kMaxResultPayloadSize"
      using assms(1) unfolding encode_result_def by force
    with assms(2) show False by simp
  qed
  have enc: "fst (reserve_and_encode bo ep key a v st ec output c) = None" for ep key a v st ec
    by (simp add: reserve_and_encode_def no split: option.split prod.split)
  obtain r c1 where f: "finish bo (unat slot) Success EC_None output now c = (r, c1)" by fastforce
  have "r = None \<and> cp_dedup c1 = cp_dedup c \<and> cp_lock c1 = cp_lock c \<and> cp_endpoint c1 = cp_endpoint c"
    using f enc unfolding finish_def Let_def
    by (auto split: option.splits if_splits prod.splits dest: reserve_and_encode_frame)
      (metis enc fst_conv option.distinct(1))+
  then have out: "fst (complete bo slot 0 now (Some output) c) = None"
      "cp_dedup (snd (complete bo slot 0 now (Some output) c)) = cp_dedup c"
      "cp_lock (snd (complete bo slot 0 now (Some output) c)) = cp_lock c"
      "cp_endpoint (snd (complete bo slot 0 now (Some output) c)) = cp_endpoint c"
    by (simp_all add: complete_def Let_def f)
  show ?thesis
    by (auto simp: intake_def well_formed_def Let_def not_less out)
qed

section \<open>Witnesses on a small library\<close>

text \<open>A cache that only remembers identities, and a codec with room for the message alone.\<close>

definition demo_btp :: "dedup_key list btp_ops" where
  "demo_btp = \<lparr>bo_decode = (\<lambda>_. Inr \<lparr>cr_target_source_id = 5, cr_target_boot_id = 6, cr_action_id = 1,
       cr_action_version = 1, cr_parameters = View [104, 105]\<rparr>),
     bo_encode = (\<lambda>r n. if length (co_message r) \<le> n then Some (map of_char (co_message r)) else None),
     bo_classify = (\<lambda>key bs d. if key \<in> set d then (DuplicateInFlight, d) else (Fresh 0, key # d)),
     bo_record = (\<lambda>slot bs d. (True, d))\<rparr>"

definition demo_endpoint :: "(u32, string) command_endpoint" where
  "demo_endpoint = \<lparr>ce_source_id = (\<lambda>_. 5), ce_boot_id = (\<lambda>_. 6), ce_reserve = (\<lambda>w. (Some w, w + 1)),
     ce_send = (\<lambda>oid sequence ts payload seal w. (True, w))\<rparr>"

definition demo_processor :: "(dedup_key list, u32, string) processor" where
  "demo_processor = cp_configure demo_endpoint (Some ''L'') None (new_processor [] 1)"

definition demo_header :: msg_header where
  "demo_header = \<lparr>mh_type = MtCommand, mh_flags = 0, mh_object_id = 1, mh_source_id = 9, mh_boot_id = 3,
     mh_sequence = 4, mh_fragment_index = 0, mh_fragment_count = 1\<rparr>"

lemmas demo_cp_simps = demo_btp_def demo_endpoint_def demo_processor_def demo_header_def
  cp_configure_def new_processor_def

lemma demo_intake:
  "fst (intake demo_btp demo_header (View [1]) 10 C_Link demo_processor) = Ready 0 [104, 105]"
  by (simp add: demo_cp_simps intake_def intake_fresh_def Let_def kCommandRequestObjectId_def
      kMaxLogicalRequestSize_def kRequestPrefixSize_def kMaxShellCommandSize_def parse_request_def
      copy_shell_command_def kShellActionId_def kShellActionVersion_def kPingActionId_def
      forbidden_byte_def)

lemma demo_encode: "bo_encode demo_btp r n = Some bs \<Longrightarrow> length (co_message r) = length bs \<and> length bs \<le> n"
  by (auto simp: demo_btp_def split: if_splits)


lemma shell_gets_valid_commands_witness:
  "\<exists>request. bo_decode demo_btp (View [1]) = Inr request \<and> cr_target_source_id request = 5 \<and>
     cr_parameters request = View [104, 105]"
proof -
  obtain c' where i: "intake demo_btp demo_header (View [1]) 10 C_Link demo_processor = (Ready 0 [104, 105], c')"
    using demo_intake by (metis prod.collapse)
  have "cp_endpoint demo_processor = Some demo_endpoint" "ce_source_id demo_endpoint w = 5" for w
    by (simp_all add: demo_cp_simps)
  with shell_gets_valid_commands [OF i] show ?thesis by auto
qed

lemma replay_is_identical_witness:
  "\<exists>v c' stored. complete demo_btp 0 0 50 (Some ''done'') demo_processor = (Some v, c') \<and>
     bo_record demo_btp 0 stored [] = (True, cp_dedup c')"
proof -
  obtain v c' where c: "complete demo_btp 0 0 50 (Some ''done'') demo_processor = (Some v, c')"
    by (simp add: demo_cp_simps complete_def finish_def reserve_and_encode_def encode_result_def
        kCacheCapacity_def kMaxResultPayloadSize_def Let_def)
  have enc: "length bs \<le> n" if "bo_encode demo_btp r n = Some bs" for r n bs
    using demo_encode [OF that] by blast
  have "\<exists>stored. bo_record demo_btp (unat (0 :: u8)) stored (cp_dedup demo_processor) = (True, cp_dedup c')"
    by (rule exE [OF replay_is_identical [OF _ c]], erule enc, blast)
  moreover have "cp_dedup demo_processor = []" by (simp add: demo_cp_simps)
  ultimately show ?thesis using c by auto
qed

lemma reply_fails_closed_witness:
  "send_result_via 232 \<lparr>rv_sequence = 1, rv_timestamp_us = 2, rv_payload = View [7], rv_channel = B_Endpoint\<rparr>
     (Some demo_endpoint) False demo_processor = (False, note_drop demo_processor)"
proof -
  have "cp_seal_link demo_processor \<noteq> None \<or> cp_seal_endpoint demo_processor \<noteq> None"
    and "cp_seal_endpoint demo_processor = None"
    by (simp_all add: demo_cp_simps)
  with reply_fails_closed [of demo_processor "\<lparr>rv_sequence = 1, rv_timestamp_us = 2,
      rv_payload = View [7], rv_channel = B_Endpoint\<rparr>" 232 "Some demo_endpoint"]
  show ?thesis by simp
qed

lemma long_output_never_answered_witness:
  "fst (complete demo_btp 0 0 50 (Some (replicate 200 CHR 0x41)) demo_processor) = None"
proof -
  have enc: "\<And>r n bs. bo_encode demo_btp r n = Some bs \<Longrightarrow> length (co_message r) \<le> length bs \<and> length bs \<le> n"
    using demo_encode by fastforce
  have "kMaxResultPayloadSize < length (replicate 200 CHR 0x41)" by (simp add: kMaxResultPayloadSize_def)
  from long_output_never_answered [OF enc this] show ?thesis by blast
qed

end
