(* ===== verification/SD_Card.thy ===== *)
theory SD_Card
  imports Prelude
begin

text \<open>
  \<^verbatim>\<open>lib/SDCard/\<close>: paths, whole-file and sequential file access, and the repair of the disk
  signature of the card.

  The C file functions act on a \<open>disk\<close>: the contents of the files by full path, the free room in
  octets (a write that does not fit is short) and whether the card has failed (every call on it
  then fails).  Contents are lists of characters.  The locale \<open>text_store\<close> is what the
  clients that keep a text file on the card rely on.
\<close>

section \<open>The disk\<close>

record disk =
  dk_files :: "string \<Rightarrow> string option"
  dk_room :: nat
  dk_fault :: bool

definition file_size :: "disk \<Rightarrow> string \<Rightarrow> nat" where
  "file_size d p = (case dk_files d p of None \<Rightarrow> 0 | Some t \<Rightarrow> length t)"

text \<open>\<open>fopen\<close> for writing truncates, for appending creates, for reading needs the file.\<close>

definition fopen_write :: "string \<Rightarrow> disk \<Rightarrow> disk option" where
  "fopen_write p d = (if dk_fault d then None
     else Some (d\<lparr>dk_files := (dk_files d)(p := Some []), dk_room := dk_room d + file_size d p\<rparr>))"

definition fopen_append :: "string \<Rightarrow> disk \<Rightarrow> disk option" where
  "fopen_append p d = (if dk_fault d then None
     else Some (case dk_files d p of None \<Rightarrow> d\<lparr>dk_files := (dk_files d)(p := Some [])\<rparr> | Some _ \<Rightarrow> d))"

definition fwrite :: "string \<Rightarrow> string \<Rightarrow> disk \<Rightarrow> nat \<times> disk" where
  "fwrite p bs d =
     (case dk_files d p of
        None \<Rightarrow> (0, d)
      | Some t \<Rightarrow>
          if dk_fault d then (0, d)
          else let n = min (length bs) (dk_room d)
            in (n, d\<lparr>dk_files := (dk_files d)(p := Some (t @ take n bs)), dk_room := dk_room d - n\<rparr>))"

section \<open>State and paths\<close>

definition MAX_PATH_LENGTH :: nat where "MAX_PATH_LENGTH = 256"

text \<open>The open stream: its path, whether it was opened for writing, and the read position.\<close>

record sd_card =
  sd_mounted :: bool
  sd_mount_point :: string
  sd_stream :: "(string \<times> bool \<times> nat) option"
  sd_disk :: disk

definition is_mounted :: "sd_card \<Rightarrow> bool" where "is_mounted c = sd_mounted c"

definition set_app_mounted :: "bool \<Rightarrow> sd_card \<Rightarrow> sd_card" where
  "set_app_mounted b c = c\<lparr>sd_mounted := b\<rparr>"

definition make_path :: "string option \<Rightarrow> nat \<Rightarrow> sd_card \<Rightarrow> string option" where
  "make_path path capacity c =
     (case path of
        None \<Rightarrow> None
      | Some p \<Rightarrow>
          if \<not> sd_mounted c \<or> p = [] \<or> capacity = 0 then None
          else
            let m = sd_mount_point c; n = length m;
                full = (if take n p = m \<and> (length p = n \<or> p ! n = CHR ''/'') then p
                        else if p ! 0 = CHR ''/'' then m @ p
                        else m @ ''/'' @ p)
            in if full \<noteq> [] \<and> length full < capacity then Some full else None)"

section \<open>Whole files\<close>

definition create_file :: "string option \<Rightarrow> sd_card \<Rightarrow> bool \<times> sd_card" where
  "create_file path c =
     (case make_path path MAX_PATH_LENGTH c of
        None \<Rightarrow> (False, c)
      | Some p \<Rightarrow>
          (case fopen_append p (sd_disk c) of
             None \<Rightarrow> (False, c)
           | Some d \<Rightarrow> (\<not> dk_fault d, c\<lparr>sd_disk := d\<rparr>)))"

text \<open>Writing what was opened, then flushing and closing; \<open>None\<close> is a null buffer.\<close>

definition write_opened :: "string \<Rightarrow> string \<Rightarrow> disk \<Rightarrow> bool \<times> disk" where
  "write_opened p bs d =
     (case (if bs = [] then (0, d) else fwrite p bs d) of (n, d') \<Rightarrow>
        (n = length bs \<and> \<not> dk_fault d', d'))"

definition write_file :: "string option \<Rightarrow> string option \<Rightarrow> nat \<Rightarrow> sd_card \<Rightarrow> bool \<times> sd_card" where
  "write_file path data len c =
     (if data = None \<and> len > 0 then (False, c)
      else case make_path path MAX_PATH_LENGTH c of
        None \<Rightarrow> (False, c)
      | Some p \<Rightarrow>
          (case fopen_write p (sd_disk c) of
             None \<Rightarrow> (False, c)
           | Some d \<Rightarrow>
               (case write_opened p (take len (case data of None \<Rightarrow> [] | Some t \<Rightarrow> t)) d of (ok, d') \<Rightarrow>
                  (ok, c\<lparr>sd_disk := d'\<rparr>))))"

definition append_file :: "string option \<Rightarrow> string option \<Rightarrow> nat \<Rightarrow> sd_card \<Rightarrow> bool \<times> sd_card" where
  "append_file path data len c =
     (if data = None \<and> len > 0 then (False, c)
      else case make_path path MAX_PATH_LENGTH c of
        None \<Rightarrow> (False, c)
      | Some p \<Rightarrow>
          (case fopen_append p (sd_disk c) of
             None \<Rightarrow> (False, c)
           | Some d \<Rightarrow>
               (case write_opened p (take len (case data of None \<Rightarrow> [] | Some t \<Rightarrow> t)) d of (ok, d') \<Rightarrow>
                  (ok, c\<lparr>sd_disk := d'\<rparr>))))"

text \<open>The buffer's capacity; the answer is the octets read.\<close>

definition read_file :: "string option \<Rightarrow> nat \<Rightarrow> sd_card \<Rightarrow> string option" where
  "read_file path capacity c =
     (if capacity = 0 then None
      else case make_path path MAX_PATH_LENGTH c of
        None \<Rightarrow> None
      | Some p \<Rightarrow>
          if dk_fault (sd_disk c) then None
          else (case dk_files (sd_disk c) p of None \<Rightarrow> None | Some t \<Rightarrow> Some (take capacity t)))"

definition remove_file :: "string option \<Rightarrow> sd_card \<Rightarrow> bool \<times> sd_card" where
  "remove_file path c =
     (case make_path path MAX_PATH_LENGTH c of
        None \<Rightarrow> (False, c)
      | Some p \<Rightarrow>
          if dk_fault (sd_disk c) \<or> dk_files (sd_disk c) p = None then (False, c)
          else (True, c\<lparr>sd_disk := (sd_disk c)\<lparr>dk_files := (dk_files (sd_disk c))(p := None),
                  dk_room := dk_room (sd_disk c) + file_size (sd_disk c) p\<rparr>\<rparr>))"

definition file_exists :: "string option \<Rightarrow> sd_card \<Rightarrow> bool" where
  "file_exists path c =
     (case make_path path MAX_PATH_LENGTH c of
        None \<Rightarrow> False
      | Some p \<Rightarrow> \<not> dk_fault (sd_disk c) \<and> dk_files (sd_disk c) p \<noteq> None)"

text \<open>What \<open>rename\<close> does when the new name is taken is up to the filesystem: \<open>replaces\<close>.\<close>

definition rename_on_disk :: "bool \<Rightarrow> string \<Rightarrow> string \<Rightarrow> disk \<Rightarrow> disk option" where
  "rename_on_disk replaces p q d =
     (case dk_files d p of
        None \<Rightarrow> None
      | Some t \<Rightarrow>
          if dk_fault d \<or> (dk_files d q \<noteq> None \<and> \<not> replaces) then None
          else if p = q then Some d
          else Some (d\<lparr>dk_files := (dk_files d)(p := None, q := Some t), dk_room := dk_room d + file_size d q\<rparr>))"

definition rename_file :: "bool \<Rightarrow> string option \<Rightarrow> string option \<Rightarrow> sd_card \<Rightarrow> bool \<times> sd_card" where
  "rename_file replaces current new c =
     (case (make_path current MAX_PATH_LENGTH c, make_path new MAX_PATH_LENGTH c) of
        (Some p, Some q) \<Rightarrow>
          (case rename_on_disk replaces p q (sd_disk c) of
             None \<Rightarrow> (False, c)
           | Some d \<Rightarrow> (True, c\<lparr>sd_disk := d\<rparr>))
      | _ \<Rightarrow> (False, c))"

section \<open>Listing the root directory\<close>

text \<open>\<open>readdir\<close> gives the names of the entries of the root in some order; an entry whose full
  path does not name a regular file is passed over.  \<open>None\<close> is a directory that does not open.\<close>

definition MAX_NAME_LENGTH :: nat where "MAX_NAME_LENGTH = 128"

record sd_file_info =
  fi_name :: string
  fi_size :: u64

definition is_regular :: "sd_card \<Rightarrow> string \<Rightarrow> bool" where
  "is_regular c name = file_exists (Some name) c"

fun count_entries :: "sd_card \<Rightarrow> string list \<Rightarrow> u16 \<Rightarrow> u16" where
  "count_entries c [] count = count"
| "count_entries c (e # es) count =
     (if \<not> is_regular c e then count_entries c es count
      else count_entries c es (if count < 0xFFFF then count + 1 else count))"

definition get_file_count :: "string list option \<Rightarrow> sd_card \<Rightarrow> u16" where
  "get_file_count dir c =
     (if \<not> sd_mounted c then 0 else case dir of None \<Rightarrow> 0 | Some es \<Rightarrow> count_entries c es 0)"

fun find_entry :: "sd_card \<Rightarrow> u16 \<Rightarrow> string list \<Rightarrow> u16 \<Rightarrow> string option" where
  "find_entry c index [] current = None"
| "find_entry c index (e # es) current =
     (if \<not> is_regular c e then find_entry c index es current
      else if current \<noteq> index then find_entry c index es (current + 1)
      else Some e)"

text \<open>On failure the record holds whatever name was copied, so only success yields it.\<close>

definition get_file_info :: "string list option \<Rightarrow> u16 \<Rightarrow> sd_card \<Rightarrow> sd_file_info option" where
  "get_file_info dir index c =
     (if \<not> sd_mounted c then None
      else case dir of
        None \<Rightarrow> None
      | Some es \<Rightarrow>
          (case find_entry c index es 0 of
             None \<Rightarrow> None
           | Some e \<Rightarrow>
               if e \<noteq> [] \<and> length e < MAX_NAME_LENGTH
               then Some \<lparr>fi_name = e,
                 fi_size = of_nat (file_size (sd_disk c) (case make_path (Some e) MAX_PATH_LENGTH c of
                                     None \<Rightarrow> [] | Some p \<Rightarrow> p))\<rparr>
               else None))"

text \<open>\<open>esp_vfs_fat_info\<close>: total and free octets, when the volume answers.\<close>

definition get_storage_info :: "(u64 \<times> u64) option \<Rightarrow> sd_card \<Rightarrow> (u64 \<times> u64 \<times> u64) option" where
  "get_storage_info fat c =
     (if \<not> sd_mounted c then None
      else case fat of None \<Rightarrow> None | Some (tot, free) \<Rightarrow> Some (tot, tot - free, free))"

text \<open>Every index below the count names the file at that place of the listing.\<close>

lemma count_entries_eq:
  "unat count + length (filter (is_regular c) es) \<le> 65535 \<Longrightarrow>
   unat (count_entries c es count) = unat count + length (filter (is_regular c) es)"
proof (induction es arbitrary: count)
  case (Cons e es)
  show ?case
  proof (cases "is_regular c e")
    case True
    then have lt: "unat count < 65535" using Cons.prems by simp
    then have "count < 0xFFFF" by (simp add: word_less_nat_alt)
    moreover have "unat (count + 1) = unat count + 1"
      using lt unat_add_no_wrap [of count 1] by simp
    ultimately show ?thesis using Cons True by simp
  qed (use Cons in simp)
qed simp

lemma find_entry_eq:
  "unat current + n = unat index \<Longrightarrow> n < length (filter (is_regular c) es) \<Longrightarrow>
   find_entry c index es current = Some (filter (is_regular c) es ! n)"
proof (induction es arbitrary: current n)
  case (Cons e es)
  show ?case
  proof (cases "is_regular c e \<and> n \<noteq> 0")
    case True
    have "unat index < 65536" using unsigned_less [of index, where 'a = nat] by simp
    then have "unat (current + 1) = unat current + 1"
      using Cons.prems(1) True unat_add_no_wrap [of current 1] by simp
    moreover have "current \<noteq> index" using Cons.prems(1) True by auto
    ultimately show ?thesis
      using Cons.IH [of "current + 1" "n - 1"] Cons.prems True by (cases n) auto
  next
    case False
    then show ?thesis using Cons.IH [of current n] Cons.prems by (auto simp: word_unat_eq_iff)
  qed
qed simp

lemma listing_complete:
  assumes "sd_mounted c" and "length (filter (is_regular c) es) \<le> 65535"
  shows "unat (get_file_count (Some es) c) = length (filter (is_regular c) es) \<and>
    (\<forall>i < length (filter (is_regular c) es).
       length (filter (is_regular c) es ! i) < MAX_NAME_LENGTH \<longrightarrow>
       (\<exists>info. get_file_info (Some es) (of_nat i) c = Some info \<and>
          fi_name info = filter (is_regular c) es ! i))"
proof (intro conjI allI impI)
  show "unat (get_file_count (Some es) c) = length (filter (is_regular c) es)"
    using count_entries_eq [of 0 c es] assms by (simp add: get_file_count_def)
next
  fix i
  assume i: "i < length (filter (is_regular c) es)"
    and short: "length (filter (is_regular c) es ! i) < MAX_NAME_LENGTH"
  have "filter (is_regular c) es ! i \<noteq> []"
  proof -
    have "is_regular c (filter (is_regular c) es ! i)" using nth_mem [OF i] by simp
    then show ?thesis
      by (cases "filter (is_regular c) es ! i") (auto simp: is_regular_def file_exists_def make_path_def)
  qed
  moreover have "unat (of_nat i :: u16) = i"
    using i assms(2) by (simp add: unat_of_nat take_bit_nat_eq_self)
  ultimately show "\<exists>info. get_file_info (Some es) (of_nat i) c = Some info \<and>
          fi_name info = filter (is_regular c) es ! i"
    using find_entry_eq [of 0 i "of_nat i" c es] i short assms(1) by (simp add: get_file_info_def)
qed

section \<open>Streams\<close>

definition open_write_stream :: "string option \<Rightarrow> bool \<Rightarrow> sd_card \<Rightarrow> bool \<times> sd_card" where
  "open_write_stream path appending c =
     (if sd_stream c \<noteq> None then (False, c)
      else case make_path path MAX_PATH_LENGTH c of
        None \<Rightarrow> (False, c)
      | Some p \<Rightarrow>
          (case (if appending then fopen_append p (sd_disk c) else fopen_write p (sd_disk c)) of
             None \<Rightarrow> (False, c)
           | Some d \<Rightarrow> (True, c\<lparr>sd_stream := Some (p, True, 0), sd_disk := d\<rparr>)))"

definition open_read_stream :: "string option \<Rightarrow> sd_card \<Rightarrow> bool \<times> sd_card" where
  "open_read_stream path c =
     (if sd_stream c \<noteq> None then (False, c)
      else case make_path path MAX_PATH_LENGTH c of
        None \<Rightarrow> (False, c)
      | Some p \<Rightarrow>
          if dk_fault (sd_disk c) \<or> dk_files (sd_disk c) p = None then (False, c)
          else (True, c\<lparr>sd_stream := Some (p, False, 0)\<rparr>))"

definition write_stream :: "string option \<Rightarrow> nat \<Rightarrow> sd_card \<Rightarrow> bool \<times> sd_card" where
  "write_stream data len c =
     (case sd_stream c of
        None \<Rightarrow> (False, c)
      | Some (p, writable, pos) \<Rightarrow>
          if \<not> writable \<or> (data = None \<and> len > 0) then (False, c)
          else if len = 0 then (True, c)
          else (case fwrite p (take len (the data)) (sd_disk c) of (n, d) \<Rightarrow>
                  (n = len, c\<lparr>sd_disk := d\<rparr>)))"

definition read_stream :: "nat \<Rightarrow> sd_card \<Rightarrow> string \<times> sd_card" where
  "read_stream capacity c =
     (case sd_stream c of
        None \<Rightarrow> ([], c)
      | Some (p, writable, pos) \<Rightarrow>
          if writable \<or> capacity = 0 \<or> dk_fault (sd_disk c) then ([], c)
          else let bs = take capacity (drop pos (case dk_files (sd_disk c) p of None \<Rightarrow> [] | Some t \<Rightarrow> t))
            in (bs, c\<lparr>sd_stream := Some (p, writable, pos + length bs)\<rparr>))"

definition close_stream :: "sd_card \<Rightarrow> bool \<times> sd_card" where
  "close_stream c =
     (case sd_stream c of
        None \<Rightarrow> (True, c)
      | Some _ \<Rightarrow> (\<not> dk_fault (sd_disk c), c\<lparr>sd_stream := None\<rparr>))"

section \<open>The disk signature\<close>

definition MBR_DISK_SIGNATURE_OFFSET :: nat where "MBR_DISK_SIGNATURE_OFFSET = 440"
definition MBR_PARTITION_TABLE_OFFSET :: nat where "MBR_PARTITION_TABLE_OFFSET = 446"
definition MBR_PARTITION_ENTRY_SIZE :: nat where "MBR_PARTITION_ENTRY_SIZE = 16"
definition MBR_SIGNATURE_OFFSET :: nat where "MBR_SIGNATURE_OFFSET = 510"
definition SD_SECTOR_SIZE :: nat where "SD_SECTOR_SIZE = 512"

definition sd_read_u32_le :: "nat \<Rightarrow> bytes \<Rightarrow> u32" where
  "sd_read_u32_le i bs = or (or (or (ucast (bs ! i)) (push_bit 8 (ucast (bs ! (i + 1)))))
     (push_bit 16 (ucast (bs ! (i + 2))))) (push_bit 24 (ucast (bs ! (i + 3))))"

definition sd_write_u32_le :: "nat \<Rightarrow> u32 \<Rightarrow> bytes \<Rightarrow> bytes" where
  "sd_write_u32_le i v bs = bs[i := ucast v, i + 1 := ucast (drop_bit 8 v),
     i + 2 := ucast (drop_bit 16 v), i + 3 := ucast (drop_bit 24 v)]"

text \<open>The fields of the card register the signature is made from.\<close>

record card_identity =
  ci_serial :: u32
  ci_mfg_id :: u32
  ci_oem_id :: u32
  ci_date :: u32
  ci_capacity :: u32

definition make_disk_signature :: "card_identity \<Rightarrow> u32" where
  "make_disk_signature k =
     (let s0 = xor (xor (xor (xor (xor (ci_serial k) (push_bit 24 (ci_mfg_id k)))
            (push_bit 8 (ci_oem_id k))) (ci_date k * 0x45D9F3B)) (ci_capacity k)) 0x42414C4C;
          s1 = xor s0 (drop_bit 16 s0);
          s2 = s1 * 0x7FEB352D;
          s3 = xor s2 (drop_bit 15 s2)
      in if s3 = 0 \<or> s3 = 0xFFFFFFFF then 0x42414C4C else s3)"

text \<open>The scan of the four partition entries: \<open>None\<close> for a GPT disk.\<close>

fun partition_scan :: "u32 \<Rightarrow> bytes \<Rightarrow> nat list \<Rightarrow> bool option" where
  "partition_scan capacity sector [] = Some False"
| "partition_scan capacity sector (i # is) =
     (let e = MBR_PARTITION_TABLE_OFFSET + i * MBR_PARTITION_ENTRY_SIZE;
          boot_indicator = sector ! e; ptype = sector ! (e + 4);
          first_sector = sd_read_u32_le (e + 8) sector; sector_count = sd_read_u32_le (e + 12) sector;
          end_sector = (ucast first_sector :: u64) + ucast sector_count
      in if ptype = 0xEE then None
         else if (boot_indicator = 0 \<or> boot_indicator = 0x80) \<and> ptype \<noteq> 0 \<and> first_sector \<noteq> 0 \<and>
           sector_count \<noteq> 0 \<and> end_sector \<le> ucast capacity then Some True
         else partition_scan capacity sector is)"

definition repaired_mbr :: "card_identity \<Rightarrow> bytes \<Rightarrow> bytes option" where
  "repaired_mbr k sector =
     (if sector ! MBR_SIGNATURE_OFFSET \<noteq> 0x55 \<or> sector ! (MBR_SIGNATURE_OFFSET + 1) \<noteq> 0xAA then None
      else case partition_scan (ci_capacity k) sector [0..<4] of
        None \<Rightarrow> None
      | Some has_partition \<Rightarrow>
          if \<not> has_partition \<or> sd_read_u32_le MBR_DISK_SIGNATURE_OFFSET sector \<noteq> 0 then None
          else Some (sd_write_u32_le MBR_DISK_SIGNATURE_OFFSET (make_disk_signature k) sector))"

text \<open>\<open>ensure_mbr_signature\<close> over the sector calls of the driver on the world \<open>'w\<close>.\<close>

definition ensure_mbr_signature ::
    "('w \<Rightarrow> bytes option) \<Rightarrow> (bytes \<Rightarrow> 'w \<Rightarrow> bool \<times> 'w) \<Rightarrow> card_identity \<Rightarrow> 'w \<Rightarrow> bool \<times> 'w" where
  "ensure_mbr_signature read_sector write_sector k w =
     (case read_sector w of
        None \<Rightarrow> (False, w)
      | Some sector \<Rightarrow>
          (case repaired_mbr k sector of
             None \<Rightarrow> (True, w)
           | Some sector' \<Rightarrow>
               (case write_sector sector' w of
                  (False, w') \<Rightarrow> (False, w')
                | (True, w') \<Rightarrow>
                    (case read_sector w' of
                       None \<Rightarrow> (False, w')
                     | Some back \<Rightarrow>
                         (sd_read_u32_le MBR_DISK_SIGNATURE_OFFSET back = make_disk_signature k, w')))))"

section \<open>What a client relies on\<close>

text \<open>A text file on a card: a write that reports success is what the next read gives back, up to
  the capacity of the reader's buffer; nothing else changes whether the card can be used.\<close>

locale text_store =
  fixes put :: "string \<Rightarrow> 's \<Rightarrow> bool \<times> 's" and fetch :: "nat \<Rightarrow> 's \<Rightarrow> string option"
    and usable :: "'s \<Rightarrow> bool"
  assumes read_after_write: "put t s = (True, s') \<Longrightarrow> 0 < n \<Longrightarrow> fetch n s' = Some (take n t)"
    and write_usable: "put t s = (ok, s') \<Longrightarrow> usable s' = usable s"
    and read_usable: "fetch n s = Some t \<Longrightarrow> usable s"
begin

lemma read_written:
  assumes "put t s = (True, s')" and "length t \<le> n" and "0 < n"
  shows "fetch n s' = Some t"
  using read_after_write [OF assms(1,3)] assms(2) by simp

lemma last_write_wins:
  assumes "put t s = (True, s')" and "put u s' = (True, s'')" and "length u \<le> n" and "0 < n"
  shows "fetch n s'' = Some u"
  by (rule read_written [OF assms(2-4)])

end

text \<open>A client that also asks first whether there is a file.\<close>

locale text_file = text_store +
  fixes present :: "'s \<Rightarrow> bool"
  assumes present_iff: "present s \<longleftrightarrow> fetch 1 s \<noteq> None"
begin

lemma present_written:
  assumes "put t s = (True, s')"
  shows "present s'"
  using read_after_write [OF assms, of 1] by (simp add: present_iff)

end

text \<open>The card, for one path.\<close>

definition write_text :: "string \<Rightarrow> string \<Rightarrow> sd_card \<Rightarrow> bool \<times> sd_card" where
  "write_text path t c = write_file (Some path) (Some t) (length t) c"

definition read_text :: "string \<Rightarrow> nat \<Rightarrow> sd_card \<Rightarrow> string option" where
  "read_text path capacity c = read_file (Some path) capacity c"

lemma make_path_cong:
  "sd_mounted c' = sd_mounted c \<Longrightarrow> sd_mount_point c' = sd_mount_point c \<Longrightarrow>
   make_path p n c' = make_path p n c"
  by (simp add: make_path_def split: option.split)

lemma make_path_mounted: "make_path p n c = Some q \<Longrightarrow> sd_mounted c"
  by (auto simp: make_path_def split: option.splits if_splits)

lemma write_file_frame [frame_simps]:
  "write_file p t n c = (ok, c') \<Longrightarrow> sd_mounted c' = sd_mounted c \<and>
   sd_mount_point c' = sd_mount_point c \<and> sd_stream c' = sd_stream c"
  by (auto simp: write_file_def split: if_splits option.splits prod.splits)

lemma write_opened_ok:
  assumes "write_opened p bs d = (True, d')" and "dk_files d p = Some []"
  shows "dk_files d' p = Some bs \<and> \<not> dk_fault d'"
  using assms
  by (auto simp: write_opened_def fwrite_def Let_def split: if_splits option.splits prod.splits)

interpretation card_text: text_store "write_text path" "read_text path" sd_mounted for path
proof
  fix t :: string and c c' :: sd_card and n :: nat
  assume w: "write_text path t c = (True, c')" and n: "0 < n"
  then obtain p d where p: "make_path (Some path) MAX_PATH_LENGTH c = Some p"
    and d: "fopen_write p (sd_disk c) = Some d"
    and ok: "write_opened p t d = (True, sd_disk c')"
    by (auto simp: write_text_def write_file_def split: option.splits prod.splits)
  have "sd_mounted c' = sd_mounted c \<and> sd_mount_point c' = sd_mount_point c"
    using w write_file_frame unfolding write_text_def by blast
  then have p': "make_path (Some path) MAX_PATH_LENGTH c' = Some p"
    using p make_path_cong by metis
  have "dk_files d p = Some []" using d by (auto simp: fopen_write_def split: if_splits)
  note write_opened_ok [OF ok this]
  then show "read_text path n c' = Some (take n t)"
    using n p' by (simp add: read_text_def read_file_def)
next
  fix t :: string and c c' :: sd_card and ok
  assume "write_text path t c = (ok, c')"
  then show "sd_mounted c' = sd_mounted c"
    using write_file_frame unfolding write_text_def by blast
next
  fix c :: sd_card and n :: nat and t
  assume "read_text path n c = Some t"
  then show "sd_mounted c"
    using make_path_mounted by (auto simp: read_text_def read_file_def split: if_splits option.splits)
qed

interpretation card_file: text_file "write_text path" "read_text path" sd_mounted "file_exists (Some path)"
  for path
  by unfold_locales (auto simp: file_exists_def read_text_def read_file_def split: option.splits)

text \<open>A stream written in pieces is the pieces in order.\<close>

fun write_pieces :: "string list \<Rightarrow> sd_card \<Rightarrow> bool \<times> sd_card" where
  "write_pieces [] c = (True, c)"
| "write_pieces (t # ts) c =
     (case write_stream (Some t) (length t) c of
        (False, c') \<Rightarrow> (False, c') | (True, c') \<Rightarrow> write_pieces ts c')"

lemma write_pieces_content:
  "write_pieces ts c = (True, c') \<Longrightarrow> sd_stream c = Some (p, True, pos) \<Longrightarrow>
   dk_files (sd_disk c) p = Some old \<Longrightarrow>
   dk_files (sd_disk c') p = Some (old @ concat ts) \<and> sd_stream c' = sd_stream c \<and>
   sd_mounted c' = sd_mounted c \<and> sd_mount_point c' = sd_mount_point c"
proof (induction ts arbitrary: c old)
  case Nil
  then show ?case by simp
next
  case (Cons t ts)
  obtain c1 where w: "write_stream (Some t) (length t) c = (True, c1)" and r: "write_pieces ts c1 = (True, c')"
    using Cons.prems(1) by (auto split: prod.splits bool.splits)
  have c1: "dk_files (sd_disk c1) p = Some (old @ t) \<and> sd_stream c1 = sd_stream c \<and>
      sd_mounted c1 = sd_mounted c \<and> sd_mount_point c1 = sd_mount_point c"
    using w Cons.prems(2,3)
    by (auto simp: write_stream_def fwrite_def Let_def split: if_splits prod.splits)
  then show ?case using Cons.IH [OF r, of "old @ t"] Cons.prems(2) by simp
qed

section \<open>The repaired sector\<close>

lemma sd_read_write_u32_le:
  assumes "i + 3 < length bs"
  shows "sd_read_u32_le i (sd_write_u32_le i v bs) = v"
proof (rule bit_word_eqI)
  fix n
  assume n: "n < LENGTH(32)"
  have "n < 8 \<or> n = 8 + (n - 8) \<and> n - 8 < 8 \<or> n = 16 + (n - 16) \<and> n - 16 < 8 \<or>
      n = 24 + (n - 24) \<and> n - 24 < 8"
    using n by auto
  then consider "n < 8" | k where "n = 8 + k" "k < 8" | k where "n = 16 + k" "k < 8"
    | k where "n = 24 + k" "k < 8" by blast
  then show "bit (sd_read_u32_le i (sd_write_u32_le i v bs)) n = bit v n"
    using assms by cases (auto simp: sd_read_u32_le_def sd_write_u32_le_def bit_simps)
qed

lemma sd_write_u32_le_other:
  "j < i \<or> i + 4 \<le> j \<Longrightarrow> sd_write_u32_le i v bs ! j = bs ! j"
  by (auto simp: sd_write_u32_le_def)

lemma signature_not_reserved: "make_disk_signature k \<noteq> 0 \<and> make_disk_signature k \<noteq> 0xFFFFFFFF"
  by (simp add: make_disk_signature_def Let_def)


definition demo_sector :: bytes where
  "demo_sector = (replicate 512 0)[450 := 0x0B, 454 := 1, 458 := 8, 510 := 0x55, 511 := 0xAA]"

definition demo_identity :: card_identity where
  "demo_identity = \<lparr>ci_serial = 5, ci_mfg_id = 3, ci_oem_id = 2, ci_date = 1, ci_capacity = 100\<rparr>"

lemma demo_sector_repaired:
  "repaired_mbr demo_identity demo_sector =
     Some (sd_write_u32_le MBR_DISK_SIGNATURE_OFFSET (make_disk_signature demo_identity) demo_sector)"
  by (simp add: repaired_mbr_def demo_sector_def demo_identity_def MBR_SIGNATURE_OFFSET_def
      MBR_DISK_SIGNATURE_OFFSET_def MBR_PARTITION_TABLE_OFFSET_def MBR_PARTITION_ENTRY_SIZE_def
      sd_read_u32_le_def upt_rec nth_list_update Let_def)


end
