(* ===== verification/C_Text.thy ===== *)
theory C_Text
  imports Prelude
begin

text \<open>
  The string functions of the C library that the text formats of the program are read with:
  \<^verbatim>\<open>strtok_r\<close>, \<^verbatim>\<open>strchr\<close>-style splitting, and \<^verbatim>\<open>strtoul\<close> and \<^verbatim>\<open>strtol\<close> with base 0, where
  a \<^verbatim>\<open>long\<close> has 32 bits as on the robot.  Strings have no NUL; what a buffer holds after one is
  cut off before.
\<close>

section \<open>Tokens\<close>

function tokens :: "char set \<Rightarrow> string \<Rightarrow> string list" where
  "tokens ds s =
     (let s' = dropWhile (\<lambda>c. c \<in> ds) s in
      if s' = [] then []
      else takeWhile (\<lambda>c. c \<notin> ds) s' # tokens ds (dropWhile (\<lambda>c. c \<notin> ds) s'))"
  by pat_completeness auto
termination
proof (relation "measure (\<lambda>(ds, s). length s)")
  fix ds s s'
  assume s': "s' = dropWhile (\<lambda>c. c \<in> ds) (s :: string)" and ne: "s' \<noteq> []"
  have "hd s' \<notin> ds" using ne hd_dropWhile [of "\<lambda>c. c \<in> ds" s] unfolding s' by blast
  then have "length (dropWhile (\<lambda>c. c \<notin> ds) s') < length s'"
    using ne by (cases s') (auto intro: le_imp_less_Suc length_dropWhile_le)
  also have "\<dots> \<le> length s" unfolding s' by (rule length_dropWhile_le)
  finally show "((ds, dropWhile (\<lambda>c. c \<notin> ds) s'), (ds, s)) \<in> measure (\<lambda>(ds, s). length s)" by simp
qed simp

declare tokens.simps [simp del]

text \<open>Whole lines come back as they are, empty ones are lost.\<close>

lemma tokens_Nil [simp]: "tokens ds [] = []"
  by (simp add: tokens.simps [of ds "[]"])

lemma tokens_delimiter: "c \<in> ds \<Longrightarrow> tokens ds (c # s) = tokens ds s"
  by (simp add: tokens.simps [of ds "c # s"] tokens.simps [of ds s])

lemma tokens_line:
  assumes "\<forall>c \<in> set l. c \<notin> ds" and "d \<in> ds" and "l \<noteq> []"
  shows "tokens ds (l @ d # s) = l # tokens ds s"
proof -
  have keep: "dropWhile (\<lambda>c. c \<in> ds) (l @ d # s) = l @ d # s"
    using assms(1,3) by (cases l) auto
  have "takeWhile (\<lambda>c. c \<notin> ds) (l @ d # s) = l" "dropWhile (\<lambda>c. c \<notin> ds) (l @ d # s) = d # s"
    using assms(1,2) by (induction l) auto
  then show ?thesis
    using assms(3) tokens_delimiter [OF assms(2)]
    by (simp add: tokens.simps [of ds "l @ d # s"] keep Let_def)
qed

lemma tokens_last:
  assumes "\<forall>c \<in> set l. c \<notin> ds" and "l \<noteq> []"
  shows "tokens ds l = [l]"
proof -
  have "dropWhile (\<lambda>c. c \<in> ds) l = l" using assms by (cases l) auto
  moreover have "takeWhile (\<lambda>c. c \<notin> ds) l = l" "dropWhile (\<lambda>c. c \<notin> ds) l = []" using assms(1) by auto
  ultimately show ?thesis
    using assms(2) unfolding tokens.simps [of ds l] Let_def
    by (simp del: dropWhile_eq_Nil_conv takeWhile_eq_all_conv)
qed

lemma tokens_lines:
  assumes "d \<in> ds"
  shows "\<forall>l \<in> set ls. \<forall>c \<in> set l. c \<notin> ds \<Longrightarrow>
    tokens ds (concat (map (\<lambda>l. l @ [d]) ls)) = filter (\<lambda>l. l \<noteq> []) ls"
proof (induction ls)
  case Nil
  then show ?case by simp
next
  case (Cons l ls)
  show ?case
  proof (cases "l = []")
    case True
    then show ?thesis using Cons assms by (simp add: tokens_delimiter)
  next
    case False
    then show ?thesis using Cons assms tokens_line [of l ds d] by simp
  qed
qed

lemma upto_char:
  assumes "c \<notin> set xs"
  shows "takeWhile (\<lambda>x. x \<noteq> c) (xs @ c # ys) = xs" "dropWhile (\<lambda>x. x \<noteq> c) (xs @ c # ys) = c # ys"
  using assms by (induction xs) auto

section \<open>Numbers\<close>

definition is_space :: "char \<Rightarrow> bool" where
  "is_space c \<longleftrightarrow> c = CHR '' '' \<or> c = CHR 0x09 \<or> c = CHR 0x0A \<or> c = CHR 0x0B \<or> c = CHR 0x0C \<or> c = CHR 0x0D"

definition digit_value :: "nat \<Rightarrow> char \<Rightarrow> nat option" where
  "digit_value base c =
     (let n = of_char c; v = (if 48 \<le> n \<and> n \<le> (57 :: nat) then n - 48
        else if 97 \<le> n \<and> n \<le> 122 then n - 87
        else if 65 \<le> n \<and> n \<le> 90 then n - 55 else 36)
      in if v < base then Some v else None)"

fun scan_digits :: "nat \<Rightarrow> nat \<Rightarrow> string \<Rightarrow> nat \<times> string" where
  "scan_digits base acc [] = (acc, [])"
| "scan_digits base acc (c # cs) =
     (case digit_value base c of None \<Rightarrow> (acc, c # cs) | Some d \<Rightarrow> scan_digits base (acc * base + d) cs)"

text \<open>Base 0: a prefix \<^verbatim>\<open>0x\<close> before a hexadecimal digit, a leading zero for octal, else decimal;
  \<open>None\<close> when nothing was converted.\<close>

definition scan_number :: "string \<Rightarrow> (nat \<times> string) option" where
  "scan_number s =
     (case s of
        [] \<Rightarrow> None
      | c # cs \<Rightarrow>
          if c = CHR ''0'' then
            (case cs of
               x # h # _ \<Rightarrow> if (x = CHR ''x'' \<or> x = CHR ''X'') \<and> digit_value 16 h \<noteq> None
                 then Some (scan_digits 16 0 (tl cs)) else Some (scan_digits 8 0 s)
             | _ \<Rightarrow> Some (scan_digits 8 0 s))
          else if digit_value 10 c = None then None else Some (scan_digits 10 0 s))"

definition split_sign :: "string \<Rightarrow> bool \<times> string" where
  "split_sign s =
     (case dropWhile is_space s of
        [] \<Rightarrow> (False, [])
      | c # cs \<Rightarrow> if c = CHR ''-'' then (True, cs) else if c = CHR ''+'' then (False, cs) else (False, c # cs))"

definition strtoul :: "string \<Rightarrow> (u32 \<times> string) option" where
  "strtoul s =
     (case split_sign s of (neg, t) \<Rightarrow>
        (case scan_number t of
           None \<Rightarrow> None
         | Some (n, rest) \<Rightarrow>
             Some (if n \<ge> 2 ^ 32 then 0xFFFFFFFF else if neg then - word_of_nat n else word_of_nat n, rest)))"

text \<open>Base 10, where only the value is used; nothing converted is zero.\<close>

definition strtoul10 :: "string \<Rightarrow> u32" where
  "strtoul10 s =
     (case split_sign s of (neg, t) \<Rightarrow>
        let n = read_digits 0 t in
        if n \<ge> 2 ^ 32 then 0xFFFFFFFF else if neg then - word_of_nat n else word_of_nat n)"

definition strtol :: "string \<Rightarrow> (int \<times> string) option" where
  "strtol s =
     (case split_sign s of (neg, t) \<Rightarrow>
        (case scan_number t of
           None \<Rightarrow> None
         | Some (n, rest) \<Rightarrow>
             Some (if neg then (if n > 2 ^ 31 then - (2 ^ 31) else - int n)
                   else (if n \<ge> 2 ^ 31 then 2 ^ 31 - 1 else int n), rest)))"

text \<open>\<open>%ld\<close>.\<close>

definition show_int :: "int \<Rightarrow> string" where
  "show_int i = (if i < 0 then ''-'' @ show_dec (nat (- i)) else show_dec (nat i))"

text \<open>Minimum widths: padding on the left, or on the right with blanks.\<close>

definition pad_left :: "char \<Rightarrow> nat \<Rightarrow> string \<Rightarrow> string" where
  "pad_left c n t = replicate (n - length t) c @ t"

definition pad_right :: "nat \<Rightarrow> string \<Rightarrow> string" where
  "pad_right n t = t @ replicate (n - length t) CHR '' ''"

section \<open>Printed numbers are read back\<close>

lemma char_digit_value: "char_digit c = Some d \<Longrightarrow> digit_value 10 c = Some d"
  by (auto simp: char_digit_def digit_value_def Let_def split: if_splits)

lemma scan_digits_read:
  "\<forall>c \<in> set s. char_digit c \<noteq> None \<Longrightarrow> scan_digits 10 acc s = (read_digits acc s, [])"
proof (induction s arbitrary: acc)
  case Nil
  then show ?case by simp
next
  case (Cons c s)
  then obtain d where d: "char_digit c = Some d" by auto
  then show ?case
    using Cons char_digit_value [OF d] by (simp add: mult.commute)
qed

lemma scan_show_dec: "scan_digits 10 0 (show_dec n) = (n, [])"
  using scan_digits_read [of "show_dec n" 0] show_dec_digits read_show_dec by auto

lemma char_of_48 [simp]: "char_of (48 :: nat) = CHR ''0''"
  by code_simp

lemma digit_char_zero:
  assumes "d < 10"
  shows "digit_char d = CHR ''0'' \<longleftrightarrow> d = 0"
proof
  assume "digit_char d = CHR ''0''"
  then have "char_digit (digit_char d) = char_digit (digit_char 0)" by (simp add: digit_char_def [of 0])
  then show "d = 0" using assms by simp
qed (simp add: digit_char_def)

lemma show_dec_first: "0 < n \<Longrightarrow> hd (show_dec n) \<noteq> CHR ''0''"
proof (induction n rule: show_dec.induct)
  case (1 n)
  show ?case
  proof (cases "n < 10")
    case True
    then show ?thesis using "1.prems" by (simp add: show_dec.simps [of n] digit_char_zero)
  next
    case False
    then have "0 < n div 10" by simp
    with "1.IH" [OF False] False show ?thesis by (simp add: show_dec.simps [of n])
  qed
qed

lemma scan_number_show: "scan_number (show_dec n) = Some (n, [])"
proof (cases "n = 0")
  case True
  have "show_dec 0 = ''0''" by (simp add: show_dec.simps [of 0] digit_char_def)
  then show ?thesis by (simp add: True scan_number_def digit_value_def Let_def)
next
  case False
  obtain c cs where s: "show_dec n = c # cs" by (cases "show_dec n") auto
  have "c \<noteq> CHR ''0''" using show_dec_first [of n] False s by simp
  moreover have "char_digit c \<noteq> None" using show_dec_digits [of c n] s by simp
  then have "digit_value 10 c \<noteq> None" using char_digit_value by auto
  ultimately show ?thesis using scan_show_dec [of n] by (simp add: scan_number_def s)
qed

lemma digit_not_sign:
  "char_digit c \<noteq> None \<Longrightarrow> \<not> is_space c \<and> c \<noteq> CHR ''-'' \<and> c \<noteq> CHR ''+'' \<and>
     c \<noteq> CHR 0x0A \<and> c \<noteq> CHR 0x0D \<and> c \<noteq> CHR 0x00"
  by (auto simp: char_digit_def is_space_def Let_def)

lemma split_sign_show: "split_sign (show_dec n) = (False, show_dec n)"
proof -
  obtain c cs where s: "show_dec n = c # cs" by (cases "show_dec n") auto
  then have "char_digit c \<noteq> None" using show_dec_digits [of c n] by simp
  from digit_not_sign [OF this] show ?thesis by (simp add: split_sign_def s)
qed

lemma strtoul_show: "n < 2 ^ 32 \<Longrightarrow> strtoul (show_dec n) = Some (word_of_nat n, [])"
  by (simp add: strtoul_def split_sign_show scan_number_show)

lemma strtoul10_show: "strtoul10 (show_dec (unat w)) = w"
proof -
  have "unat w < 2 ^ 32" using unsigned_less [of w, where 'a = nat] by simp
  then show ?thesis by (simp add: strtoul10_def split_sign_show read_show_dec)
qed

lemma strtol_show:
  assumes "- (2 ^ 31) \<le> i" and "i < 2 ^ 31"
  shows "strtol (show_int i) = Some (i, [])"
proof (cases "i < 0")
  case True
  have "split_sign (''-'' @ show_dec (nat (- i))) = (True, show_dec (nat (- i)))"
    by (simp add: split_sign_def is_space_def)
  moreover have "int (nat (- i)) = - i" "\<not> 2 ^ 31 < nat (- i)" using True assms(1) by simp_all
  ultimately show ?thesis using True by (simp add: strtol_def show_int_def scan_number_show)
next
  case False
  then have "int (nat i) = i" "\<not> 2 ^ 31 \<le> nat i" using assms(2) by simp_all
  then show ?thesis using False by (simp add: strtol_def show_int_def split_sign_show scan_number_show)
qed

lemma show_int_chars: "c \<in> set (show_int i) \<Longrightarrow> c = CHR ''-'' \<or> char_digit c \<noteq> None"
  using show_dec_digits by (auto simp: show_int_def split: if_splits)

lemma show_int_nonempty [simp]: "show_int i \<noteq> []"
  by (simp add: show_int_def)

end
