(* ===== verification/Robot_Settings.thy ===== *)
theory Robot_Settings
  imports SD_Card C_Text
begin

text \<open>
  \<^verbatim>\<open>lib/RobotSettings/\<close>: the settings of the robot, their table, the text file on the card
  and the callbacks that apply them.

  The struct \<open>SettingsData\<close> is accessed through the table alone here, so it is the list of its
  field values in the order of the table and the offset of a row is its place.  Printing and
  reading a float (\<^verbatim>\<open>%.6f\<close>, \<^verbatim>\<open>strtof\<close>) and the float literals of the source are the record
  \<open>'f float_text\<close>; \<open>valid_gpio\<close> is the pin test of the chip's SDK.
\<close>

section \<open>Data\<close>

datatype setting_type = S_U32 | S_U8 | S_FLOAT | S_PIN | S_STRING

record setting_entry =
  se_module :: string
  se_key :: string
  se_type :: setting_type
  se_size :: nat

datatype 'f setting_value = VU32 u32 | VU8 u8 | VFloat 'f | VPin int | VStr string

type_synonym 'f settings_data = "'f setting_value list"

text \<open>\<open>ft_read\<close> answers the value and the rest of the string, \<open>None\<close> if nothing was converted.\<close>

record 'f float_text =
  ft_show :: "'f \<Rightarrow> string"
  ft_read :: "string \<Rightarrow> ('f \<times> string) option"
  ft_literal :: "string \<Rightarrow> 'f"

definition row :: "string \<Rightarrow> string \<Rightarrow> setting_type \<Rightarrow> nat \<Rightarrow> setting_entry" where
  "row m k t n = \<lparr>se_module = m, se_key = k, se_type = t, se_size = n\<rparr>"

definition kTable :: "setting_entry list" where
  "kTable = [
    row ''identity'' ''name'' S_STRING 32, row ''identity'' ''description'' S_STRING 64,
    row ''timers'' ''sample_micros'' S_U32 4, row ''timers'' ''delay_flags'' S_U32 4,
    row ''timers'' ''timezone'' S_STRING 16, row ''sensor'' ''len_sensor'' S_U8 1,
    row ''sensor'' ''samples'' S_U8 1, row ''sensor'' ''delay_sample'' S_U8 1,
    row ''ekf_noise'' ''v_noise'' S_FLOAT 4, row ''ekf_noise'' ''w_noise'' S_FLOAT 4,
    row ''ekf_noise'' ''b_noise'' S_FLOAT 4, row ''ekf_noise'' ''initial_p'' S_FLOAT 4,
    row ''ekf_noise'' ''enc_noise'' S_FLOAT 4, row ''ekf_noise'' ''accel_noise'' S_FLOAT 4,
    row ''ekf_noise'' ''gyro_noise'' S_FLOAT 4, row ''kinematics'' ''encoder_ppr'' S_FLOAT 4,
    row ''kinematics'' ''wheel_radius'' S_FLOAT 4,
    row ''logger'' ''logger_mutex_timeout_ms'' S_U32 4,
    row ''logger'' ''max_chunks_per_flush'' S_U32 4, row ''logger'' ''block_size'' S_U32 4,
    row ''pins_led'' ''led0'' S_PIN 4, row ''pins_led'' ''led1'' S_PIN 4,
    row ''pins_led'' ''led2'' S_PIN 4, row ''pins_led'' ''led3'' S_PIN 4,
    row ''pins_hbridge'' ''ain1'' S_PIN 4, row ''pins_hbridge'' ''ain2'' S_PIN 4,
    row ''pins_hbridge'' ''bin1'' S_PIN 4, row ''pins_hbridge'' ''bin2'' S_PIN 4,
    row ''pins_hbridge'' ''current_a'' S_PIN 4, row ''pins_hbridge'' ''current_b'' S_PIN 4,
    row ''pins_encoder'' ''enc_a0'' S_PIN 4, row ''pins_encoder'' ''enc_a1'' S_PIN 4,
    row ''pins_encoder'' ''enc_b0'' S_PIN 4, row ''pins_encoder'' ''enc_b1'' S_PIN 4,
    row ''pins_button'' ''btn0'' S_PIN 4, row ''pins_button'' ''btn1'' S_PIN 4,
    row ''pins_button'' ''btn2'' S_PIN 4, row ''pins_side_sensor'' ''left'' S_PIN 4,
    row ''pins_side_sensor'' ''right'' S_PIN 4, row ''pins_buzzer'' ''bzr'' S_PIN 4,
    row ''pins_mux'' ''s0'' S_PIN 4, row ''pins_mux'' ''s1'' S_PIN 4,
    row ''pins_mux'' ''s2'' S_PIN 4, row ''pins_mux'' ''sig'' S_PIN 4,
    row ''pins_i2c'' ''sda_pin'' S_PIN 4, row ''pins_i2c'' ''scl_pin'' S_PIN 4,
    row ''ota'' ''ota_led_step_ms'' S_U32 4, row ''ota'' ''ota_led_hold_ms'' S_U32 4,
    row ''ota'' ''ota_led_fail_hold_ms'' S_U32 4, row ''ota'' ''ota_connect_timeout_ms'' S_U32 4,
    row ''ota'' ''ota_retry_scan_ms'' S_U32 4, row ''ota'' ''espnow_channel'' S_U8 1,
    row ''ota'' ''ota_hostname'' S_STRING 33, row ''ota'' ''ota_instance_name'' S_STRING 33,
    row ''ota'' ''ota_password'' S_STRING 33, row ''comm'' ''comm_mode'' S_U8 1,
    row ''error'' ''error_blink_ms'' S_U32 4]"

definition kMaxModuleNameLength :: nat where "kMaxModuleNameLength = 32"
definition kMaxAppliers :: nat where "kMaxAppliers = 8"
definition ROBOT_SETTINGS_FILE :: string where "ROBOT_SETTINGS_FILE = ''settings.conf''"
definition ROBOT_SETTINGS_FILE_MAX_BYTES :: nat where "ROBOT_SETTINGS_FILE_MAX_BYTES = 8192"

text \<open>The initialisers of the fields, in the order of the table.\<close>

definition default_settings :: "'f float_text \<Rightarrow> 'f settings_data" where
  "default_settings ft = [
    VStr [], VStr [], VU32 1000, VU32 250, VStr ''BRT3'', VU8 8, VU8 30, VU8 100,
    VFloat (ft_literal ft ''0.1''), VFloat (ft_literal ft ''0.1''),
    VFloat (ft_literal ft ''0.0001''), VFloat (ft_literal ft ''0.1''),
    VFloat (ft_literal ft ''0.5''), VFloat (ft_literal ft ''0.5''),
    VFloat (ft_literal ft ''0.001''), VFloat (ft_literal ft ''70.0''),
    VFloat (ft_literal ft ''0.0325''), VU32 100, VU32 10, VU32 16, VPin 45, VPin 46, VPin 43,
    VPin 44, VPin 21, VPin 47, VPin 3, VPin 9, VPin 14, VPin 8, VPin 41, VPin 42, VPin 39,
    VPin 40, VPin 0, VPin 4, VPin 5, VPin 1, VPin 48, VPin 38, VPin 12, VPin 11, VPin 10,
    VPin 13, VPin 18, VPin 17, VU32 150, VU32 200, VU32 800, VU32 10000, VU32 5000, VU8 11,
    VStr ''ballyrobot'', VStr ''BallyRobot OTA'', VStr ''657585'', VU8 0, VU32 250]"

text \<open>The object: values, successful saves since boot, appliers by module.\<close>

record ('f, 'w) robot_settings =
  rs_data :: "'f settings_data"
  rs_save_revision :: u32
  rs_appliers :: "(string \<times> ('f settings_data \<Rightarrow> 'w \<Rightarrow> bool \<times> 'w)) list"

definition new_settings :: "'f float_text \<Rightarrow> ('f, 'w) robot_settings" where
  "new_settings ft = \<lparr>rs_data = default_settings ft, rs_save_revision = 0, rs_appliers = []\<rparr>"

section \<open>Formatting and parsing one value\<close>

text \<open>The numbers go through a buffer of 32 octets.\<close>

definition format_entry :: "'f float_text \<Rightarrow> 'f setting_value \<Rightarrow> string" where
  "format_entry ft v = (case v of
     VU32 n \<Rightarrow> take 31 (show_dec (unat n))
   | VU8 n \<Rightarrow> take 31 (show_dec (unat n))
   | VFloat f \<Rightarrow> take 31 (ft_show ft f)
   | VPin i \<Rightarrow> take 31 (show_int i)
   | VStr s \<Rightarrow> s)"

definition parse_into ::
    "'f float_text \<Rightarrow> (int \<Rightarrow> bool) \<Rightarrow> setting_entry \<Rightarrow> string option \<Rightarrow> 'f setting_value option" where
  "parse_into ft valid_gpio e text_value =
     (case text_value of
        None \<Rightarrow> None
      | Some v \<Rightarrow>
          if v = [] then None
          else (case se_type e of
              S_U32 \<Rightarrow> (case strtoul v of
                   Some (n, rest) \<Rightarrow> if rest = [] then Some (VU32 n) else None | None \<Rightarrow> None)
            | S_U8 \<Rightarrow> (case strtoul v of
                   Some (n, rest) \<Rightarrow> if rest = [] \<and> n \<le> 0xFF then Some (VU8 (ucast n)) else None
                 | None \<Rightarrow> None)
            | S_FLOAT \<Rightarrow> (case ft_read ft v of
                   Some (f, rest) \<Rightarrow> if rest = [] then Some (VFloat f) else None | None \<Rightarrow> None)
            | S_PIN \<Rightarrow> (case strtol v of
                   Some (i, rest) \<Rightarrow> if rest = [] \<and> valid_gpio i then Some (VPin i) else None
                 | None \<Rightarrow> None)
            | S_STRING \<Rightarrow> if length v \<ge> se_size e then None else Some (VStr v)))"

section \<open>Looking up\<close>

fun find_row :: "string \<Rightarrow> string \<Rightarrow> setting_entry list \<Rightarrow> nat option" where
  "find_row m k [] = None"
| "find_row m k (e # es) =
     (if se_module e = m \<and> se_key e = k then Some 0 else map_option Suc (find_row m k es))"

definition find_setting :: "string option \<Rightarrow> string option \<Rightarrow> nat option" where
  "find_setting m k =
     (case m of None \<Rightarrow> None | Some m' \<Rightarrow> (case k of None \<Rightarrow> None | Some k' \<Rightarrow> find_row m' k' kTable))"

definition get_setting :: "'f float_text \<Rightarrow> string option \<Rightarrow> string option \<Rightarrow> ('f, 'w) robot_settings \<Rightarrow> string option" where
  "get_setting ft m k r =
     (case find_setting m k of None \<Rightarrow> None | Some i \<Rightarrow> Some (format_entry ft (rs_data r ! i)))"

definition set_setting ::
    "'f float_text \<Rightarrow> (int \<Rightarrow> bool) \<Rightarrow> string option \<Rightarrow> string option \<Rightarrow> string option \<Rightarrow>
     ('f, 'w) robot_settings \<Rightarrow> bool \<times> ('f, 'w) robot_settings" where
  "set_setting ft valid_gpio m k v r =
     (case find_setting m k of
        None \<Rightarrow> (False, r)
      | Some i \<Rightarrow>
          (case parse_into ft valid_gpio (kTable ! i) v of
             None \<Rightarrow> (False, r)
           | Some x \<Rightarrow> (True, r\<lparr>rs_data := (rs_data r)[i := x]\<rparr>)))"

definition list_row :: "'f float_text \<Rightarrow> setting_entry \<Rightarrow> 'f setting_value \<Rightarrow> string" where
  "list_row ft e v = se_module e @ ''.'' @ se_key e @ ''='' @ format_entry ft v @ [CHR 0x0A]"

definition list_settings :: "'f float_text \<Rightarrow> string option \<Rightarrow> ('f, 'w) robot_settings \<Rightarrow> string" where
  "list_settings ft m r =
     concat (map (\<lambda>(e, v). if m \<noteq> None \<and> m \<noteq> Some [] \<and> Some (se_module e) \<noteq> m then [] else list_row ft e v)
       (zip kTable (rs_data r)))"

definition list_all_settings :: "'f float_text \<Rightarrow> ('f, 'w) robot_settings \<Rightarrow> string" where
  "list_all_settings ft r = list_settings ft None r"

definition reset_all :: "'f float_text \<Rightarrow> ('f, 'w) robot_settings \<Rightarrow> ('f, 'w) robot_settings" where
  "reset_all ft r = r\<lparr>rs_data := default_settings ft\<rparr>"

definition reset_module ::
    "'f float_text \<Rightarrow> string option \<Rightarrow> ('f, 'w) robot_settings \<Rightarrow> bool \<times> ('f, 'w) robot_settings" where
  "reset_module ft m r =
     (case m of
        None \<Rightarrow> (False, r)
      | Some m' \<Rightarrow>
          if m' = [] then (False, r)
          else (list_ex (\<lambda>e. se_module e = m') kTable,
                r\<lparr>rs_data := map (\<lambda>((e, v), d). if se_module e = m' then d else v)
                     (zip (zip kTable (rs_data r)) (default_settings ft))\<rparr>))"

section \<open>The file\<close>

fun render_rows :: "'f float_text \<Rightarrow> string \<Rightarrow> bool \<Rightarrow> (setting_entry \<times> 'f setting_value) list \<Rightarrow> string" where
  "render_rows ft current first [] = []"
| "render_rows ft current first ((e, v) # rows) =
     (if current \<noteq> se_module e
      then (if first then [] else [CHR 0x0A]) @ ''['' @ se_module e @ '']'' @ [CHR 0x0A] else []) @
     se_key e @ ''='' @ format_entry ft v @ [CHR 0x0A] @ render_rows ft (se_module e) False rows"

definition settings_text :: "'f float_text \<Rightarrow> 'f settings_data \<Rightarrow> string" where
  "settings_text ft d = render_rows ft [] True (zip kTable d)"

definition skip_blanks :: "string \<Rightarrow> string" where
  "skip_blanks l = dropWhile (\<lambda>c. c = CHR '' '' \<or> c = CHR 0x09) l"

text \<open>One line: the current module, the values and the count of skipped lines.\<close>

definition parse_line ::
    "'f float_text \<Rightarrow> (int \<Rightarrow> bool) \<Rightarrow> string \<Rightarrow> string \<times> 'f settings_data \<times> u16 \<Rightarrow> string \<times> 'f settings_data \<times> u16" where
  "parse_line ft valid_gpio raw p = (case p of (current, d, skipped) \<Rightarrow>
     let line = skip_blanks raw in
     case line of
       [] \<Rightarrow> p
     | c # cs \<Rightarrow>
         if c = CHR ''['' then
           (if CHR '']'' \<in> set cs \<and> takeWhile (\<lambda>x. x \<noteq> CHR '']'') cs \<noteq> []
            then (take (kMaxModuleNameLength - 1) (takeWhile (\<lambda>x. x \<noteq> CHR '']'') cs), d, skipped)
            else p)
         else if c \<noteq> CHR ''#'' \<and> c \<noteq> CHR '';'' then
           (if CHR ''='' \<in> set line then
              let key = takeWhile (\<lambda>x. x \<noteq> CHR ''='') line;
                  v = tl (dropWhile (\<lambda>x. x \<noteq> CHR ''='') line)
              in (case find_setting (Some current) (Some key) of
                    None \<Rightarrow> (current, d, skipped + 1)
                  | Some i \<Rightarrow>
                      (case parse_into ft valid_gpio (kTable ! i) (Some v) of
                         None \<Rightarrow> (current, d, skipped + 1)
                       | Some x \<Rightarrow> (current, d[i := x], skipped)))
            else (current, d, skipped + 1))
         else p)"

definition parse_text ::
    "'f float_text \<Rightarrow> (int \<Rightarrow> bool) \<Rightarrow> string \<Rightarrow> 'f settings_data \<Rightarrow> 'f settings_data \<times> u16" where
  "parse_text ft valid_gpio content d =
     snd (fold (parse_line ft valid_gpio)
       (tokens {CHR 0x0D, CHR 0x0A} (takeWhile (\<lambda>c. c \<noteq> CHR 0x00) content)) ([], d, 0))"

text \<open>The card is what \<open>fetch\<close> and \<open>put\<close> make of it; see \<open>text_store\<close>.\<close>

definition parse_file ::
    "'f float_text \<Rightarrow> (int \<Rightarrow> bool) \<Rightarrow> ('s \<Rightarrow> bool) \<Rightarrow> (nat \<Rightarrow> 's \<Rightarrow> string option) \<Rightarrow> 's \<Rightarrow> 'f settings_data \<Rightarrow>
     ('f settings_data \<times> u16) option" where
  "parse_file ft valid_gpio mounted fetch sd d =
     (if \<not> mounted sd then None
      else case fetch (ROBOT_SETTINGS_FILE_MAX_BYTES - 1) sd of
        None \<Rightarrow> None
      | Some content \<Rightarrow> Some (parse_text ft valid_gpio content d))"

definition save_settings ::
    "'f float_text \<Rightarrow> ('s \<Rightarrow> bool) \<Rightarrow> (string \<Rightarrow> 's \<Rightarrow> bool \<times> 's) \<Rightarrow> 's \<Rightarrow> ('f, 'w) robot_settings \<Rightarrow>
     bool \<times> 's \<times> ('f, 'w) robot_settings" where
  "save_settings ft mounted put sd r =
     (if \<not> mounted sd then (False, sd, r)
      else case put (settings_text ft (rs_data r)) sd of
        (ok, sd') \<Rightarrow>
          (ok, sd', if ok then r\<lparr>rs_save_revision := rs_save_revision r + 1\<rparr> else r))"

definition load_settings ::
    "'f float_text \<Rightarrow> (int \<Rightarrow> bool) \<Rightarrow> ('s \<Rightarrow> bool) \<Rightarrow> (nat \<Rightarrow> 's \<Rightarrow> string option) \<Rightarrow>
     (string \<Rightarrow> 's \<Rightarrow> bool \<times> 's) \<Rightarrow> 's \<Rightarrow> ('f, 'w) robot_settings \<Rightarrow>
     bool \<times> u16 \<times> 's \<times> ('f, 'w) robot_settings" where
  "load_settings ft valid_gpio mounted fetch put sd r =
     (if \<not> mounted sd then (False, 0, sd, r)
      else case parse_file ft valid_gpio mounted fetch sd (rs_data r) of
        None \<Rightarrow> (case save_settings ft mounted put sd r of (ok, sd', r') \<Rightarrow> (ok, 0, sd', r'))
      | Some (d, skipped) \<Rightarrow> (True, skipped, sd, r\<lparr>rs_data := d\<rparr>))"

definition diff_row :: "'f float_text \<Rightarrow> (setting_entry \<times> 'f setting_value) \<times> 'f setting_value \<Rightarrow> string option" where
  "diff_row ft x = (case x of ((e, a), b) \<Rightarrow>
     if format_entry ft a = format_entry ft b then None
     else Some (se_module e @ ''.'' @ se_key e @ '' memory='' @ format_entry ft a @ '' file='' @
                format_entry ft b @ [CHR 0x0A]))"

definition diff_settings ::
    "'f float_text \<Rightarrow> (int \<Rightarrow> bool) \<Rightarrow> ('s \<Rightarrow> bool) \<Rightarrow> (nat \<Rightarrow> 's \<Rightarrow> string option) \<Rightarrow> 's \<Rightarrow>
     ('f, 'w) robot_settings \<Rightarrow> string option" where
  "diff_settings ft valid_gpio mounted fetch sd r =
     (case parse_file ft valid_gpio mounted fetch sd (default_settings ft) of
        None \<Rightarrow> None
      | Some (on_card, skipped) \<Rightarrow>
          let lines = List.map_filter (diff_row ft) (zip (zip kTable (rs_data r)) on_card)
          in Some (concat lines @ ''differences='' @ show_dec (length lines)))"

section \<open>Applying\<close>

datatype apply_result = Applied | ApplyFailed | NoApplier | UnknownModule

definition module_exists :: "string option \<Rightarrow> bool" where
  "module_exists m =
     (case m of None \<Rightarrow> False | Some m' \<Rightarrow> m' \<noteq> [] \<and> list_ex (\<lambda>e. se_module e = m') kTable)"

fun replace_applier :: "string \<Rightarrow> 'a \<Rightarrow> (string \<times> 'a) list \<Rightarrow> (string \<times> 'a) list option" where
  "replace_applier m f [] = None"
| "replace_applier m f ((m', g) # as) =
     (if m' = m then Some ((m', f) # as) else map_option ((#) (m', g)) (replace_applier m f as))"

definition register_applier ::
    "string option \<Rightarrow> ('f settings_data \<Rightarrow> 'w \<Rightarrow> bool \<times> 'w) option \<Rightarrow> ('f, 'w) robot_settings \<Rightarrow>
     bool \<times> ('f, 'w) robot_settings" where
  "register_applier m f r =
     (if \<not> module_exists m \<or> Option.is_none f then (False, r)
      else if length (rs_appliers r) \<ge> kMaxAppliers then (False, r)
      else case replace_applier (the m) (the f) (rs_appliers r) of
        Some as \<Rightarrow> (True, r\<lparr>rs_appliers := as\<rparr>)
      | None \<Rightarrow> (True, r\<lparr>rs_appliers := rs_appliers r @ [(the m, the f)]\<rparr>))"

definition apply_module :: "string option \<Rightarrow> ('f, 'w) robot_settings \<Rightarrow> 'w \<Rightarrow> apply_result \<times> 'w" where
  "apply_module m r w =
     (if \<not> module_exists m then (UnknownModule, w)
      else case map_of (rs_appliers r) (the m) of
        None \<Rightarrow> (NoApplier, w)
      | Some f \<Rightarrow> (case f (rs_data r) w of (ok, w') \<Rightarrow> (if ok then Applied else ApplyFailed, w')))"

fun apply_each :: "'f settings_data \<Rightarrow> (string \<times> ('f settings_data \<Rightarrow> 'w \<Rightarrow> bool \<times> 'w)) list \<Rightarrow>
    nat \<times> nat \<times> 'w \<Rightarrow> nat \<times> nat \<times> 'w" where
  "apply_each d [] p = p"
| "apply_each d ((m, f) # as) (ok, bad, w) =
     (case f d w of (True, w') \<Rightarrow> apply_each d as (Suc ok, bad, w')
                  | (False, w') \<Rightarrow> apply_each d as (ok, Suc bad, w'))"

definition apply_all :: "('f, 'w) robot_settings \<Rightarrow> 'w \<Rightarrow> nat \<times> nat \<times> 'w" where
  "apply_all r w = apply_each (rs_data r) (rs_appliers r) (0, 0, w)"

definition apply_result_text :: "apply_result \<Rightarrow> string" where
  "apply_result_text x = (case x of Applied \<Rightarrow> ''applied'' | ApplyFailed \<Rightarrow> ''failed''
     | NoApplier \<Rightarrow> ''requires a reboot'' | UnknownModule \<Rightarrow> ''unknown module'')"

section \<open>The table\<close>

text \<open>Characters that would break a line of the file.\<close>

definition clean :: "string \<Rightarrow> bool" where
  "clean s \<longleftrightarrow> list_all (\<lambda>c. c \<noteq> CHR 0x0D \<and> c \<noteq> CHR 0x0A \<and> c \<noteq> CHR 0x00) s"

definition row_ok :: "setting_entry \<Rightarrow> bool" where
  "row_ok e \<longleftrightarrow> clean (se_module e) \<and> clean (se_key e) \<and> se_module e \<noteq> [] \<and> se_key e \<noteq> [] \<and>
     length (se_module e) < kMaxModuleNameLength \<and> CHR '']'' \<notin> set (se_module e) \<and>
     CHR ''='' \<notin> set (se_key e) \<and>
     hd (se_key e) \<notin> {CHR '' '', CHR 0x09, CHR ''['', CHR ''#'', CHR '';''} \<and> se_size e > 0"

lemma length_table: "length kTable = 57"
  by (simp add: kTable_def)

lemma table_rows_ok: "list_all row_ok kTable"
  by (simp add: kTable_def row_def row_ok_def clean_def kMaxModuleNameLength_def)

lemma table_keys_distinct: "distinct (map (\<lambda>e. (se_module e, se_key e)) kTable)"
  by (simp add: kTable_def row_def)

lemma length_default [simp]: "length (default_settings ft) = 57"
  by (simp add: default_settings_def)

lemma find_row_nth:
  "distinct (map (\<lambda>e. (se_module e, se_key e)) es) \<Longrightarrow> i < length es \<Longrightarrow>
   find_row (se_module (es ! i)) (se_key (es ! i)) es = Some i"
proof (induction es arbitrary: i)
  case Nil
  then show ?case by simp
next
  case (Cons e es)
  show ?case
  proof (cases i)
    case 0
    then show ?thesis by simp
  next
    case (Suc j)
    have "(se_module (es ! j), se_key (es ! j)) \<in> set (map (\<lambda>e. (se_module e, se_key e)) es)"
      using Cons.prems Suc by auto
    then have "\<not> (se_module e = se_module (es ! j) \<and> se_key e = se_key (es ! j))"
      using Cons.prems(1) by auto
    then show ?thesis using Cons Suc by simp
  qed
qed

lemma find_row_some:
  "find_row m k es = Some i \<Longrightarrow> i < length es \<and> se_module (es ! i) = m \<and> se_key (es ! i) = k"
  by (induction es arbitrary: i) (auto split: if_splits)

lemma find_setting_nth:
  "i < 57 \<Longrightarrow> find_setting (Some (se_module (kTable ! i))) (Some (se_key (kTable ! i))) = Some i"
  using find_row_nth [OF table_keys_distinct, of i] by (simp add: find_setting_def length_table)

lemma row_ok_nth: "i < 57 \<Longrightarrow> row_ok (kTable ! i)"
  using table_rows_ok by (simp add: list_all_length length_table)

section \<open>Values that survive printing\<close>

text \<open>A value fits its row, and nothing in it breaks the line; strings may be empty.\<close>

definition value_ok :: "'f float_text \<Rightarrow> (int \<Rightarrow> bool) \<Rightarrow> setting_entry \<Rightarrow> 'f setting_value \<Rightarrow> bool" where
  "value_ok ft valid_gpio e v = (case v of
     VU32 n \<Rightarrow> se_type e = S_U32
   | VU8 n \<Rightarrow> se_type e = S_U8
   | VFloat f \<Rightarrow> se_type e = S_FLOAT \<and> ft_read ft (ft_show ft f) = Some (f, []) \<and> ft_show ft f \<noteq> [] \<and>
       length (ft_show ft f) \<le> 31 \<and> clean (ft_show ft f)
   | VPin i \<Rightarrow> se_type e = S_PIN \<and> valid_gpio i \<and> - (2 ^ 31) \<le> i \<and> i < 2 ^ 31
   | VStr s \<Rightarrow> se_type e = S_STRING \<and> length s < se_size e \<and> clean s)"

lemma clean_show_dec: "clean (show_dec n)"
  using digit_not_sign show_dec_digits unfolding clean_def list_all_iff by blast

lemma clean_Cons: "clean (c # s) \<longleftrightarrow> c \<noteq> CHR 0x0D \<and> c \<noteq> CHR 0x0A \<and> c \<noteq> CHR 0x00 \<and> clean s"
  by (simp add: clean_def)

lemma clean_append: "clean (s @ t) \<longleftrightarrow> clean s \<and> clean t"
  by (simp add: clean_def)

lemma clean_take: "clean s \<Longrightarrow> clean (take n s)"
  unfolding clean_def list_all_iff by (meson in_set_takeD)

lemma clean_show_int: "clean (show_int i)"
  using clean_show_dec by (simp add: show_int_def clean_Cons)

lemma small_show_dec: "n < 2 ^ 32 \<Longrightarrow> length (show_dec n) \<le> 10"
  using length_show_dec [of n 9] by simp

lemma small_show_int:
  assumes "- (2 ^ 31) \<le> i" and "i < 2 ^ 31"
  shows "length (show_int i) \<le> 11"
proof -
  have "nat i < 2 ^ 32" "nat (- i) < 2 ^ 32" using assms by simp_all
  from this [THEN small_show_dec] show ?thesis by (simp add: show_int_def)
qed

lemma format_clean: "value_ok ft vg e v \<Longrightarrow> clean (format_entry ft v)"
  by (cases v) (simp_all add: value_ok_def format_entry_def clean_take clean_show_dec clean_show_int)

lemma format_parse:
  assumes "value_ok ft vg e v"
  shows "parse_into ft vg e (Some (format_entry ft v)) = (if v = VStr [] then None else Some v)"
proof (cases v)
  case (VU32 n)
  have "unat n < 2 ^ 32" using unsigned_less [of n, where 'a = nat] by simp
  then show ?thesis
    using assms VU32 small_show_dec [of "unat n"] strtoul_show [of "unat n"]
    by (simp add: value_ok_def format_entry_def parse_into_def)
next
  case (VU8 n)
  have n: "unat n < 2 ^ 8" using unsigned_less [of n, where 'a = nat] by simp
  have u: "unat (word_of_nat (unat n) :: u32) = unat n"
    using n by (subst unat_of_nat) (simp add: take_bit_nat_eq_self)
  have le: "(word_of_nat (unat n) :: u32) \<le> 0xFF"
    unfolding word_le_nat_alt u using n by simp
  have "unat (ucast (word_of_nat (unat n) :: u32) :: u8) = unat n"
    unfolding unsigned_ucast_eq u using n by (simp add: take_bit_nat_eq_self)
  then have "ucast (word_of_nat (unat n) :: u32) = n" by (simp only: word_unat_eq_iff)
  with le show ?thesis
    using assms VU8 n small_show_dec [of "unat n"] strtoul_show [of "unat n"]
    by (simp add: value_ok_def format_entry_def parse_into_def)
next
  case (VFloat f)
  then show ?thesis using assms by (simp add: value_ok_def format_entry_def parse_into_def)
next
  case (VPin i)
  then show ?thesis
    using assms small_show_int [of i] strtol_show [of i]
    by (simp add: value_ok_def format_entry_def parse_into_def)
next
  case (VStr t)
  then show ?thesis using assms by (simp add: value_ok_def format_entry_def parse_into_def)
qed

section \<open>The file as lines\<close>

fun row_lines :: "'f float_text \<Rightarrow> string \<Rightarrow> bool \<Rightarrow> (setting_entry \<times> 'f setting_value) list \<Rightarrow> string list" where
  "row_lines ft current first [] = []"
| "row_lines ft current first ((e, v) # rows) =
     (if current \<noteq> se_module e
      then (if first then [] else [[]]) @ [''['' @ se_module e @ '']''] else []) @
     (se_key e @ ''='' @ format_entry ft v) # row_lines ft (se_module e) False rows"

lemma render_rows_lines:
  "render_rows ft current first rows = concat (map (\<lambda>l. l @ [CHR 0x0A]) (row_lines ft current first rows))"
  by (induction ft current first rows rule: render_rows.induct) simp_all

lemma row_lines_clean:
  "list_all (\<lambda>(e, v). row_ok e \<and> value_ok ft vg e v) rows \<Longrightarrow> \<forall>l \<in> set (row_lines ft current first rows). clean l"
proof (induction ft current first rows rule: row_lines.induct)
  case (1 ft current first)
  then show ?case by simp
next
  case (2 ft current first e v rows)
  have e: "clean (se_module e)" "clean (se_key e)" and v: "clean (format_entry ft v)"
    using "2.prems" format_clean by (auto simp: row_ok_def)
  have "clean (''['' @ se_module e @ '']'')" "clean (se_key e @ ''='' @ format_entry ft v)" "clean []"
    using e v by (simp_all add: clean_append clean_Cons) (simp_all add: clean_def)
  moreover have "\<forall>l \<in> set (row_lines ft (se_module e) False rows). clean l"
    using "2.IH" "2.prems" by simp
  ultimately show ?case by (cases "current = se_module e"; cases first) auto
qed

lemma parse_header:
  assumes "row_ok e"
  shows "parse_line ft vg (''['' @ se_module e @ '']'') (m, d, k) = (se_module e, d, k)"
proof -
  have "takeWhile (\<lambda>x. x \<noteq> CHR '']'') (se_module e @ '']'') = se_module e"
    using assms by (simp add: row_ok_def upto_char)
  then show ?thesis
    using assms by (simp add: parse_line_def skip_blanks_def row_ok_def kMaxModuleNameLength_def)
qed

lemma parse_row:
  assumes "i < 57"
  shows "parse_line ft vg (se_key (kTable ! i) @ CHR ''='' # t) (se_module (kTable ! i), d, k) =
    (case parse_into ft vg (kTable ! i) (Some t) of
       None \<Rightarrow> (se_module (kTable ! i), d, k + 1) | Some x \<Rightarrow> (se_module (kTable ! i), d[i := x], k))"
proof -
  let ?key = "se_key (kTable ! i)"
  note ok = row_ok_nth [OF assms, unfolded row_ok_def]
  obtain c cs where key: "?key = c # cs" using ok by (cases "?key") auto
  have c: "c \<noteq> CHR '' ''" "c \<noteq> CHR 0x09" "c \<noteq> CHR ''[''" "c \<noteq> CHR ''#''" "c \<noteq> CHR '';''"
    using ok key by auto
  have k: "takeWhile (\<lambda>x. x \<noteq> CHR ''='') (?key @ CHR ''='' # t) = ?key"
    "dropWhile (\<lambda>x. x \<noteq> CHR ''='') (?key @ CHR ''='' # t) = CHR ''='' # t"
    using ok by (simp_all add: upto_char)
  have skip: "skip_blanks (?key @ CHR ''='' # t) = ?key @ CHR ''='' # t"
    using c by (simp add: skip_blanks_def key)
  show ?thesis
    using k c find_setting_nth [OF assms]
    unfolding parse_line_def prod.case skip Let_def
    by (simp add: key split: option.split)
qed

text \<open>What the file gives a field that held \<open>old\<close>; the fields lost are counted as skipped.\<close>

definition reread :: "'f setting_value \<Rightarrow> 'f setting_value \<Rightarrow> 'f setting_value" where
  "reread v old = (if v = VStr [] then old else v)"

definition lost :: "'f settings_data \<Rightarrow> nat" where
  "lost d = length (filter (\<lambda>v. v = VStr []) d)"

fun reread_from :: "nat \<Rightarrow> 'f setting_value list \<Rightarrow> 'f settings_data \<Rightarrow> 'f settings_data" where
  "reread_from i [] d = d"
| "reread_from i (v # vs) d = reread_from (Suc i) vs (d[i := reread v (d ! i)])"

lemma drop_table: "i < 57 \<Longrightarrow> drop i kTable = kTable ! i # drop (Suc i) kTable"
  by (simp add: Cons_nth_drop_Suc length_table)

lemma fold_rows:
  assumes "i + length vs = 57"
    and "\<forall>j < length vs. value_ok ft vg (kTable ! (i + j)) (vs ! j)"
    and "length d = 57"
  shows "snd (fold (parse_line ft vg) (filter (\<lambda>l. l \<noteq> []) (row_lines ft m first (zip (drop i kTable) vs))) (m, d, k)) =
    (reread_from i vs d, k + word_of_nat (lost vs))"
  using assms
proof (induction vs arbitrary: i d k m first)
  case Nil
  then show ?case by (simp add: lost_def)
next
  case (Cons v vs)
  let ?e = "kTable ! i"
  have i: "i < 57" using Cons.prems(1) by simp
  have v: "value_ok ft vg ?e v" using Cons.prems(2) by force
  have head: "fold (parse_line ft vg) (filter (\<lambda>l. l \<noteq> [])
      ((if m \<noteq> se_module ?e then (if first then [] else [[]]) @ [''['' @ se_module ?e @ '']''] else []))) (m, d, k) =
      (se_module ?e, d, k)"
    using parse_header [OF row_ok_nth [OF i], of ft vg m d k] by (cases "m = se_module ?e"; cases first) auto
  have line: "parse_line ft vg (se_key ?e @ CHR ''='' # format_entry ft v) (se_module ?e, d, k) =
      (se_module ?e, d[i := reread v (d ! i)], k + (if v = VStr [] then 1 else 0))"
    using parse_row [OF i, of ft vg "format_entry ft v"] format_parse [OF v] Cons.prems(3) i
    by (simp add: reread_def)
  have rest: "\<forall>j < length vs. value_ok ft vg (kTable ! (Suc i + j)) (vs ! j)"
    using Cons.prems(2) by (auto dest: spec [of _ "Suc _"])
  have "snd (fold (parse_line ft vg) (filter (\<lambda>l. l \<noteq> [])
      (row_lines ft (se_module ?e) False (zip (drop (Suc i) kTable) vs)))
      (se_module ?e, d[i := reread v (d ! i)], k + (if v = VStr [] then 1 else 0))) =
      (reread_from (Suc i) vs (d[i := reread v (d ! i)]),
       k + (if v = VStr [] then 1 else 0) + word_of_nat (lost vs))"
    by (rule Cons.IH) (use Cons.prems(1,3) rest in simp_all)
  then show ?case
    unfolding drop_table [OF i] zip_Cons_Cons row_lines.simps filter_append fold_append comp_apply head
    by (simp add: line lost_def add.assoc)
qed

lemma nth_reread_from:
  "i + length vs \<le> length d \<Longrightarrow> length (reread_from i vs d) = length d \<and>
   (\<forall>j < length d. reread_from i vs d ! j =
      (if i \<le> j \<and> j < i + length vs then reread (vs ! (j - i)) (d ! j) else d ! j))"
proof (induction vs arbitrary: i d)
  case Nil
  then show ?case by auto
next
  case (Cons v vs)
  have len: "Suc i + length vs \<le> length (d[i := reread v (d ! i)])" using Cons.prems by simp
  show ?case
    using Cons.IH [OF len] Cons.prems by (auto simp: nth_list_update nth_Cons' less_Suc_eq_le not_le dest: le_antisym)
qed

lemma parse_settings_text:
  assumes "length d = 57" and "length old = 57" and "list_all2 (value_ok ft vg) kTable d"
  shows "parse_text ft vg (settings_text ft d) old = (map2 reread d old, word_of_nat (lost d))"
proof -
  let ?ls = "row_lines ft [] True (zip kTable d)"
  have "list_all (\<lambda>(e, v). row_ok e \<and> value_ok ft vg e v) (zip kTable d)"
    using assms(1,3) table_rows_ok by (auto simp: list_all_length list_all2_conv_all_nth length_table)
  from row_lines_clean [OF this] have clean: "\<forall>l \<in> set ?ls. clean l" by blast
  have body: "settings_text ft d = concat (map (\<lambda>l. l @ [CHR 0x0A]) ?ls)"
    by (simp add: settings_text_def render_rows_lines)
  have "\<forall>c \<in> set (settings_text ft d). c \<noteq> CHR 0x00"
    using clean unfolding body by (auto simp: clean_def list_all_iff)
  then have whole: "takeWhile (\<lambda>c. c \<noteq> CHR 0x00) (settings_text ft d) = settings_text ft d"
    by (simp add: takeWhile_eq_all_conv)
  have toks: "tokens {CHR 0x0D, CHR 0x0A} (settings_text ft d) = filter (\<lambda>l. l \<noteq> []) ?ls"
    unfolding body using clean by (intro tokens_lines) (auto simp: clean_def list_all_iff)
  have "\<forall>j < length d. value_ok ft vg (kTable ! (0 + j)) (d ! j)"
    using assms(1,3) by (simp add: list_all2_conv_all_nth length_table)
  then have "parse_text ft vg (settings_text ft d) old = (reread_from 0 d old, word_of_nat (lost d))"
    using fold_rows [of 0 d ft vg old "[]" True 0] assms(1,2)
    by (simp add: parse_text_def whole toks)
  moreover have "reread_from 0 d old = map2 reread d old"
    using nth_reread_from [of 0 d old] assms(1,2) by (intro nth_equalityI) auto
  ultimately show ?thesis by simp
qed

lemma format_small: "value_ok ft vg e v \<Longrightarrow> length (format_entry ft v) \<le> max 31 (se_size e)"
  by (cases v) (auto simp: value_ok_def format_entry_def)

lemma row_lines_small:
  "list_all (\<lambda>(e, v). value_ok ft vg e v \<and> length (se_module e) < 20 \<and> length (se_key e) < 25 \<and> se_size e \<le> 64) rows \<Longrightarrow>
   length (render_rows ft current first rows) \<le> 113 * length rows"
proof (induction ft current first rows rule: render_rows.induct)
  case (1 ft current first)
  then show ?case by simp
next
  case (2 ft current first e v rows)
  have "length (format_entry ft v) \<le> 64" using "2.prems" format_small [of ft vg e v] by auto
  moreover have "length (render_rows ft (se_module e) False rows) \<le> 113 * length rows"
    using "2.IH" "2.prems" by simp
  ultimately show ?case using "2.prems" by auto
qed

text \<open>So the text of any settings that fit their rows is shorter than the read buffer.\<close>

lemma settings_text_small:
  assumes "list_all2 (value_ok ft vg) kTable d"
  shows "length (settings_text ft d) < ROBOT_SETTINGS_FILE_MAX_BYTES"
proof -
  have len: "length d = 57" using list_all2_lengthD [OF assms] length_table by simp
  have "list_all (\<lambda>e. length (se_module e) < 20 \<and> length (se_key e) < 25 \<and> se_size e \<le> 64) kTable"
    by (simp add: kTable_def row_def)
  then have "list_all (\<lambda>(e, v). value_ok ft vg e v \<and> length (se_module e) < 20 \<and> length (se_key e) < 25 \<and>
      se_size e \<le> 64) (zip kTable d)"
    using assms len by (auto simp: list_all_length list_all2_conv_all_nth length_table)
  from row_lines_small [OF this, of "[]" True] show ?thesis
    by (simp add: settings_text_def len length_table ROBOT_SETTINGS_FILE_MAX_BYTES_def)
qed

section \<open>Saving and loading over any store of text\<close>

context text_store
begin

lemma save_then_load:
  assumes "save_settings ft usable put sd r = (True, sd', r1)"
    and "length (rs_data r) = 57" and "length (rs_data r2) = 57"
    and "list_all2 (value_ok ft vg) kTable (rs_data r)"
  shows "load_settings ft vg usable fetch put sd' r2 =
    (True, word_of_nat (lost (rs_data r)), sd', r2\<lparr>rs_data := map2 reread (rs_data r) (rs_data r2)\<rparr>)"
proof -
  have sd: "usable sd" and p: "put (settings_text ft (rs_data r)) sd = (True, sd')"
    using assms(1) by (auto simp: save_settings_def split: if_splits prod.splits)
  have "usable sd'" using write_usable [OF p] sd by simp
  moreover have "fetch (ROBOT_SETTINGS_FILE_MAX_BYTES - 1) sd' = Some (settings_text ft (rs_data r))"
    by (rule read_written [OF p]) (use settings_text_small [OF assms(4)] in \<open>simp_all add: ROBOT_SETTINGS_FILE_MAX_BYTES_def\<close>)
  ultimately show ?thesis
    using parse_settings_text [OF assms(2,3,4)] by (simp add: load_settings_def parse_file_def)
qed

text \<open>Right after a save the report finds no difference but the fields the file lost.\<close>

lemma save_then_diff:
  assumes "save_settings ft usable put sd r = (True, sd', r1)"
    and "length (rs_data r) = 57" and "list_all2 (value_ok ft vg) kTable (rs_data r)"
    and "lost (rs_data r) = 0"
  shows "diff_settings ft vg usable fetch sd' r = Some ''differences=0''"
proof -
  have sd: "usable sd" and p: "put (settings_text ft (rs_data r)) sd = (True, sd')"
    using assms(1) by (auto simp: save_settings_def split: if_splits prod.splits)
  have "usable sd'" using write_usable [OF p] sd by simp
  moreover have "fetch (ROBOT_SETTINGS_FILE_MAX_BYTES - 1) sd' = Some (settings_text ft (rs_data r))"
    by (rule read_written [OF p]) (use settings_text_small [OF assms(3)] in \<open>simp_all add: ROBOT_SETTINGS_FILE_MAX_BYTES_def\<close>)
  moreover have "map2 reread (rs_data r) (default_settings ft) = rs_data r"
    using assms(2,4) by (intro nth_equalityI) (auto simp: lost_def reread_def filter_empty_conv)
  moreover have "List.map_filter (diff_row ft) (zip (zip kTable (rs_data r)) (rs_data r)) = []"
    by (auto simp: map_filter_def diff_row_def filter_empty_conv in_set_zip)
  ultimately show ?thesis
    using parse_settings_text [OF assms(2) length_default assms(3), of ft]
    by (simp add: diff_settings_def parse_file_def show_dec.simps [of 0] digit_char_def)
qed

end

text \<open>On the card.\<close>

abbreviation save_to_card ::
    "'f float_text \<Rightarrow> sd_card \<Rightarrow> ('f, 'w) robot_settings \<Rightarrow> bool \<times> sd_card \<times> ('f, 'w) robot_settings" where
  "save_to_card ft \<equiv> save_settings ft sd_mounted (write_text ROBOT_SETTINGS_FILE)"

abbreviation load_from_sd ::
    "'f float_text \<Rightarrow> (int \<Rightarrow> bool) \<Rightarrow> sd_card \<Rightarrow> ('f, 'w) robot_settings \<Rightarrow>
     bool \<times> u16 \<times> sd_card \<times> ('f, 'w) robot_settings" where
  "load_from_sd ft vg \<equiv> load_settings ft vg sd_mounted (read_text ROBOT_SETTINGS_FILE) (write_text ROBOT_SETTINGS_FILE)"

text \<open>C18: Settings survive a reboot: after a successful save, a later load, into whatever values the
  object then has, restores every field exactly, provided each value fits its row and floats print
  and read back as themselves; the text always fits the read buffer.  The exception is an
  empty string, which is written but not accepted back: that field keeps the value it had, and it
  is counted among the ignored lines.\<close>

theorem settings_survive_reboot:
  assumes "save_to_card ft sd r = (True, sd', r1)"
    and "length (rs_data r) = 57" and "length (rs_data r2) = 57"
    and "list_all2 (value_ok ft vg) kTable (rs_data r)"
  shows "\<exists>d. load_from_sd ft vg sd' r2 =
      (True, word_of_nat (length (filter (\<lambda>v. v = VStr []) (rs_data r))), sd', r2\<lparr>rs_data := d\<rparr>) \<and>
    length d = 57 \<and>
    (\<forall>i < 57. d ! i = (if rs_data r ! i = VStr [] then rs_data r2 ! i else rs_data r ! i)) \<and>
    rs_save_revision r1 = rs_save_revision r + 1"
proof -
  have "rs_save_revision r1 = rs_save_revision r + 1"
    using assms(1) by (auto simp: save_settings_def split: if_splits prod.splits)
  then show ?thesis
    using card_text.save_then_load [OF assms] assms(2,3)
    by (intro exI [of _ "map2 reread (rs_data r) (rs_data r2)"]) (auto simp: lost_def reread_def)
qed

text \<open>Setting a value: refused for an empty one, and otherwise only that field changes.\<close>

lemma empty_value_refused: "set_setting ft vg m k (Some []) r = (False, r)"
  by (simp add: set_setting_def parse_into_def split: option.split)

lemma set_changes_one:
  assumes "set_setting ft vg m k v r = (True, r')" and "length (rs_data r) = 57"
  shows "\<exists>i x. find_setting m k = Some i \<and> parse_into ft vg (kTable ! i) v = Some x \<and>
    get_setting ft m k r' = Some (format_entry ft x) \<and> (\<forall>j. j \<noteq> i \<longrightarrow> rs_data r' ! j = rs_data r ! j)"
proof -
  obtain i x where i: "find_setting m k = Some i" and x: "parse_into ft vg (kTable ! i) v = Some x"
    and r': "r' = r\<lparr>rs_data := (rs_data r)[i := x]\<rparr>"
    using assms(1) by (auto simp: set_setting_def split: option.splits)
  have "i < 57" using i
    by (auto simp: find_setting_def length_table split: option.splits dest: find_row_some)
  then show ?thesis using i x assms(2) by (simp add: r' get_setting_def)
qed

section \<open>Witness: the factory settings\<close>

text \<open>Floats as their text.\<close>

definition text_floats :: "string float_text" where
  "text_floats = \<lparr>ft_show = id, ft_read = (\<lambda>s. Some (s, [])), ft_literal = id\<rparr>"

definition demo_card :: sd_card where
  "demo_card = \<lparr>sd_mounted = True, sd_mount_point = ''/sdcard'', sd_stream = None,
     sd_disk = \<lparr>dk_files = (\<lambda>_. None), dk_room = 8191, dk_fault = False\<rparr>\<rparr>"

lemma default_ok: "list_all2 (value_ok text_floats (\<lambda>_. True)) kTable (default_settings text_floats)"
  by (simp add: kTable_def default_settings_def row_def value_ok_def text_floats_def clean_def)

definition demo_settings :: "(string, unit) robot_settings" where
  "demo_settings = new_settings text_floats"

lemma demo_save:
  "\<exists>sd'. save_to_card text_floats demo_card demo_settings =
     (True, sd', demo_settings\<lparr>rs_save_revision := 1\<rparr>)"
proof -
  have "length (settings_text text_floats (default_settings text_floats)) \<le> 8191"
    using settings_text_small [OF default_ok] by (simp add: ROBOT_SETTINGS_FILE_MAX_BYTES_def)
  then show ?thesis
    by (simp add: save_settings_def write_text_def write_file_def make_path_def demo_card_def
        ROBOT_SETTINGS_FILE_def MAX_PATH_LENGTH_def fopen_write_def file_size_def write_opened_def
        fwrite_def Let_def demo_settings_def new_settings_def)
qed

lemma settings_survive_reboot_witness:
  "\<exists>sd' d. load_from_sd text_floats (\<lambda>_. True) sd' demo_settings =
      (True, 2, sd', demo_settings\<lparr>rs_data := d\<rparr>) \<and> d ! 2 = VU32 1000"
proof -
  obtain sd' where sv: "save_to_card text_floats demo_card demo_settings =
      (True, sd', demo_settings\<lparr>rs_save_revision := 1\<rparr>)"
    using demo_save by blast
  have "length (filter (\<lambda>v. v = VStr []) (default_settings text_floats)) = 2"
    "default_settings text_floats ! 2 = VU32 1000"
    by (simp_all add: default_settings_def)
  moreover have "length (rs_data demo_settings) = 57"
    "rs_data demo_settings = default_settings text_floats"
    by (simp_all add: demo_settings_def new_settings_def)
  ultimately have "\<exists>d. load_from_sd text_floats (\<lambda>_. True) sd' demo_settings =
      (True, 2, sd', demo_settings\<lparr>rs_data := d\<rparr>) \<and> length d = 57 \<and>
      (\<forall>i < 57. d ! i = default_settings text_floats ! i)"
    using settings_survive_reboot [OF sv, of demo_settings "\<lambda>_. True"] default_ok by auto
  then show ?thesis using \<open>default_settings text_floats ! 2 = VU32 1000\<close> by fastforce
qed

end
