(* ===== verification/Flags.thy ===== *)
theory Flags
  imports Complex_Main Prelude
begin

text \<open>
  \<^verbatim>\<open>lib/Flags/\<close>: eight flags in an octet, each with the time it was set and a time limit after
  which it clears itself, and on top of them input flags, scaled output flags and PWM values.

  The clock is the argument \<open>now\<close>, the 32-bit milliseconds every operation reads.  The gains of the
  output flags are single precision floats that are only compared and stored: rationals, the
  infinities and not-a-number.
\<close>

section \<open>State\<close>

definition MAX_FLAGS :: nat where "MAX_FLAGS = 8"

record flags =
  fl_all :: u8
  fl_time :: "u32 list"
  fl_limit :: "u32 list"

definition new_flags :: "u32 \<Rightarrow> flags" where
  "new_flags time_limit = \<lparr>fl_all = 0, fl_time = replicate MAX_FLAGS 0,
     fl_limit = replicate MAX_FLAGS time_limit\<rparr>"

definition valid_index :: "nat \<Rightarrow> bool" where "valid_index i \<longleftrightarrow> i < MAX_FLAGS"

definition get_flags :: "flags \<Rightarrow> u8" where "get_flags f = fl_all f"

definition flag_on :: "nat \<Rightarrow> flags \<Rightarrow> bool" where "flag_on i f \<longleftrightarrow> bit (fl_all f) i"

text \<open>Clearing what has lasted longer than its limit, in the order of the flags.\<close>

definition refresh_flag :: "u32 \<Rightarrow> nat \<Rightarrow> flags \<Rightarrow> flags" where
  "refresh_flag now i f =
     (if bit (fl_all f) i \<and> now - fl_time f ! i > fl_limit f ! i
      then f\<lparr>fl_all := unset_bit i (fl_all f)\<rparr> else f)"

definition refresh_flags :: "u32 \<Rightarrow> flags \<Rightarrow> flags" where
  "refresh_flags now f = fold (refresh_flag now) [0..<MAX_FLAGS] f"

definition raise :: "u32 \<Rightarrow> nat \<Rightarrow> flags \<Rightarrow> flags" where
  "raise now i f = f\<lparr>fl_time := (fl_time f)[i := now], fl_all := set_bit i (fl_all f)\<rparr>"

section \<open>Input flags\<close>

definition in_set_limit :: "nat \<Rightarrow> u32 \<Rightarrow> flags \<Rightarrow> flags" where
  "in_set_limit i t f = (if \<not> valid_index i then f else f\<lparr>fl_limit := (fl_limit f)[i := t]\<rparr>)"

definition in_set_limits :: "u32 \<Rightarrow> flags \<Rightarrow> flags" where
  "in_set_limits t f = f\<lparr>fl_limit := replicate MAX_FLAGS t\<rparr>"

definition in_set_flag :: "u32 \<Rightarrow> nat \<Rightarrow> flags \<Rightarrow> flags" where
  "in_set_flag now i f = (if \<not> valid_index i then f else raise now i f)"

definition handle_update :: "u32 \<Rightarrow> nat \<Rightarrow> flags \<Rightarrow> flags" where
  "handle_update now i f =
     (if \<not> valid_index i then f
      else if \<not> (now - fl_time f ! i \<ge> fl_limit f ! i) then f
      else raise now i f)"

section \<open>Output flags\<close>

datatype real32 = NaN | NegInf | PosInf | Val rat

fun less_real32 :: "real32 \<Rightarrow> real32 \<Rightarrow> bool" where
  "less_real32 NaN y = False"
| "less_real32 NegInf y = (y \<noteq> NaN \<and> y \<noteq> NegInf)"
| "less_real32 PosInf y = False"
| "less_real32 (Val a) y = (case y of Val b \<Rightarrow> a < b | PosInf \<Rightarrow> True | _ \<Rightarrow> False)"

text \<open>What is relied on of rounding a result to a \<open>float\<close>: it is monotone, and a number of at most 24
  significant bits is kept.\<close>

definition float_rounding :: "(rat \<Rightarrow> rat) \<Rightarrow> bool" where
  "float_rounding rnd \<longleftrightarrow> (\<forall>x y. x \<le> y \<longrightarrow> rnd x \<le> rnd y) \<and>
     (\<forall>n k. 0 \<le> n \<and> n \<le> 2 ^ 24 \<and> k \<le> 3 \<longrightarrow> rnd (of_int (n * 2 ^ k)) = of_int (n * 2 ^ k))"

lemma rounding_mono: "\<lbrakk>float_rounding rnd; x \<le> y\<rbrakk> \<Longrightarrow> rnd x \<le> rnd y"
  by (simp add: float_rounding_def)

lemma rounding_int: "\<lbrakk>float_rounding rnd; 0 \<le> n; n \<le> 2 ^ 24\<rbrakk> \<Longrightarrow> rnd (of_int n) = of_int n"
  unfolding float_rounding_def using mult_1_right power_0 by (metis zero_le)

lemma rounding_int8: "\<lbrakk>float_rounding rnd; 0 \<le> n; n \<le> 2 ^ 24\<rbrakk> \<Longrightarrow> rnd (of_int (n * 8)) = of_int (n * 8)"
  unfolding float_rounding_def
  by (drule conjunct2, drule spec [of _ n], drule spec [of _ 3]) simp

lemma rounding_zero: "float_rounding rnd \<Longrightarrow> rnd 0 = 0"
  using rounding_int [of rnd 0] by simp

record out_flags =
  of_flags :: flags
  of_gains :: "real32 list"

definition new_out_flags :: out_flags where
  "new_out_flags = \<lparr>of_flags = new_flags 100, of_gains = replicate MAX_FLAGS (Val 1)\<rparr>"

definition out_set_flag :: "u32 \<Rightarrow> nat \<Rightarrow> u32 \<Rightarrow> out_flags \<Rightarrow> out_flags" where
  "out_set_flag now i t out =
     (if \<not> valid_index i then out
      else out\<lparr>of_flags := (raise now i (of_flags out))\<lparr>fl_limit := (fl_limit (of_flags out))[i := t]\<rparr>\<rparr>)"

definition set_gain :: "nat \<Rightarrow> real32 \<Rightarrow> out_flags \<Rightarrow> out_flags" where
  "set_gain i gain out =
     (if \<not> valid_index i then out
      else let g = (if less_real32 gain (Val 0) then Val 0
                    else if less_real32 (Val 1) gain then Val 1 else gain)
        in out\<lparr>of_gains := (of_gains out)[i := g]\<rparr>)"

definition out_value :: "nat \<Rightarrow> out_flags \<Rightarrow> real32" where
  "out_value i out = (if \<not> valid_index i then Val 0
     else if flag_on i (of_flags out) then of_gains out ! i else Val 0)"

definition get_gain :: "nat \<Rightarrow> out_flags \<Rightarrow> real32" where
  "get_gain i out = (if valid_index i then of_gains out ! i else Val 0)"

definition out_refresh :: "u32 \<Rightarrow> out_flags \<Rightarrow> out_flags" where
  "out_refresh now out = out\<lparr>of_flags := refresh_flags now (of_flags out)\<rparr>"

section \<open>PWM\<close>

text \<open>The argument is an \<open>int8_t\<close>, the stored values are \<open>int16_t\<close>.\<close>

record pwm_flags =
  pw_flags :: flags
  pw_values :: "int list"

definition new_pwm_flags :: pwm_flags where
  "new_pwm_flags = \<lparr>pw_flags = new_flags 100, pw_values = replicate MAX_FLAGS 0\<rparr>"

definition pwm_set :: "u32 \<Rightarrow> nat \<Rightarrow> u8 \<Rightarrow> u32 \<Rightarrow> pwm_flags \<Rightarrow> pwm_flags" where
  "pwm_set now i v t p =
     (if \<not> valid_index i then p
      else let v1 = (if sint v > 100 then 100 else sint v); v2 = (if v1 < -100 then -100 else v1)
        in p\<lparr>pw_values := (pw_values p)[i := v2],
             pw_flags := (raise now i (pw_flags p))\<lparr>fl_limit := (fl_limit (pw_flags p))[i := t]\<rparr>\<rparr>)"

text \<open>Reading an inactive value also forgets it.\<close>

definition pwm_get :: "nat \<Rightarrow> pwm_flags \<Rightarrow> int \<times> pwm_flags" where
  "pwm_get i p =
     (if \<not> valid_index i then (0, p)
      else let v = (if flag_on i (pw_flags p) then pw_values p ! i else 0)
        in (v, p\<lparr>pw_values := (pw_values p)[i := v]\<rparr>))"

definition pwm_refresh :: "u32 \<Rightarrow> pwm_flags \<Rightarrow> pwm_flags" where
  "pwm_refresh now p = p\<lparr>pw_flags := refresh_flags now (pw_flags p)\<rparr>"

section \<open>Facts\<close>

definition flags_ok :: "flags \<Rightarrow> bool" where
  "flags_ok f \<longleftrightarrow> length (fl_time f) = MAX_FLAGS \<and> length (fl_limit f) = MAX_FLAGS"

lemma refresh_flag_frame [frame_simps]:
  "fl_time (refresh_flag now i f) = fl_time f" "fl_limit (refresh_flag now i f) = fl_limit f"
  by (simp_all add: refresh_flag_def)

lemma refresh_flag_bit:
  "j < 8 \<Longrightarrow> bit (fl_all (refresh_flag now i f)) j \<longleftrightarrow>
     bit (fl_all f) j \<and> \<not> (j = i \<and> now - fl_time f ! i > fl_limit f ! i)"
  by (auto simp: refresh_flag_def bit_simps)

lemma fold_refresh:
  "distinct is \<Longrightarrow> j < 8 \<Longrightarrow>
   fl_time (fold (refresh_flag now) is f) = fl_time f \<and>
   fl_limit (fold (refresh_flag now) is f) = fl_limit f \<and>
   (bit (fl_all (fold (refresh_flag now) is f)) j \<longleftrightarrow>
     bit (fl_all f) j \<and> \<not> (j \<in> set is \<and> now - fl_time f ! j > fl_limit f ! j))"
proof (induction "is" arbitrary: f)
  case (Cons i "is")
  then show ?case by (auto simp: frame_simps refresh_flag_bit)
qed simp

text \<open>A refresh keeps exactly the flags that are within their limit.\<close>

lemma refresh_flags_on:
  assumes "i < 8"
  shows "flag_on i (refresh_flags now f) \<longleftrightarrow> flag_on i f \<and> now - fl_time f ! i \<le> fl_limit f ! i"
  using fold_refresh [of "[0..<8]" i now f] assms
  by (auto simp: refresh_flags_def flag_on_def MAX_FLAGS_def)

lemma refresh_flags_frame [frame_simps]:
  "fl_time (refresh_flags now f) = fl_time f" "fl_limit (refresh_flags now f) = fl_limit f"
  using fold_refresh [of "[0..<8]" 0 now f] by (simp_all add: refresh_flags_def MAX_FLAGS_def)

lemma raise_on: "j < 8 \<Longrightarrow> i < 8 \<Longrightarrow> flag_on j (raise now i f) \<longleftrightarrow> j = i \<or> flag_on j f"
  by (auto simp: raise_def flag_on_def bit_simps)

section \<open>The PWM values as a dead man's switch\<close>

text \<open>What may happen to the motors' values from the outside.\<close>

datatype pwm_call = PwmSet u32 nat u8 u32 | PwmGet nat | PwmRefresh u32

fun pwm_step :: "pwm_call \<Rightarrow> pwm_flags \<Rightarrow> pwm_flags" where
  "pwm_step (PwmSet now i v t) p = pwm_set now i v t p"
| "pwm_step (PwmGet i) p = snd (pwm_get i p)"
| "pwm_step (PwmRefresh now) p = pwm_refresh now p"

definition touches :: "nat \<Rightarrow> pwm_call \<Rightarrow> bool" where
  "touches i call = (case call of PwmSet now j v t \<Rightarrow> j = i | _ \<Rightarrow> False)"

definition pwm_ok :: "pwm_flags \<Rightarrow> bool" where
  "pwm_ok p \<longleftrightarrow> flags_ok (pw_flags p) \<and> length (pw_values p) = MAX_FLAGS \<and>
     (\<forall>v \<in> set (pw_values p). -100 \<le> v \<and> v \<le> 100)"

lemma pwm_ok_new: "pwm_ok new_pwm_flags"
  by (simp add: pwm_ok_def new_pwm_flags_def flags_ok_def new_flags_def)

lemma values_update:
  "\<forall>v \<in> set xs. P v \<Longrightarrow> P x \<Longrightarrow> \<forall>v \<in> set (xs[i := x]). P v"
  using set_update_subset_insert by fastforce

lemma pwm_ok_step: "pwm_ok p \<Longrightarrow> pwm_ok (pwm_step call p)"
proof (cases call)
  case (PwmSet now i v t)
  assume "pwm_ok p"
  then show ?thesis
    unfolding PwmSet pwm_step.simps pwm_set_def Let_def pwm_ok_def
    by (auto simp: flags_ok_def raise_def dest!: set_update_subset_insert [THEN subsetD])
next
  case (PwmGet i)
  assume ok: "pwm_ok p"
  show ?thesis
  proof (cases "valid_index i")
    case True
    then have "pw_values p ! i \<in> set (pw_values p)" using ok by (simp add: pwm_ok_def valid_index_def)
    then show ?thesis
      using ok unfolding PwmGet pwm_step.simps pwm_get_def Let_def pwm_ok_def
      by (auto dest!: set_update_subset_insert [THEN subsetD])
  next
    case False
    then show ?thesis using ok by (simp add: PwmGet pwm_get_def)
  qed
next
  case (PwmRefresh now)
  assume "pwm_ok p"
  then show ?thesis by (simp add: PwmRefresh pwm_refresh_def pwm_ok_def flags_ok_def frame_simps)
qed

lemma pwm_ok_run: "pwm_ok p \<Longrightarrow> pwm_ok (fold pwm_step calls p)"
  by (induction calls arbitrary: p) (auto intro: pwm_ok_step)

lemma untouched:
  assumes "i < 8" and "\<not> touches i call"
  shows "fl_time (pw_flags (pwm_step call p)) ! i = fl_time (pw_flags p) ! i \<and>
    fl_limit (pw_flags (pwm_step call p)) ! i = fl_limit (pw_flags p) ! i \<and>
    (flag_on i (pw_flags (pwm_step call p)) \<longrightarrow>
       flag_on i (pw_flags p) \<and> pw_values (pwm_step call p) ! i = pw_values p ! i)"
proof (cases call)
  case (PwmSet now j v t)
  then have "j \<noteq> i" using assms(2) by (simp add: touches_def)
  then show ?thesis
    by (auto simp: PwmSet pwm_set_def Let_def raise_def flag_on_def bit_simps)
next
  case (PwmGet j)
  then show ?thesis
    by (cases "j = i") (auto simp: pwm_get_def Let_def)
next
  case (PwmRefresh now)
  then show ?thesis
    using assms(1) by (simp add: pwm_refresh_def frame_simps refresh_flags_on)
qed

lemma untouched_run:
  "\<forall>call \<in> set calls. \<not> touches i call \<Longrightarrow> i < 8 \<Longrightarrow>
   fl_time (pw_flags (fold pwm_step calls p)) ! i = fl_time (pw_flags p) ! i \<and>
   fl_limit (pw_flags (fold pwm_step calls p)) ! i = fl_limit (pw_flags p) ! i \<and>
   (flag_on i (pw_flags (fold pwm_step calls p)) \<longrightarrow>
      flag_on i (pw_flags p) \<and> pw_values (fold pwm_step calls p) ! i = pw_values p ! i)"
proof (induction calls arbitrary: p)
  case (Cons call calls)
  then show ?case using untouched [of i call p] by auto
qed simp

text \<open>A motor command is a dead man's switch.  Whatever else is set, read or refreshed in
  between, unless the same motor is commanded again: once a refresh happens later than the time
  limit of the command, reading the motor gives zero; before that it gives the command, cut to
  -100..100, or zero.  Every value stored is always within -100..100.\<close>

theorem pwm_dead_man_switch:
  assumes "pwm_ok p" and "i < 8" and "\<forall>call \<in> set calls. \<not> touches i call"
    and "\<forall>call \<in> set calls'. \<not> touches i call"
    and "q = fold pwm_step calls (pwm_set t0 i v limit p)"
  shows "fst (pwm_get i q) \<in> {0, max (-100) (min 100 (sint v))} \<and>
    (\<forall>now. now - t0 > limit \<longrightarrow> fst (pwm_get i (fold pwm_step calls' (pwm_refresh now q))) = 0) \<and>
    (\<forall>x \<in> set (pw_values q). -100 \<le> x \<and> x \<le> 100)"
proof -
  let ?p = "pwm_set t0 i v limit p"
  have i: "valid_index i" using assms(2) by (simp add: valid_index_def MAX_FLAGS_def)
  have start: "fl_time (pw_flags ?p) ! i = t0" "fl_limit (pw_flags ?p) ! i = limit"
      "pw_values ?p ! i = max (-100) (min 100 (sint v))"
    using assms(1,2) i
    by (auto simp: pwm_set_def Let_def raise_def pwm_ok_def flags_ok_def MAX_FLAGS_def max_def min_def)
  note run = untouched_run [OF assms(3,2), of ?p, folded assms(5), unfolded start]
  have val: "fst (pwm_get i q) \<in> {0, max (-100) (min 100 (sint v))}"
    using run i by (auto simp: pwm_get_def Let_def)
  have late: "fst (pwm_get i (fold pwm_step calls' (pwm_refresh now q))) = 0" if "now - t0 > limit" for now
  proof -
    have "\<not> flag_on i (pw_flags (pwm_refresh now q))"
      using refresh_flags_on [OF assms(2), of now "pw_flags q"] run that
      by (auto simp: pwm_refresh_def)
    then have "\<not> flag_on i (pw_flags (fold pwm_step calls' (pwm_refresh now q)))"
      using untouched_run [OF assms(4,2), of "pwm_refresh now q"] by blast
    then show ?thesis by (simp add: pwm_get_def Let_def)
  qed
  have "pwm_ok ?p" using pwm_ok_step [OF assms(1), of "PwmSet t0 i v limit"] by simp
  then have "pwm_ok q" unfolding assms(5) by (rule pwm_ok_run)
  then show ?thesis using val late by (auto simp: pwm_ok_def)
qed

theorem pwm_dead_man_switch_witness:
  "fst (pwm_get 1 (fold pwm_step [PwmSet 60 0 5 10, PwmGet 1] (pwm_set 50 1 120 100 new_pwm_flags)))
     \<in> {0, 100} \<and>
   fst (pwm_get 1 (fold pwm_step [PwmGet 2] (pwm_refresh 151
     (fold pwm_step [PwmSet 60 0 5 10, PwmGet 1] (pwm_set 50 1 120 100 new_pwm_flags))))) = 0"
proof -
  note * = pwm_dead_man_switch [of new_pwm_flags 1 "[PwmSet 60 0 5 10, PwmGet 1]" "[PwmGet 2]"
      "fold pwm_step [PwmSet 60 0 5 10, PwmGet 1] (pwm_set 50 1 120 100 new_pwm_flags)" 50 120 100,
      OF pwm_ok_new]
  have m: "max (-100) (min 100 (sint (120 :: u8))) = (100 :: int)" by simp
  show ?thesis
    using * unfolding m by (simp add: touches_def del: fold_simps)
qed

end
