(* ===== verification/Shell_Queue.thy ===== *)
theory Shell_Queue
  imports Btp_Command Bounded_Fifo Job_Scheduler
begin

text \<open>
  The queue of command lines between every producer of the robot and the shell task
  (\<open>receivedDataQueue\<close> in \<^verbatim>\<open>utils/BallyRobot/\<close>), and the two producers inside the firmware:
  jobs and scripts (\<open>submitLocalCommand\<close>), and the terminal (\<open>submitTerminalCommand\<close>).

  The queue is FreeRTOS's: bounded, first in first out, and a send without waiting time is refused
  when it is full.  Before the queue has been created the handle is null, here \<open>None\<close>.
\<close>

definition kLocalCommandSlot :: u8 where "kLocalCommandSlot = 0xFF"
definition kTerminalCommandSlot :: u8 where "kTerminalCommandSlot = 0xFE"
definition kCommandQueueLength :: nat where "kCommandQueueLength = 10"

record queued_command =
  qc_cache_slot :: u8
  qc_text :: string
  qc_terminal_source :: u32
  qc_terminal_boot :: u32
  qc_from_tcp :: bool
  qc_tcp_generation :: u32
  qc_from_ble :: bool
  qc_ble_generation :: u32
  qc_from_serial :: bool
  qc_serial_generation :: u32

type_synonym command_queue = "queued_command list option"

definition blank_command :: queued_command where
  "blank_command = \<lparr>qc_cache_slot = 0, qc_text = [], qc_terminal_source = 0, qc_terminal_boot = 0,
     qc_from_tcp = False, qc_tcp_generation = 0, qc_from_ble = False, qc_ble_generation = 0,
     qc_from_serial = False, qc_serial_generation = 0\<rparr>"

definition queue_send :: "queued_command \<Rightarrow> queued_command list \<Rightarrow> queued_command list option" where
  "queue_send c q = (if length q < kCommandQueueLength then Some (q @ [c]) else None)"

definition queue_receive :: "queued_command list \<Rightarrow> (queued_command \<times> queued_command list) option" where
  "queue_receive q = (case q of [] \<Rightarrow> None | c # q' \<Rightarrow> Some (c, q'))"

definition submit_command :: "queued_command \<Rightarrow> string option \<Rightarrow> command_queue \<Rightarrow> bool \<times> command_queue" where
  "submit_command proto line q =
     (case line of
        None \<Rightarrow> (False, q)
      | Some l \<Rightarrow>
          if l = [] then (False, q)
          else (case q of
             None \<Rightarrow> (False, q)
           | Some cs \<Rightarrow>
               if length l > kMaxShellCommandSize then (False, q)
               else (case queue_send (proto\<lparr>qc_text := l\<rparr>) cs of
                       None \<Rightarrow> (False, q)
                     | Some cs' \<Rightarrow> (True, Some cs'))))"

definition submit_local_command :: "string option \<Rightarrow> command_queue \<Rightarrow> bool \<times> command_queue" where
  "submit_local_command line q = submit_command (blank_command\<lparr>qc_cache_slot := kLocalCommandSlot\<rparr>) line q"

definition submit_terminal_command ::
    "u32 \<Rightarrow> u32 \<Rightarrow> string option \<Rightarrow> command_queue \<Rightarrow> bool \<times> command_queue" where
  "submit_terminal_command source boot line q =
     submit_command (blank_command\<lparr>qc_cache_slot := kTerminalCommandSlot,
        qc_terminal_source := source, qc_terminal_boot := boot\<rparr>) line q"

text \<open>The executor of the jobs: the static wrapper handed to \<open>JobScheduler::configure\<close>.\<close>

definition submit_local_static :: "command_queue submit_fn" where
  "submit_local_static q line = submit_local_command (Some line) q"

text \<open>The queue keeps the laws of the bounded FIFO.\<close>

interpretation shell_queue: bounded_fifo "\<lambda>q. length q \<le> kCommandQueueLength" "\<lambda>q. q"
    kCommandQueueLength queue_send queue_receive "\<lambda>_. True"
  by unfold_locales (auto simp: queue_send_def queue_receive_def split: list.splits)

lemma submit_local_iff:
  "submit_local_command (Some l) (Some q) =
     (if l \<noteq> [] \<and> length l \<le> kMaxShellCommandSize \<and> length q < kCommandQueueLength
      then (True, Some (q @ [blank_command\<lparr>qc_cache_slot := kLocalCommandSlot, qc_text := l\<rparr>]))
      else (False, Some q))"
  by (simp add: submit_local_command_def submit_command_def queue_send_def)

lemma submit_local_long:
  "length l > kMaxShellCommandSize \<Longrightarrow> submit_local_command (Some l) q = (False, q)"
  by (simp add: submit_local_command_def submit_command_def split: option.split)

end
