(* ===== verification/Script_Runner.thy ===== *)
theory Script_Runner
  imports Shell_Queue SD_Card C_Text
begin

text \<open>
  The script runner of \<^verbatim>\<open>utils/BallyRobot/BallyRobot.cpp\<close> (\<open>startScript\<close>, \<open>pollScript\<close>):
  a file of command lines read whole from the card and handed to the shell queue, one line per pass
  of the routine task.

  The buffer is the file's octets, NULs included; \<open>pollScript\<close> trims a line in place, so blanks at
  the end of a line it looked at have become NULs when it comes back to it.  Where the lines go is
  an argument \<open>submit\<close> over a context, as for the jobs.  What the runner logs is the list of notes
  each operation returns.
\<close>

section \<open>State\<close>

definition kScriptMaxBytes :: nat where "kScriptMaxBytes = 2048"

record script =
  sc_buffer :: string
  sc_cursor :: nat
  sc_line :: u16
  sc_active :: bool

datatype script_note = ScriptTruncated string | ScriptLineIgnored nat | ScriptFinished u16

definition new_script :: script where
  "new_script = \<lparr>sc_buffer = [], sc_cursor = 0, sc_line = 0, sc_active = False\<rparr>"

text \<open>The size is the length of the buffer; the NUL the code writes behind it is not part of it.\<close>

definition start_script :: "string option \<Rightarrow> sd_card \<Rightarrow> script \<Rightarrow> bool \<times> script_note list \<times> script" where
  "start_script path sd s =
     (case path of
        None \<Rightarrow> (False, [], s)
      | Some p \<Rightarrow>
          if p = [] \<or> \<not> is_mounted sd \<or> \<not> file_exists (Some p) sd then (False, [], s)
          else (case read_file (Some p) kScriptMaxBytes sd of
                  None \<Rightarrow> (False, [], s)
                | Some t \<Rightarrow>
                    (True, if length t \<ge> kScriptMaxBytes then [ScriptTruncated p] else [],
                     \<lparr>sc_buffer = t, sc_cursor = 0, sc_line = 0, sc_active = True\<rparr>)))"

section \<open>One line\<close>

definition newline :: "char \<Rightarrow> bool" where
  "newline c \<longleftrightarrow> c = CHR 0x0A \<or> c = CHR 0x0D"

definition line_length :: "nat \<Rightarrow> string \<Rightarrow> nat" where
  "line_length start b = length (takeWhile (\<lambda>c. \<not> newline c) (drop start b))"

text \<open>Trimming: blanks before the line are stepped over, those after it are overwritten.\<close>

definition lead :: "string \<Rightarrow> string" where
  "lead seg = takeWhile is_blank seg"

definition body :: "string \<Rightarrow> string" where
  "body seg = dropWhile is_blank seg"

definition trim_tail :: "string \<Rightarrow> string" where
  "trim_tail t = rev (dropWhile is_blank (rev t))"

definition trimmed :: "string \<Rightarrow> string" where
  "trimmed seg = trim_tail (body seg)"

text \<open>The C string at the start of the line.\<close>

definition line_text :: "string \<Rightarrow> string" where
  "line_text seg = takeWhile (\<lambda>c. c \<noteq> CHR 0x00) (trimmed seg)"

definition blanked :: "string \<Rightarrow> string" where
  "blanked seg = lead seg @ trimmed seg @ replicate (length (body seg) - length (trimmed seg)) (CHR 0x00)"

definition runnable :: "string \<Rightarrow> bool" where
  "runnable l \<longleftrightarrow> l \<noteq> [] \<and> l ! 0 \<noteq> CHR ''#''"

text \<open>Behind the line: a carriage return, then a line feed, each if it is there.\<close>

definition skip_char :: "char \<Rightarrow> string \<Rightarrow> nat \<Rightarrow> nat" where
  "skip_char c b i = (if i < length b \<and> b ! i = c then Suc i else i)"

definition after_line :: "string \<Rightarrow> nat \<Rightarrow> nat" where
  "after_line b e = skip_char (CHR 0x0A) b (skip_char (CHR 0x0D) b e)"

lemma after_line_ge: "e \<le> after_line b e"
  by (simp add: after_line_def skip_char_def)

lemma after_line_progress:
  assumes "start < length b"
  shows "start < after_line b (start + line_length start b)"
proof (cases "line_length start b")
  case 0
  then have "newline (b ! start)"
    using assms by (auto simp: line_length_def Cons_nth_drop_Suc [symmetric] split: if_splits)
  then show ?thesis using 0 assms by (auto simp: after_line_def skip_char_def newline_def)
next
  case (Suc n)
  then show ?thesis using after_line_ge [of "start + Suc n" b] by simp
qed

section \<open>One pass\<close>

text \<open>The line at the cursor, where it ends, and the buffer after it has been looked at.\<close>

definition line_seg :: "script \<Rightarrow> string" where
  "line_seg s = take (line_length (sc_cursor s) (sc_buffer s)) (drop (sc_cursor s) (sc_buffer s))"

definition line_end :: "script \<Rightarrow> nat" where
  "line_end s = sc_cursor s + line_length (sc_cursor s) (sc_buffer s)"

definition trim_line :: "script \<Rightarrow> script" where
  "trim_line s = s\<lparr>sc_buffer := take (sc_cursor s) (sc_buffer s) @ blanked (line_seg s) @
     drop (line_end s) (sc_buffer s)\<rparr>"

definition pass_line :: "script \<Rightarrow> script" where
  "pass_line s = (trim_line s)\<lparr>sc_line := sc_line s + 1,
     sc_cursor := after_line (sc_buffer (trim_line s)) (line_end s)\<rparr>"

lemma length_trim_tail: "length (trim_tail t) \<le> length t"
  using length_dropWhile_le [of is_blank "rev t"] by (simp add: trim_tail_def)

lemma length_blanked [simp]: "length (blanked seg) = length seg"
proof -
  have "length (lead seg) + length (body seg) = length seg"
    unfolding lead_def body_def by (metis length_append takeWhile_dropWhile_id)
  then show ?thesis
    using length_trim_tail [of "body seg"] by (simp add: blanked_def trimmed_def)
qed

lemma line_fits: "sc_cursor s < length (sc_buffer s) \<Longrightarrow> line_end s \<le> length (sc_buffer s)"
  using length_takeWhile_le [of "\<lambda>c. \<not> newline c" "drop (sc_cursor s) (sc_buffer s)"]
  by (simp add: line_length_def line_end_def)

lemma length_line_seg:
  "sc_cursor s < length (sc_buffer s) \<Longrightarrow> length (line_seg s) = line_end s - sc_cursor s"
  using line_fits [of s] by (simp add: line_seg_def line_end_def)

lemma trim_line_buffer:
  assumes "sc_cursor s < length (sc_buffer s)"
  shows "length (sc_buffer (trim_line s)) = length (sc_buffer s)"
    "drop (line_end s) (sc_buffer (trim_line s)) = drop (line_end s) (sc_buffer s)"
proof -
  have le: "sc_cursor s \<le> line_end s" by (simp add: line_end_def)
  show "length (sc_buffer (trim_line s)) = length (sc_buffer s)"
    "drop (line_end s) (sc_buffer (trim_line s)) = drop (line_end s) (sc_buffer s)"
    using assms line_fits [OF assms] length_line_seg [OF assms] le by (simp_all add: trim_line_def)
qed

text \<open>Where the next line starts depends on what is behind this one only.\<close>

lemma after_line_drop:
  assumes "e \<le> length b"
  shows "after_line b e = e + after_line (drop e b) 0"
proof -
  have nth: "drop e b ! i = b ! (e + i)" for i using assms by simp
  show ?thesis
    by (auto simp: after_line_def skip_char_def nth less_diff_conv add.commute)
qed

lemma after_line_trim:
  assumes "sc_cursor s < length (sc_buffer s)"
  shows "after_line (sc_buffer (trim_line s)) (line_end s) = after_line (sc_buffer s) (line_end s)"
  using after_line_drop [of "line_end s"] trim_line_buffer [OF assms] line_fits [OF assms] by metis

lemma pass_line_progress:
  assumes "sc_cursor s < length (sc_buffer s)"
  shows "sc_cursor s < sc_cursor (pass_line s) \<and>
    length (sc_buffer (pass_line s)) = length (sc_buffer s)"
  using assms after_line_progress [OF assms] after_line_trim [OF assms] trim_line_buffer [OF assms]
  by (simp add: pass_line_def line_end_def)

function feed_script ::
    "('q \<Rightarrow> string \<Rightarrow> bool \<times> 'q) \<Rightarrow> script \<Rightarrow> 'q \<Rightarrow> script_note list \<Rightarrow>
     script \<times> 'q \<times> script_note list" where
  "feed_script submit s q ns =
     (if \<not> sc_cursor s < length (sc_buffer s)
      then (s\<lparr>sc_active := False\<rparr>, q, ns @ [ScriptFinished (sc_line s)])
      else
        let l = line_text (line_seg s)
        in if \<not> runnable l then feed_script submit (pass_line s) q ns
           else if is_job_command (Some l)
           then feed_script submit (pass_line s) q (ns @ [ScriptLineIgnored (unat (sc_line s) + 1)])
           else (case submit q l of
                   (submitted, q') \<Rightarrow> (if submitted then pass_line s else trim_line s, q', ns)))"
  by pat_completeness auto
termination
  by (relation "measure (\<lambda>(submit, s, q, ns). length (sc_buffer s) - sc_cursor s)")
    (use pass_line_progress in \<open>auto intro: diff_less_mono2\<close>)

declare feed_script.simps [simp del]

definition poll_script ::
    "('q \<Rightarrow> string \<Rightarrow> bool \<times> 'q) \<Rightarrow> script \<Rightarrow> 'q \<Rightarrow> script \<times> 'q \<times> script_note list" where
  "poll_script submit s q = (if \<not> sc_active s then (s, q, []) else feed_script submit s q [])"

section \<open>What a script still has to say\<close>

definition wanted :: "string \<Rightarrow> bool" where
  "wanted l \<longleftrightarrow> runnable l \<and> \<not> is_job_command (Some l)"

definition script_commands :: "string \<Rightarrow> string list" where
  "script_commands b = filter wanted (map line_text (tokens {CHR 0x0A, CHR 0x0D} b))"

definition pending :: "script \<Rightarrow> string list" where
  "pending s = script_commands (drop (sc_cursor s) (sc_buffer s))"

lemma newline_in: "newline c \<longleftrightarrow> c \<in> {CHR 0x0A, CHR 0x0D}"
  by (auto simp: newline_def)

lemma not_wanted_Nil [simp]: "\<not> wanted []" "\<not> runnable []"
  by (simp_all add: wanted_def runnable_def)

lemma line_text_Nil [simp]: "line_text [] = []"
  by (simp add: line_text_def trimmed_def trim_tail_def body_def)

lemma script_commands_line:
  assumes "\<forall>c \<in> set seg. \<not> newline c" and "rest = [] \<or> newline (rest ! 0)"
  shows "script_commands (seg @ rest) =
    (if wanted (line_text seg) then [line_text seg] else []) @ script_commands rest"
proof (cases "seg = []")
  case False
  show ?thesis
  proof (cases rest)
    case Nil
    have "tokens {CHR 0x0A, CHR 0x0D} seg = [seg]"
      using assms(1) False by (intro tokens_last) (auto simp: newline_in)
    then show ?thesis using Nil by (simp add: script_commands_def)
  next
    case (Cons d ds)
    then have "tokens {CHR 0x0A, CHR 0x0D} (seg @ rest) = seg # tokens {CHR 0x0A, CHR 0x0D} ds"
      using assms False by (auto intro!: tokens_line simp: newline_in)
    moreover have "tokens {CHR 0x0A, CHR 0x0D} rest = tokens {CHR 0x0A, CHR 0x0D} ds"
      using assms(2) Cons by (auto intro!: tokens_delimiter simp: newline_in)
    ultimately show ?thesis by (simp add: script_commands_def)
  qed
qed simp

lemma script_commands_skip:
  "newline c \<Longrightarrow> script_commands (c # b) = script_commands b"
  by (simp add: script_commands_def newline_in tokens_delimiter)

lemma script_commands_after: "script_commands (drop (after_line b 0) b) = script_commands b"
proof -
  have one: "script_commands (drop (skip_char c b i) b) = script_commands (drop i b)" if "newline c" for c i
    using that by (auto simp: skip_char_def Cons_nth_drop_Suc [symmetric] script_commands_skip)
  show ?thesis by (simp add: after_line_def one newline_def)
qed

section \<open>Looking at a line does not change it\<close>

lemma body_first: "body seg \<noteq> [] \<Longrightarrow> \<not> is_blank (body seg ! 0)"
  unfolding body_def using hd_dropWhile [of is_blank seg] by (metis hd_conv_nth)

lemma trim_tail_split: "t = trim_tail t @ rev (takeWhile is_blank (rev t))"
  unfolding trim_tail_def by (metis rev_append rev_rev_ident takeWhile_dropWhile_id)

lemma trim_tail_idem: "trim_tail (trim_tail t) = trim_tail t"
  by (simp add: trim_tail_def dropWhile_idem)

lemma trim_tail_nonblank: "t \<noteq> [] \<Longrightarrow> \<not> is_blank (t ! 0) \<Longrightarrow> trim_tail t \<noteq> [] \<and> trim_tail t ! 0 = t ! 0"
proof -
  assume t: "t \<noteq> []" "\<not> is_blank (t ! 0)"
  have "trim_tail t \<noteq> []"
  proof
    assume "trim_tail t = []"
    then have "\<forall>c \<in> set t. is_blank c" by (simp add: trim_tail_def)
    then show False using t by (cases t) auto
  qed
  then show ?thesis using trim_tail_split [of t] by (metis hd_append2 hd_conv_nth t(1))
qed

lemma line_text_blanked: "line_text (blanked seg) = line_text seg"
proof (cases "body seg = []")
  case True
  then have "lead seg = seg"
    using takeWhile_dropWhile_id [of is_blank seg] by (simp add: lead_def body_def)
  then have "blanked seg = seg"
    using True by (simp add: blanked_def trimmed_def trim_tail_def)
  then show ?thesis by simp
next
  case False
  let ?k = "length (body seg) - length (trimmed seg)"
  note nb = trim_tail_nonblank [OF False body_first [OF False], folded trimmed_def]
  have start: "body (blanked seg) = trimmed seg @ replicate ?k (CHR 0x00)"
  proof -
    have "\<forall>c \<in> set (lead seg). is_blank c" by (auto simp: lead_def dest: set_takeWhileD)
    then have "body (blanked seg) = body (trimmed seg @ replicate ?k (CHR 0x00))"
      unfolding blanked_def body_def by (simp add: dropWhile_append)
    then show ?thesis
      using nb body_first [OF False] by (cases "trimmed seg") (auto simp: body_def)
  qed
  have "trimmed (blanked seg) = trimmed seg @ replicate ?k (CHR 0x00)"
  proof (cases ?k)
    case 0
    then show ?thesis using start trim_tail_idem by (simp add: trimmed_def)
  next
    case (Suc n)
    then have "trim_tail (trimmed seg @ replicate ?k (CHR 0x00)) =
        trimmed seg @ replicate ?k (CHR 0x00)"
      by (simp add: trim_tail_def dropWhile_append is_blank_def)
    then show ?thesis unfolding trimmed_def [of "blanked seg"] start .
  qed
  then show ?thesis
    by (auto simp: line_text_def takeWhile_append intro: takeWhile_eq_all_conv [THEN iffD2, symmetric])
qed

section \<open>A pass, abstractly\<close>

lemma line_parts:
  assumes "sc_cursor s < length (sc_buffer s)"
  shows "drop (sc_cursor s) (sc_buffer s) = line_seg s @ drop (line_end s) (sc_buffer s)"
    "\<forall>c \<in> set (line_seg s). \<not> newline c"
    "drop (line_end s) (sc_buffer s) = [] \<or> newline (drop (line_end s) (sc_buffer s) ! 0)"
proof -
  let ?d = "drop (sc_cursor s) (sc_buffer s)"
  have seg: "line_seg s = takeWhile (\<lambda>c. \<not> newline c) ?d"
    by (simp add: line_seg_def line_length_def takeWhile_eq_take [symmetric])
  have rest: "drop (line_end s) (sc_buffer s) = dropWhile (\<lambda>c. \<not> newline c) ?d"
    by (simp add: line_end_def line_length_def dropWhile_eq_drop add.commute)
  show "?d = line_seg s @ drop (line_end s) (sc_buffer s)"
    unfolding seg rest by simp
  show "\<forall>c \<in> set (line_seg s). \<not> newline c"
    unfolding seg by (auto dest: set_takeWhileD)
  show "drop (line_end s) (sc_buffer s) = [] \<or> newline (drop (line_end s) (sc_buffer s) ! 0)"
    unfolding rest using hd_dropWhile [of "\<lambda>c. \<not> newline c" ?d]
    by (cases "dropWhile (\<lambda>c. \<not> newline c) ?d") auto
qed

lemma pending_line:
  assumes "sc_cursor s < length (sc_buffer s)"
  shows "pending s = (if wanted (line_text (line_seg s)) then [line_text (line_seg s)] else []) @
    pending (pass_line s)"
proof -
  have "pending (pass_line s) =
      script_commands (drop (after_line (drop (line_end s) (sc_buffer s)) 0) (drop (line_end s) (sc_buffer s)))"
    using after_line_trim [OF assms] after_line_drop [OF line_fits [OF assms]]
      arg_cong [OF trim_line_buffer(2) [OF assms], of "drop (after_line (drop (line_end s) (sc_buffer s)) 0)"]
    by (simp add: pending_def pass_line_def add.commute)
  then show ?thesis
    unfolding script_commands_after
    using script_commands_line [OF line_parts(2,3) [OF assms]] line_parts(1) [OF assms]
    by (simp add: pending_def)
qed

lemma newline_blanked: "\<forall>c \<in> set seg. \<not> newline c \<Longrightarrow> \<forall>c \<in> set (blanked seg). \<not> newline c"
proof -
  assume seg: "\<forall>c \<in> set seg. \<not> newline c"
  have "set (lead seg) \<subseteq> set seg" by (auto simp: lead_def dest: set_takeWhileD)
  moreover have "set (trimmed seg) \<subseteq> set seg"
    by (auto simp: trimmed_def trim_tail_def body_def dest!: set_dropWhileD)
  ultimately show ?thesis using seg by (auto simp: blanked_def newline_def)
qed

lemma pending_trim:
  assumes "sc_cursor s < length (sc_buffer s)"
  shows "pending (trim_line s) = pending s"
proof -
  have "drop (sc_cursor s) (sc_buffer (trim_line s)) = blanked (line_seg s) @ drop (line_end s) (sc_buffer s)"
    using assms by (simp add: trim_line_def)
  moreover have "sc_cursor (trim_line s) = sc_cursor s" by (simp add: trim_line_def)
  ultimately show ?thesis
    using script_commands_line [OF newline_blanked [OF line_parts(2) [OF assms]] line_parts(3) [OF assms]]
      script_commands_line [OF line_parts(2,3) [OF assms]] line_parts(1) [OF assms]
    by (simp add: pending_def line_text_blanked)
qed

lemma pass_line_active [simp]: "sc_active (pass_line s) = sc_active s" "sc_active (trim_line s) = sc_active s"
  by (simp_all add: pass_line_def trim_line_def)

lemma feed_script_spec:
  "feed_script submit s q ns = (s', q', ns') \<Longrightarrow>
   (case pending s of
      [] \<Rightarrow> \<not> sc_active s' \<and> q' = q
    | c # cs \<Rightarrow> sc_active s' = sc_active s \<and> q' = snd (submit q c) \<and>
        pending s' = (if fst (submit q c) then cs else c # cs))"
proof (induction submit s q ns arbitrary: s' q' ns' rule: feed_script.induct)
  case (1 submit s q ns)
  let ?l = "line_text (line_seg s)"
  show ?case
  proof (cases "sc_cursor s < length (sc_buffer s)")
    case False
    then have "pending s = []" by (simp add: pending_def script_commands_def)
    then show ?thesis using "1.prems" False by (auto simp: feed_script.simps [of submit s])
  next
    case True
    note line = pending_line [OF True]
    consider (skip) "\<not> runnable ?l" | (job) "runnable ?l" "is_job_command (Some ?l)"
      | (run) "runnable ?l" "\<not> is_job_command (Some ?l)" by blast
    then show ?thesis
    proof cases
      case skip
      then show ?thesis
        using "1.IH"(1) [OF _ refl skip] "1.prems" True line
        by (simp add: feed_script.simps [of submit s] wanted_def split: list.splits)
    next
      case job
      then show ?thesis
        using "1.IH"(2) [OF _ refl _ job(2)] "1.prems" True line
        by (simp add: feed_script.simps [of submit s] wanted_def split: list.splits)
    next
      case run
      then show ?thesis
        using "1.prems" True line pending_trim [OF True]
        by (auto simp: feed_script.simps [of submit s] wanted_def split: prod.splits)
    qed
  qed
qed

text \<open>The runner as the list of commands it still has to give; \<open>None\<close> is no script.\<close>

definition script_abs :: "script \<Rightarrow> string list option" where
  "script_abs s = (if sc_active s then Some (pending s) else None)"

fun abs_poll :: "('q \<Rightarrow> string \<Rightarrow> bool \<times> 'q) \<Rightarrow> string list option \<Rightarrow> 'q \<Rightarrow> string list option \<times> 'q" where
  "abs_poll submit None q = (None, q)"
| "abs_poll submit (Some []) q = (None, q)"
| "abs_poll submit (Some (c # cs)) q =
     (case submit q c of (ok, q') \<Rightarrow> (Some (if ok then cs else c # cs), q'))"

text \<open>A pass of the script runner, over a buffer it edits in place, is a pass over the list of
  the commands left: it offers the first one, drops it if it was accepted and keeps it otherwise,
  and ends the script when none is left.  Comments, blank lines, surrounding blanks, job commands
  and any mix of line endings make no difference, and trimming a line never changes what a retry
  or a later line says.\<close>

theorem poll_script_refines_list:
  "(script_abs (fst (poll_script submit s q)), fst (snd (poll_script submit s q))) =
     abs_poll submit (script_abs s) q"
proof (cases "sc_active s")
  case True
  obtain s' q' ns' where run: "feed_script submit s q [] = (s', q', ns')" by (metis prod_cases3)
  show ?thesis
    using feed_script_spec [OF run] True run
    by (cases "pending s") (auto simp: poll_script_def script_abs_def split: prod.splits)
qed (simp add: poll_script_def script_abs_def)

section \<open>A whole run\<close>

text \<open>The lines go to the shell queue; \<open>given\<close> is the list of those it accepted.  Between two
  passes the queue is whatever \<open>env\<close> makes of it.\<close>

definition give :: "command_queue \<times> string list \<Rightarrow> string \<Rightarrow> bool \<times> command_queue \<times> string list" where
  "give qg l = (case submit_local_command (Some l) (fst qg) of (ok, q') \<Rightarrow>
     (ok, q', if ok then snd qg @ [l] else snd qg))"

fun script_run ::
    "(nat \<Rightarrow> command_queue \<Rightarrow> command_queue) \<Rightarrow> nat \<Rightarrow> script \<Rightarrow> command_queue \<times> string list \<Rightarrow>
     script \<times> command_queue \<times> string list" where
  "script_run env 0 s qg = (s, qg)"
| "script_run env (Suc n) s qg =
     (case poll_script give s (env 0 (fst qg), snd qg) of (s', qg', ns) \<Rightarrow>
        script_run (\<lambda>i. env (Suc i)) n s' qg')"

definition room :: "command_queue \<Rightarrow> bool" where
  "room q \<longleftrightarrow> (\<exists>cs. q = Some cs \<and> length cs < kCommandQueueLength)"

lemma give_room:
  "room q \<Longrightarrow> l \<noteq> [] \<Longrightarrow> length l \<le> kMaxShellCommandSize \<Longrightarrow>
   \<exists>q'. give (q, g) l = (True, q', g @ [l])"
  by (auto simp: give_def room_def submit_local_iff)

lemma give_cases:
  "(\<exists>q'. give (q, g) l = (True, q', g @ [l])) \<or> (\<exists>q'. give (q, g) l = (False, q', g))"
  by (auto simp: give_def split: prod.splits)

lemma wanted_nonempty: "c \<in> set (script_commands b) \<Longrightarrow> c \<noteq> []"
  by (auto simp: script_commands_def wanted_def runnable_def)

lemma poll_give:
  assumes "poll_script give s (q, g) = (s', (q', g'), ns)"
  shows "script_abs s \<in> {None, Some []} \<and> script_abs s' = None \<and> g' = g \<or>
    (\<exists>c cs. script_abs s = Some (c # cs) \<and>
      (script_abs s' = Some cs \<and> g' = g @ [c] \<or> script_abs s' = Some (c # cs) \<and> g' = g) \<and>
      (length c > kMaxShellCommandSize \<longrightarrow> script_abs s' = Some (c # cs)) \<and>
      (room q \<and> c \<noteq> [] \<and> length c \<le> kMaxShellCommandSize \<longrightarrow> script_abs s' = Some cs))"
proof -
  have step: "(script_abs s', q', g') = abs_poll give (script_abs s) (q, g)"
    using poll_script_refines_list [of give s "(q, g)"] assms by simp
  have long: "fst (give (q, g) c) = False" if "length c > kMaxShellCommandSize" for c
    using submit_local_long [OF that] by (simp add: give_def)
  show ?thesis
  proof (cases "script_abs s")
    case (Some l)
    then show ?thesis
      using step give_cases [of q g "hd l"] long [of "hd l"] give_room [of q "hd l" g]
      by (cases l) auto
  qed (use step in auto)
qed

definition left_over :: "script \<Rightarrow> string list" where
  "left_over s = (case script_abs s of None \<Rightarrow> [] | Some cs \<Rightarrow> cs)"

lemma script_run_order:
  "script_run env n s (q, g) = (s', q', g') \<Longrightarrow> g @ left_over s = g' @ left_over s'"
proof (induction n arbitrary: env s q g)
  case (Suc n)
  obtain s1 q1 g1 ns where poll: "poll_script give s (env 0 q, g) = (s1, (q1, g1), ns)"
    by (metis surj_pair)
  then show ?case
    using Suc poll_give [OF poll] by (fastforce simp: left_over_def)
qed simp

lemma script_run_done:
  "script_run env n s (q, g) = (s', q', g') \<Longrightarrow> script_abs s = Some cs \<Longrightarrow>
   \<forall>i q. room (env i q) \<Longrightarrow> \<forall>c \<in> set cs. c \<noteq> [] \<and> length c \<le> kMaxShellCommandSize \<Longrightarrow>
   length cs < n \<Longrightarrow> script_abs s' = None"
proof (induction n arbitrary: env s q g cs)
  case (Suc n)
  obtain s1 q1 g1 ns where poll: "poll_script give s (env 0 q, g) = (s1, (q1, g1), ns)"
    by (metis surj_pair)
  show ?case
  proof (cases cs)
    case Nil
    then have none: "script_abs s1 = None" using poll_give [OF poll] Suc.prems(2) by auto
    have "script_run (\<lambda>i. env (Suc i)) n s1 (q1, g1) = (s', q', g')" using Suc.prems(1) poll by simp
    then show ?thesis using none
    proof (induction n arbitrary: env s1 q1 g1)
      case (Suc n)
      obtain s2 q2 g2 ns2 where poll: "poll_script give s1 (env (Suc 0) q1, g1) = (s2, (q2, g2), ns2)"
        by (metis surj_pair)
      then show ?case using Suc poll_give [OF poll] by auto
    qed simp
  next
    case (Cons c ds)
    then have "script_abs s1 = Some ds" using poll_give [OF poll] Suc.prems(2-4) by auto
    then show ?thesis
      using Suc.IH [of "\<lambda>i. env (Suc i)" s1 q1 g1 ds] Suc.prems poll Cons by simp
  qed
qed simp

lemma script_run_stuck:
  "script_run env n s (q, g) = (s', q', g') \<Longrightarrow> script_abs s = Some (xs @ l # ys) \<Longrightarrow>
   length l > kMaxShellCommandSize \<Longrightarrow> \<exists>k \<le> length xs. script_abs s' = Some (drop k xs @ l # ys)"
proof (induction n arbitrary: env s q g xs)
  case (Suc n)
  obtain s1 q1 g1 ns where poll: "poll_script give s (env 0 q, g) = (s1, (q1, g1), ns)"
    by (metis surj_pair)
  have run: "script_run (\<lambda>i. env (Suc i)) n s1 (q1, g1) = (s', q', g')" using Suc.prems(1) poll by simp
  show ?case
  proof (cases "script_abs s1 = script_abs s")
    case True
    then show ?thesis using Suc.IH [OF run, of xs] Suc.prems by simp
  next
    case False
    then obtain x xs' where xs: "xs = x # xs'" and "script_abs s1 = Some (xs' @ l # ys)"
      using poll_give [OF poll] Suc.prems(2,3) by (cases xs) auto
    then obtain k where "k \<le> length xs'" "script_abs s' = Some (drop k xs' @ l # ys)"
      using Suc.IH [OF run, of xs'] Suc.prems(3) by auto
    then show ?thesis unfolding xs by (intro exI [of _ "Suc k"]) simp
  qed
qed (intro exI [of _ 0], simp)

lemma start_script_abs:
  assumes "start_script (Some p) sd s0 = (True, ns, s)"
    and "read_file (Some p) kScriptMaxBytes sd = Some t"
  shows "script_abs s = Some (script_commands t)"
  using assms by (auto simp: start_script_def script_abs_def pending_def split: if_splits)

section \<open>Demonstration files\<close>

definition demo_boot :: string where
  "demo_boot = ''# boot'' @ [CHR 0x0A] @ ''led on '' @ [CHR 0x0D, CHR 0x0A, CHR 0x0A] @ ''  job -list'' @
     [CHR 0x0A, CHR 0x09] @ ''wait 5''"

definition demo_long :: string where
  "demo_long = replicate 513 (CHR ''a'') @ [CHR 0x0A] @ ''led on''"

definition card_with :: "string \<Rightarrow> sd_card" where
  "card_with t = \<lparr>sd_mounted = True, sd_mount_point = ''/sdcard'', sd_stream = None,
     sd_disk = \<lparr>dk_files = [''/sdcard/boot'' \<mapsto> t], dk_room = 8191, dk_fault = False\<rparr>\<rparr>"

lemma card_with_path [simp]:
  "make_path (Some ''boot'') MAX_PATH_LENGTH (card_with t) = Some ''/sdcard/boot''"
  by (simp add: make_path_def card_with_def MAX_PATH_LENGTH_def)

lemma read_card_with: "n > 0 \<Longrightarrow> read_file (Some ''boot'') n (card_with t) = Some (take n t)"
  by (simp add: read_file_def) (simp add: card_with_def)

lemma start_card_with:
  "length t < kScriptMaxBytes \<Longrightarrow> start_script (Some ''boot'') (card_with t) s0 =
     (True, [], \<lparr>sc_buffer = t, sc_cursor = 0, sc_line = 0, sc_active = True\<rparr>)"
  by (simp add: start_script_def read_card_with file_exists_def kScriptMaxBytes_def is_mounted_def)
    (simp add: card_with_def)

lemma demo_boot_commands: "script_commands demo_boot = [''led on'', ''wait 5'']"
  by (simp add: script_commands_def demo_boot_def tokens.simps Let_def line_text_def trimmed_def
      trim_tail_def body_def is_blank_def wanted_def runnable_def is_job_command_def
      first_word_is_job_def ascii_lower_def)

lemma demo_long_commands: "script_commands demo_long = [] @ replicate 513 (CHR ''a'') # [''led on'']"
proof -
  have rep: "rev (replicate n c) = replicate n c" for n :: nat and c :: char by simp
  have l: "line_text (replicate 513 (CHR ''a'')) = replicate 513 (CHR ''a'')"
    by (simp add: line_text_def trimmed_def trim_tail_def body_def is_blank_def)
  have w: "wanted (replicate 513 (CHR ''a''))"
    by (simp add: wanted_def runnable_def is_job_command_def first_word_is_job_def ascii_lower_def
        is_blank_def numeral_eq_Suc)
  have "script_commands (CHR 0x0A # ''led on'') = [''led on'']"
    by (simp add: script_commands_def tokens.simps Let_def line_text_def trimmed_def
      trim_tail_def body_def is_blank_def wanted_def runnable_def is_job_command_def
      first_word_is_job_def ascii_lower_def)
  then show ?thesis
    using script_commands_line [of "replicate 513 (CHR ''a'')" "CHR 0x0A # ''led on''"] l w
    by (simp add: demo_long_def newline_def)
qed

text \<open>C19: Once a script is started, what the shell queue has accepted is at any time a prefix of
  the commands of the file (its first 2048 octets), each once and in the order of the lines,
  however the queue is drained and filled by others in between.  If the queue has room at every
  pass and no command is longer than the queue takes, the script is finished one pass after its
  last command, with every command accepted.\<close>

theorem script_runs_in_order:
  assumes "start_script (Some p) sd s0 = (True, ns, s)"
    and "read_file (Some p) kScriptMaxBytes sd = Some t"
    and "script_run env n s (q, []) = (s', q', given)"
  shows "(\<exists>rest. script_commands t = given @ rest) \<and>
    ((\<forall>i q. room (env i q)) \<and> (\<forall>l \<in> set (script_commands t). length l \<le> kMaxShellCommandSize) \<and>
       length (script_commands t) < n \<longrightarrow> \<not> sc_active s' \<and> given = script_commands t)"
proof -
  note abs = start_script_abs [OF assms(1,2)]
  have order: "script_commands t = given @ left_over s'"
    using script_run_order [OF assms(3)] abs by (simp add: left_over_def)
  moreover have "\<not> sc_active s' \<and> given = script_commands t"
    if "\<forall>i q. room (env i q)" "\<forall>l \<in> set (script_commands t). length l \<le> kMaxShellCommandSize"
      "length (script_commands t) < n"
  proof -
    have "script_abs s' = None"
      using script_run_done [OF assms(3) abs that(1) _ that(3)] that(2) wanted_nonempty by blast
    then show ?thesis using order by (auto simp: script_abs_def left_over_def split: if_splits)
  qed
  ultimately show ?thesis by blast
qed

theorem script_runs_in_order_witness:
  "\<exists>s s' q'. start_script (Some ''boot'') (card_with demo_boot) new_script = (True, [], s) \<and>
     script_run (\<lambda>_ _. Some []) 3 s (None, []) = (s', q', [''led on'', ''wait 5'']) \<and> \<not> sc_active s'"
proof -
  have len: "length demo_boot < kScriptMaxBytes" by (simp add: demo_boot_def kScriptMaxBytes_def)
  note start = start_card_with [OF len, of new_script]
  let ?s = "\<lparr>sc_buffer = demo_boot, sc_cursor = 0, sc_line = 0, sc_active = True\<rparr>"
  have read: "read_file (Some ''boot'') kScriptMaxBytes (card_with demo_boot) = Some demo_boot"
    using len read_card_with [of kScriptMaxBytes demo_boot] by (simp add: kScriptMaxBytes_def)
  obtain s' q' given where run: "script_run (\<lambda>_ _. Some []) 3 ?s (None, []) = (s', q', given)"
    by (metis surj_pair)
  have "room (Some [])" by (simp add: room_def kCommandQueueLength_def)
  then have "\<not> sc_active s' \<and> given = [''led on'', ''wait 5'']"
    using script_runs_in_order [OF start read run]
    by (simp add: demo_boot_commands kMaxShellCommandSize_def)
  then show ?thesis using start run by blast
qed

text \<open>A script with a command longer than the 512 characters the queue takes never ends: the
  refusal is taken for a full queue, so the line is offered again at every pass, for ever, and
  nothing behind it is ever accepted.\<close>

theorem long_script_line_never_ends:
  assumes "start_script (Some p) sd s0 = (True, ns, s)"
    and "read_file (Some p) kScriptMaxBytes sd = Some t"
    and "script_commands t = xs @ l # ys" and "length l > kMaxShellCommandSize"
    and "script_run env n s (q, []) = (s', q', given)"
  shows "sc_active s' \<and> given = take (length given) xs"
proof -
  obtain k where k: "k \<le> length xs" "script_abs s' = Some (drop k xs @ l # ys)"
    using script_run_stuck [OF assms(5) _ assms(4)] start_script_abs [OF assms(1,2)] assms(3) by auto
  have "xs @ l # ys = given @ drop k xs @ l # ys"
    using script_run_order [OF assms(5)] start_script_abs [OF assms(1,2)] assms(3) k(2)
    by (simp add: left_over_def)
  then have "xs = given @ drop k xs" by simp
  then have "take (length given) xs = given" by (metis append_eq_conv_conj)
  then show ?thesis using k(2) by (auto simp: script_abs_def split: if_splits)
qed

theorem long_script_line_never_ends_witness:
  "\<exists>s. start_script (Some ''boot'') (card_with demo_long) new_script = (True, [], s) \<and>
     (\<forall>n. \<exists>s' q'. script_run (\<lambda>_ _. Some []) n s (None, []) = (s', q', []) \<and> sc_active s')"
proof -
  have len: "length demo_long < kScriptMaxBytes" by (simp add: demo_long_def kScriptMaxBytes_def)
  note start = start_card_with [OF len, of new_script]
  let ?s = "\<lparr>sc_buffer = demo_long, sc_cursor = 0, sc_line = 0, sc_active = True\<rparr>"
  have read: "read_file (Some ''boot'') kScriptMaxBytes (card_with demo_long) = Some demo_long"
    using len read_card_with [of kScriptMaxBytes demo_long] by (simp add: kScriptMaxBytes_def)
  have "\<exists>s' q'. script_run (\<lambda>_ _. Some []) n ?s (None, []) = (s', q', []) \<and> sc_active s'" for n
  proof -
    obtain s' q' given where run: "script_run (\<lambda>_ _. Some []) n ?s (None, []) = (s', q', given)"
      by (metis surj_pair)
    show ?thesis
      using long_script_line_never_ends [OF start read demo_long_commands _ run] run
      by (simp add: kMaxShellCommandSize_def)
  qed
  then show ?thesis using start by blast
qed

end
