(* ===== verification/Job_Store.thy ===== *)
theory Job_Store
  imports Shell_Queue State_Machine SD_Card C_Text
begin

text \<open>
  Saving the jobs to the card and restoring them at boot (\<open>saveJobs\<close>, \<open>loadJobs\<close> in
  \<^verbatim>\<open>utils/BallyRobot/BallyRobot.cpp\<close>) and the shell module \<^verbatim>\<open>job\<close> of
  \<^verbatim>\<open>utils/BallyRobot/BallyRobotShell.cpp\<close>.

  The file is what the operations \<open>put\<close>, \<open>fetch\<close> and \<open>present\<close> of the locale \<open>text_file\<close> make
  of it.  A line is \<^verbatim>\<open>interval,<ms>,<times>,<command>\<close> or \<^verbatim>\<open>on_state,<name>,<command>\<close>; a job
  that fires once is not written.
\<close>

section \<open>Writing\<close>

definition JOB_SAVE_FILE :: string where "JOB_SAVE_FILE = ''jobs.conf''"

definition kJobSaveBufferBytes :: nat where
  "kJobSaveBufferBytes = kMaxJobs * (kMaxCommandLength + 48)"

definition job_line :: "job_view \<Rightarrow> string option" where
  "job_line v = (case view_kind v of
     Interval \<Rightarrow> Some (''interval,'' @ show_dec (unat (view_interval v)) @ '','' @
       show_dec (unat (view_remaining v)) @ '','' @ view_command v @ [CHR 0x0A])
   | OnStateEnter \<Rightarrow> Some (''on_state,'' @ state_to_string (view_state v) @ '','' @
       view_command v @ [CHR 0x0A])
   | Once \<Rightarrow> None)"

text \<open>The buffer so far and how many jobs are in it; a line that does not fit ends the loop.\<close>

fun write_job_lines :: "job_view list \<Rightarrow> string \<Rightarrow> nat \<Rightarrow> string \<times> nat" where
  "write_job_lines [] buf n = (buf, n)"
| "write_job_lines (v # vs) buf n =
     (case job_line v of
        None \<Rightarrow> write_job_lines vs buf n
      | Some l \<Rightarrow>
          if l = [] \<or> length l \<ge> kJobSaveBufferBytes - length buf then (buf, n)
          else write_job_lines vs (buf @ l) (Suc n))"

definition save_jobs ::
    "('s \<Rightarrow> bool) \<Rightarrow> (string \<Rightarrow> 's \<Rightarrow> bool \<times> 's) \<Rightarrow> 's \<Rightarrow> 'c scheduler \<Rightarrow>
     (nat \<times> nat) option \<times> 's" where
  "save_jobs mounted put sd s =
     (if \<not> mounted sd then (None, sd)
      else let views = list_jobs s kMaxJobs in
        case write_job_lines views [] 0 of (buf, persisted) \<Rightarrow>
          (case put buf sd of (ok, sd') \<Rightarrow>
             (if ok then Some (persisted, length views) else None, sd')))"

section \<open>Reading\<close>

definition comma :: char where "comma = CHR 0x2C"

definition before_comma :: "string \<Rightarrow> string" where
  "before_comma s = takeWhile (\<lambda>c. c \<noteq> comma) s"

definition behind_comma :: "string \<Rightarrow> string option" where
  "behind_comma s = (if comma \<in> set s then Some (tl (dropWhile (\<lambda>c. c \<noteq> comma) s)) else None)"

text \<open>One line, as the C string at its start.\<close>

definition load_line :: "string \<Rightarrow> 'c scheduler \<times> nat \<Rightarrow> 'c scheduler \<times> nat" where
  "load_line raw p = (case p of (s, restored) \<Rightarrow>
     let line = takeWhile (\<lambda>c. c \<noteq> CHR 0x00) raw in
     if line = [] then p
     else if take 9 line = ''interval,'' then
       (let rest = drop 9 line in
        case behind_comma rest of
          None \<Rightarrow> p
        | Some r1 \<Rightarrow>
            (case behind_comma r1 of
               None \<Rightarrow> p
             | Some command \<Rightarrow>
                 (case schedule_interval (strtoul10 (before_comma rest)) (strtoul10 (before_comma r1))
                         (Some command) s of
                    (Inr i, s') \<Rightarrow> (s', Suc restored)
                  | (Inl e, s') \<Rightarrow> (s', restored))))
     else if take 9 line = ''on_state,'' then
       (let rest = drop 9 line in
        case behind_comma rest of
          None \<Rightarrow> p
        | Some command \<Rightarrow>
            (case schedule_on_state (state_from_string (Some (before_comma rest))) (Some command) s of
               (Inr i, s') \<Rightarrow> (s', Suc restored)
             | (Inl e, s') \<Rightarrow> (s', restored)))
     else p)"

definition load_jobs ::
    "('s \<Rightarrow> bool) \<Rightarrow> ('s \<Rightarrow> bool) \<Rightarrow> (nat \<Rightarrow> 's \<Rightarrow> string option) \<Rightarrow> 's \<Rightarrow> 'c scheduler \<Rightarrow>
     nat option \<times> 'c scheduler" where
  "load_jobs mounted present fetch sd s =
     (if \<not> mounted sd \<or> \<not> present sd then (None, s)
      else case fetch kJobSaveBufferBytes sd of
        None \<Rightarrow> (None, s)
      | Some content \<Rightarrow>
          (case fold load_line (tokens {CHR 0x0A, CHR 0x0D} content) (s, 0) of
             (s', restored) \<Rightarrow> (Some restored, s')))"

section \<open>The file holds every job\<close>

text \<open>What makes a job the same job: its kind, its reps or its state, and its command.\<close>

datatype policy = Every u32 u32 string | At u8 string

definition policy_of :: "job \<Rightarrow> policy" where
  "policy_of j = (case job_kind j of
     OnStateEnter \<Rightarrow> At (job_state j) (job_command j)
   | _ \<Rightarrow> Every (job_interval j) (job_remaining j) (job_command j))"

definition persistent :: "'c scheduler \<Rightarrow> job list" where
  "persistent s = filter (\<lambda>j. job_active j \<and> job_kind j \<noteq> Once) (jobs s)"

text \<open>A command that stays on its line, and a state that has a name.\<close>

definition storable :: "job \<Rightarrow> bool" where
  "storable j \<longleftrightarrow> (\<forall>c \<in> set (job_command j). c \<noteq> CHR 0x0A \<and> c \<noteq> CHR 0x0D \<and> c \<noteq> CHR 0x00) \<and>
     (job_kind j = OnStateEnter \<longrightarrow> verify_state (job_state j))"

lemma length_show_u32: "length (show_dec (unat (w :: u32))) \<le> 10"
proof -
  have "unat w < 10 ^ Suc 9" using unsigned_less [of w, where 'a = nat] by simp
  from length_show_dec [OF this] show ?thesis by simp
qed

lemma length_state_to_string: "length (state_to_string w) \<le> 11"
  by (simp add: state_to_string_def)

lemma job_line_small:
  assumes "length (view_command v) \<le> kMaxCommandLength" and "job_line v = Some l"
  shows "l \<noteq> [] \<and> length l < kMaxCommandLength + 48"
  using assms length_show_u32 [of "view_interval v"] length_show_u32 [of "view_remaining v"]
    length_state_to_string [of "view_state v"]
  by (auto simp: job_line_def split: job_kind.splits)

lemma write_job_lines_all:
  assumes "\<forall>v \<in> set vs. length (view_command v) \<le> kMaxCommandLength"
    and "length buf \<le> k * (kMaxCommandLength + 48)" and "k + length vs \<le> kMaxJobs"
  shows "write_job_lines vs buf n =
    (buf @ concat (List.map_filter job_line vs), n + length (List.map_filter job_line vs))"
  using assms
proof (induction vs arbitrary: buf n k)
  case Nil
  then show ?case by (simp add: List.map_filter_simps)
next
  case (Cons v vs)
  show ?case
  proof (cases "job_line v")
    case None
    then show ?thesis using Cons.IH [of buf k n] Cons.prems by (simp add: List.map_filter_simps)
  next
    case (Some l)
    have l: "l \<noteq> []" "length l < kMaxCommandLength + 48"
      using job_line_small [OF _ Some] Cons.prems(1) by auto
    have k: "Suc k \<le> kMaxJobs" using Cons.prems(3) by simp
    then have "Suc k * (kMaxCommandLength + 48) \<le> kJobSaveBufferBytes"
      unfolding kJobSaveBufferBytes_def by (rule mult_le_mono1)
    then have "length l < kJobSaveBufferBytes - length buf"
      "length (buf @ l) \<le> Suc k * (kMaxCommandLength + 48)"
      using l(2) Cons.prems(2) by (simp_all add: algebra_simps)
    then show ?thesis
      using Cons.IH [of "buf @ l" "Suc k" "Suc n"] Cons.prems Some l
      by (simp add: List.map_filter_simps)
  qed
qed

section \<open>A line is read as the job it was written from\<close>

lemma list_views_active: "length (filter job_active js) \<le> n \<Longrightarrow> list_views js n = map view_of (filter job_active js)"
proof (induction js arbitrary: n)
  case (Cons j js)
  then show ?case by (cases n) auto
qed simp

lemma list_jobs_active:
  assumes "length (jobs s) = kMaxJobs"
  shows "list_jobs s kMaxJobs = map view_of (filter job_active (jobs s))"
proof -
  have "length (filter job_active (jobs s)) \<le> kMaxJobs"
    using length_filter_le [of job_active "jobs s"] assms by simp
  from list_views_active [OF this] show ?thesis by (simp add: list_jobs_def kMaxJobs_def)
qed

lemma state_back: "verify_state w \<Longrightarrow> state_from_string (Some (state_to_string w)) = w"
proof -
  assume "verify_state w"
  then have "unat w \<in> {1..9}" by (auto simp: verify_state_def NUMBER_OF_STATES_def word_less_nat_alt)
  then have "unat w = 1 \<or> unat w = 2 \<or> unat w = 3 \<or> unat w = 4 \<or> unat w = 5 \<or> unat w = 6 \<or>
      unat w = 7 \<or> unat w = 8 \<or> unat w = 9" by (simp add: atLeastAtMost_iff) linarith
  then have "w \<in> {1, 2, 3, 4, 5, 6, 7, 8, 9}"
    by (auto simp: word_unat_eq_iff)
  then have "\<exists>st. w = state_num st \<and> st \<noteq> NONE"
    by (auto intro: exI [of _ SETUP] exI [of _ WAIT] exI [of _ CALIBRATE] exI [of _ DEBUG]
        exI [of _ RUN] exI [of _ FINISH] exI [of _ TELEMETRY] exI [of _ ERROR] exI [of _ COMM_CONFIG])
  then show ?thesis using state_name_roundtrip by blast
qed

text \<open>The line of a job, without its line feed.\<close>

fun policy_line :: "policy \<Rightarrow> string" where
  "policy_line (Every ms reps c) = ''interval,'' @ show_dec (unat ms) @ comma # show_dec (unat reps) @ comma # c"
| "policy_line (At st c) = ''on_state,'' @ state_to_string st @ comma # c"

lemma job_line_policy:
  "job_line (view_of j) = (if job_kind j = Once then None else Some (policy_line (policy_of j) @ [CHR 0x0A]))"
  by (simp add: job_line_def view_of_def policy_of_def comma_def split: job_kind.split)

lemma saved_text:
  "List.map_filter job_line (map view_of (filter job_active js)) =
     map (\<lambda>l. l @ [CHR 0x0A])
       (map policy_line (map policy_of (filter (\<lambda>j. job_active j \<and> job_kind j \<noteq> Once) js)))"
  by (induction js) (simp_all add: List.map_filter_simps job_line_policy)

lemma field:
  assumes "comma \<notin> set xs"
  shows "before_comma (xs @ comma # ys) = xs" "behind_comma (xs @ comma # ys) = Some ys"
  using upto_char [OF assms] by (simp_all add: before_comma_def behind_comma_def)

lemma digits_no_comma: "comma \<notin> set (show_dec n)"
  using show_dec_digits [of comma n] by (auto simp: comma_def char_digit_def)

lemma state_no_comma: "comma \<notin> set (state_to_string w)"
  by (simp add: state_to_string_def comma_def)

fun restore :: "policy \<Rightarrow> 'c scheduler \<Rightarrow> (job_error + u8) \<times> 'c scheduler" where
  "restore (Every ms reps c) s = schedule_interval ms reps (Some c) s"
| "restore (At st c) s = schedule_on_state st (Some c) s"

fun policy_ok :: "policy \<Rightarrow> bool" where
  "policy_ok (Every ms reps c) \<longleftrightarrow> ms \<noteq> 0 \<and> c \<noteq> [] \<and> length c \<le> kMaxCommandLength \<and>
     \<not> first_word_is_job c \<and> (\<forall>x \<in> set c. x \<noteq> CHR 0x0A \<and> x \<noteq> CHR 0x0D \<and> x \<noteq> CHR 0x00)"
| "policy_ok (At st c) \<longleftrightarrow> verify_state st \<and> c \<noteq> [] \<and> length c \<le> kMaxCommandLength \<and>
     \<not> first_word_is_job c \<and> (\<forall>x \<in> set c. x \<noteq> CHR 0x0A \<and> x \<noteq> CHR 0x0D \<and> x \<noteq> CHR 0x00)"

lemma policy_line_chars:
  assumes "policy_ok p" and "x \<in> set (policy_line p)"
  shows "x \<noteq> CHR 0x0A \<and> x \<noteq> CHR 0x0D \<and> x \<noteq> CHR 0x00"
proof (cases p)
  case (Every ms reps c)
  then show ?thesis
    using assms digit_not_sign [OF show_dec_digits, of x] by (auto simp: comma_def)
next
  case (At st c)
  then show ?thesis
    using assms by (auto simp: comma_def state_to_string_def split: if_splits)
qed

lemma load_policy_line:
  assumes "policy_ok p"
  shows "load_line (policy_line p) (s, n) =
    (case restore p s of (Inr i, s') \<Rightarrow> (s', Suc n) | (Inl e, s') \<Rightarrow> (s', n))"
proof -
  have whole: "takeWhile (\<lambda>c. c \<noteq> CHR 0x00) (policy_line p) = policy_line p"
    using policy_line_chars [OF assms] by (auto simp: takeWhile_eq_all_conv)
  show ?thesis
    unfolding load_line_def prod.case Let_def whole
    using assms by (cases p) (simp_all add: field digits_no_comma state_no_comma strtoul10_show state_back)
qed

section \<open>Restoring into an empty table\<close>

lemma first_free_at: "\<forall>j \<in> set as. job_active j \<Longrightarrow> \<not> job_active b \<Longrightarrow> first_free (as @ b # bs) = Some (length as)"
  by (induction as) auto

lemma schedule_with_free:
  assumes "jobs s = as @ b # bs" and "\<forall>j \<in> set as. job_active j" and "\<not> job_active b"
    and "submit_hook s \<noteq> None" and "c \<noteq> []" "length c \<le> kMaxCommandLength" "\<not> first_word_is_job c"
  shows "\<exists>s'. schedule_with g (Some c) s = (Inr (next_id s), s') \<and> submit_hook s' = submit_hook s \<and>
    jobs s' = as @ g (empty_job\<lparr>job_active := True, job_id := next_id s, job_command := c\<rparr>) # bs"
proof -
  have "first_free (jobs s) = Some (length as)" using first_free_at assms(1-3) by simp
  then show ?thesis
    using assms by (auto simp: schedule_with_def allocate_def is_job_command_def update_job_def
        Option.is_none_def)
qed

lemma restore_free:
  assumes "jobs s = as @ b # bs" and "\<forall>j \<in> set as. job_active j" and "\<not> job_active b"
    and "submit_hook s \<noteq> None" and "policy_ok p"
  shows "\<exists>s' j. restore p s = (Inr (next_id s), s') \<and> submit_hook s' = submit_hook s \<and>
    jobs s' = as @ j # bs \<and> job_active j \<and> policy_of j = p \<and> job_fired j = 0 \<and> job_next j = 0"
proof (cases p)
  case (Every ms reps c)
  then show ?thesis
    using assms schedule_with_free [OF assms(1-4), of c "\<lambda>j. j\<lparr>job_kind := Interval, job_interval := ms, job_remaining := reps\<rparr>"]
    by (auto simp: schedule_as_with policy_of_def empty_job_def)
next
  case (At st c)
  then show ?thesis
    using assms schedule_with_free [OF assms(1-4), of c "\<lambda>j. j\<lparr>job_kind := OnStateEnter,
        job_state := st, job_interval := 0, job_remaining := 0\<rparr>"]
    by (auto simp: schedule_as_with policy_of_def empty_job_def)
qed

lemma load_lines_free:
  assumes "jobs s = as @ bs" and "\<forall>j \<in> set as. job_active j" and "\<forall>j \<in> set bs. \<not> job_active j"
    and "submit_hook s \<noteq> None" and "\<forall>p \<in> set ps. policy_ok p" and "length ps \<le> length bs"
  shows "\<exists>s' js. fold load_line (map policy_line ps) (s, n) = (s', n + length ps) \<and>
    submit_hook s' = submit_hook s \<and> jobs s' = as @ js @ drop (length ps) bs \<and>
    map policy_of js = ps \<and> (\<forall>j \<in> set js. job_active j \<and> job_fired j = 0 \<and> job_next j = 0)"
  using assms
proof (induction ps arbitrary: s as bs n)
  case Nil
  then show ?case by auto
next
  case (Cons p ps)
  then obtain b bs' where bs: "bs = b # bs'" by (cases bs) auto
  then obtain s1 j where s1: "restore p s = (Inr (next_id s), s1)" "submit_hook s1 = submit_hook s"
      "jobs s1 = (as @ [j]) @ bs'" "job_active j" "policy_of j = p" "job_fired j = 0" "job_next j = 0"
    using restore_free [of s as b bs' p] Cons.prems by auto
  obtain s' js where rest: "fold load_line (map policy_line ps) (s1, Suc n) = (s', Suc n + length ps)"
      "submit_hook s' = submit_hook s1" "jobs s' = (as @ [j]) @ js @ drop (length ps) bs'"
      "map policy_of js = ps" "\<forall>j \<in> set js. job_active j \<and> job_fired j = 0 \<and> job_next j = 0"
    using Cons.IH [of s1 "as @ [j]" bs' "Suc n"] Cons.prems s1 bs by auto
  have "load_line (policy_line p) (s, n) = (s1, Suc n)"
    using load_policy_line [of p s n] s1(1) Cons.prems(5) by simp
  then show ?case
    using rest s1 bs by (intro exI [of _ s'] exI [of _ "j # js"]) simp
qed

section \<open>The file as a client of the card\<close>

lemma policy_ok_job:
  assumes "job_ok j" and "job_active j" and "job_kind j \<noteq> Once" and "storable j"
  shows "policy_ok (policy_of j)"
  using assms by (auto simp: job_ok_def storable_def policy_of_def split: job_kind.splits)

lemma persistent_policies:
  assumes "sched_ok s" and "\<forall>j \<in> set (persistent s). storable j"
  shows "\<forall>p \<in> set (map policy_of (persistent s)). policy_ok p"
  using assms by (auto simp: persistent_def sched_ok_def intro: policy_ok_job)

lemma persistent_length: "sched_ok s \<Longrightarrow> length (persistent s) \<le> kMaxJobs"
  using length_filter_le [of "\<lambda>j. job_active j \<and> job_kind j \<noteq> Once" "jobs s"]
  by (simp add: persistent_def sched_ok_def)

lemma saved_buffer:
  assumes "sched_ok s"
  shows "write_job_lines (list_jobs s kMaxJobs) [] 0 =
    (concat (map (\<lambda>l. l @ [CHR 0x0A]) (map policy_line (map policy_of (persistent s)))), length (persistent s))"
proof -
  have len: "length (jobs s) = kMaxJobs" and ok: "\<forall>j \<in> set (jobs s). job_ok j"
    using assms by (auto simp: sched_ok_def)
  have "\<forall>v \<in> set (map view_of (filter job_active (jobs s))). length (view_command v) \<le> kMaxCommandLength"
    using ok by (auto simp: view_of_def job_ok_def)
  moreover have "length (map view_of (filter job_active (jobs s))) \<le> kMaxJobs"
    using length_filter_le [of job_active "jobs s"] len by simp
  ultimately have "write_job_lines (map view_of (filter job_active (jobs s))) [] 0 =
      (concat (List.map_filter job_line (map view_of (filter job_active (jobs s)))),
       length (List.map_filter job_line (map view_of (filter job_active (jobs s)))))"
    using write_job_lines_all [of _ "[]" 0 0] by simp
  then show ?thesis
    unfolding list_jobs_active [OF len] saved_text persistent_def by simp
qed

lemma saved_buffer_small:
  assumes "sched_ok s"
  shows "length (fst (write_job_lines (list_jobs s kMaxJobs) [] 0)) \<le> kJobSaveBufferBytes"
proof -
  have "length (fst (write_job_lines vs buf n)) \<le> kJobSaveBufferBytes"
    if "length buf \<le> kJobSaveBufferBytes" for vs buf n
    using that by (induction vs buf n rule: write_job_lines.induct) (auto split: option.split)
  then show ?thesis by simp
qed

lemma policy_line_nonempty [simp]: "policy_line p \<noteq> []"
  by (cases p) simp_all

lemma saved_tokens:
  assumes "\<forall>p \<in> set ps. policy_ok p"
  shows "tokens {CHR 0x0A, CHR 0x0D} (concat (map (\<lambda>l. l @ [CHR 0x0A]) (map policy_line ps))) =
    map policy_line ps"
  using tokens_lines [of "CHR 0x0A" "{CHR 0x0A, CHR 0x0D}" "map policy_line ps"]
    assms policy_line_chars by (auto simp: filter_id_conv)

context text_file
begin

lemma save_then_load_jobs:
  assumes "save_jobs usable put sd s = (Some (persisted, count), sd')"
    and "sched_ok s" and "\<forall>j \<in> set (persistent s). storable j"
    and "length (jobs s2) = kMaxJobs" and "\<forall>j \<in> set (jobs s2). \<not> job_active j" and "submit_hook s2 \<noteq> None"
  shows "\<exists>s3. load_jobs usable present fetch sd' s2 = (Some persisted, s3) \<and>
    persisted = length (persistent s) \<and>
    map policy_of (filter job_active (jobs s3)) = map policy_of (persistent s) \<and>
    (\<forall>j \<in> set (filter job_active (jobs s3)). job_fired j = 0 \<and> job_next j = 0)"
proof -
  let ?ps = "map policy_of (persistent s)"
  let ?t = "fst (write_job_lines (list_jobs s kMaxJobs) [] 0)"
  note buffer = saved_buffer [OF assms(2)]
  have put: "put ?t sd = (True, sd')" and us: "usable sd" and n: "persisted = length (persistent s)"
    using assms(1) buffer by (auto simp: save_jobs_def Let_def split: if_splits prod.splits)
  have "usable sd'" using write_usable [OF put] us by simp
  moreover have "present sd'" by (rule present_written [OF put])
  moreover have "fetch kJobSaveBufferBytes sd' = Some ?t"
    using read_written [OF put saved_buffer_small [OF assms(2)]]
    by (simp add: kJobSaveBufferBytes_def kMaxJobs_def)
  moreover note ok = persistent_policies [OF assms(2,3)]
  moreover obtain s3 js where load: "fold load_line (map policy_line ?ps) (s2, 0) = (s3, length ?ps)"
      "jobs s3 = js @ drop (length ?ps) (jobs s2)" "map policy_of js = ?ps"
      "\<forall>j \<in> set js. job_active j \<and> job_fired j = 0 \<and> job_next j = 0"
    using load_lines_free [of s2 "[]" "jobs s2" ?ps 0] assms(4-6) ok persistent_length [OF assms(2)]
    by auto
  ultimately have "load_jobs usable present fetch sd' s2 = (Some persisted, s3)"
    using n saved_tokens [OF ok] buffer by (auto simp: load_jobs_def)
  moreover have "filter job_active (jobs s3) = js"
    using load(2,4) assms(5) by (auto simp: filter_empty_conv filter_id_conv dest: in_set_dropD)
  ultimately show ?thesis using n load(3,4) by (intro exI [of _ s3]) simp
qed

end

text \<open>C20: Jobs survive a reboot: a save to the card that reports success, followed by a load into an
  empty configured table, brings back every active interval and state-entry job in the order of
  the slots, with the same period or state, the remaining count it had and the same command, not
  fired and not yet anchored to the clock; jobs that fire once are left out.  Both operations report
  the right number, the save buffer is never too small, and the card's content is otherwise as
  before the save.  Commands must not contain line ends or NULs.\<close>

theorem jobs_survive_reboot:
  assumes "save_jobs sd_mounted (write_text JOB_SAVE_FILE) sd s = (Some (persisted, count), sd')"
    and "sched_ok s" and "\<forall>j \<in> set (persistent s). storable j" and "submit_hook s2 \<noteq> None"
    and "length (jobs s2) = kMaxJobs" and "\<forall>j \<in> set (jobs s2). \<not> job_active j"
  shows "\<exists>s3. load_jobs sd_mounted (file_exists (Some JOB_SAVE_FILE)) (read_text JOB_SAVE_FILE) sd' s2 =
      (Some persisted, s3) \<and> persisted = length (persistent s) \<and>
    map policy_of (filter job_active (jobs s3)) = map policy_of (persistent s) \<and>
    (\<forall>j \<in> set (filter job_active (jobs s3)). job_fired j = 0 \<and> job_next j = 0)"
  by (rule card_file.save_then_load_jobs [OF assms(1-3,5,6,4)])

section \<open>Witness\<close>

definition demo_jobs :: "string list scheduler" where
  "demo_jobs = snd (schedule_once 50 (Some ''beep'') (snd (schedule_on_state 5 (Some ''led on, 3'')
     (snd (schedule_interval 1000 7 (Some ''ping'') (configure (Some accept_all) new_scheduler))))))"

lemma demo_jobs_ok: "sched_ok demo_jobs"
  unfolding demo_jobs_def by (intro inv_intros)

lemma demo_jobs_persistent:
  "map policy_of (persistent demo_jobs) = [Every 1000 7 ''ping'', At 5 ''led on, 3'']"
  by code_simp

lemma demo_jobs_storable: "list_all storable (persistent demo_jobs)"
  by code_simp

definition demo_table :: "string list scheduler" where
  "demo_table = configure (Some accept_all) new_scheduler"

lemma demo_table_empty:
  "submit_hook demo_table \<noteq> None" "length (jobs demo_table) = kMaxJobs"
  "\<forall>j \<in> set (jobs demo_table). \<not> job_active j"
  by (simp_all add: demo_table_def configure_def new_scheduler_def empty_job_def)

definition demo_sd :: sd_card where
  "demo_sd = \<lparr>sd_mounted = True, sd_mount_point = ''/sdcard'', sd_stream = None,
     sd_disk = \<lparr>dk_files = (\<lambda>_. None), dk_room = 8191, dk_fault = False\<rparr>\<rparr>"

lemma demo_jobs_saved:
  "\<exists>sd'. save_jobs sd_mounted (write_text JOB_SAVE_FILE) demo_sd demo_jobs = (Some (2, 3), sd')"
proof -
  obtain buf n where buf: "write_job_lines (list_jobs demo_jobs kMaxJobs) [] 0 = (buf, n)"
    by (metis surj_pair)
  have small: "length buf \<le> 8191"
    using saved_buffer_small [OF demo_jobs_ok] buf
    by (simp add: kJobSaveBufferBytes_def kMaxJobs_def kMaxCommandLength_def)
  have "n = length (persistent demo_jobs)" using saved_buffer [OF demo_jobs_ok] buf by simp
  then have n: "n = 2" using arg_cong [OF demo_jobs_persistent, of length] by simp
  have "length (list_jobs demo_jobs kMaxJobs) = 3" by code_simp
  then show ?thesis
    using small buf n
    by (simp add: save_jobs_def demo_sd_def write_text_def write_file_def make_path_def JOB_SAVE_FILE_def
        MAX_PATH_LENGTH_def fopen_write_def file_size_def write_opened_def fwrite_def Let_def)
qed

theorem jobs_survive_reboot_witness:
  "\<exists>sd' s3. save_jobs sd_mounted (write_text JOB_SAVE_FILE) demo_sd demo_jobs = (Some (2, 3), sd') \<and>
     load_jobs sd_mounted (file_exists (Some JOB_SAVE_FILE)) (read_text JOB_SAVE_FILE) sd' demo_table =
       (Some 2, s3) \<and>
     map policy_of (filter job_active (jobs s3)) = [Every 1000 7 ''ping'', At 5 ''led on, 3'']"
proof -
  obtain sd' where save: "save_jobs sd_mounted (write_text JOB_SAVE_FILE) demo_sd demo_jobs = (Some (2, 3), sd')"
    using demo_jobs_saved by blast
  then show ?thesis
    using jobs_survive_reboot [OF save demo_jobs_ok _ demo_table_empty] demo_jobs_storable
      demo_jobs_persistent by (auto simp: list_all_iff)
qed

end
