(* ===== verification/Job_Commands.thy ===== *)
theory Job_Commands
  imports Job_Store Script_Runner
begin

text \<open>
  The shell module \<^verbatim>\<open>job\<close> (\<^verbatim>\<open>utils/BallyRobot/BallyRobotShell.cpp\<close>): what each command does to the job
  table, the script runner and the card, its result and what it logs.  The shell has already split
  the arguments.  A log line is its level and the text handed to the logger.
\<close>

datatype shell_result = RESULT_OK | RESULT_ERROR

type_synonym log_line = "log_type \<times> string"

definition job_refused :: "job_error \<Rightarrow> log_line list" where
  "job_refused e = [(ERRO, ''job refused: '' @ error_text e)]"

definition job_every ::
    "u32 \<Rightarrow> string \<Rightarrow> 'c scheduler \<Rightarrow> shell_result \<times> log_line list \<times> 'c scheduler" where
  "job_every interval_ms command s =
     (case schedule_interval interval_ms 0 (Some command) s of
        (Inl e, s') \<Rightarrow> (RESULT_ERROR, job_refused e, s')
      | (Inr i, s') \<Rightarrow> (RESULT_OK, [(INFO, ''job_id='' @ show_dec (unat i) @ '' kind=every interval_ms='' @
          show_dec (unat interval_ms) @ '' repeat=0'')], s'))"

definition job_repeat ::
    "u32 \<Rightarrow> u32 \<Rightarrow> string \<Rightarrow> 'c scheduler \<Rightarrow> shell_result \<times> log_line list \<times> 'c scheduler" where
  "job_repeat interval_ms reps command s =
     (if reps = 0 then
        (RESULT_ERROR, [(ERRO, ''job refused: times must be at least 1 (use '' @ [CHR 0x27] @ ''every'' @
           [CHR 0x27] @ '' for no limit)'')], s)
      else case schedule_interval interval_ms reps (Some command) s of
        (Inl e, s') \<Rightarrow> (RESULT_ERROR, job_refused e, s')
      | (Inr i, s') \<Rightarrow> (RESULT_OK, [(INFO, ''job_id='' @ show_dec (unat i) @ '' kind=every interval_ms='' @
          show_dec (unat interval_ms) @ '' repeat='' @ show_dec (unat reps))], s'))"

definition job_once ::
    "u32 \<Rightarrow> string \<Rightarrow> 'c scheduler \<Rightarrow> shell_result \<times> log_line list \<times> 'c scheduler" where
  "job_once delay_ms command s =
     (case schedule_once delay_ms (Some command) s of
        (Inl e, s') \<Rightarrow> (RESULT_ERROR, job_refused e, s')
      | (Inr i, s') \<Rightarrow> (RESULT_OK, [(INFO, ''job_id='' @ show_dec (unat i) @ '' kind=once delay_ms='' @
          show_dec (unat delay_ms))], s'))"

definition job_at ::
    "string \<Rightarrow> string \<Rightarrow> 'c scheduler \<Rightarrow> shell_result \<times> log_line list \<times> 'c scheduler" where
  "job_at state_name command s =
     (let state = state_from_string (Some state_name) in
      if state = 0 then
        (RESULT_ERROR, [(ERRO, ''unknown state '' @ [CHR 0x27] @ state_name @ [CHR 0x27] @
           '' (SETUP|WAIT|CALIBRATE|DEBUG|RUN|FINISH|TELEMETRY|ERROR)'')], s)
      else case schedule_on_state state (Some command) s of
        (Inl e, s') \<Rightarrow> (RESULT_ERROR, job_refused e, s')
      | (Inr i, s') \<Rightarrow> (RESULT_OK, [(INFO, ''job_id='' @ show_dec (unat i) @ '' kind=at state='' @
          state_to_string state)], s'))"

text \<open>The listing builds each line in a buffer of 192 octets.\<close>

definition job_row :: "job_view \<Rightarrow> string" where
  "job_row v = take 191
     (if view_kind v = OnStateEnter
      then show_dec (unat (view_id v)) @ '' kind=at state='' @ state_to_string (view_state v) @
        '' fired='' @ show_dec (unat (view_fired v)) @ '' cmd='' @ view_command v @ [CHR 0x0A]
      else show_dec (unat (view_id v)) @ '' kind='' @ kind_text (view_kind v) @ '' interval_ms='' @
        show_dec (unat (view_interval v)) @ '' remaining='' @ show_dec (unat (view_remaining v)) @
        '' fired='' @ show_dec (unat (view_fired v)) @ '' cmd='' @ view_command v @ [CHR 0x0A])"

definition job_list :: "'c scheduler \<Rightarrow> shell_result \<times> log_line list" where
  "job_list s =
     (let views = list_jobs s kMaxJobs in
      if views = [] then (RESULT_OK, [(INFO, ''jobs=0'')])
      else (RESULT_OK, [(INFO, concat (map job_row views))]))"

definition job_cancel :: "u8 \<Rightarrow> 'c scheduler \<Rightarrow> shell_result \<times> log_line list \<times> 'c scheduler" where
  "job_cancel i s =
     (case cancel i s of
        (True, s') \<Rightarrow> (RESULT_OK, [(INFO, ''cancelled job_id='' @ show_dec (unat i))], s')
      | (False, s') \<Rightarrow> (RESULT_ERROR, [(ERRO, ''no active job with id='' @ show_dec (unat i))], s'))"

definition job_cancel_all :: "'c scheduler \<Rightarrow> shell_result \<times> log_line list \<times> 'c scheduler" where
  "job_cancel_all s =
     (case cancel_all s of (n, s') \<Rightarrow> (RESULT_OK, [(INFO, ''cancelled='' @ show_dec n)], s'))"

definition job_run_file ::
    "string \<Rightarrow> sd_card \<Rightarrow> script \<Rightarrow> shell_result \<times> log_line list \<times> script" where
  "job_run_file path sd s =
     (if sc_active s then
        (RESULT_ERROR, [(ERRO, ''a script is already running; wait for it to finish'')], s)
      else case start_script (Some path) sd s of
        (True, ns, s') \<Rightarrow> (RESULT_OK,
           (if ns = [] then [] else [(WARN, ''script '' @ path @ '' reached the '' @
              show_dec kScriptMaxBytes @ '' byte limit; it may be truncated'')]) @
           [(INFO, ''script='' @ path @ '' started'')], s')
      | (False, ns, s') \<Rightarrow> (RESULT_ERROR,
           [(ERRO, ''cannot run '' @ path @ '': card not mounted, file missing, or unreadable'')], s'))"

definition job_save ::
    "('s \<Rightarrow> bool) \<Rightarrow> (string \<Rightarrow> 's \<Rightarrow> bool \<times> 's) \<Rightarrow> 's \<Rightarrow> 'c scheduler \<Rightarrow> shell_result \<times> log_line list \<times> 's" where
  "job_save mounted put sd s =
     (case save_jobs mounted put sd s of
        (Some (n, count), sd') \<Rightarrow> (RESULT_OK, [(INFO, ''saved '' @ show_dec n @ ''/'' @ show_dec count @
          '' job(s) to '' @ JOB_SAVE_FILE)], sd')
      | (None, sd') \<Rightarrow> (RESULT_ERROR,
          [(ERRO, ''cannot save jobs: SD card not mounted or write failed'')], sd'))"

definition job_stats_text :: "'c scheduler \<Rightarrow> script \<Rightarrow> shell_result \<times> log_line list" where
  "job_stats_text s r =
     (RESULT_OK, [(INFO, ''jobs='' @ show_dec (active_count s) @
        '' fired='' @ show_dec (unat (st_fired (job_stats s))) @
        '' submit_failed='' @ show_dec (unat (st_submit_failed (job_stats s))) @
        '' rejected='' @ show_dec (unat (st_rejected (job_stats s))) @
        '' skipped_late='' @ show_dec (unat (st_skipped_late (job_stats s))) @
        '' script_active='' @ (if sc_active r then ''1'' else ''0'') @
        '' script_line='' @ show_dec (unat (sc_line r)))])"

section \<open>What the commands guarantee\<close>

datatype job_command = Every_Cmd u32 string | Repeat_Cmd u32 u32 string | Once_Cmd u32 string
  | At_Cmd string string | Cancel_Cmd u8 | CancelAll_Cmd

fun run_job_command :: "job_command \<Rightarrow> 'c scheduler \<Rightarrow> shell_result \<times> log_line list \<times> 'c scheduler" where
  "run_job_command (Every_Cmd ms c) s = job_every ms c s"
| "run_job_command (Repeat_Cmd ms n c) s = job_repeat ms n c s"
| "run_job_command (Once_Cmd ms c) s = job_once ms c s"
| "run_job_command (At_Cmd st c) s = job_at st c s"
| "run_job_command (Cancel_Cmd i) s = job_cancel i s"
| "run_job_command CancelAll_Cmd s = job_cancel_all s"

lemmas job_command_defs = job_every_def job_repeat_def job_once_def job_at_def job_cancel_def
  job_cancel_all_def Let_def

lemma job_command_ok [inv_intros]: "sched_ok s \<Longrightarrow> sched_ok (snd (snd (run_job_command c s)))"
proof -
  assume ok: "sched_ok s"
  show ?thesis
    using sched_ok_schedules [OF ok] sched_ok_cancel [OF ok] sched_ok_cancel_all [OF ok] ok
    by (cases c) (simp_all add: job_command_defs case_prod_beta split: sum.split bool.split)
qed

lemma job_command_failed:
  assumes "fst (run_job_command c s) = RESULT_ERROR"
  shows "jobs (snd (snd (run_job_command c s))) = jobs s"
proof -
  have refused: "jobs (snd (schedule_with g cmd s)) = jobs s"
    if "fst (schedule_with g cmd s) = Inl e" for g cmd e
    using that by (cases rule: schedule_with_cases [of g cmd s]) auto
  have miss: "snd (cancel_first i js) = js" if "\<not> fst (cancel_first i js)" for i js
    using that by (induction i js rule: cancel_first.induct) (auto split: if_splits prod.splits)
  show ?thesis
    using assms refused miss
    by (cases c)
      (auto simp: job_command_defs case_prod_beta schedule_as_with cancel_def
        split: sum.splits bool.splits if_splits)
qed

end
