(* ===== verification/Robot_Shell.thy ===== *)
theory Robot_Shell
  imports Shell_Queue Command_Processor Terminal_Responder
begin

text \<open>
  The way of a command through \<^verbatim>\<open>utils/BallyRobot/BallyRobot.cpp\<close>: a frame from the radio or from
  a direct session (TCP, BLE, serial) is routed to the command processor, a fresh command goes into
  the shell queue marked with where it came from, the shell task runs it and the result goes back
  there, if the session it came from is still the one that is open.

  What the protocol library's node makes of a frame is an argument (\<open>node_outcome\<close>), and so are
  the object ids it defines.  Running a line is the function \<open>run\<close> over the rest of the robot
  \<open>'x\<close>: it gives the shell's status and the output it captured.  The queue is created before any
  transport is started.
\<close>

section \<open>State\<close>

datatype node_outcome = NodeComplete msg_header byte_view | NodePending | NodeOther

text \<open>The members for TCP, BLE and serial are functions of the transport: whether its node exists,
  the generation of its session and the endpoint replies to it go through.\<close>

record ('d, 'w, 's, 'e, 'v, 'x) shell_side =
  sh_processor :: "('d, 'w, 's) processor"
  sh_responder :: "('e, 'v) responder"
  sh_queue :: command_queue
  sh_node :: "link_target \<Rightarrow> bool"
  sh_generation :: "link_target \<Rightarrow> u32"
  sh_endpoint :: "link_target \<Rightarrow> ('w, 's) command_endpoint"
  sh_active_source :: u32
  sh_active_boot :: u32
  sh_frames_rx :: u64
  sh_world :: 'x

abbreviation on_processor where
  "on_processor p s \<equiv> s\<lparr>sh_processor := p\<rparr>"

section \<open>Channels of the radio\<close>

definition classify_channel :: "u16 \<Rightarrow> u16 \<Rightarrow> msg_header \<Rightarrow> u32 \<Rightarrow> channel" where
  "classify_channel kSubscribe kUnsubscribe h dongle =
     (if mh_type h = MtCommand \<or> mh_type h = MtTerminal \<or>
         (mh_type h = MtControl \<and> (mh_object_id h = kSubscribe \<or> mh_object_id h = kUnsubscribe))
      then channel_of_peer VantageRobot (mh_source_id h) dongle else C_Link)"

definition kTagSize :: nat where "kTagSize = 16"

definition protocol_open ::
    "u16 \<Rightarrow> u16 \<Rightarrow> msg_header aead \<Rightarrow> key_store option \<Rightarrow> u32 \<Rightarrow> msg_header \<Rightarrow> bytes \<Rightarrow>
     ('d, 'w, 's) processor \<Rightarrow> bytes option \<times> ('d, 'w, 's) processor" where
  "protocol_open kSubscribe kUnsubscribe ae ks dongle h sealed p =
     (if length sealed < kTagSize then (None, p)
      else case (if classify_channel kSubscribe kUnsubscribe h dongle = B_Endpoint
                 then open_e ae ks h sealed else open_sealed ae ks h sealed) of
        None \<Rightarrow> (None, note_unauthorized p)
      | Some plain \<Rightarrow> (Some plain, p))"

section \<open>Sessions\<close>

datatype ('w, 's, 'v) start_outcome = NoMemory | BeginFailed | Started "('w, 's) command_endpoint" "'v out_link"

definition start_session ::
    "link_target \<Rightarrow> ('w, 's, 'v) start_outcome \<Rightarrow> ('d, 'w, 's, 'e, 'v, 'x) shell_side \<Rightarrow>
     ('d, 'w, 's, 'e, 'v, 'x) shell_side" where
  "start_session t r s =
     (let s1 = s\<lparr>sh_generation := (sh_generation s)(t := sh_generation s t + 1)\<rparr> in
      case r of
        NoMemory \<Rightarrow> s1
      | BeginFailed \<Rightarrow> s1\<lparr>sh_node := (sh_node s)(t := False)\<rparr>
      | Started ep link \<Rightarrow> s1\<lparr>sh_node := (sh_node s)(t := True), sh_endpoint := (sh_endpoint s)(t := ep),
          sh_responder := bind_target t link (sh_responder s)\<rparr>)"

definition on_connect ::
    "link_target \<Rightarrow> bool \<Rightarrow> ('w, 's, 'v) start_outcome \<Rightarrow> ('d, 'w, 's, 'e, 'v, 'x) shell_side \<Rightarrow>
     ('d, 'w, 's, 'e, 'v, 'x) shell_side" where
  "on_connect t decoder_ok r s = (if \<not> decoder_ok then s else start_session t r s)"

definition on_disconnect ::
    "link_target \<Rightarrow> ('d, 'w, 's, 'e, 'v, 'x) shell_side \<Rightarrow> ('d, 'w, 's, 'e, 'v, 'x) shell_side" where
  "on_disconnect t s = s\<lparr>sh_generation := (sh_generation s)(t := sh_generation s t + 1),
     sh_responder := unbind_target t (sh_responder s), sh_node := (sh_node s)(t := False)\<rparr>"

section \<open>Replies\<close>

definition send_reply ::
    "nat \<Rightarrow> link_target \<Rightarrow> result_view \<Rightarrow> ('d, 'w, 's, 'e, 'v, 'x) shell_side \<Rightarrow>
     ('d, 'w, 's, 'e, 'v, 'x) shell_side" where
  "send_reply em t v s = on_processor (snd (case t of
       EspNow \<Rightarrow> send_result em v (sh_processor s)
     | Serial \<Rightarrow> send_result_cleartext em v (sh_endpoint s Serial) (sh_processor s)
     | _ \<Rightarrow> send_result_to em v (sh_endpoint s t) (sh_processor s))) s"

section \<open>Requests\<close>

definition bytes_text :: "bytes \<Rightarrow> string" where
  "bytes_text bs = map (\<lambda>b. char_of (unat b)) bs"

definition remote_command :: "link_target \<Rightarrow> u8 \<Rightarrow> bytes \<Rightarrow> u32 \<Rightarrow> queued_command" where
  "remote_command t slot text_bytes generation =
     (let c = blank_command\<lparr>qc_cache_slot := slot, qc_text := bytes_text text_bytes\<rparr> in
      case t of
        EspNow \<Rightarrow> c
      | Tcp \<Rightarrow> c\<lparr>qc_from_tcp := True, qc_tcp_generation := generation\<rparr>
      | Ble \<Rightarrow> c\<lparr>qc_from_ble := True, qc_ble_generation := generation\<rparr>
      | Serial \<Rightarrow> c\<lparr>qc_from_serial := True, qc_serial_generation := generation\<rparr>)"

definition process_request ::
    "'d btp_ops \<Rightarrow> nat \<Rightarrow> link_target \<Rightarrow> msg_header \<Rightarrow> byte_view \<Rightarrow> u64 \<Rightarrow> channel \<Rightarrow>
     ('d, 'w, 's, 'e, 'v, 'x) shell_side \<Rightarrow> ('d, 'w, 's, 'e, 'v, 'x) shell_side" where
  "process_request bo em t h payload now channel s =
     (case intake bo h payload now channel (sh_processor s) of
        (ResultReady v, p) \<Rightarrow> send_reply em t v (on_processor p s)
      | (Ready slot command, p) \<Rightarrow>
          (let c = remote_command t slot command (sh_generation s t) in
           case (case sh_queue s of None \<Rightarrow> None | Some q \<Rightarrow> queue_send c q) of
             Some q' \<Rightarrow> (on_processor p s)\<lparr>sh_queue := Some q'\<rparr>
           | None \<Rightarrow>
               (case reject_busy bo slot now p of
                  (Some v, p') \<Rightarrow> send_reply em t v (on_processor p' s)
                | (None, p') \<Rightarrow> on_processor p' s))
      | (_, p) \<Rightarrow> on_processor p s)"

text \<open>The radio's requests carry the channel they were opened on, the sessions' are always B.\<close>

definition process_command_request where
  "process_command_request bo em = process_request bo em EspNow"
definition process_tcp_request where
  "process_tcp_request bo em h payload now = process_request bo em Tcp h payload now B_Endpoint"
definition process_ble_request where
  "process_ble_request bo em h payload now = process_request bo em Ble h payload now B_Endpoint"
definition process_serial_request where
  "process_serial_request bo em h payload now = process_request bo em Serial h payload now B_Endpoint"

definition is_command_request :: "msg_header \<Rightarrow> bool" where
  "is_command_request h \<longleftrightarrow> mh_type h = MtCommand \<and> mh_object_id h = kCommandRequestObjectId"

text \<open>\<open>MAC_ADDR\<close> may be undefined: \<open>None\<close>.\<close>

definition handle_receive ::
    "'d btp_ops \<Rightarrow> nat \<Rightarrow> bytes option \<Rightarrow> bytes option \<Rightarrow> nat \<Rightarrow> u16 \<Rightarrow> u16 \<Rightarrow> u32 \<Rightarrow> node_outcome \<Rightarrow> u64 \<Rightarrow>
     ('d, 'w, 's, 'e, 'v, 'x) shell_side \<Rightarrow> ('d, 'w, 's, 'e, 'v, 'x) shell_side" where
  "handle_receive bo em mac src len kSubscribe kUnsubscribe dongle outcome now s =
     (if src = None \<or> len = 0 \<or> Option.is_none (sh_queue s) \<or> \<not> sh_node s EspNow then s
      else let s1 = s\<lparr>sh_frames_rx := sh_frames_rx s + 1\<rparr> in
        if \<not> authorized_source mac src then on_processor (note_unauthorized (sh_processor s1)) s1
        else case outcome of
          NodeComplete h payload \<Rightarrow>
            if \<not> is_command_request h then on_processor (note_drop (sh_processor s1)) s1
            else process_command_request bo em h payload now
                   (classify_channel kSubscribe kUnsubscribe h dongle) s1
        | _ \<Rightarrow> s1)"

text \<open>A frame of a session.  \<open>awaiting\<close> is whether the session of the node waits for a HELLO;
  \<open>outcome\<close> is what the node that is in place then makes of the frame.\<close>

definition is_stale_hello :: "u16 \<Rightarrow> bool \<Rightarrow> bool \<Rightarrow> msg_header \<Rightarrow> bool" where
  "is_stale_hello kHello node awaiting h \<longleftrightarrow>
     mh_type h = MtControl \<and> mh_object_id h = kHello \<and> (\<not> node \<or> \<not> awaiting)"

definition on_frame ::
    "'d btp_ops \<Rightarrow> nat \<Rightarrow> link_target \<Rightarrow> u16 \<Rightarrow> bool \<Rightarrow> ('w, 's, 'v) start_outcome \<Rightarrow> msg_header \<Rightarrow>
     node_outcome \<Rightarrow> u64 \<Rightarrow> ('d, 'w, 's, 'e, 'v, 'x) shell_side \<Rightarrow> ('d, 'w, 's, 'e, 'v, 'x) shell_side" where
  "on_frame bo em t kHello awaiting restart fh outcome now s =
     (let s1 = (if is_stale_hello kHello (sh_node s t) awaiting fh
                then start_session t restart (on_disconnect t s) else s) in
      if \<not> sh_node s1 t then s1
      else case outcome of
        NodeComplete h payload \<Rightarrow>
          if \<not> is_command_request h then on_processor (note_drop (sh_processor s1)) s1
          else process_request bo em t h payload now B_Endpoint s1
      | _ \<Rightarrow> s1)"

section \<open>The shell task\<close>

text \<open>Where the result of a remote command goes.\<close>

definition reply_route ::
    "queued_command \<Rightarrow> ('d, 'w, 's, 'e, 'v, 'x) shell_side \<Rightarrow> link_target option" where
  "reply_route c s =
     (if qc_from_tcp c then (if qc_tcp_generation c = sh_generation s Tcp then Some Tcp else None)
      else if qc_from_ble c then (if qc_ble_generation c = sh_generation s Ble then Some Ble else None)
      else if qc_from_serial c then (if qc_serial_generation c = sh_generation s Serial then Some Serial else None)
      else Some EspNow)"

definition shell_step ::
    "'d btp_ops \<Rightarrow> nat \<Rightarrow> (string \<Rightarrow> 'x \<Rightarrow> u8 \<times> string \<times> 'x) \<Rightarrow> u64 \<Rightarrow>
     ('d, 'w, 's, 'e, 'v, 'x) shell_side \<Rightarrow> ('d, 'w, 's, 'e, 'v, 'x) shell_side" where
  "shell_step bo em run now s =
     (case sh_queue s of
        None \<Rightarrow> s
      | Some q \<Rightarrow>
          (case queue_receive q of
             None \<Rightarrow> s
           | Some (c, q') \<Rightarrow>
               let from_terminal = (qc_cache_slot c = kTerminalCommandSlot);
                   from_remote = (qc_cache_slot c \<noteq> kLocalCommandSlot \<and> \<not> from_terminal)
               in case run (qc_text c) (sh_world s) of (status, captured, x) \<Rightarrow>
                 let s1 = s\<lparr>sh_queue := Some q', sh_world := x,
                       sh_active_source := (if from_terminal then qc_terminal_source c else 0),
                       sh_active_boot := (if from_terminal then qc_terminal_boot c else 0)\<rparr>
                 in if from_terminal then
                      s1\<lparr>sh_responder := deliver_command_output (qc_terminal_source c)
                           (qc_terminal_boot c) (Some captured) status (sh_responder s1)\<rparr>
                    else if from_remote then
                      (case complete bo (qc_cache_slot c) status now (Some captured) (sh_processor s1) of
                         (None, p) \<Rightarrow> on_processor p s1
                       | (Some v, p) \<Rightarrow>
                           (case reply_route c s1 of
                              None \<Rightarrow> on_processor p s1
                            | Some t \<Rightarrow> send_reply em t v (on_processor p s1)))
                    else s1))"

section \<open>What can happen around the shell\<close>

datatype ('w, 's, 'v) shell_event =
  EvRequest link_target msg_header byte_view u64 channel
| EvConnect link_target bool "('w, 's, 'v) start_outcome"
| EvDisconnect link_target
| EvLocal "string option"
| EvTerminal u32 u32 "string option"
| EvShell u64

fun shell_act ::
    "'d btp_ops \<Rightarrow> nat \<Rightarrow> (string \<Rightarrow> 'x \<Rightarrow> u8 \<times> string \<times> 'x) \<Rightarrow> ('w, 's, 'v) shell_event \<Rightarrow>
     ('d, 'w, 's, 'e, 'v, 'x) shell_side \<Rightarrow> ('d, 'w, 's, 'e, 'v, 'x) shell_side" where
  "shell_act bo em run (EvRequest t h payload now ch) s = process_request bo em t h payload now ch s"
| "shell_act bo em run (EvConnect t ok r) s = on_connect t ok r s"
| "shell_act bo em run (EvDisconnect t) s = on_disconnect t s"
| "shell_act bo em run (EvLocal l) s = s\<lparr>sh_queue := snd (submit_local_command l (sh_queue s))\<rparr>"
| "shell_act bo em run (EvTerminal a b l) s =
     s\<lparr>sh_queue := snd (submit_terminal_command a b l (sh_queue s))\<rparr>"
| "shell_act bo em run (EvShell now) s = shell_step bo em run now s"

text \<open>How many times a transport's session was opened or closed.\<close>

fun session_change :: "link_target \<Rightarrow> ('w, 's, 'v) shell_event \<Rightarrow> bool" where
  "session_change t (EvConnect u ok r) = (u = t \<and> ok)"
| "session_change t (EvDisconnect u) = (u = t)"
| "session_change t e = False"

definition session_changes :: "link_target \<Rightarrow> ('w, 's, 'v) shell_event list \<Rightarrow> nat" where
  "session_changes t evs = length (filter (session_change t) evs)"

lemma send_reply_frame [frame_simps]:
  "sh_generation (send_reply em t v s) = sh_generation s" "sh_queue (send_reply em t v s) = sh_queue s"
  "sh_world (send_reply em t v s) = sh_world s" "sh_endpoint (send_reply em t v s) = sh_endpoint s"
  by (simp_all add: send_reply_def)

lemma process_request_frame [frame_simps]:
  "sh_generation (process_request bo em t h payload now ch s) = sh_generation s"
  by (auto simp: process_request_def Let_def frame_simps split: intake_result.split prod.split option.split)

lemma shell_step_frame [frame_simps]:
  "sh_generation (shell_step bo em run now s) = sh_generation s"
  by (auto simp: shell_step_def Let_def frame_simps split: prod.split option.split)

lemma generation_event:
  "sh_generation (shell_act bo em run e s) t =
     sh_generation s t + (if session_change t e then 1 else 0)"
  by (cases e) (auto simp: frame_simps on_connect_def start_session_def on_disconnect_def Let_def
      split: start_outcome.split)

lemma generation_run:
  "sh_generation (fold (shell_act bo em run) evs s) t =
     sh_generation s t + word_of_nat (session_changes t evs)"
  by (induction evs arbitrary: s) (auto simp: session_changes_def generation_event)

text \<open>What a request puts in the queue.\<close>

lemma request_queued:
  assumes "sh_queue s = Some q" and "sh_queue (process_request bo em t h payload now ch s) = Some (q @ [c])"
  shows "\<exists>slot command. c = remote_command t slot command (sh_generation s t)"
  using assms
  by (auto simp: process_request_def Let_def frame_simps queue_send_def
      split: intake_result.splits prod.splits option.splits if_splits)

lemma route_of_request:
  "reply_route (remote_command t slot command g) s =
     (if t = EspNow \<or> sh_generation s t = g then Some t else None)"
  by (cases t) (auto simp: reply_route_def remote_command_def blank_command_def Let_def)

lemma shell_step_remote:
  assumes "sh_queue s = Some (c # rest)" and "run (qc_text c) (sh_world s) = (status, captured, x)"
    and "complete bo (qc_cache_slot c) status now (Some captured) (sh_processor s) = (Some v, p)"
  shows "sh_processor (shell_step bo em run now s) =
    (case reply_route c s of None \<Rightarrow> p | Some t \<Rightarrow> sh_processor (send_reply em t v (on_processor p s)))"
proof -
  have "unat (qc_cache_slot c) < 16"
    using assms(3) by (auto simp: complete_def kCacheCapacity_def split: if_splits)
  then have slot: "qc_cache_slot c \<noteq> kLocalCommandSlot" "qc_cache_slot c \<noteq> kTerminalCommandSlot"
    by (auto simp: kLocalCommandSlot_def kTerminalCommandSlot_def)
  show ?thesis
    using assms slot
    by (auto simp: shell_step_def queue_receive_def Let_def send_reply_def reply_route_def
        split: option.splits link_target.splits)
qed

text \<open>C21: The result of a remote command goes back over the session the command came from and to no
  other: if since the request was queued the session of its transport was closed or reopened, less
  than 2^32 times, the reply is dropped, whatever else happened; otherwise it is sent over exactly
  that transport, sealed or in the clear as the transport demands.  Either way the command is
  completed in the cache first, so that repeating the request is answered.\<close>

theorem reply_only_to_requesting_session:
  assumes "sh_queue s = Some q"
    and "sh_queue (process_request bo em t h payload t0 ch s) = Some (q @ [c])"
    and "s' = fold (shell_act bo em run) evs (process_request bo em t h payload t0 ch s)"
    and "session_changes t evs < 2 ^ 32" and "sh_queue s' = Some (c # rest)"
    and "run (qc_text c) (sh_world s') = (status, captured, x)"
    and "complete bo (qc_cache_slot c) status now (Some captured) (sh_processor s') = (Some v, p)"
  shows "sh_processor (shell_step bo em run now s') =
    (if t = EspNow \<or> session_changes t evs = 0
     then sh_processor (send_reply em t v (on_processor p s')) else p)"
proof -
  obtain slot command where c: "c = remote_command t slot command (sh_generation s t)"
    using request_queued [OF assms(1,2)] by blast
  have "sh_generation s' t = sh_generation s t + word_of_nat (session_changes t evs)"
    using generation_run [of bo em run evs "process_request bo em t h payload t0 ch s" t]
    by (simp add: assms(3) frame_simps)
  moreover have "word_of_nat (session_changes t evs) = (0 :: u32) \<longleftrightarrow> session_changes t evs = 0"
    using assms(4) by (auto simp: word_of_nat_eq_0_iff dvd_imp_le dest: dvd_imp_le)
  ultimately have "reply_route c s' = (if t = EspNow \<or> session_changes t evs = 0 then Some t else None)"
    by (simp add: c route_of_request)
  then show ?thesis using shell_step_remote [of s' c rest run status captured x, OF assms(5-7)] by simp
qed

section \<open>Nothing is lost on the way to the shell\<close>

text \<open>What an event puts in the queue: the command line of a request that is new, of a job or script,
  of a terminal.\<close>

fun handed_in ::
    "'d btp_ops \<Rightarrow> ('w, 's, 'v) shell_event \<Rightarrow> ('d, 'w, 's, 'e, 'v, 'x) shell_side \<Rightarrow> string list" where
  "handed_in bo (EvRequest t h payload now ch) s =
     (case fst (intake bo h payload now ch (sh_processor s)) of
        Ready slot command \<Rightarrow> if length (the (sh_queue s)) < kCommandQueueLength then [bytes_text command] else []
      | _ \<Rightarrow> [])"
| "handed_in bo (EvLocal l) s = (if fst (submit_local_command l (sh_queue s)) then [the l] else [])"
| "handed_in bo (EvTerminal a b l) s =
     (if fst (submit_terminal_command a b l (sh_queue s)) then [the l] else [])"
| "handed_in bo e s = []"

fun handed_in_run ::
    "'d btp_ops \<Rightarrow> nat \<Rightarrow> (string \<Rightarrow> 'x \<Rightarrow> u8 \<times> string \<times> 'x) \<Rightarrow> ('w, 's, 'v) shell_event list \<Rightarrow>
     ('d, 'w, 's, 'e, 'v, 'x) shell_side \<Rightarrow> string list" where
  "handed_in_run bo em run [] s = []"
| "handed_in_run bo em run (e # evs) s = handed_in bo e s @ handed_in_run bo em run evs (shell_act bo em run e s)"

text \<open>A shell that keeps the list of the lines it has run.\<close>

definition recording :: "(string \<Rightarrow> u8 \<times> string) \<Rightarrow> string \<Rightarrow> string list \<Rightarrow> u8 \<times> string \<times> string list" where
  "recording f l x = (fst (f l), snd (f l), x @ [l])"

lemma submit_command_queue:
  "submit_command proto l (Some q) =
     (if l \<noteq> None \<and> the l \<noteq> [] \<and> length (the l) \<le> kMaxShellCommandSize \<and> length q < kCommandQueueLength
      then (True, Some (q @ [proto\<lparr>qc_text := the l\<rparr>])) else (False, Some q))"
  by (auto simp: submit_command_def queue_send_def split: option.split)

lemma text_of_request [simp]: "qc_text (remote_command t slot command g) = bytes_text command"
  by (cases t) (simp_all add: remote_command_def Let_def)

lemma process_request_queue:
  assumes "sh_queue s = Some q"
  shows "\<exists>q'. sh_queue (process_request bo em t h payload now ch s) = Some q' \<and>
    length q' \<le> max (length q) kCommandQueueLength \<and>
    map qc_text q' = map qc_text q @ handed_in bo (EvRequest t h payload now ch) s"
proof (cases "intake bo h payload now ch (sh_processor s)")
  case (Pair r p)
  then show ?thesis
    using assms
    by (cases r) (auto simp: process_request_def Let_def frame_simps queue_send_def
        split: prod.split option.split)
qed

lemma process_request_world [frame_simps]:
  "sh_world (process_request bo em t h payload now ch s) = sh_world s"
  by (auto simp: process_request_def Let_def frame_simps split: intake_result.split prod.split option.split)

lemma session_frame [frame_simps]:
  "sh_queue (on_connect t ok r s) = sh_queue s" "sh_world (on_connect t ok r s) = sh_world s"
  "sh_queue (on_disconnect t s) = sh_queue s" "sh_world (on_disconnect t s) = sh_world s"
  by (simp_all add: on_connect_def start_session_def on_disconnect_def Let_def split: start_outcome.split)

lemma shell_step_queue:
  assumes "sh_queue s = Some q"
  shows "sh_queue (shell_step bo em (recording f) now s) = Some (tl q) \<and>
    sh_world (shell_step bo em (recording f) now s) @ map qc_text (tl q) = sh_world s @ map qc_text q"
  using assms
  by (cases q) (auto simp: shell_step_def queue_receive_def recording_def Let_def frame_simps
      split: prod.split option.split)

lemma shell_act_queue:
  assumes "sh_queue s = Some q" and "length q \<le> kCommandQueueLength"
  shows "\<exists>q'. sh_queue (shell_act bo em (recording f) e s) = Some q' \<and> length q' \<le> kCommandQueueLength \<and>
    sh_world (shell_act bo em (recording f) e s) @ map qc_text q' =
      sh_world s @ map qc_text q @ handed_in bo e s"
proof (cases e)
  case (EvRequest t h payload now ch)
  then show ?thesis
    using process_request_queue [OF assms(1), of bo em t h payload now ch] assms(2)
    by (auto simp: frame_simps)
next
  case (EvShell now)
  then show ?thesis using shell_step_queue [OF assms(1), of bo em f now] assms(2) by auto
qed (use assms in \<open>auto simp: frame_simps submit_local_command_def submit_terminal_command_def
      submit_command_queue\<close>)

text \<open>C22: From every producer to the shell, a command line that the queue accepted runs exactly once
  and in the order of acceptance: at any moment the lines run so far, followed by those waiting,
  are those there were before followed by the lines of the requests, jobs, scripts and terminals
  accepted since; at most ten wait.\<close>

theorem commands_run_once_in_order:
  assumes "sh_queue s = Some q" and "length q \<le> kCommandQueueLength"
    and "s' = fold (shell_act bo em (recording f)) evs s"
  shows "\<exists>q'. sh_queue s' = Some q' \<and> length q' \<le> kCommandQueueLength \<and>
    sh_world s' @ map qc_text q' = sh_world s @ map qc_text q @ handed_in_run bo em (recording f) evs s"
  using assms
proof (induction evs arbitrary: s q)
  case (Cons e evs)
  obtain q1 where q1: "sh_queue (shell_act bo em (recording f) e s) = Some q1"
      "length q1 \<le> kCommandQueueLength"
      "sh_world (shell_act bo em (recording f) e s) @ map qc_text q1 =
        sh_world s @ map qc_text q @ handed_in bo e s"
    using shell_act_queue [OF Cons.prems(1,2)] by blast
  obtain q' where "sh_queue s' = Some q'" "length q' \<le> kCommandQueueLength"
      "sh_world s' @ map qc_text q' = sh_world (shell_act bo em (recording f) e s) @ map qc_text q1 @
        handed_in_run bo em (recording f) evs (shell_act bo em (recording f) e s)"
    using Cons.IH [OF q1(1,2)] Cons.prems(3) by auto
  with q1(3) show ?case by (metis append.assoc handed_in_run.simps(2))
qed simp

section \<open>Witnesses\<close>

definition demo_side :: "(dedup_key list, u32, string, unit, unit, unit) shell_side" where
  "demo_side = \<lparr>sh_processor = demo_processor, sh_responder = new_responder () (), sh_queue = Some [],
     sh_node = (\<lambda>_. True), sh_generation = (\<lambda>_. 4), sh_endpoint = (\<lambda>_. demo_endpoint),
     sh_active_source = 0, sh_active_boot = 0, sh_frames_rx = 0, sh_world = ()\<rparr>"

definition demo_asked :: "(dedup_key list, u32, string, unit, unit, unit) shell_side" where
  "demo_asked = process_request demo_btp 232 Tcp demo_header (View [1]) 10 C_Link demo_side"

lemma demo_asked_queue: "sh_queue demo_asked = Some ([] @ [remote_command Tcp 0 [104, 105] 4])"
proof -
  obtain p where "intake demo_btp demo_header (View [1]) 10 C_Link demo_processor = (Ready 0 [104, 105], p)"
    using demo_intake by (metis prod.collapse)
  then show ?thesis
    by (simp add: demo_asked_def process_request_def demo_side_def queue_send_def kCommandQueueLength_def)
qed

text \<open>The client is gone and back before its command runs: the result is recorded, nothing is sent.\<close>

theorem reply_only_to_requesting_session_witness:
  "\<exists>v p. complete demo_btp 0 0 99 (Some ''ok'') (sh_processor demo_asked) = (Some v, p) \<and>
     sh_processor (shell_step demo_btp 232 (\<lambda>_ x. (0, ''ok'', x)) 99
       (fold (shell_act demo_btp 232 (\<lambda>_ x. (0, ''ok'', x)))
         [EvDisconnect Tcp, EvConnect Tcp True NoMemory] demo_asked)) = p"
proof -
  let ?run = "\<lambda>(_ :: string) (x :: unit). (0 :: u8, ''ok'', x)"
  let ?c = "remote_command Tcp 0 [104, 105] 4"
  let ?s = "fold (shell_act demo_btp 232 ?run) [EvDisconnect Tcp, EvConnect Tcp True NoMemory] demo_asked"
  have "cp_endpoint (sh_processor demo_asked) = Some demo_endpoint"
    by (simp add: demo_asked_def process_request_def demo_side_def demo_cp_simps intake_def
        intake_fresh_def Let_def kCommandRequestObjectId_def kMaxLogicalRequestSize_def
        kRequestPrefixSize_def kMaxShellCommandSize_def parse_request_def copy_shell_command_def
        kShellActionId_def kShellActionVersion_def kPingActionId_def forbidden_byte_def
        queue_send_def kCommandQueueLength_def)
  then obtain v p where cmp: "complete demo_btp 0 0 99 (Some ''ok'') (sh_processor demo_asked) = (Some v, p)"
    by (auto simp: complete_def finish_def reserve_and_encode_def encode_result_def kCacheCapacity_def
        kMaxResultPayloadSize_def Let_def demo_btp_def demo_endpoint_def)
  have same: "sh_processor ?s = sh_processor demo_asked" "sh_queue ?s = sh_queue demo_asked"
    by (simp_all add: on_disconnect_def on_connect_def start_session_def)
  have slot: "qc_cache_slot ?c = 0" by (simp add: remote_command_def)
  have q: "sh_queue demo_side = Some []" by (simp add: demo_side_def)
  have asked: "sh_queue (process_request demo_btp 232 Tcp demo_header (View [1]) 10 C_Link demo_side) = Some ([] @ [?c])"
    using demo_asked_queue by (simp only: demo_asked_def)
  have after: "?s = fold (shell_act demo_btp 232 ?run) [EvDisconnect Tcp, EvConnect Tcp True NoMemory]
      (process_request demo_btp 232 Tcp demo_header (View [1]) 10 C_Link demo_side)"
    by (simp only: demo_asked_def)
  have front: "sh_queue ?s = Some (?c # [])" using same(2) demo_asked_queue by simp
  have ran: "?run (qc_text ?c) (sh_world ?s) = (0, ''ok'', sh_world ?s)" by simp
  have cmp': "complete demo_btp (qc_cache_slot ?c) 0 99 (Some ''ok'') (sh_processor ?s) = (Some v, p)"
    using cmp by (simp only: same slot)
  have two: "session_changes Tcp [EvDisconnect Tcp, EvConnect Tcp True NoMemory :: (u32, string, unit) shell_event] = 2"
    by (simp add: session_changes_def)
  have "sh_processor (shell_step demo_btp 232 ?run 99 ?s) = p"
    using reply_only_to_requesting_session [OF q asked after _ front ran cmp'] two
    by (simp del: fold_simps)
  with cmp show ?thesis by blast
qed

definition demo_recorded :: "(dedup_key list, u32, string, unit, unit, string list) shell_side" where
  "demo_recorded = \<lparr>sh_processor = demo_processor, sh_responder = new_responder () (), sh_queue = Some [],
     sh_node = (\<lambda>_. True), sh_generation = (\<lambda>_. 4), sh_endpoint = (\<lambda>_. demo_endpoint),
     sh_active_source = 0, sh_active_boot = 0, sh_frames_rx = 0, sh_world = []\<rparr>"

theorem commands_run_once_in_order_witness:
  "\<exists>s' q'. s' = fold (shell_act demo_btp 232 (recording (\<lambda>_. (0, []))))
       [EvLocal (Some ''beep''), EvTerminal 7 8 (Some ''help''), EvShell 5] demo_recorded \<and>
     sh_queue s' = Some q' \<and> sh_world s' @ map qc_text q' = [''beep'', ''help'']"
proof -
  have "handed_in_run demo_btp 232 (recording (\<lambda>_. (0, [])))
      [EvLocal (Some ''beep''), EvTerminal 7 8 (Some ''help''), EvShell 5] demo_recorded = [''beep'', ''help'']"
    by (simp add: demo_recorded_def submit_local_command_def submit_terminal_command_def
        submit_command_queue kMaxShellCommandSize_def kCommandQueueLength_def)
  moreover have "sh_queue demo_recorded = Some []" "sh_world demo_recorded = []"
    by (simp_all add: demo_recorded_def)
  ultimately show ?thesis
    using commands_run_once_in_order [of demo_recorded "[]", OF _ _ refl, of demo_btp 232
        "\<lambda>_. (0, [])" "[EvLocal (Some ''beep''), EvTerminal 7 8 (Some ''help''), EvShell 5]"]
    by (simp only: list.size list.map append_Nil) (metis le0)
qed

end
