(* ===== verification/H_Bridge.thy ===== *)
theory H_Bridge
  imports Prelude
begin

text \<open>
  \<^verbatim>\<open>lib/HBridge/\<close>: one motor on two PWM channels of a DRV8251A.

  The LEDC peripheral is the record \<open>ledc\<close>: the duty of each channel, the duties every write went
  through (newest first) and the answers the coming writes will get; a write that fails changes
  nothing, and when no answer is foreseen it succeeds.  Both channels run on one timer from the same
  point of the period, so that the input with the greater duty is the only one high for the
  difference: the bridge drives forward for \<open>d1 - d2\<close> counts, backward for \<open>d2 - d1\<close>, and brakes
  or coasts for the rest.
\<close>

section \<open>Peripheral\<close>

datatype esp_err = ESP_OK | ESP_ERR_INVALID_ARG | ESP_ERR_INVALID_STATE | ESP_FAIL

record ledc =
  lc_duty :: "u8 \<Rightarrow> nat"
  lc_past :: "(u8 \<Rightarrow> nat) list"
  lc_answers :: "esp_err list"

definition ledc_set_duty_and_update :: "u8 \<Rightarrow> nat \<Rightarrow> ledc \<Rightarrow> esp_err \<times> ledc" where
  "ledc_set_duty_and_update ch d w =
     (let ok = w\<lparr>lc_duty := (lc_duty w)(ch := d), lc_past := lc_duty w # lc_past w,
                lc_answers := tl (lc_answers w)\<rparr>
      in case lc_answers w of
           [] \<Rightarrow> (ESP_OK, ok)
         | a # as \<Rightarrow> if a = ESP_OK then (ESP_OK, ok) else (a, w\<lparr>lc_answers := as\<rparr>))"

section \<open>State\<close>

datatype movement = FORWARD | BACKWARD | STOPPED | BRAKING

definition SUPLIMIT :: int where "SUPLIMIT = 100"
definition INFLIMIT :: int where "INFLIMIT = -100"
definition PWM_MAX_DUTY :: nat where "PWM_MAX_DUTY = 2047"

record hbridge =
  hb_pwm :: int
  hb_mov :: movement
  hb_last_mov :: movement
  hb_l1 :: u8
  hb_l2 :: u8
  hb_ch1 :: u8
  hb_ch2 :: u8
  hb_dead_zone :: nat
  hb_initialized :: bool

definition new_hbridge :: "u8 \<Rightarrow> u8 \<Rightarrow> u8 \<Rightarrow> u8 \<Rightarrow> u8 \<Rightarrow> hbridge" where
  "new_hbridge l1 l2 ch1 ch2 dead_zone = \<lparr>hb_pwm = 0, hb_mov = STOPPED, hb_last_mov = FORWARD,
     hb_l1 = l1, hb_l2 = l2, hb_ch1 = ch1, hb_ch2 = ch2,
     hb_dead_zone = (if int (unat dead_zone) > SUPLIMIT then nat SUPLIMIT else unat dead_zone),
     hb_initialized = False\<rparr>"

section \<open>Operations\<close>

definition set_duty :: "u8 \<Rightarrow> nat \<Rightarrow> ledc \<Rightarrow> esp_err \<times> ledc" where
  "set_duty ch duty w = ledc_set_duty_and_update ch (if duty > PWM_MAX_DUTY then PWM_MAX_DUTY else duty) w"

definition saturate :: "int \<Rightarrow> int" where
  "saturate new_pwm = (if new_pwm > SUPLIMIT then SUPLIMIT else if new_pwm < INFLIMIT then INFLIMIT else new_pwm)"

definition choice_direction :: "int \<Rightarrow> movement" where
  "choice_direction command = (if command > 0 then FORWARD else if command < 0 then BACKWARD else STOPPED)"

text \<open>The command is within -100..100 here, so no product of the unsigned arithmetic wraps.\<close>

definition convert_pwm :: "nat \<Rightarrow> int \<Rightarrow> nat" where
  "convert_pwm dead_zone command =
     (let magnitude = nat \<bar>command\<bar> in
      if magnitude = 0 then 0
      else let available_range = 100 - dead_zone;
               effective_percent = dead_zone + (magnitude * available_range + 50) div 100
        in (effective_percent * PWM_MAX_DUTY + 50) div 100)"

text \<open>Two writes, the second only after the first succeeded.\<close>

definition set_both :: "u8 \<Rightarrow> nat \<Rightarrow> u8 \<Rightarrow> nat \<Rightarrow> ledc \<Rightarrow> esp_err \<times> ledc" where
  "set_both cha da chb db w =
     (case set_duty cha da w of (e, w1) \<Rightarrow> if e \<noteq> ESP_OK then (e, w1) else set_duty chb db w1)"

definition enter_brake_state :: "hbridge \<Rightarrow> ledc \<Rightarrow> esp_err \<times> ledc" where
  "enter_brake_state h w =
     (if hb_mov h = BACKWARD \<or> (hb_mov h = STOPPED \<and> hb_last_mov h = BACKWARD)
      then set_both (hb_ch2 h) PWM_MAX_DUTY (hb_ch1 h) PWM_MAX_DUTY w
      else set_both (hb_ch1 h) PWM_MAX_DUTY (hb_ch2 h) PWM_MAX_DUTY w)"

definition drive :: "movement \<Rightarrow> nat \<Rightarrow> hbridge \<Rightarrow> ledc \<Rightarrow> esp_err \<times> hbridge \<times> ledc" where
  "drive direction drive_duty h w =
     (if direction \<noteq> FORWARD \<and> direction \<noteq> BACKWARD then (ESP_ERR_INVALID_ARG, h, w)
      else
        let reversing = (hb_mov h = FORWARD \<and> direction = BACKWARD) \<or>
              (hb_mov h = BACKWARD \<and> direction = FORWARD)
        in case (if reversing then enter_brake_state h w else (ESP_OK, w)) of (e, w1) \<Rightarrow>
          if e \<noteq> ESP_OK then (e, h, w1)
          else
            let brake_duty = PWM_MAX_DUTY - drive_duty in
            case (if direction = FORWARD then set_both (hb_ch1 h) PWM_MAX_DUTY (hb_ch2 h) brake_duty w1
                  else set_both (hb_ch2 h) PWM_MAX_DUTY (hb_ch1 h) brake_duty w1) of (e, w2) \<Rightarrow>
              (e, if e = ESP_OK then h\<lparr>hb_mov := direction, hb_last_mov := direction\<rparr> else h, w2))"

definition brake :: "hbridge \<Rightarrow> ledc \<Rightarrow> esp_err \<times> hbridge \<times> ledc" where
  "brake h w =
     (if \<not> hb_initialized h then (ESP_ERR_INVALID_STATE, h, w)
      else case enter_brake_state h w of (e, w1) \<Rightarrow>
        (e, if e = ESP_OK then h\<lparr>hb_pwm := 0, hb_mov := BRAKING\<rparr> else h, w1))"

definition apply_pwm :: "int \<Rightarrow> hbridge \<Rightarrow> ledc \<Rightarrow> esp_err \<times> hbridge \<times> ledc" where
  "apply_pwm new_pwm h w =
     (if \<not> hb_initialized h then (ESP_ERR_INVALID_STATE, h, w)
      else
        let command = saturate new_pwm; direction = choice_direction command in
        if direction = STOPPED then brake h w
        else if command = hb_pwm h \<and> direction = hb_mov h then (ESP_OK, h, w)
        else case drive direction (convert_pwm (hb_dead_zone h) command) h w of (e, h1, w1) \<Rightarrow>
          (e, if e = ESP_OK then h1\<lparr>hb_pwm := command\<rparr> else h1, w1))"

definition coast :: "hbridge \<Rightarrow> ledc \<Rightarrow> esp_err \<times> hbridge \<times> ledc" where
  "coast h w =
     (if \<not> hb_initialized h then (ESP_ERR_INVALID_STATE, h, w)
      else case (if hb_last_mov h = BACKWARD then set_both (hb_ch1 h) 0 (hb_ch2 h) 0 w
                 else set_both (hb_ch2 h) 0 (hb_ch1 h) 0 w) of (e, w1) \<Rightarrow>
        (e, if e = ESP_OK then h\<lparr>hb_pwm := 0, hb_mov := STOPPED\<rparr> else h, w1))"

text \<open>Setting up: the pin checks and the driver's answers are an environment, the timer is set up
  once for all bridges.\<close>

record ledc_setup =
  ls_valid_output :: "u8 \<Rightarrow> bool"
  ls_channel_max :: u8
  ls_timer :: esp_err
  ls_reset_pin :: "u8 \<Rightarrow> esp_err"
  ls_channel :: "u8 \<Rightarrow> u8 \<Rightarrow> esp_err"

definition init_timer :: "ledc_setup \<Rightarrow> bool \<Rightarrow> esp_err \<times> bool" where
  "init_timer env timer_initialized =
     (if timer_initialized then (ESP_OK, True) else (ls_timer env, ls_timer env = ESP_OK))"

definition init_channel :: "ledc_setup \<Rightarrow> u8 \<Rightarrow> u8 \<Rightarrow> ledc \<Rightarrow> esp_err \<times> ledc" where
  "init_channel env pin channel w =
     (if \<not> ls_valid_output env pin then (ESP_ERR_INVALID_ARG, w)
      else if channel \<ge> ls_channel_max env then (ESP_ERR_INVALID_ARG, w)
      else if ls_reset_pin env pin \<noteq> ESP_OK then (ls_reset_pin env pin, w)
      else (ls_channel env pin channel,
            if ls_channel env pin channel = ESP_OK then w\<lparr>lc_duty := (lc_duty w)(channel := 0)\<rparr> else w))"

definition init_bridge :: "ledc_setup \<Rightarrow> bool \<Rightarrow> hbridge \<Rightarrow> ledc \<Rightarrow> esp_err \<times> bool \<times> hbridge \<times> ledc" where
  "init_bridge env timer h w =
     (if hb_initialized h then (ESP_OK, timer, h, w)
      else if hb_l1 h = hb_l2 h \<or> hb_ch1 h = hb_ch2 h then (ESP_ERR_INVALID_ARG, timer, h, w)
      else case init_timer env timer of (e, timer') \<Rightarrow>
        if e \<noteq> ESP_OK then (e, timer', h, w)
        else case init_channel env (hb_l1 h) (hb_ch1 h) w of (e, w1) \<Rightarrow>
          if e \<noteq> ESP_OK then (e, timer', h, w1)
          else case init_channel env (hb_l2 h) (hb_ch2 h) w1 of (e, w2) \<Rightarrow>
            if e \<noteq> ESP_OK then (e, timer', h, w2)
            else case coast (h\<lparr>hb_initialized := True, hb_pwm := 0, hb_mov := STOPPED,
                               hb_last_mov := FORWARD\<rparr>) w2 of (e, h', w3) \<Rightarrow> (e, timer', h', w3))"

section \<open>The duties an operation goes through\<close>

text \<open>From the duties before the operation to those after it, one entry per write.\<close>

definition visited :: "ledc \<Rightarrow> ledc \<Rightarrow> (u8 \<Rightarrow> nat) list" where
  "visited w w' = rev (take (length (lc_past w') - length (lc_past w)) (lc_past w')) @ [lc_duty w']"

definition went :: "ledc \<Rightarrow> (u8 \<Rightarrow> nat) list \<Rightarrow> ledc \<Rightarrow> bool" where
  "went w vs w' \<longleftrightarrow> vs \<noteq> [] \<and> hd vs = lc_duty w \<and> last vs = lc_duty w' \<and>
     lc_past w' = rev (butlast vs) @ lc_past w"

lemma visited_went: "went w vs w' \<Longrightarrow> visited w w' = vs"
  using append_butlast_last_id [of vs] by (auto simp: went_def visited_def)

lemma went_refl: "went w [lc_duty w] w"
  by (simp add: went_def)

lemma went_trans:
  assumes "went w vs w1" and "went w1 us w2"
  shows "went w (vs @ tl us) w2"
proof (cases us)
  case (Cons u us')
  show ?thesis
  proof (cases "us' = []")
    case True
    then show ?thesis using assms Cons by (auto simp: went_def)
  next
    case False
    have "rev vs = rev (butlast vs @ [last vs])"
      using assms(1) by (metis append_butlast_last_id went_def)
    also have "\<dots> = lc_duty w1 # rev (butlast vs)"
      using assms(1) by (simp only: rev_append rev.simps append_Nil append_Cons went_def)
    finally have "lc_duty w1 # rev (butlast vs) = rev vs" by (rule sym)
    then show ?thesis using assms Cons False by (auto simp: went_def butlast_append)
  qed
qed (use assms in \<open>simp add: went_def\<close>)

lemma set_duty_went:
  assumes "set_duty ch d w = (e, w')" and "d \<le> PWM_MAX_DUTY"
  shows "(e = ESP_OK \<and> went w [lc_duty w, (lc_duty w)(ch := d)] w' \<or> e \<noteq> ESP_OK \<and> went w [lc_duty w] w')"
  using assms
  by (auto simp: set_duty_def ledc_set_duty_and_update_def went_def Let_def split: list.splits if_splits)

lemma set_both_went:
  assumes "set_both cha da chb db w = (e, w')" and "da \<le> PWM_MAX_DUTY" and "db \<le> PWM_MAX_DUTY"
  shows "e = ESP_OK \<and> went w [lc_duty w, (lc_duty w)(cha := da), (lc_duty w)(cha := da, chb := db)] w' \<or>
    e \<noteq> ESP_OK \<and> (went w [lc_duty w] w' \<or> went w [lc_duty w, (lc_duty w)(cha := da)] w')"
proof -
  obtain e1 w1 where one: "set_duty cha da w = (e1, w1)" by (metis surj_pair)
  show ?thesis
  proof (cases "e1 = ESP_OK")
    case True
    then have w1: "went w [lc_duty w, (lc_duty w)(cha := da)] w1" and two: "set_duty chb db w1 = (e, w')"
      using set_duty_went [OF one assms(2)] one assms(1) by (auto simp: set_both_def)
    have "lc_duty w1 = (lc_duty w)(cha := da)" using w1 by (simp add: went_def)
    then show ?thesis
      using set_duty_went [OF two assms(3)] went_trans [OF w1] by fastforce
  next
    case False
    then show ?thesis using set_duty_went [OF one assms(2)] one assms(1) by (auto simp: set_both_def)
  qed
qed

text \<open>The same with a predicate on the steps.\<close>

lemma set_both_steps:
  assumes "set_both cha da chb db w = (e, w')" and "da \<le> PWM_MAX_DUTY" and "db \<le> PWM_MAX_DUTY"
    and "P [lc_duty w]" and "P [lc_duty w, (lc_duty w)(cha := da)]"
    and "P [lc_duty w, (lc_duty w)(cha := da), (lc_duty w)(cha := da, chb := db)]"
  shows "\<exists>vs. went w vs w' \<and> P vs \<and> (e = ESP_OK \<longrightarrow> lc_duty w' = (lc_duty w)(cha := da, chb := db))"
  using set_both_went [OF assms(1-3)]
proof (elim disjE conjE)
  assume "went w [lc_duty w, (lc_duty w)(cha := da), (lc_duty w)(cha := da, chb := db)] w'"
  then show ?thesis using assms(6)
    by (intro exI [of _ "[lc_duty w, (lc_duty w)(cha := da), (lc_duty w)(cha := da, chb := db)]"])
      (simp add: went_def)
qed (use assms(4,5) in blast)+

section \<open>Invariant\<close>

lemma convert_pwm_range:
  assumes "dz \<le> 100" and "command \<noteq> 0" and "\<bar>command\<bar> \<le> 100"
  shows "1 \<le> convert_pwm dz command" "convert_pwm dz command \<le> PWM_MAX_DUTY"
proof -
  define m where "m = nat \<bar>command\<bar>"
  define a where "a = (m * (100 - dz) + 50) div 100"
  have m: "1 \<le> m" "m \<le> 100" using assms(2,3) by (auto simp: m_def)
  have "m * (100 - dz) \<le> 100 * (100 - dz)" using m(2) by (rule mult_le_mono1)
  then have "a \<le> (100 * (100 - dz) + 50) div 100" unfolding a_def by (intro div_le_mono) simp
  then have hi: "dz + a \<le> 100" using assms(1) by simp
  have lo: "1 \<le> dz + a"
  proof (cases "dz = 0")
    case True
    then have "a = (m * 100 + 50) div 100" by (simp add: a_def)
    then show ?thesis using m(1) by simp
  qed simp
  have c: "convert_pwm dz command = ((dz + a) * PWM_MAX_DUTY + 50) div 100"
    using m(1) by (simp add: convert_pwm_def Let_def m_def [symmetric] a_def)
  have "1 * PWM_MAX_DUTY \<le> (dz + a) * PWM_MAX_DUTY" using lo by (rule mult_le_mono1)
  then have "100 \<le> (dz + a) * PWM_MAX_DUTY + 50" by (simp add: PWM_MAX_DUTY_def)
  then show "1 \<le> convert_pwm dz command" unfolding c by linarith
  have "(dz + a) * PWM_MAX_DUTY \<le> 100 * PWM_MAX_DUTY" using hi by (rule mult_le_mono1)
  then show "convert_pwm dz command \<le> PWM_MAX_DUTY" unfolding c by linarith
qed

text \<open>What the state claims about the two inputs.\<close>

definition described :: "hbridge \<Rightarrow> nat \<Rightarrow> nat \<Rightarrow> bool" where
  "described h d1 d2 \<longleftrightarrow> (case hb_mov h of
     FORWARD \<Rightarrow> 0 < hb_pwm h \<and> d1 = PWM_MAX_DUTY \<and> d2 = PWM_MAX_DUTY - convert_pwm (hb_dead_zone h) (hb_pwm h)
   | BACKWARD \<Rightarrow> hb_pwm h < 0 \<and> d2 = PWM_MAX_DUTY \<and> d1 = PWM_MAX_DUTY - convert_pwm (hb_dead_zone h) (hb_pwm h)
   | BRAKING \<Rightarrow> hb_pwm h = 0 \<and> d1 = PWM_MAX_DUTY \<and> d2 = PWM_MAX_DUTY
   | STOPPED \<Rightarrow> hb_pwm h = 0 \<and> d1 = 0 \<and> d2 = 0)"

definition bridge_ok :: "hbridge \<Rightarrow> ledc \<Rightarrow> bool" where
  "bridge_ok h w \<longleftrightarrow> hb_initialized h \<and> hb_ch1 h \<noteq> hb_ch2 h \<and> hb_dead_zone h \<le> 100 \<and>
     \<bar>hb_pwm h\<bar> \<le> 100 \<and> hb_last_mov h \<in> {FORWARD, BACKWARD} \<and>
     (hb_mov h \<in> {FORWARD, BACKWARD} \<longrightarrow> hb_last_mov h = hb_mov h) \<and>
     described h (lc_duty w (hb_ch1 h)) (lc_duty w (hb_ch2 h))"

datatype bridge_op = Apply int | Brake | Coast

fun bridge_step :: "bridge_op \<Rightarrow> hbridge \<Rightarrow> ledc \<Rightarrow> esp_err \<times> hbridge \<times> ledc" where
  "bridge_step (Apply v) h w = apply_pwm v h w"
| "bridge_step Brake h w = brake h w"
| "bridge_step Coast h w = coast h w"

text \<open>The direction an operation is asked to drive in.\<close>

fun asked :: "bridge_op \<Rightarrow> movement" where
  "asked (Apply v) = choice_direction (saturate v)"
| "asked Brake = STOPPED"
| "asked Coast = STOPPED"

definition pull :: "hbridge \<Rightarrow> (u8 \<Rightarrow> nat) \<Rightarrow> int" where
  "pull h d = int (d (hb_ch1 h)) - int (d (hb_ch2 h))"

lemma saturate_range: "\<bar>saturate v\<bar> \<le> 100"
  by (auto simp: saturate_def SUPLIMIT_def INFLIMIT_def)

text \<open>No step of the duties pulls against the way the motor last turned, unless it was asked to, and
  two steps in a row never pull in opposite directions.\<close>

definition fair :: "hbridge \<Rightarrow> movement \<Rightarrow> (u8 \<Rightarrow> nat) list \<Rightarrow> bool" where
  "fair h target vs \<longleftrightarrow>
     (\<forall>d \<in> set vs. (pull h d > 0 \<longrightarrow> hb_last_mov h = FORWARD \<or> target = FORWARD) \<and>
        (pull h d < 0 \<longrightarrow> hb_last_mov h = BACKWARD \<or> target = BACKWARD)) \<and>
     successively (\<lambda>a b. \<not> (pull h a > 0 \<and> pull h b < 0) \<and> \<not> (pull h a < 0 \<and> pull h b > 0)) vs"

lemma start_pull:
  assumes "bridge_ok h w"
  shows "hb_last_mov h = FORWARD \<Longrightarrow> pull h (lc_duty w) \<ge> 0"
    "hb_last_mov h = BACKWARD \<Longrightarrow> pull h (lc_duty w) \<le> 0"
  using assms
  by (auto simp: bridge_ok_def described_def pull_def split: movement.splits)

lemma brake_fair:
  assumes "bridge_ok h w" and "enter_brake_state h w = (e, w')"
  shows "\<exists>vs. went w vs w' \<and> fair h target vs \<and>
    (e = ESP_OK \<longrightarrow> lc_duty w' (hb_ch1 h) = PWM_MAX_DUTY \<and> lc_duty w' (hb_ch2 h) = PWM_MAX_DUTY)"
proof -
  let ?D = "lc_duty w" and ?M = PWM_MAX_DUTY
  have ne: "hb_ch1 h \<noteq> hb_ch2 h" using assms(1) by (simp add: bridge_ok_def)
  have bound: "?D (hb_ch1 h) \<le> ?M" "?D (hb_ch2 h) \<le> ?M"
    using assms(1) by (auto simp: bridge_ok_def described_def split: movement.splits)
  show ?thesis
  proof (cases "hb_mov h = BACKWARD \<or> (hb_mov h = STOPPED \<and> hb_last_mov h = BACKWARD)")
    case True
    then have w: "set_both (hb_ch2 h) ?M (hb_ch1 h) ?M w = (e, w')"
      using assms(2) by (simp add: enter_brake_state_def)
    have last: "hb_last_mov h = BACKWARD" using True assms(1) by (auto simp: bridge_ok_def)
    have "fair h target [?D]" "fair h target [?D, ?D(hb_ch2 h := ?M)]"
      "fair h target [?D, ?D(hb_ch2 h := ?M), ?D(hb_ch2 h := ?M, hb_ch1 h := ?M)]"
      using start_pull [OF assms(1)] last ne bound by (auto simp: fair_def pull_def)
    from set_both_steps [OF w _ _ this] show ?thesis using ne by auto
  next
    case False
    then have w: "set_both (hb_ch1 h) ?M (hb_ch2 h) ?M w = (e, w')"
      using assms(2) by (auto simp: enter_brake_state_def)
    have "hb_last_mov h = FORWARD \<or> hb_mov h = BRAKING"
      using False assms(1) by (cases "hb_mov h") (auto simp: bridge_ok_def)
    then have "fair h target [?D]" "fair h target [?D, ?D(hb_ch1 h := ?M)]"
      "fair h target [?D, ?D(hb_ch1 h := ?M), ?D(hb_ch1 h := ?M, hb_ch2 h := ?M)]"
      using start_pull [OF assms(1)] ne bound assms(1)
      by (auto simp: fair_def pull_def bridge_ok_def described_def)
    from set_both_steps [OF w _ _ this] show ?thesis using ne by auto
  qed
qed

lemma coast_fair:
  assumes "bridge_ok h w" and "coast h w = (e, h', w')"
  shows "\<exists>vs. went w vs w' \<and> fair h STOPPED vs \<and> (e = ESP_OK \<longrightarrow> bridge_ok h' w')"
proof -
  let ?D = "lc_duty w"
  have ne: "hb_ch1 h \<noteq> hb_ch2 h" and init: "hb_initialized h" using assms(1) by (simp_all add: bridge_ok_def)
  have h': "h' = (if e = ESP_OK then h\<lparr>hb_pwm := 0, hb_mov := STOPPED\<rparr> else h)"
    using assms(2) init by (auto simp: coast_def split: prod.splits if_splits)
  consider "hb_last_mov h = FORWARD" | "hb_last_mov h = BACKWARD" using assms(1) by (auto simp: bridge_ok_def)
  then show ?thesis
  proof cases
    case 1
    then have w: "set_both (hb_ch2 h) 0 (hb_ch1 h) 0 w = (e, w')"
      using assms(2) init by (auto simp: coast_def split: prod.splits)
    have "fair h STOPPED [?D]" "fair h STOPPED [?D, ?D(hb_ch2 h := 0)]"
      "fair h STOPPED [?D, ?D(hb_ch2 h := 0), ?D(hb_ch2 h := 0, hb_ch1 h := 0)]"
      using start_pull [OF assms(1)] 1 ne by (auto simp: fair_def pull_def)
    from set_both_steps [OF w _ _ this] show ?thesis
      using ne assms(1) h' by (auto simp: bridge_ok_def described_def)
  next
    case 2
    then have w: "set_both (hb_ch1 h) 0 (hb_ch2 h) 0 w = (e, w')"
      using assms(2) init by (auto simp: coast_def split: prod.splits)
    have "fair h STOPPED [?D]" "fair h STOPPED [?D, ?D(hb_ch1 h := 0)]"
      "fair h STOPPED [?D, ?D(hb_ch1 h := 0), ?D(hb_ch1 h := 0, hb_ch2 h := 0)]"
      using start_pull [OF assms(1)] 2 ne by (auto simp: fair_def pull_def)
    from set_both_steps [OF w _ _ this] show ?thesis
      using ne assms(1) h' by (auto simp: bridge_ok_def described_def)
  qed
qed

lemma fair_append:
  assumes "fair h target vs" and "fair h target us" and "vs \<noteq> []" and "us \<noteq> []" and "last vs = hd us"
  shows "fair h target (vs @ tl us)"
proof -
  obtain u us' where us: "us = u # us'" using assms(4) by (cases us) auto
  have "successively P (vs @ us')" if "successively P vs" "successively P (last vs # us')" for P :: "(u8 \<Rightarrow> nat) \<Rightarrow> _"
    using that assms(3) by (cases us') (auto simp: successively_append_iff)
  then show ?thesis using assms us by (auto simp: fair_def)
qed

text \<open>Driving without a reversal, from where the motor last turned that way or was braked.\<close>

lemma forward_steps:
  assumes "hb_ch1 h \<noteq> hb_ch2 h" and "lc_duty w (hb_ch1 h) \<le> PWM_MAX_DUTY" and "lc_duty w (hb_ch2 h) \<le> PWM_MAX_DUTY"
    and "pull h (lc_duty w) \<ge> 0" and "k \<le> PWM_MAX_DUTY"
    and "set_both (hb_ch1 h) PWM_MAX_DUTY (hb_ch2 h) (PWM_MAX_DUTY - k) w = (e, w')"
  shows "\<exists>vs. went w vs w' \<and> fair h FORWARD vs \<and> (e = ESP_OK \<longrightarrow> lc_duty w' (hb_ch1 h) = PWM_MAX_DUTY \<and>
    lc_duty w' (hb_ch2 h) = PWM_MAX_DUTY - k)"
proof -
  let ?D = "lc_duty w"
  have "fair h FORWARD [?D]" "fair h FORWARD [?D, ?D(hb_ch1 h := PWM_MAX_DUTY)]"
    "fair h FORWARD [?D, ?D(hb_ch1 h := PWM_MAX_DUTY), ?D(hb_ch1 h := PWM_MAX_DUTY, hb_ch2 h := PWM_MAX_DUTY - k)]"
    using assms(1-5) by (auto simp: fair_def pull_def)
  from set_both_steps [OF assms(6) _ _ this] show ?thesis using assms(1) by auto
qed

lemma backward_steps:
  assumes "hb_ch1 h \<noteq> hb_ch2 h" and "lc_duty w (hb_ch1 h) \<le> PWM_MAX_DUTY" and "lc_duty w (hb_ch2 h) \<le> PWM_MAX_DUTY"
    and "pull h (lc_duty w) \<le> 0" and "k \<le> PWM_MAX_DUTY"
    and "set_both (hb_ch2 h) PWM_MAX_DUTY (hb_ch1 h) (PWM_MAX_DUTY - k) w = (e, w')"
  shows "\<exists>vs. went w vs w' \<and> fair h BACKWARD vs \<and> (e = ESP_OK \<longrightarrow> lc_duty w' (hb_ch2 h) = PWM_MAX_DUTY \<and>
    lc_duty w' (hb_ch1 h) = PWM_MAX_DUTY - k)"
proof -
  let ?D = "lc_duty w"
  have "fair h BACKWARD [?D]" "fair h BACKWARD [?D, ?D(hb_ch2 h := PWM_MAX_DUTY)]"
    "fair h BACKWARD [?D, ?D(hb_ch2 h := PWM_MAX_DUTY), ?D(hb_ch2 h := PWM_MAX_DUTY, hb_ch1 h := PWM_MAX_DUTY - k)]"
    using assms(1-5) by (auto simp: fair_def pull_def)
  from set_both_steps [OF assms(6) _ _ this] show ?thesis using assms(1) by auto
qed

lemma drive_fair:
  assumes "bridge_ok h w" and "dir \<in> {FORWARD, BACKWARD}" and "k \<le> PWM_MAX_DUTY"
    and "drive dir k h w = (e, h', w')"
  shows "\<exists>vs. went w vs w' \<and> fair h dir vs \<and>
    h' = (if e = ESP_OK then h\<lparr>hb_mov := dir, hb_last_mov := dir\<rparr> else h) \<and>
    (e = ESP_OK \<longrightarrow> (if dir = FORWARD
       then lc_duty w' (hb_ch1 h) = PWM_MAX_DUTY \<and> lc_duty w' (hb_ch2 h) = PWM_MAX_DUTY - k
       else lc_duty w' (hb_ch2 h) = PWM_MAX_DUTY \<and> lc_duty w' (hb_ch1 h) = PWM_MAX_DUTY - k))"
proof -
  have ne: "hb_ch1 h \<noteq> hb_ch2 h" using assms(1) by (simp add: bridge_ok_def)
  have bound: "lc_duty w (hb_ch1 h) \<le> PWM_MAX_DUTY" "lc_duty w (hb_ch2 h) \<le> PWM_MAX_DUTY"
    using assms(1) by (auto simp: bridge_ok_def described_def split: movement.splits)
  let ?writes = "\<lambda>w. if dir = FORWARD then set_both (hb_ch1 h) PWM_MAX_DUTY (hb_ch2 h) (PWM_MAX_DUTY - k) w
    else set_both (hb_ch2 h) PWM_MAX_DUTY (hb_ch1 h) (PWM_MAX_DUTY - k) w"
  have rest: "\<exists>vs. went v vs v' \<and> fair h dir vs \<and> (e = ESP_OK \<longrightarrow> (if dir = FORWARD
       then lc_duty v' (hb_ch1 h) = PWM_MAX_DUTY \<and> lc_duty v' (hb_ch2 h) = PWM_MAX_DUTY - k
       else lc_duty v' (hb_ch2 h) = PWM_MAX_DUTY \<and> lc_duty v' (hb_ch1 h) = PWM_MAX_DUTY - k))"
    if "?writes v = (e, v')" "lc_duty v (hb_ch1 h) \<le> PWM_MAX_DUTY" "lc_duty v (hb_ch2 h) \<le> PWM_MAX_DUTY"
      "if dir = FORWARD then pull h (lc_duty v) \<ge> 0 else pull h (lc_duty v) \<le> 0" for v v' e
    using that assms(2,3) forward_steps [OF ne that(2,3) _ assms(3)] backward_steps [OF ne that(2,3) _ assms(3)]
    by (auto split: if_splits)
  show ?thesis
  proof (cases "hb_mov h \<in> {FORWARD, BACKWARD} \<and> hb_mov h \<noteq> dir")
    case True
    obtain e1 w1 where br: "enter_brake_state h w = (e1, w1)" by (metis surj_pair)
    obtain vs where vs: "went w vs w1" "fair h dir vs"
        "e1 = ESP_OK \<longrightarrow> lc_duty w1 (hb_ch1 h) = PWM_MAX_DUTY \<and> lc_duty w1 (hb_ch2 h) = PWM_MAX_DUTY"
      using brake_fair [OF assms(1) br, of dir] by blast
    show ?thesis
    proof (cases "e1 = ESP_OK")
      case False
      then have "e = e1 \<and> h' = h \<and> w' = w1"
        using assms(2,4) True br by (auto simp: drive_def Let_def)
      then show ?thesis using vs(1,2) False by auto
    next
      case ok: True
      then have w: "?writes w1 = (e, w')" and h': "h' = (if e = ESP_OK then h\<lparr>hb_mov := dir, hb_last_mov := dir\<rparr> else h)"
        using assms(2,4) True br by (auto simp: drive_def Let_def split: prod.splits if_splits)
      obtain us where us: "went w1 us w'" "fair h dir us" "e = ESP_OK \<longrightarrow> (if dir = FORWARD
          then lc_duty w' (hb_ch1 h) = PWM_MAX_DUTY \<and> lc_duty w' (hb_ch2 h) = PWM_MAX_DUTY - k
          else lc_duty w' (hb_ch2 h) = PWM_MAX_DUTY \<and> lc_duty w' (hb_ch1 h) = PWM_MAX_DUTY - k)"
      proof -
        have "lc_duty w1 (hb_ch1 h) \<le> PWM_MAX_DUTY" "lc_duty w1 (hb_ch2 h) \<le> PWM_MAX_DUTY"
          "if dir = FORWARD then pull h (lc_duty w1) \<ge> 0 else pull h (lc_duty w1) \<le> 0"
          using vs(3) ok by (simp_all add: pull_def)
        from rest [OF w this] show thesis using that by blast
      qed
      have "fair h dir (vs @ tl us)"
        using fair_append [OF vs(2) us(2)] vs(1) us(1) by (simp add: went_def)
      then show ?thesis using went_trans [OF vs(1) us(1)] us(3) h' by blast
    qed
  next
    case False
    have w: "?writes w = (e, w')" and h': "h' = (if e = ESP_OK then h\<lparr>hb_mov := dir, hb_last_mov := dir\<rparr> else h)"
      using assms(2,4) False by (auto simp: drive_def Let_def split: prod.splits if_splits)
    have "if dir = FORWARD then pull h (lc_duty w) \<ge> 0 else pull h (lc_duty w) \<le> 0"
      using assms(1,2) False by (auto simp: bridge_ok_def described_def pull_def split: movement.splits)
    from rest [OF w bound this] show ?thesis using h' by blast
  qed
qed

lemma apply_fair:
  assumes "bridge_ok h w" and "apply_pwm v h w = (e, h', w')"
  shows "\<exists>vs. went w vs w' \<and> fair h (asked (Apply v)) vs \<and> (e = ESP_OK \<longrightarrow> bridge_ok h' w')"
proof -
  let ?c = "saturate v"
  have init: "hb_initialized h" and ne: "hb_ch1 h \<noteq> hb_ch2 h" and dz: "hb_dead_zone h \<le> 100"
    using assms(1) by (simp_all add: bridge_ok_def)
  consider (zero) "?c = 0" | (same) "?c \<noteq> 0" "?c = hb_pwm h" "choice_direction ?c = hb_mov h"
    | (new) "?c \<noteq> 0" "\<not> (?c = hb_pwm h \<and> choice_direction ?c = hb_mov h)" by blast
  then show ?thesis
  proof cases
    case zero
    then have "brake h w = (e, h', w')" using assms(2) init by (simp add: apply_pwm_def choice_direction_def)
    then obtain e1 w1 where br: "enter_brake_state h w = (e1, w1)" "e = e1" "w' = w1"
        "h' = (if e1 = ESP_OK then h\<lparr>hb_pwm := 0, hb_mov := BRAKING\<rparr> else h)"
      using init by (auto simp: brake_def split: prod.splits)
    show ?thesis
      using brake_fair [OF assms(1) br(1), of "asked (Apply v)"] br(2-4) assms(1)
      by (auto simp: bridge_ok_def described_def)
  next
    case same
    then have "(e, h', w') = (ESP_OK, h, w)"
      using assms(2) init by (auto simp: apply_pwm_def Let_def choice_direction_def split: if_splits)
    then show ?thesis
      using went_refl [of w] start_pull [OF assms(1)] assms(1)
      by (intro exI [of _ "[lc_duty w]"]) (auto simp: fair_def bridge_ok_def)
  next
    case new
    let ?d = "choice_direction ?c" and ?k = "convert_pwm (hb_dead_zone h) ?c"
    have d: "?d \<in> {FORWARD, BACKWARD}" "?d \<noteq> STOPPED" using new(1) by (auto simp: choice_direction_def)
    obtain h1 where dr: "drive ?d ?k h w = (e, h1, w')" "h' = (if e = ESP_OK then h1\<lparr>hb_pwm := ?c\<rparr> else h1)"
      using assms(2) init new d by (auto simp: apply_pwm_def Let_def split: prod.splits if_splits)
    have k: "?k \<le> PWM_MAX_DUTY" using convert_pwm_range(2) [OF dz new(1) saturate_range] .
    obtain vs where vs: "went w vs w'" "fair h ?d vs"
        "h1 = (if e = ESP_OK then h\<lparr>hb_mov := ?d, hb_last_mov := ?d\<rparr> else h)"
        "e = ESP_OK \<longrightarrow> (if ?d = FORWARD
         then lc_duty w' (hb_ch1 h) = PWM_MAX_DUTY \<and> lc_duty w' (hb_ch2 h) = PWM_MAX_DUTY - ?k
         else lc_duty w' (hb_ch2 h) = PWM_MAX_DUTY \<and> lc_duty w' (hb_ch1 h) = PWM_MAX_DUTY - ?k)"
      using drive_fair [OF assms(1) d(1) k dr(1)] by blast
    have "e = ESP_OK \<longrightarrow> bridge_ok h' w'"
      using vs(3,4) dr(2) d(1) new(1) assms(1) saturate_range [of v]
      by (auto simp: bridge_ok_def described_def choice_direction_def split: if_splits)
    then show ?thesis using vs(1,2) by auto
  qed
qed

lemma step_fair:
  assumes "bridge_ok h w" and "bridge_step op h w = (e, h', w')"
  shows "\<exists>vs. went w vs w' \<and> fair h (asked op) vs \<and> (e = ESP_OK \<longrightarrow> bridge_ok h' w')"
proof (cases op)
  case (Apply v)
  then show ?thesis using apply_fair [OF assms(1)] assms(2) by simp
next
  case Brake
  have init: "hb_initialized h" using assms(1) by (simp add: bridge_ok_def)
  obtain e1 w1 where br: "enter_brake_state h w = (e1, w1)" "e = e1" "w' = w1"
      "h' = (if e1 = ESP_OK then h\<lparr>hb_pwm := 0, hb_mov := BRAKING\<rparr> else h)"
    using assms(2) init Brake by (auto simp: brake_def split: prod.splits)
  show ?thesis
    using brake_fair [OF assms(1) br(1), of "asked op"] br(2-4) assms(1)
    by (auto simp: bridge_ok_def described_def)
next
  case Coast
  then show ?thesis using coast_fair [OF assms(1)] assms(2) by simp
qed

section \<open>Properties\<close>

text \<open>C23: Whatever command a motor gets, and even if a write of the peripheral fails on the way, no
  intermediate setting of the two inputs drives the motor backward unless it last turned backward or
  was commanded backward, and the same forward; and a change of direction passes through a setting
  that does not drive at all.\<close>

theorem bridge_never_pulls_against:
  assumes "bridge_ok h w" and "bridge_step op h w = (e, h', w')"
  shows "(\<forall>d \<in> set (visited w w').
      (pull h d > 0 \<longrightarrow> hb_last_mov h = FORWARD \<or> asked op = FORWARD) \<and>
      (pull h d < 0 \<longrightarrow> hb_last_mov h = BACKWARD \<or> asked op = BACKWARD)) \<and>
    successively (\<lambda>a b. \<not> (pull h a > 0 \<and> pull h b < 0) \<and> \<not> (pull h a < 0 \<and> pull h b > 0))
      (visited w w')"
  using step_fair [OF assms] visited_went by (auto simp: fair_def)

definition demo_bridge :: hbridge where
  "demo_bridge = \<lparr>hb_pwm = 100, hb_mov = FORWARD, hb_last_mov = FORWARD, hb_l1 = 21, hb_l2 = 47,
     hb_ch1 = 1, hb_ch2 = 2, hb_dead_zone = 0, hb_initialized = True\<rparr>"

definition demo_ledc :: "esp_err list \<Rightarrow> ledc" where
  "demo_ledc as = \<lparr>lc_duty = (\<lambda>ch. if ch = 1 then 2047 else 0), lc_past = [], lc_answers = as\<rparr>"

lemma demo_bridge_ok: "bridge_ok demo_bridge (demo_ledc as)"
  by (simp add: bridge_ok_def demo_bridge_def demo_ledc_def described_def convert_pwm_def PWM_MAX_DUTY_def Let_def)

theorem bridge_never_pulls_against_witness:
  "\<exists>e h' w'. bridge_step (Apply (-30)) demo_bridge (demo_ledc []) = (e, h', w') \<and>
     successively (\<lambda>a b. \<not> (pull demo_bridge a > 0 \<and> pull demo_bridge b < 0) \<and>
       \<not> (pull demo_bridge a < 0 \<and> pull demo_bridge b > 0)) (visited (demo_ledc []) w')"
proof -
  obtain e h' w' where step: "bridge_step (Apply (-30)) demo_bridge (demo_ledc []) = (e, h', w')"
    by (metis surj_pair)
  with bridge_never_pulls_against [OF demo_bridge_ok step] show ?thesis by blast
qed

lemma convert_pwm_mono:
  assumes "dz \<le> 100" and "\<bar>u\<bar> \<le> \<bar>v\<bar>"
  shows "convert_pwm dz u \<le> convert_pwm dz v"
proof (cases "u = 0")
  case False
  have m: "nat \<bar>u\<bar> \<le> nat \<bar>v\<bar>" using assms(2) by simp
  then have "(nat \<bar>u\<bar> * (100 - dz) + 50) div 100 \<le> (nat \<bar>v\<bar> * (100 - dz) + 50) div 100"
    by (intro div_le_mono add_le_mono1 mult_le_mono1)
  moreover have "((dz + a) * PWM_MAX_DUTY + 50) div 100 \<le> ((dz + b) * PWM_MAX_DUTY + 50) div 100"
    if "a \<le> b" for a b :: nat
    using that by (intro div_le_mono add_le_mono1 mult_le_mono1 add_left_mono)
  moreover have "nat \<bar>u\<bar> \<noteq> 0" "nat \<bar>v\<bar> \<noteq> 0" using False assms(2) by auto
  ultimately show ?thesis unfolding convert_pwm_def Let_def by (simp only: if_False)
qed (simp add: convert_pwm_def)

lemma set_duty_ok:
  assumes "\<forall>a \<in> set (lc_answers w). a = ESP_OK"
  shows "\<exists>w'. set_duty ch d w = (ESP_OK, w') \<and> (\<forall>a \<in> set (lc_answers w'). a = ESP_OK)"
  using assms by (cases "lc_answers w") (auto simp: set_duty_def ledc_set_duty_and_update_def Let_def)

lemma set_both_ok:
  assumes "\<forall>a \<in> set (lc_answers w). a = ESP_OK"
  shows "\<exists>w'. set_both cha da chb db w = (ESP_OK, w') \<and> (\<forall>a \<in> set (lc_answers w'). a = ESP_OK)"
proof -
  obtain w1 where w1: "set_duty cha da w = (ESP_OK, w1)" "\<forall>a \<in> set (lc_answers w1). a = ESP_OK"
    using set_duty_ok [OF assms] by blast
  obtain w2 where "set_duty chb db w1 = (ESP_OK, w2)" "\<forall>a \<in> set (lc_answers w2). a = ESP_OK"
    using set_duty_ok [OF w1(2)] by blast
  with w1 show ?thesis by (simp add: set_both_def)
qed

lemma enter_brake_ok:
  assumes "\<forall>a \<in> set (lc_answers w). a = ESP_OK"
  shows "\<exists>w'. enter_brake_state h w = (ESP_OK, w') \<and> (\<forall>a \<in> set (lc_answers w'). a = ESP_OK)"
  using set_both_ok [OF assms] by (simp add: enter_brake_state_def)

lemma apply_pwm_ok:
  assumes "\<forall>a \<in> set (lc_answers w). a = ESP_OK" and "hb_initialized h"
  shows "\<exists>h' w'. apply_pwm v h w = (ESP_OK, h', w')"
proof -
  let ?c = "saturate v"
  obtain w1 where w1: "enter_brake_state h w = (ESP_OK, w1)" "\<forall>a \<in> set (lc_answers w1). a = ESP_OK"
    using enter_brake_ok [OF assms(1)] by blast
  have dr: "\<exists>h' w'. drive dir k h w = (ESP_OK, h', w')" if "dir \<in> {FORWARD, BACKWARD}" for dir k
  proof -
    obtain w2 where w2: "(if (hb_mov h = FORWARD \<and> dir = BACKWARD) \<or> (hb_mov h = BACKWARD \<and> dir = FORWARD)
        then enter_brake_state h w else (ESP_OK, w)) = (ESP_OK, w2)" "\<forall>a \<in> set (lc_answers w2). a = ESP_OK"
      using w1 assms(1) by (cases "(hb_mov h = FORWARD \<and> dir = BACKWARD) \<or> (hb_mov h = BACKWARD \<and> dir = FORWARD)") auto
    obtain w3 where w3: "(if dir = FORWARD then set_both (hb_ch1 h) PWM_MAX_DUTY (hb_ch2 h) (PWM_MAX_DUTY - k) w2
        else set_both (hb_ch2 h) PWM_MAX_DUTY (hb_ch1 h) (PWM_MAX_DUTY - k) w2) = (ESP_OK, w3)"
      using set_both_ok [OF w2(2)] by metis
    have "\<not> (dir \<noteq> FORWARD \<and> dir \<noteq> BACKWARD)" using that by auto
    then show ?thesis unfolding drive_def Let_def w2(1) prod.case by (simp add: w3)
  qed
  show ?thesis
  proof (cases "choice_direction ?c = STOPPED")
    case True
    then show ?thesis using assms(2) w1 by (simp add: apply_pwm_def brake_def)
  next
    case False
    then have "choice_direction ?c \<in> {FORWARD, BACKWARD}" by (auto simp: choice_direction_def)
    then obtain h2 w2 where "drive (choice_direction ?c) (convert_pwm (hb_dead_zone h) ?c) h w = (ESP_OK, h2, w2)"
      using dr by blast
    then show ?thesis using assms(2) False by (simp add: apply_pwm_def Let_def)
  qed
qed

text \<open>As long as the peripheral answers, a command is carried out whatever the motor was doing:
  zero brakes with both inputs high, any other command drives in its direction for the converted
  duty, which is at least one count, grows with the command, jumps over the dead zone and is the
  full period at -100 and 100 (and beyond, where the command is cut); the state stays true to the
  inputs.\<close>

theorem bridge_drives_as_told:
  assumes "bridge_ok h w" and "\<forall>a \<in> set (lc_answers w). a = ESP_OK"
  shows "\<exists>h' w'. apply_pwm v h w = (ESP_OK, h', w') \<and> bridge_ok h' w' \<and>
    hb_pwm h' = saturate v \<and>
    pull h' (lc_duty w') = sgn v * int (convert_pwm (hb_dead_zone h) (saturate v)) \<and>
    (v = 0 \<longrightarrow> lc_duty w' (hb_ch1 h') = PWM_MAX_DUTY \<and> lc_duty w' (hb_ch2 h') = PWM_MAX_DUTY) \<and>
    (v \<noteq> 0 \<longrightarrow> 1 \<le> convert_pwm (hb_dead_zone h) (saturate v)) \<and>
    (\<forall>u. \<bar>v\<bar> \<le> \<bar>u\<bar> \<longrightarrow> convert_pwm (hb_dead_zone h) (saturate v) \<le> convert_pwm (hb_dead_zone h) (saturate u)) \<and>
    (\<bar>v\<bar> \<ge> 100 \<longrightarrow> convert_pwm (hb_dead_zone h) (saturate v) = PWM_MAX_DUTY)"
proof -
  have init: "hb_initialized h" and dz: "hb_dead_zone h \<le> 100" using assms(1) by (simp_all add: bridge_ok_def)
  obtain h' w' where ap: "apply_pwm v h w = (ESP_OK, h', w')" using apply_pwm_ok [OF assms(2) init] by blast
  have ok: "bridge_ok h' w'" using apply_fair [OF assms(1) ap] by blast
  have st: "hb_pwm h' = saturate v \<and> hb_dead_zone h' = hb_dead_zone h \<and>
      hb_mov h' = (if v = 0 then BRAKING else choice_direction v)"
    using ap init
    by (auto simp: apply_pwm_def brake_def drive_def Let_def choice_direction_def saturate_def SUPLIMIT_def
        INFLIMIT_def split: prod.splits if_splits)
  have abs: "\<bar>saturate v\<bar> \<le> \<bar>saturate u\<bar>" if "\<bar>v\<bar> \<le> \<bar>u\<bar>" for u
    using that by (auto simp: saturate_def SUPLIMIT_def INFLIMIT_def)
  have nz: "v \<noteq> 0 \<Longrightarrow> saturate v \<noteq> 0" by (auto simp: saturate_def SUPLIMIT_def INFLIMIT_def)
  have range: "v \<noteq> 0 \<Longrightarrow> 1 \<le> convert_pwm (hb_dead_zone h) (saturate v)"
    "v \<noteq> 0 \<Longrightarrow> convert_pwm (hb_dead_zone h) (saturate v) \<le> PWM_MAX_DUTY"
    using convert_pwm_range [OF dz nz saturate_range] by blast+
  have "pull h' (lc_duty w') = sgn v * int (convert_pwm (hb_dead_zone h) (saturate v))"
    using ok st range(2) by (auto simp: bridge_ok_def described_def pull_def choice_direction_def split: if_splits)
  moreover have "v = 0 \<longrightarrow> lc_duty w' (hb_ch1 h') = PWM_MAX_DUTY \<and> lc_duty w' (hb_ch2 h') = PWM_MAX_DUTY"
    using ok st by (auto simp: bridge_ok_def described_def)
  moreover have "convert_pwm (hb_dead_zone h) (saturate v) = PWM_MAX_DUTY" if "\<bar>v\<bar> \<ge> 100"
  proof -
    have "\<bar>saturate v\<bar> = 100" using that by (auto simp: saturate_def SUPLIMIT_def INFLIMIT_def)
    then show ?thesis using dz by (simp add: convert_pwm_def Let_def PWM_MAX_DUTY_def)
  qed
  ultimately show ?thesis
    using ap ok st range(1) convert_pwm_mono [OF dz abs] by blast
qed

theorem bridge_drives_as_told_witness:
  "\<exists>h' w'. apply_pwm (-250) demo_bridge (demo_ledc []) = (ESP_OK, h', w') \<and> hb_pwm h' = -100 \<and>
     pull h' (lc_duty w') = -2047"
proof -
  have s: "saturate (-250) = -100" "hb_dead_zone demo_bridge = 0" "sgn (-250 :: int) = -1"
    by (simp_all add: saturate_def SUPLIMIT_def INFLIMIT_def demo_bridge_def)
  have c: "convert_pwm 0 (-100) = 2047" by (simp add: convert_pwm_def Let_def PWM_MAX_DUTY_def)
  have "\<forall>a \<in> set (lc_answers (demo_ledc [])). a = ESP_OK" by (simp add: demo_ledc_def)
  from bridge_drives_as_told [OF demo_bridge_ok this, of "-250"] show ?thesis
    unfolding s c by auto
qed

text \<open>When the write that would start the opposite direction fails, the motor is left braked
  while the state still says that it runs: the caller gets the error, but asking for the old speed
  again is answered with success without any write, and the motor stays braked.\<close>

theorem failed_reversal_leaves_motor_braked:
  assumes "bridge_ok h w" and "hb_mov h = FORWARD" and "v < 0"
    and "lc_answers w = [ESP_OK, ESP_OK, ESP_FAIL]"
    and "apply_pwm v h w = (e1, h1, w1)" and "apply_pwm (hb_pwm h) h1 w1 = (e2, h2, w2)"
  shows "e1 = ESP_FAIL \<and> e2 = ESP_OK \<and> w2 = w1 \<and> hb_pwm h2 = hb_pwm h \<and> hb_pwm h > 0 \<and>
    pull h (lc_duty w) > 0 \<and> pull h2 (lc_duty w2) = 0"
proof -
  have ok: "hb_initialized h" "hb_ch1 h \<noteq> hb_ch2 h" "hb_dead_zone h \<le> 100" "0 < hb_pwm h" "hb_pwm h \<le> 100"
      "lc_duty w (hb_ch1 h) = PWM_MAX_DUTY"
      "lc_duty w (hb_ch2 h) = PWM_MAX_DUTY - convert_pwm (hb_dead_zone h) (hb_pwm h)"
    using assms(1,2) by (auto simp: bridge_ok_def described_def)
  have dir: "choice_direction (saturate v) = BACKWARD"
    using assms(3) by (auto simp: choice_direction_def saturate_def SUPLIMIT_def INFLIMIT_def)
  have same: "saturate (hb_pwm h) = hb_pwm h" "choice_direction (hb_pwm h) = FORWARD"
    using ok by (simp_all add: saturate_def SUPLIMIT_def INFLIMIT_def choice_direction_def)
  have one: "e1 = ESP_FAIL" "h1 = h" "lc_duty w1 = (lc_duty w)(hb_ch1 h := PWM_MAX_DUTY, hb_ch2 h := PWM_MAX_DUTY)"
    using assms(5) assms(2,4) ok(1) dir
    by (auto simp: apply_pwm_def Let_def drive_def enter_brake_state_def set_both_def set_duty_def
        ledc_set_duty_and_update_def split: if_splits)
  have two: "e2 = ESP_OK" "h2 = h" "w2 = w1"
    using assms(6) one(2) ok(1) same assms(2) by (simp_all add: apply_pwm_def Let_def)
  have "1 \<le> convert_pwm (hb_dead_zone h) (hb_pwm h)"
    using convert_pwm_range(1) [OF ok(3), of "hb_pwm h"] ok(4,5) by simp
  then show ?thesis using one two ok by (simp add: pull_def PWM_MAX_DUTY_def)
qed

theorem failed_reversal_leaves_motor_braked_witness:
  "\<exists>h1 w1 h2 w2. apply_pwm (-30) demo_bridge (demo_ledc [ESP_OK, ESP_OK, ESP_FAIL]) = (ESP_FAIL, h1, w1) \<and>
     apply_pwm 100 h1 w1 = (ESP_OK, h2, w2) \<and> hb_pwm h2 = 100 \<and> pull h2 (lc_duty w2) = 0"
proof -
  let ?w = "demo_ledc [ESP_OK, ESP_OK, ESP_FAIL]"
  obtain e1 h1 w1 where a: "apply_pwm (-30) demo_bridge ?w = (e1, h1, w1)" by (metis surj_pair)
  have p: "hb_pwm demo_bridge = 100" "hb_mov demo_bridge = FORWARD" by (simp_all add: demo_bridge_def)
  obtain e2 h2 w2 where b: "apply_pwm (hb_pwm demo_bridge) h1 w1 = (e2, h2, w2)" by (metis surj_pair)
  have "lc_answers ?w = [ESP_OK, ESP_OK, ESP_FAIL]" by (simp add: demo_ledc_def)
  with failed_reversal_leaves_motor_braked [OF demo_bridge_ok p(2) _ _ a b] a b p(1) show ?thesis by auto
qed

end
