(* ===== verification/Robot_Outputs.thy ===== *)
theory Robot_Outputs
  imports Flags H_Bridge Robot_Settings Job_Commands
begin

text \<open>
  What the robot drives (\<^verbatim>\<open>utils/BallyRobot/BallyRobot.cpp\<close> setTimeLimit .. blinkErrorLeds,
  button_press_accepted, updateSoundFeedback; the shell modules \<^verbatim>\<open>motion\<close> and \<^verbatim>\<open>robot\<close> of
  \<^verbatim>\<open>BallyRobotShell.cpp\<close>): the flags, the two bridges, the arming gate and the coasting latch.

  \<open>now\<close> is the 32-bit count of milliseconds an operation reads; a pass of the main loop reads it
  several times, one argument per operation here.  The LED outputs are the duties of their three
  channels and the level of the yellow pin, \<open>led_ok\<close> the channels whose driver takes a duty.
\<close>

section \<open>State\<close>

record robot_io =
  io_motors :: pwm_flags
  io_leds :: out_flags
  io_buttons :: flags
  io_side :: flags
  io_left :: hbridge
  io_right :: hbridge
  io_ledc :: ledc
  io_armed :: bool
  io_coast_until :: u32
  io_led_duty :: "u8 \<Rightarrow> nat"
  io_yellow :: bool

definition MOTOR_LEFT_idx :: nat where "MOTOR_LEFT_idx = 0"
definition MOTOR_RIGHT_idx :: nat where "MOTOR_RIGHT_idx = 1"
definition LED_BLUE :: nat where "LED_BLUE = 0"
definition LED_GREEN :: nat where "LED_GREEN = 1"
definition LED_YELLOW :: nat where "LED_YELLOW = 2"
definition LED_RED :: nat where "LED_RED = 3"
definition CH5 :: u8 where "CH5 = 5"
definition CH6 :: u8 where "CH6 = 6"
definition CH7 :: u8 where "CH7 = 7"
definition kLedPwmMaxDuty :: rat where "kLedPwmMaxDuty = 255"

lemmas io_index_defs = MOTOR_LEFT_idx_def MOTOR_RIGHT_idx_def MAX_FLAGS_def valid_index_def

section \<open>Flags and latch\<close>

definition set_time_limit :: "u32 \<Rightarrow> robot_io \<Rightarrow> robot_io" where
  "set_time_limit delay_flags s =
     s\<lparr>io_buttons := in_set_limits delay_flags (io_buttons s),
       io_side := in_set_limits delay_flags (io_side s)\<rparr>"

definition reset_flags :: "u32 \<Rightarrow> robot_io \<Rightarrow> robot_io" where
  "reset_flags now s =
     s\<lparr>io_buttons := refresh_flags now (io_buttons s), io_side := refresh_flags now (io_side s),
       io_leds := out_refresh now (io_leds s), io_motors := pwm_refresh now (io_motors s)\<rparr>"

text \<open>Zero says that nothing coasts, so the latch never holds it as a deadline.\<close>

definition set_coast :: "u32 \<Rightarrow> u32 \<Rightarrow> robot_io \<Rightarrow> robot_io" where
  "set_coast now duration_ms s =
     (let deadline = now + duration_ms in
      s\<lparr>io_coast_until := (if deadline = 0 then 1 else deadline)\<rparr>)"

definition clear_coast :: "robot_io \<Rightarrow> robot_io" where
  "clear_coast s = s\<lparr>io_coast_until := 0\<rparr>"

definition set_motor :: "u32 \<Rightarrow> nat \<Rightarrow> u8 \<Rightarrow> u32 \<Rightarrow> robot_io \<Rightarrow> robot_io" where
  "set_motor now i v t s = s\<lparr>io_motors := pwm_set now i v t (io_motors s)\<rparr>"

definition get_motor :: "nat \<Rightarrow> robot_io \<Rightarrow> int \<times> robot_io" where
  "get_motor i s = (case pwm_get i (io_motors s) of (v, p) \<Rightarrow> (v, s\<lparr>io_motors := p\<rparr>))"

definition stop_motors :: "u32 \<Rightarrow> u32 \<Rightarrow> robot_io \<Rightarrow> robot_io" where
  "stop_motors now delay_flags s =
     set_motor now MOTOR_RIGHT_idx 0 delay_flags (set_motor now MOTOR_LEFT_idx 0 delay_flags s)"

section \<open>Outputs\<close>

text \<open>The product and the sum are exact in single precision for the gains the robot sets: 0, 1/8,
  1/2 and 1.  Converting an infinity or not-a-number is undefined.\<close>

definition led_duty :: "real32 \<Rightarrow> nat option" where
  "led_duty level = (case level of Val r \<Rightarrow> Some (nat \<lfloor>r * kLedPwmMaxDuty + 1 / 2\<rfloor>) | _ \<Rightarrow> None)"

definition set_led_pwm_duty :: "(u8 \<Rightarrow> bool) \<Rightarrow> u8 \<Rightarrow> real32 \<Rightarrow> robot_io \<Rightarrow> robot_io" where
  "set_led_pwm_duty led_ok ch level s =
     (case led_duty level of
        None \<Rightarrow> s
      | Some d \<Rightarrow> if led_ok ch then s\<lparr>io_led_duty := (io_led_duty s)(ch := d)\<rparr> else s)"

definition set_leds :: "(u8 \<Rightarrow> bool) \<Rightarrow> robot_io \<Rightarrow> robot_io" where
  "set_leds led_ok s =
     (let s1 = set_led_pwm_duty led_ok CH5 (out_value LED_BLUE (io_leds s)) s;
          s2 = set_led_pwm_duty led_ok CH6 (out_value LED_GREEN (io_leds s)) s1;
          s3 = s2\<lparr>io_yellow := less_real32 (Val 0) (out_value LED_YELLOW (io_leds s))\<rparr>
      in set_led_pwm_duty led_ok CH7 (out_value LED_RED (io_leds s)) s3)"

fun esp_err_hex :: "esp_err \<Rightarrow> string" where
  "esp_err_hex ESP_OK = ''0''"
| "esp_err_hex ESP_ERR_INVALID_ARG = ''102''"
| "esp_err_hex ESP_ERR_INVALID_STATE = ''103''"
| "esp_err_hex ESP_FAIL = ''FFFFFFFF''"

definition pwm_failed :: "esp_err \<Rightarrow> esp_err \<Rightarrow> int \<Rightarrow> int \<Rightarrow> log_line list" where
  "pwm_failed l r left_pwm right_pwm =
     (if l \<noteq> ESP_OK \<or> r \<noteq> ESP_OK
      then [(ERRO, ''motor PWM failed left=0x'' @ esp_err_hex l @ '' right=0x'' @ esp_err_hex r @
              '' values='' @ show_int left_pwm @ '','' @ show_int right_pwm)] else [])"

text \<open>Whether the motors are to free-wheel, and the latch after looking: the difference is read as
  signed.\<close>

definition coasting :: "u32 \<Rightarrow> int \<Rightarrow> int \<Rightarrow> robot_io \<Rightarrow> bool \<times> robot_io" where
  "coasting now left_pwm right_pwm s =
     (let coast_until = io_coast_until s in
      if coast_until \<noteq> 0 \<and> left_pwm = 0 \<and> right_pwm = 0 then
        (if sint (now - coast_until) < 0 then (True, s) else (False, clear_coast s))
      else (False, s))"

definition drive_motors :: "bool \<Rightarrow> int \<Rightarrow> int \<Rightarrow> robot_io \<Rightarrow> log_line list \<times> robot_io" where
  "drive_motors coasts left_pwm right_pwm s =
     (if coasts then
        case coast (io_left s) (io_ledc s) of (_, l, w1) \<Rightarrow>
          case coast (io_right s) w1 of (_, r, w2) \<Rightarrow>
            ([], s\<lparr>io_left := l, io_right := r, io_ledc := w2\<rparr>)
      else
        case apply_pwm left_pwm (io_left s) (io_ledc s) of (le, l, w1) \<Rightarrow>
          case apply_pwm right_pwm (io_right s) w1 of (re, r, w2) \<Rightarrow>
            (pwm_failed le re left_pwm right_pwm, s\<lparr>io_left := l, io_right := r, io_ledc := w2\<rparr>))"

definition set_outputs :: "(u8 \<Rightarrow> bool) \<Rightarrow> u32 \<Rightarrow> robot_io \<Rightarrow> log_line list \<times> robot_io" where
  "set_outputs led_ok now s =
     (case get_motor MOTOR_LEFT_idx s of (left0, s1) \<Rightarrow>
      case get_motor MOTOR_RIGHT_idx s1 of (right0, s2) \<Rightarrow>
        let left_pwm = (if \<not> io_armed s2 then 0 else left0);
            right_pwm = (if \<not> io_armed s2 then 0 else right0);
            s3 = (if \<not> io_armed s2 then clear_coast s2 else s2)
        in case coasting now left_pwm right_pwm s3 of (coasts, s4) \<Rightarrow>
           case drive_motors coasts left_pwm right_pwm s4 of (lines, s5) \<Rightarrow>
             (lines, set_leds led_ok s5))"

text \<open>Half a period on, half off; a half period of zero divides by zero, which is undefined and
  traps on the chip (\<open>None\<close>).\<close>

definition blink_error_leds :: "u32 \<Rightarrow> u32 \<Rightarrow> robot_io \<Rightarrow> robot_io option" where
  "blink_error_leds now half_period_ms s =
     (if half_period_ms = 0 then None
      else if (now div half_period_ms) mod 2 \<noteq> 0 then Some s
      else Some (s\<lparr>io_leds := fold (\<lambda>i. out_set_flag now i half_period_ms) [0..<4] (io_leds s)\<rparr>))"

section \<open>Buttons\<close>

text \<open>An interrupt on every edge of the pin: \<open>level\<close> is what the pin reads in it, \<open>now\<close> the
  microseconds, which are signed.\<close>

definition button_press_accepted :: "int \<Rightarrow> int \<Rightarrow> bool \<Rightarrow> int \<Rightarrow> bool \<times> int" where
  "button_press_accepted debounce_us now level last_edge_us =
     (let previous = last_edge_us in
      if level then (False, now) else (now - previous \<ge> debounce_us, now))"

definition debounce_window :: "u32 \<Rightarrow> int" where
  "debounce_window delay_flags = (uint delay_flags * 1000) div 2"

definition button_isr :: "int \<Rightarrow> nat \<Rightarrow> int \<Rightarrow> bool \<Rightarrow> u32 \<Rightarrow> int \<times> robot_io \<Rightarrow> int \<times> robot_io" where
  "button_isr debounce_us idx now_us level now_ms st =
     (case st of (last_edge, s) \<Rightarrow>
        case button_press_accepted debounce_us now_us level last_edge of (ok, e) \<Rightarrow>
          (e, if ok then s\<lparr>io_buttons := in_set_flag now_ms idx (io_buttons s)\<rparr> else s))"

definition side_sensor_isr :: "nat \<Rightarrow> u32 \<Rightarrow> robot_io \<Rightarrow> robot_io" where
  "side_sensor_isr idx now_ms s = s\<lparr>io_side := in_set_flag now_ms idx (io_side s)\<rparr>"

section \<open>State machine and sounds\<close>

definition check_state_machine ::
    "(u8 \<Rightarrow> 'm \<Rightarrow> 'm) \<Rightarrow> u32 \<Rightarrow> u32 \<Rightarrow> robot_io \<Rightarrow> u32 \<times> 'm \<Rightarrow> u32 \<times> 'm" where
  "check_state_machine nxt delay_flags now s tm =
     (case tm of (timer, machine) \<Rightarrow>
        if now - timer > delay_flags then (now, nxt (get_flags (io_buttons s)) machine) else tm)"

datatype builtin_sound = Click | Ping | Success | ErrorSound | WarningSound | Boot | Elevator

record sound_trigger =
  sg_from :: u8
  sg_to :: u8
  sg_sound :: builtin_sound

definition kSoundTriggerTable :: "sound_trigger list" where
  "kSoundTriggerTable = [\<lparr>sg_from = state_num NONE, sg_to = state_num State_Machine.ERROR, sg_sound = ErrorSound\<rparr>]"

record sound_memory =
  so_buttons :: u8
  so_side :: u8
  so_state :: u8

text \<open>The sounds asked for, in order: each interrupts the one before.\<close>

definition update_sound_feedback ::
    "u8 \<Rightarrow> robot_io \<Rightarrow> sound_memory \<Rightarrow> builtin_sound list \<times> sound_memory" where
  "update_sound_feedback current_state s m =
     (let current_buttons = get_flags (io_buttons s); current_side = get_flags (io_side s);
          click = (if current_buttons AND NOT (so_buttons m) \<noteq> 0 then [Click] else []);
          trigger = (if current_state \<noteq> so_state m
             then (case List.find (\<lambda>g. sg_to g = current_state \<and>
                       (sg_from g = state_num NONE \<or> sg_from g = so_state m)) kSoundTriggerTable of
                     None \<Rightarrow> [] | Some g \<Rightarrow> [sg_sound g])
             else [])
      in (click @ trigger, \<lparr>so_buttons = current_buttons, so_side = current_side, so_state = current_state\<rparr>))"

section \<open>Shell module motion\<close>

type_synonym io_result = "shell_result \<times> log_line list \<times> robot_io"

definition disarmed_refusal :: "robot_io \<Rightarrow> io_result" where
  "disarmed_refusal s = (RESULT_ERROR, [(ERRO, ''refused: motors are disarmed (motion -arm)'')], s)"

definition motion_arm :: "robot_io \<Rightarrow> io_result" where
  "motion_arm s = (RESULT_OK, [(INFO, ''armed=1'')], s\<lparr>io_armed := True\<rparr>)"

definition motion_disarm :: "u32 \<Rightarrow> u32 \<Rightarrow> robot_io \<Rightarrow> io_result" where
  "motion_disarm now delay_flags s =
     (RESULT_OK, [(WARN, ''armed=0 motors forced to zero'')],
      stop_motors now delay_flags (s\<lparr>io_armed := False\<rparr>))"

definition cut_to_100 :: "int \<Rightarrow> int" where
  "cut_to_100 v = (let a = (if v > 100 then 100 else v) in if a < -100 then -100 else a)"

definition motion_drive :: "u32 \<Rightarrow> u8 \<Rightarrow> u8 \<Rightarrow> u32 \<Rightarrow> robot_io \<Rightarrow> io_result" where
  "motion_drive now forward turn time_ms s =
     (if \<not> io_armed s then disarmed_refusal s
      else
        let left = cut_to_100 (sint forward - sint turn); right = cut_to_100 (sint forward + sint turn);
            s1 = set_motor now MOTOR_LEFT_idx (word_of_int left) time_ms s;
            s2 = set_motor now MOTOR_RIGHT_idx (word_of_int right) time_ms s1
        in (RESULT_OK, [(INFO, ''forward='' @ show_int (sint forward) @ '' turn='' @ show_int (sint turn) @
              '' left_pwm='' @ show_int left @ '' right_pwm='' @ show_int right @
              '' time_ms='' @ show_dec (unat time_ms))], s2))"

definition motion_stop :: "u32 \<Rightarrow> u32 \<Rightarrow> robot_io \<Rightarrow> io_result" where
  "motion_stop now delay_flags s =
     (RESULT_OK, [(INFO, ''stopped=1 mode=brake'')], stop_motors now delay_flags (clear_coast s))"

definition motion_brake :: "u32 \<Rightarrow> u32 \<Rightarrow> robot_io \<Rightarrow> io_result" where
  "motion_brake now time_ms s =
     (RESULT_OK, [(INFO, ''mode=brake time_ms='' @ show_dec (unat time_ms))],
      stop_motors now time_ms (clear_coast s))"

definition motion_coast :: "u32 \<Rightarrow> u32 \<Rightarrow> robot_io \<Rightarrow> io_result" where
  "motion_coast now time_ms s =
     (if time_ms = 0 then (RESULT_ERROR, [(ERRO, ''time_ms must be greater than zero'')], s)
      else (RESULT_OK, [(INFO, ''mode=coast time_ms='' @ show_dec (unat time_ms))], set_coast now time_ms s))"

text \<open>\<open>show_f\<close> prints a number with so many decimals.\<close>

definition motion_limits ::
    "(nat \<Rightarrow> 'f \<Rightarrow> string) \<Rightarrow> 'f \<Rightarrow> 'f \<Rightarrow> 'f \<Rightarrow> robot_io \<Rightarrow> io_result" where
  "motion_limits show_f wheel_radius wheel_base encoder_ppr s =
     (case get_motor MOTOR_LEFT_idx s of (left, s1) \<Rightarrow>
      case get_motor MOTOR_RIGHT_idx s1 of (right, s2) \<Rightarrow>
        (RESULT_OK,
         [(INFO, ''armed='' @ (if io_armed s then ''1'' else ''0'') @
             '' pwm_range=-100..100 wheel_radius_m='' @ show_f 4 wheel_radius @
             '' wheel_base_m='' @ show_f 3 wheel_base @ '' encoder_ppr='' @ show_f 1 encoder_ppr @
             '' left_pwm='' @ show_int left @ '' right_pwm='' @ show_int right @ '' speed_calibrated=0''),
          (INFO, ''note: drive takes normalised -100..100, not m/s; no motor model is calibrated yet'')],
         s2))"

section \<open>Shell module robot\<close>

definition robot_btn :: "u32 \<Rightarrow> u8 \<Rightarrow> robot_io \<Rightarrow> io_result" where
  "robot_btn now idx s =
     (if unat idx \<ge> MAX_FLAGS then (RESULT_ERROR, [], s)
      else (RESULT_OK, [], s\<lparr>io_buttons := in_set_flag now (unat idx) (io_buttons s)\<rparr>))"

definition robot_ssr :: "u32 \<Rightarrow> u8 \<Rightarrow> robot_io \<Rightarrow> io_result" where
  "robot_ssr now idx s =
     (if unat idx \<ge> MAX_FLAGS then (RESULT_ERROR, [], s)
      else (RESULT_OK, [], s\<lparr>io_side := in_set_flag now (unat idx) (io_side s)\<rparr>))"

definition robot_set_pwm :: "u32 \<Rightarrow> u8 \<Rightarrow> u8 \<Rightarrow> u32 \<Rightarrow> robot_io \<Rightarrow> io_result" where
  "robot_set_pwm now idx v t s =
     (if unat idx > MOTOR_RIGHT_idx then
        (RESULT_ERROR, [(ERRO, ''invalid motor index='' @ show_dec (unat idx) @ '' (use 0=left or 1=right)'')], s)
      else if \<not> io_armed s then disarmed_refusal s
      else (RESULT_OK, [(INFO, ''motor='' @ show_dec (unat idx) @ '' pwm='' @ show_int (sint v) @
              '' time_ms='' @ show_dec (unat t))], set_motor now (unat idx) v t s))"

definition robot_set_pwm_pair :: "u32 \<Rightarrow> u8 \<Rightarrow> u8 \<Rightarrow> u32 \<Rightarrow> robot_io \<Rightarrow> io_result" where
  "robot_set_pwm_pair now left_pwm right_pwm t s =
     (if \<not> io_armed s then disarmed_refusal s
      else (RESULT_OK, [], set_motor now MOTOR_RIGHT_idx right_pwm t (set_motor now MOTOR_LEFT_idx left_pwm t s)))"

definition robot_set_led :: "u32 \<Rightarrow> u8 \<Rightarrow> u32 \<Rightarrow> robot_io \<Rightarrow> io_result" where
  "robot_set_led now pin t s =
     (RESULT_OK, [], s\<lparr>io_leds := out_set_flag now (unat pin) t (io_leds s)\<rparr>)"

section \<open>The two bridges on one peripheral\<close>

definition answering :: "ledc \<Rightarrow> bool" where
  "answering w \<longleftrightarrow> (\<forall>a \<in> set (lc_answers w). a = ESP_OK)"

definition io_ok :: "robot_io \<Rightarrow> bool" where
  "io_ok s \<longleftrightarrow> bridge_ok (io_left s) (io_ledc s) \<and> bridge_ok (io_right s) (io_ledc s) \<and>
     {hb_ch1 (io_left s), hb_ch2 (io_left s)} \<inter> {hb_ch1 (io_right s), hb_ch2 (io_right s)} = {} \<and>
     answering (io_ledc s) \<and> pwm_ok (io_motors s)"

definition held :: "hbridge \<Rightarrow> nat \<Rightarrow> ledc \<Rightarrow> bool" where
  "held h d w \<longleftrightarrow> lc_duty w (hb_ch1 h) = d \<and> lc_duty w (hb_ch2 h) = d"

lemma set_duty_answering:
  assumes "answering w"
  obtains w' where "set_duty ch d w = (ESP_OK, w')" "answering w'"
    "lc_duty w' = (lc_duty w)(ch := if d > PWM_MAX_DUTY then PWM_MAX_DUTY else d)"
  using assms
  by (cases "lc_answers w") (auto simp: answering_def set_duty_def ledc_set_duty_and_update_def Let_def)

lemma set_both_answering:
  assumes "answering w" and "da \<le> PWM_MAX_DUTY" and "db \<le> PWM_MAX_DUTY"
  obtains w' where "set_both a da b db w = (ESP_OK, w')" "answering w'"
    "lc_duty w' = (lc_duty w)(a := da, b := db)"
proof -
  obtain w1 where 1: "set_duty a da w = (ESP_OK, w1)" "answering w1" "lc_duty w1 = (lc_duty w)(a := da)"
    using set_duty_answering [OF assms(1), of a da] assms(2) by (metis leD)
  obtain w2 where 2: "set_duty b db w1 = (ESP_OK, w2)" "answering w2" "lc_duty w2 = (lc_duty w1)(b := db)"
    using set_duty_answering [OF 1(2), of b db] assms(3) by (metis leD)
  show ?thesis using that [of w2] 1 2 by (simp add: set_both_def)
qed

text \<open>What every operation of a bridge does when the hardware answers: it succeeds, leaves the other
  channels alone and stays well formed.\<close>

definition good_step :: "hbridge \<Rightarrow> ledc \<Rightarrow> esp_err \<times> hbridge \<times> ledc \<Rightarrow> bool" where
  "good_step h w res \<longleftrightarrow> (case res of (e, h', w') \<Rightarrow> e = ESP_OK \<and> bridge_ok h' w' \<and> answering w' \<and>
     hb_ch1 h' = hb_ch1 h \<and> hb_ch2 h' = hb_ch2 h \<and>
     (\<forall>c. c \<noteq> hb_ch1 h \<and> c \<noteq> hb_ch2 h \<longrightarrow> lc_duty w' c = lc_duty w c))"

lemma coast_good:
  assumes "bridge_ok h w" and "answering w"
  shows "good_step h w (coast h w) \<and> (case coast h w of (_, h', w') \<Rightarrow> held h' 0 w')"
proof -
  have init: "hb_initialized h" and ne: "hb_ch1 h \<noteq> hb_ch2 h" using assms(1) by (simp_all add: bridge_ok_def)
  obtain e h' w' where c: "coast h w = (e, h', w')" by (metis surj_pair)
  obtain wa where a: "set_both (hb_ch1 h) 0 (hb_ch2 h) 0 w = (ESP_OK, wa)" "answering wa"
      "lc_duty wa = (lc_duty w)(hb_ch1 h := 0, hb_ch2 h := 0)"
    using set_both_answering [OF assms(2), of 0 0] by blast
  obtain wb where b: "set_both (hb_ch2 h) 0 (hb_ch1 h) 0 w = (ESP_OK, wb)" "answering wb"
      "lc_duty wb = (lc_duty w)(hb_ch2 h := 0, hb_ch1 h := 0)"
    using set_both_answering [OF assms(2), of 0 0] by blast
  have e: "e = ESP_OK" using c a(1) b(1) init by (auto simp: coast_def split: if_splits)
  then have "bridge_ok h' w'" using coast_fair [OF assms(1) c] by blast
  then show ?thesis
    using e c a b init ne by (auto simp: good_step_def held_def coast_def split: if_splits)
qed

lemma brake_good:
  assumes "bridge_ok h w" and "answering w"
  shows "good_step h w (brake h w) \<and> (case brake h w of (_, h', w') \<Rightarrow> held h' PWM_MAX_DUTY w')"
proof -
  have init: "hb_initialized h" and ne: "hb_ch1 h \<noteq> hb_ch2 h" using assms(1) by (simp_all add: bridge_ok_def)
  obtain wa where a: "set_both (hb_ch1 h) PWM_MAX_DUTY (hb_ch2 h) PWM_MAX_DUTY w = (ESP_OK, wa)" "answering wa"
      "lc_duty wa = (lc_duty w)(hb_ch1 h := PWM_MAX_DUTY, hb_ch2 h := PWM_MAX_DUTY)"
    using set_both_answering [OF assms(2) order_refl order_refl] by blast
  obtain wb where b: "set_both (hb_ch2 h) PWM_MAX_DUTY (hb_ch1 h) PWM_MAX_DUTY w = (ESP_OK, wb)" "answering wb"
      "lc_duty wb = (lc_duty w)(hb_ch2 h := PWM_MAX_DUTY, hb_ch1 h := PWM_MAX_DUTY)"
    using set_both_answering [OF assms(2) order_refl order_refl] by blast
  show ?thesis
    using a b init ne assms(1)
    by (auto simp: good_step_def held_def brake_def enter_brake_state_def bridge_ok_def described_def)
qed

lemma drive_good:
  assumes "bridge_ok h w" and "answering w" and "dir \<in> {FORWARD, BACKWARD}" and "d \<le> PWM_MAX_DUTY"
  obtains h' w' where "drive dir d h w = (ESP_OK, h', w')" "answering w'"
    "hb_ch1 h' = hb_ch1 h" "hb_ch2 h' = hb_ch2 h"
    "\<forall>c. c \<noteq> hb_ch1 h \<and> c \<noteq> hb_ch2 h \<longrightarrow> lc_duty w' c = lc_duty w c"
proof -
  define rev where "rev = ((hb_mov h = FORWARD \<and> dir = BACKWARD) \<or> (hb_mov h = BACKWARD \<and> dir = FORWARD))"
  obtain w1 where w1: "(if rev then enter_brake_state h w else (ESP_OK, w)) = (ESP_OK, w1)" "answering w1"
      "\<forall>c. c \<noteq> hb_ch1 h \<and> c \<noteq> hb_ch2 h \<longrightarrow> lc_duty w1 c = lc_duty w c"
  proof (cases rev)
    case True
    obtain wa where a: "set_both (hb_ch1 h) PWM_MAX_DUTY (hb_ch2 h) PWM_MAX_DUTY w = (ESP_OK, wa)" "answering wa"
        "lc_duty wa = (lc_duty w)(hb_ch1 h := PWM_MAX_DUTY, hb_ch2 h := PWM_MAX_DUTY)"
      using set_both_answering [OF assms(2) order_refl order_refl] by blast
    obtain wb where b: "set_both (hb_ch2 h) PWM_MAX_DUTY (hb_ch1 h) PWM_MAX_DUTY w = (ESP_OK, wb)" "answering wb"
        "lc_duty wb = (lc_duty w)(hb_ch2 h := PWM_MAX_DUTY, hb_ch1 h := PWM_MAX_DUTY)"
      using set_both_answering [OF assms(2) order_refl order_refl] by blast
    show ?thesis
      using that [of wa] that [of wb] True a b
      by (cases "hb_mov h = BACKWARD \<or> (hb_mov h = STOPPED \<and> hb_last_mov h = BACKWARD)")
        (simp_all add: enter_brake_state_def)
  qed (use that assms(2) in auto)
  have le: "PWM_MAX_DUTY - d \<le> PWM_MAX_DUTY" by simp
  obtain wa where a: "set_both (hb_ch1 h) PWM_MAX_DUTY (hb_ch2 h) (PWM_MAX_DUTY - d) w1 = (ESP_OK, wa)"
      "answering wa" "lc_duty wa = (lc_duty w1)(hb_ch1 h := PWM_MAX_DUTY, hb_ch2 h := PWM_MAX_DUTY - d)"
    using set_both_answering [OF w1(2) order_refl le] by blast
  obtain wb where b: "set_both (hb_ch2 h) PWM_MAX_DUTY (hb_ch1 h) (PWM_MAX_DUTY - d) w1 = (ESP_OK, wb)"
      "answering wb" "lc_duty wb = (lc_duty w1)(hb_ch2 h := PWM_MAX_DUTY, hb_ch1 h := PWM_MAX_DUTY - d)"
    using set_both_answering [OF w1(2) order_refl le] by blast
  show ?thesis
    using that [of "h\<lparr>hb_mov := dir, hb_last_mov := dir\<rparr>" "if dir = FORWARD then wa else wb"]
      assms(3) a b w1(1,3) [unfolded rev_def]
    by (auto simp: drive_def Let_def)
qed

lemma apply_good:
  assumes "bridge_ok h w" and "answering w"
  shows "good_step h w (apply_pwm v h w)"
proof -
  have init: "hb_initialized h" and dz: "hb_dead_zone h \<le> 100" using assms(1) by (simp_all add: bridge_ok_def)
  obtain h' w' where ap: "apply_pwm v h w = (ESP_OK, h', w')"
    using apply_pwm_ok [of w h v] assms(2) init unfolding answering_def by blast
  have ok: "bridge_ok h' w'" using apply_fair [OF assms(1) ap] by blast
  consider (zero) "saturate v = 0" | (keep) "saturate v \<noteq> 0" "h' = h" "w' = w"
    | (drive) "saturate v \<noteq> 0"
        "drive (choice_direction (saturate v)) (convert_pwm (hb_dead_zone h) (saturate v)) h w = (ESP_OK, h'\<lparr>hb_pwm := hb_pwm h\<rparr>, w')"
  proof -
    assume *: "saturate v = 0 \<Longrightarrow> thesis" "saturate v \<noteq> 0 \<Longrightarrow> h' = h \<Longrightarrow> w' = w \<Longrightarrow> thesis"
      "saturate v \<noteq> 0 \<Longrightarrow> drive (choice_direction (saturate v)) (convert_pwm (hb_dead_zone h) (saturate v)) h w = (ESP_OK, h'\<lparr>hb_pwm := hb_pwm h\<rparr>, w') \<Longrightarrow> thesis"
    have pw: "hb_pwm (fst (snd (drive d x h w))) = hb_pwm h" for d x
      by (auto simp: drive_def Let_def split: prod.splits if_splits)
    show thesis
    proof (cases "saturate v = 0")
      case False
      then have dir: "choice_direction (saturate v) \<noteq> STOPPED" by (auto simp: choice_direction_def)
      show thesis
      proof (cases "saturate v = hb_pwm h \<and> choice_direction (saturate v) = hb_mov h")
        case True
        then show thesis using *(2) False ap dir init by (auto simp: apply_pwm_def Let_def)
      next
        case no: False
        obtain e1 h1 w1 where d: "drive (choice_direction (saturate v))
            (convert_pwm (hb_dead_zone h) (saturate v)) h w = (e1, h1, w1)" by (metis surj_pair)
        have "(e1, if e1 = ESP_OK then h1\<lparr>hb_pwm := saturate v\<rparr> else h1, w1) = (ESP_OK, h', w')"
          using ap no dir init d by (auto simp: apply_pwm_def Let_def)
        moreover have "hb_pwm h1 = hb_pwm h" using pw [of "choice_direction (saturate v)"] d by (metis fst_conv snd_conv)
        ultimately show thesis using *(3) False d by auto
      qed
    qed (use * in blast)
  qed
  then show ?thesis
  proof cases
    case zero
    then have "apply_pwm v h w = brake h w" using init by (simp add: apply_pwm_def choice_direction_def Let_def)
    then show ?thesis using brake_good [OF assms] by simp
  next
    case keep
    then show ?thesis using ap ok assms by (simp add: good_step_def)
  next
    case drive
    have "choice_direction (saturate v) \<in> {FORWARD, BACKWARD}" using drive(1) by (auto simp: choice_direction_def)
    from drive_good [OF assms this convert_pwm_range(2) [OF dz drive(1) saturate_range]] drive(2)
    show ?thesis using ap ok by (auto simp: good_step_def)
  qed
qed

lemma bridge_ok_cong:
  assumes "lc_duty w' (hb_ch1 h) = lc_duty w (hb_ch1 h)" and "lc_duty w' (hb_ch2 h) = lc_duty w (hb_ch2 h)"
  shows "bridge_ok h w' = bridge_ok h w"
  using assms by (simp add: bridge_ok_def)

text \<open>An operation on each of the two bridges.\<close>

lemma both_good:
  assumes ok: "bridge_ok l w" "bridge_ok r w" "answering w"
    and apart: "{hb_ch1 l, hb_ch2 l} \<inter> {hb_ch1 r, hb_ch2 r} = {}"
    and f: "\<And>h w. bridge_ok h w \<Longrightarrow> answering w \<Longrightarrow> good_step h w (f h w)"
    and g: "\<And>h w. bridge_ok h w \<Longrightarrow> answering w \<Longrightarrow> good_step h w (g h w)"
    and one: "f l w = (e1, l', w1)" and two: "g r w1 = (e2, r', w2)"
  shows "e1 = ESP_OK \<and> e2 = ESP_OK \<and> bridge_ok l' w2 \<and> bridge_ok r' w2 \<and> answering w2 \<and>
    {hb_ch1 l', hb_ch2 l'} \<inter> {hb_ch1 r', hb_ch2 r'} = {} \<and>
    lc_duty w2 (hb_ch1 l') = lc_duty w1 (hb_ch1 l') \<and> lc_duty w2 (hb_ch2 l') = lc_duty w1 (hb_ch2 l') \<and>
    bridge_ok r w1 \<and> answering w1"
proof -
  have 1: "e1 = ESP_OK" "bridge_ok l' w1" "answering w1" "hb_ch1 l' = hb_ch1 l" "hb_ch2 l' = hb_ch2 l"
      "\<forall>c. c \<noteq> hb_ch1 l \<and> c \<noteq> hb_ch2 l \<longrightarrow> lc_duty w1 c = lc_duty w c"
    using f [OF ok(1,3)] one by (simp_all add: good_step_def)
  have r: "bridge_ok r w1"
    using bridge_ok_cong [of w1 r w] 1(6) apart ok(2) by auto
  have 2: "e2 = ESP_OK" "bridge_ok r' w2" "answering w2" "hb_ch1 r' = hb_ch1 r" "hb_ch2 r' = hb_ch2 r"
      "\<forall>c. c \<noteq> hb_ch1 r \<and> c \<noteq> hb_ch2 r \<longrightarrow> lc_duty w2 c = lc_duty w1 c"
    using g [OF r 1(3)] two by (simp_all add: good_step_def)
  have keep: "lc_duty w2 (hb_ch1 l') = lc_duty w1 (hb_ch1 l')" "lc_duty w2 (hb_ch2 l') = lc_duty w1 (hb_ch2 l')"
    using 2(6) apart 1(4,5) by auto
  then have "bridge_ok l' w2" using bridge_ok_cong [of w2 l' w1] 1(2) by simp
  then show ?thesis using 1 2 r keep apart by simp
qed

lemma held_cong:
  "lc_duty w' (hb_ch1 h) = lc_duty w (hb_ch1 h) \<Longrightarrow> lc_duty w' (hb_ch2 h) = lc_duty w (hb_ch2 h) \<Longrightarrow>
   held h d w' = held h d w"
  by (simp add: held_def)

lemma apply_zero_held:
  assumes "bridge_ok h w" and "answering w" and "apply_pwm 0 h w = (e, h', w')"
  shows "held h' PWM_MAX_DUTY w'"
proof -
  have "apply_pwm 0 h w = brake h w"
    using assms(1) by (simp add: apply_pwm_def saturate_def choice_direction_def Let_def SUPLIMIT_def INFLIMIT_def bridge_ok_def)
  with assms(3) have "brake h w = (e, h', w')" by simp
  with brake_good [OF assms(1,2)] show ?thesis by simp
qed

definition io_frame :: "robot_io \<Rightarrow> robot_io \<Rightarrow> bool" where
  "io_frame s s' \<longleftrightarrow> io_motors s' = io_motors s \<and> io_armed s' = io_armed s \<and>
     io_coast_until s' = io_coast_until s \<and> io_buttons s' = io_buttons s \<and> io_side s' = io_side s \<and>
     io_leds s' = io_leds s"

lemma drive_motors_effect:
  assumes "io_ok s"
  shows "\<exists>s'. drive_motors c l r s = ([], s') \<and> io_ok s' \<and> io_frame s s' \<and>
    (c \<longrightarrow> held (io_left s') 0 (io_ledc s') \<and> held (io_right s') 0 (io_ledc s')) \<and>
    (\<not> c \<longrightarrow> (l = 0 \<longrightarrow> held (io_left s') PWM_MAX_DUTY (io_ledc s')) \<and>
       (r = 0 \<longrightarrow> held (io_right s') PWM_MAX_DUTY (io_ledc s')))"
proof -
  have ok: "bridge_ok (io_left s) (io_ledc s)" "bridge_ok (io_right s) (io_ledc s)" "answering (io_ledc s)"
      "{hb_ch1 (io_left s), hb_ch2 (io_left s)} \<inter> {hb_ch1 (io_right s), hb_ch2 (io_right s)} = {}"
      "pwm_ok (io_motors s)"
    using assms by (simp_all add: io_ok_def)
  show ?thesis
  proof (cases c)
    case True
    obtain e1 h1 w1 where 1: "coast (io_left s) (io_ledc s) = (e1, h1, w1)" by (metis surj_pair)
    obtain e2 h2 w2 where 2: "coast (io_right s) w1 = (e2, h2, w2)" by (metis surj_pair)
    note b = both_good [of _ _ _ coast coast, OF ok(1-4) coast_good [THEN conjunct1] coast_good [THEN conjunct1] 1 2]
    have "held h1 0 w1" using coast_good [OF ok(1,3)] 1 by simp
    then have "held h1 0 w2" using b held_cong by metis
    moreover have "held h2 0 w2" using coast_good [of "io_right s" w1] b 2 by simp
    ultimately show ?thesis
      using True 1 2 b ok(5) by (simp add: drive_motors_def io_ok_def io_frame_def)
  next
    case False
    obtain e1 h1 w1 where 1: "apply_pwm l (io_left s) (io_ledc s) = (e1, h1, w1)" by (metis surj_pair)
    obtain e2 h2 w2 where 2: "apply_pwm r (io_right s) w1 = (e2, h2, w2)" by (metis surj_pair)
    note b = both_good [of _ _ _ "apply_pwm l" "apply_pwm r", OF ok(1-4) apply_good apply_good 1 2]
    have "held h1 PWM_MAX_DUTY w2" if "l = 0"
      using apply_zero_held [OF ok(1,3)] 1 that b held_cong by metis
    moreover have "held h2 PWM_MAX_DUTY w2" if "r = 0"
      using apply_zero_held [of "io_right s" w1] 2 that b by blast
    ultimately show ?thesis
      using False 1 2 b ok(5) by (simp add: drive_motors_def io_ok_def io_frame_def pwm_failed_def)
  qed
qed

lemma set_led_frame:
  "\<exists>d. set_led_pwm_duty led_ok ch v s = s\<lparr>io_led_duty := d\<rparr>"
  by (auto simp: set_led_pwm_duty_def split: option.split intro: exI [of _ "io_led_duty s"])

lemma set_leds_frame: "\<exists>d y. set_leds led_ok s = s\<lparr>io_led_duty := d, io_yellow := y\<rparr>"
proof -
  obtain d1 where 1: "set_led_pwm_duty led_ok CH5 (out_value LED_BLUE (io_leds s)) s = s\<lparr>io_led_duty := d1\<rparr>"
    using set_led_frame by blast
  obtain d2 where 2: "set_led_pwm_duty led_ok CH6 (out_value LED_GREEN (io_leds s)) (s\<lparr>io_led_duty := d1\<rparr>) =
      (s\<lparr>io_led_duty := d1\<rparr>)\<lparr>io_led_duty := d2\<rparr>"
    using set_led_frame by blast
  define y where "y = less_real32 (Val 0) (out_value LED_YELLOW (io_leds s))"
  obtain d3 where 3: "set_led_pwm_duty led_ok CH7 (out_value LED_RED (io_leds s)) (s\<lparr>io_led_duty := d2, io_yellow := y\<rparr>) =
      (s\<lparr>io_led_duty := d2, io_yellow := y\<rparr>)\<lparr>io_led_duty := d3\<rparr>"
    using set_led_frame by blast
  have "set_leds led_ok s = set_led_pwm_duty led_ok CH7 (out_value LED_RED (io_leds s)) (s\<lparr>io_led_duty := d2, io_yellow := y\<rparr>)"
    unfolding set_leds_def Let_def 1 2 y_def [symmetric] by simp
  also have "\<dots> = s\<lparr>io_led_duty := d3, io_yellow := y\<rparr>" unfolding 3 by simp
  finally show ?thesis by blast
qed

lemma get_motor_ok:
  assumes "io_ok s" and "get_motor i s = (v, s')"
  shows "io_ok s' \<and> (\<exists>p. s' = s\<lparr>io_motors := p\<rparr>) \<and> pw_flags (io_motors s') = pw_flags (io_motors s)"
proof -
  obtain p where p: "pwm_get i (io_motors s) = (v, p)" "s' = s\<lparr>io_motors := p\<rparr>"
    using assms(2) by (auto simp: get_motor_def split: prod.splits)
  have "pwm_ok p" using pwm_ok_step [of "io_motors s" "PwmGet i"] assms(1) p(1) by (simp add: io_ok_def)
  moreover have "pw_flags p = pw_flags (io_motors s)"
    using p(1) by (auto simp: pwm_get_def Let_def split: if_splits)
  ultimately show ?thesis using assms(1) p(2) by (auto simp: io_ok_def)
qed

section \<open>A pass of the outputs\<close>

definition motor_value :: "nat \<Rightarrow> robot_io \<Rightarrow> int" where
  "motor_value i s = fst (pwm_get i (io_motors s))"

definition wanted_pwm :: "nat \<Rightarrow> robot_io \<Rightarrow> int" where
  "wanted_pwm i s = (if io_armed s then motor_value i s else 0)"

definition coasts_at :: "u32 \<Rightarrow> robot_io \<Rightarrow> bool" where
  "coasts_at now s \<longleftrightarrow> io_armed s \<and> io_coast_until s \<noteq> 0 \<and> motor_value MOTOR_LEFT_idx s = 0 \<and>
     motor_value MOTOR_RIGHT_idx s = 0 \<and> sint (now - io_coast_until s) < 0"

definition braked :: "robot_io \<Rightarrow> bool" where
  "braked s \<longleftrightarrow> held (io_left s) PWM_MAX_DUTY (io_ledc s) \<and> held (io_right s) PWM_MAX_DUTY (io_ledc s)"

definition free_wheel :: "robot_io \<Rightarrow> bool" where
  "free_wheel s \<longleftrightarrow> held (io_left s) 0 (io_ledc s) \<and> held (io_right s) 0 (io_ledc s)"

lemma other_motor_value:
  assumes "pwm_get 0 p = (v, p')"
  shows "fst (pwm_get 1 p') = fst (pwm_get 1 p)"
  using assms by (auto simp: pwm_get_def Let_def valid_index_def MAX_FLAGS_def split: if_splits)

lemma coasting_cases:
  "coasting now l r s =
     (if io_coast_until s \<noteq> 0 \<and> l = 0 \<and> r = 0
      then (if sint (now - io_coast_until s) < 0 then (True, s) else (False, clear_coast s))
      else (False, s))"
  by (simp add: coasting_def Let_def)

lemma set_outputs_effect:
  assumes "io_ok s"
  shows "\<exists>s'. set_outputs led_ok now s = ([], s') \<and> io_ok s' \<and> io_armed s' = io_armed s \<and>
    io_motors s' = snd (pwm_get 1 (snd (pwm_get 0 (io_motors s)))) \<and>
    (coasts_at now s \<longrightarrow> free_wheel s' \<and> io_coast_until s' = io_coast_until s) \<and>
    (\<not> coasts_at now s \<longrightarrow>
       (wanted_pwm MOTOR_LEFT_idx s = 0 \<longrightarrow> held (io_left s') PWM_MAX_DUTY (io_ledc s')) \<and>
       (wanted_pwm MOTOR_RIGHT_idx s = 0 \<longrightarrow> held (io_right s') PWM_MAX_DUTY (io_ledc s')) \<and>
       (wanted_pwm MOTOR_LEFT_idx s = 0 \<and> wanted_pwm MOTOR_RIGHT_idx s = 0 \<longrightarrow> io_coast_until s' = 0))"
proof -
  obtain l s1 where 1: "get_motor MOTOR_LEFT_idx s = (l, s1)" by (metis surj_pair)
  obtain r s2 where 2: "get_motor MOTOR_RIGHT_idx s1 = (r, s2)" by (metis surj_pair)
  note g1 = get_motor_ok [OF assms 1]
  then have ok1: "io_ok s1" by blast
  note g2 = get_motor_ok [OF ok1 2]
  have l: "l = motor_value MOTOR_LEFT_idx s"
    using 1 by (auto simp: get_motor_def motor_value_def split: prod.splits)
  have r: "r = motor_value MOTOR_RIGHT_idx s"
    using 1 2 other_motor_value [of "io_motors s" l "io_motors s1"]
    by (auto simp: get_motor_def motor_value_def io_index_defs split: prod.splits)
  obtain p where s2: "s2 = s\<lparr>io_motors := p\<rparr>" using g1 g2 by auto
  define a where "a = io_armed s"
  define s3 where "s3 = (if \<not> a then clear_coast s2 else s2)"
  define lp where "lp = (if \<not> a then 0 else l)"
  define rp where "rp = (if \<not> a then 0 else r)"
  obtain c s4 where 4: "coasting now lp rp s3 = (c, s4)" by (metis surj_pair)
  have ok2: "io_ok s2" using g2 by blast
  have clear: "io_ok (clear_coast x) = io_ok x" for x by (simp add: io_ok_def clear_coast_def)
  have ok4: "io_ok s4" using 4 ok2 clear by (auto simp: s3_def coasting_cases split: if_splits)
  from drive_motors_effect [OF ok4, of c lp rp] obtain s5 where 5: "drive_motors c lp rp s4 = ([], s5)" "io_ok s5" "io_frame s4 s5"
      "c \<longrightarrow> held (io_left s5) 0 (io_ledc s5) \<and> held (io_right s5) 0 (io_ledc s5)"
      "\<not> c \<longrightarrow> (lp = 0 \<longrightarrow> held (io_left s5) PWM_MAX_DUTY (io_ledc s5)) \<and>
        (rp = 0 \<longrightarrow> held (io_right s5) PWM_MAX_DUTY (io_ledc s5))"
    by (elim exE conjE) (rule that)
  have arm: "io_armed s2 = a" by (simp add: s2 a_def)
  obtain d y where 6: "set_leds led_ok s5 = s5\<lparr>io_led_duty := d, io_yellow := y\<rparr>" using set_leds_frame by blast
  have out: "set_outputs led_ok now s = ([], s5\<lparr>io_led_duty := d, io_yellow := y\<rparr>)"
    unfolding set_outputs_def 1 2 prod.case Let_def arm lp_def [symmetric] rp_def [symmetric]
      s3_def [symmetric] 4 5(1) 6 by (rule refl)
  have c: "c \<longleftrightarrow> coasts_at now s"
    using 4 by (auto simp: coasting_cases coasts_at_def s3_def s2 clear_coast_def lp_def rp_def a_def l r split: if_splits)
  have s4: "io_armed s4 = a" "io_motors s4 = p" "c \<Longrightarrow> io_coast_until s4 = io_coast_until s"
      "\<not> c \<Longrightarrow> lp = 0 \<Longrightarrow> rp = 0 \<Longrightarrow> io_coast_until s4 = 0"
    using 4 by (auto simp: coasting_cases s3_def s2 clear_coast_def a_def lp_def rp_def split: if_splits)
  have w: "wanted_pwm MOTOR_LEFT_idx s = lp" "wanted_pwm MOTOR_RIGHT_idx s = rp"
    by (simp_all add: wanted_pwm_def lp_def rp_def a_def l r)
  have pf: "p = snd (pwm_get 1 (snd (pwm_get 0 (io_motors s))))"
  proof -
    have "io_motors s2 = p" by (simp add: s2)
    then show ?thesis using 1 2 by (auto simp: get_motor_def io_index_defs split: prod.splits)
  qed
  show ?thesis
    using out 5 s4 c pf unfolding w
    by (simp add: io_ok_def io_frame_def held_def free_wheel_def a_def)
qed

section \<open>Runs\<close>

text \<open>What moves the outputs: the commands, the interrupts, and the passes of the main loop.\<close>

datatype io_event =
    Ev_Reset u32
  | Ev_Outputs "u8 \<Rightarrow> bool" u32
  | Ev_Arm
  | Ev_Disarm u32 u32
  | Ev_Drive u32 u8 u8 u32
  | Ev_Stop u32 u32
  | Ev_Brake u32 u32
  | Ev_Coast u32 u32
  | Ev_Pwm u32 u8 u8 u32
  | Ev_PwmPair u32 u8 u8 u32
  | Ev_Btn u32 u8
  | Ev_Ssr u32 u8
  | Ev_Led u32 u8 u32

fun io_step :: "io_event \<Rightarrow> robot_io \<Rightarrow> robot_io" where
  "io_step (Ev_Reset now) s = reset_flags now s"
| "io_step (Ev_Outputs led_ok now) s = snd (set_outputs led_ok now s)"
| "io_step Ev_Arm s = snd (snd (motion_arm s))"
| "io_step (Ev_Disarm now d) s = snd (snd (motion_disarm now d s))"
| "io_step (Ev_Drive now f t ms) s = snd (snd (motion_drive now f t ms s))"
| "io_step (Ev_Stop now d) s = snd (snd (motion_stop now d s))"
| "io_step (Ev_Brake now ms) s = snd (snd (motion_brake now ms s))"
| "io_step (Ev_Coast now ms) s = snd (snd (motion_coast now ms s))"
| "io_step (Ev_Pwm now i v t) s = snd (snd (robot_set_pwm now i v t s))"
| "io_step (Ev_PwmPair now l r t) s = snd (snd (robot_set_pwm_pair now l r t s))"
| "io_step (Ev_Btn now i) s = snd (snd (robot_btn now i s))"
| "io_step (Ev_Ssr now i) s = snd (snd (robot_ssr now i s))"
| "io_step (Ev_Led now i t) s = snd (snd (robot_set_led now i t s))"

definition moves_motors :: "io_event \<Rightarrow> bool" where
  "moves_motors e = (case e of Ev_Drive _ _ _ _ \<Rightarrow> True | Ev_Pwm _ _ _ _ \<Rightarrow> True | Ev_PwmPair _ _ _ _ \<Rightarrow> True
     | _ \<Rightarrow> False)"

lemma io_ok_motors:
  "io_ok s \<Longrightarrow> pwm_ok p \<Longrightarrow> io_ok (s\<lparr>io_motors := p\<rparr>)"
  by (simp add: io_ok_def)

lemma io_ok_frame [intro]:
  assumes "io_ok s" and "io_left s' = io_left s" and "io_right s' = io_right s" and "io_ledc s' = io_ledc s"
    and "pwm_ok (io_motors s')"
  shows "io_ok s'"
  using assms by (simp add: io_ok_def)

lemma set_motor_ok: "io_ok s \<Longrightarrow> io_ok (set_motor now i v t s)"
  using pwm_ok_step [of "io_motors s" "PwmSet now i v t"] by (simp add: io_ok_def set_motor_def)

lemma stop_motors_ok: "io_ok s \<Longrightarrow> io_ok (stop_motors now t s)"
  by (simp add: stop_motors_def set_motor_ok)

lemma io_ok_upd [simp]:
  "io_ok (s\<lparr>io_armed := a\<rparr>) = io_ok s" "io_ok (s\<lparr>io_coast_until := c\<rparr>) = io_ok s"
  "io_ok (s\<lparr>io_buttons := b\<rparr>) = io_ok s" "io_ok (s\<lparr>io_side := b\<rparr>) = io_ok s"
  "io_ok (s\<lparr>io_leds := o'\<rparr>) = io_ok s"
  by (simp_all add: io_ok_def)

lemmas motion_defs = motion_arm_def motion_disarm_def motion_drive_def motion_stop_def motion_brake_def
  motion_coast_def robot_set_pwm_def robot_set_pwm_pair_def robot_btn_def robot_ssr_def robot_set_led_def
  disarmed_refusal_def clear_coast_def set_coast_def

lemma io_ok_step: "io_ok s \<Longrightarrow> io_ok (io_step e s)"
proof (cases e)
  case (Ev_Reset now)
  assume "io_ok s"
  then show ?thesis
    using pwm_ok_step [of "io_motors s" "PwmRefresh now"] by (simp add: Ev_Reset reset_flags_def io_ok_def)
next
  case (Ev_Outputs led_ok now)
  assume "io_ok s"
  then show ?thesis using set_outputs_effect [of s led_ok now] by (auto simp: Ev_Outputs)
qed (simp_all add: motion_defs set_motor_ok stop_motors_ok Let_def)

lemma io_ok_run: "io_ok s \<Longrightarrow> io_ok (fold io_step es s)"
  by (induction es arbitrary: s) (simp_all add: io_ok_step)

lemma set_motor_armed [simp]: "io_armed (set_motor now i v t s) = io_armed s"
  by (simp add: set_motor_def)

lemma stop_motors_armed [simp]: "io_armed (stop_motors now t s) = io_armed s"
  by (simp add: stop_motors_def)

lemma disarmed_step: "io_ok s \<Longrightarrow> \<not> io_armed s \<Longrightarrow> e \<noteq> Ev_Arm \<Longrightarrow> \<not> io_armed (io_step e s)"
proof (cases e)
  case (Ev_Outputs led_ok now)
  assume "io_ok s" "\<not> io_armed s"
  then show ?thesis using set_outputs_effect [of s led_ok now] by (auto simp: Ev_Outputs)
qed (simp_all add: motion_defs reset_flags_def Let_def)

lemma disarmed_run:
  "io_ok s \<Longrightarrow> \<not> io_armed s \<Longrightarrow> Ev_Arm \<notin> set es \<Longrightarrow> \<not> io_armed (fold io_step es s)"
proof (induction es arbitrary: s)
  case (Cons e es)
  then show ?case using disarmed_step [of s e] io_ok_step [of s e] by auto
qed simp


section \<open>Commands expire\<close>

definition quiet :: "(u32 \<Rightarrow> u32 \<Rightarrow> bool) \<Rightarrow> nat \<Rightarrow> pwm_flags \<Rightarrow> bool" where
  "quiet P i p \<longleftrightarrow> (flag_on i (pw_flags p) \<longrightarrow>
     pw_values p ! i = 0 \<or> P (fl_time (pw_flags p) ! i) (fl_limit (pw_flags p) ! i))"

lemma quiet_get: "pwm_ok p \<Longrightarrow> quiet P i p \<Longrightarrow> quiet P i (snd (pwm_get j p))"
  by (cases "i = j") (auto simp: quiet_def pwm_get_def Let_def pwm_ok_def valid_index_def)

lemma quiet_refresh:
  "i < 8 \<Longrightarrow> quiet P i p \<Longrightarrow> quiet P i (pwm_refresh now p)"
  by (auto simp: quiet_def pwm_refresh_def frame_simps refresh_flags_on)

lemma quiet_set_zero: "pwm_ok p \<Longrightarrow> i < 8 \<Longrightarrow> quiet P i p \<Longrightarrow> quiet P i (pwm_set now j 0 t p)"
  by (cases "i = j")
    (auto simp: quiet_def pwm_set_def Let_def pwm_ok_def valid_index_def raise_def flag_on_def bit_simps)

lemma quiet_step:
  assumes "io_ok s" and "i < 8" and "\<not> moves_motors e" and "quiet P i (io_motors s)"
  shows "quiet P i (io_motors (io_step e s))"
proof -
  have ok: "pwm_ok (io_motors s)" using assms(1) by (simp add: io_ok_def)
  have ok0: "pwm_ok (snd (pwm_get 0 (io_motors s)))" using pwm_ok_step [OF ok, of "PwmGet 0"] by simp
  have okz: "pwm_ok (pwm_set now j 0 t (io_motors s))" for now j t
    using pwm_ok_step [OF ok, of "PwmSet now j 0 t"] by simp
  show ?thesis
  proof (cases e)
    case (Ev_Outputs led_ok now)
    then show ?thesis
      using set_outputs_effect [OF assms(1), of led_ok now] quiet_get [OF ok assms(4)] quiet_get [OF ok0]
      by auto
  qed (use assms(2-4) ok okz quiet_refresh quiet_set_zero [OF ok] quiet_set_zero [OF okz] in
    \<open>simp_all add: motion_defs reset_flags_def stop_motors_def set_motor_def moves_motors_def Let_def\<close>)
qed

lemma quiet_run:
  assumes "io_ok s" and "i < 8" and "\<forall>e \<in> set es. \<not> moves_motors e" and "quiet P i (io_motors s)"
  shows "quiet P i (io_motors (fold io_step es s))"
  using assms
proof (induction es arbitrary: s)
  case (Cons e es)
  then show ?case using quiet_step [of s i e P] io_ok_step [of s e] by auto
qed simp

lemma quiet_expired:
  assumes "i < 8" and "quiet (\<lambda>t l. t = t0 \<and> l = ms) i p" and "now - t0 > ms"
  shows "quiet (\<lambda>t l. False) i (pwm_refresh now p)"
  using assms by (auto simp: quiet_def pwm_refresh_def frame_simps refresh_flags_on)

lemma quiet_value: "quiet (\<lambda>t l. False) i (io_motors s) \<Longrightarrow> motor_value i s = 0"
  by (auto simp: quiet_def motor_value_def pwm_get_def Let_def)


definition demo_motor :: "u8 \<Rightarrow> u8 \<Rightarrow> hbridge" where
  "demo_motor a b = \<lparr>hb_pwm = 0, hb_mov = STOPPED, hb_last_mov = FORWARD, hb_l1 = 21, hb_l2 = 47,
     hb_ch1 = a, hb_ch2 = b, hb_dead_zone = 0, hb_initialized = True\<rparr>"

definition demo_io :: robot_io where
  "demo_io = \<lparr>io_motors = new_pwm_flags, io_leds = new_out_flags, io_buttons = new_flags 100,
     io_side = new_flags 100, io_left = demo_motor 0 1, io_right = demo_motor 2 3,
     io_ledc = \<lparr>lc_duty = (\<lambda>c. 0), lc_past = [], lc_answers = []\<rparr>, io_armed = True, io_coast_until = 0,
     io_led_duty = (\<lambda>c. 0), io_yellow = False\<rparr>"

lemma demo_io_ok: "io_ok demo_io"
  by (simp add: io_ok_def demo_io_def demo_motor_def bridge_ok_def described_def answering_def pwm_ok_new)



section \<open>Coasting ends\<close>

lemma sint_sub_small:
  fixes k d :: u32
  assumes "k < 2 ^ 31" and "d < 2 ^ 31"
  shows "sint (k - d) = uint k - uint d"
proof -
  have k: "uint k < 2 ^ 31" "uint d < 2 ^ 31" using assms by (simp_all add: word_less_def)
  have "sint (k - d) = signed_take_bit 31 (uint k - uint d)"
    by (simp add: sint_uint uint_word_ariths signed_take_bit_eq_take_bit_shift take_bit_eq_mod mod_simps)
  also have "\<dots> = uint k - uint d"
    by (rule signed_take_bit_int_eq_self) (use k uint_ge_0 [of k] uint_ge_0 [of d] in linarith)+
  finally show ?thesis .
qed

text \<open>Coasting lasts as long as it was asked for and then ends in a brake.  An armed robot with
  nothing to drive, told to free-wheel for \<open>d\<close> milliseconds (below \<open>2 ^ 31\<close>), free-wheels in every pass
  less than \<open>d\<close> milliseconds later and brakes, with the latch cleared, in every pass after, one
  millisecond late where the deadline would be the value that means no deadline.  Told more than
  \<open>2 ^ 31\<close> milliseconds it answers OK and brakes at once.\<close>

theorem coasting_lasts_as_asked:
  assumes "io_ok s" and "io_armed s" and "motor_value MOTOR_LEFT_idx s = 0" and "motor_value MOTOR_RIGHT_idx s = 0"
    and "d \<noteq> 0" and "k < 2 ^ 31" and "motion_coast t d s = (res, lines, s0)"
  shows "res = RESULT_OK \<and>
    (d < 2 ^ 31 \<and> k < d \<longrightarrow>
       free_wheel (snd (set_outputs led_ok (t + k) s0)) \<and>
       io_coast_until (snd (set_outputs led_ok (t + k) s0)) = io_coast_until s0) \<and>
    (d < 2 ^ 31 \<and> d < k \<or> d < 2 ^ 31 \<and> k = d \<and> t + d \<noteq> 0 \<or> d > 2 ^ 31 \<and> k = 0 \<and> t + d \<noteq> 0 \<longrightarrow>
       braked (snd (set_outputs led_ok (t + k) s0)) \<and>
       io_coast_until (snd (set_outputs led_ok (t + k) s0)) = 0)"
proof -
  have s0: "res = RESULT_OK" "s0 = set_coast t d s" using assms(5,7) by (auto simp: motion_coast_def)
  have ok: "io_ok s0" using assms(1) by (simp add: s0 set_coast_def Let_def)
  have mv: "motor_value i s0 = motor_value i s" "io_armed s0" for i
    using assms(2) by (simp_all add: s0 set_coast_def motor_value_def Let_def)
  define x where "x = t + k - io_coast_until s0"
  have at: "coasts_at (t + k) s0 \<longleftrightarrow> sint x < 0"
    unfolding x_def using mv assms(3,4) by (auto simp: coasts_at_def s0 set_coast_def Let_def)
  have w: "wanted_pwm MOTOR_LEFT_idx s0 = 0" "wanted_pwm MOTOR_RIGHT_idx s0 = 0"
    using mv assms(3,4) by (simp_all add: wanted_pwm_def)
  have until: "io_coast_until s0 = (if t + d = 0 then 1 else t + d)" by (simp add: s0 set_coast_def Let_def)
  have normal: "x = k - d" if "t + d \<noteq> 0" using that until by (simp add: x_def)
  have late: "x = k - (d + 1)" if "t + d = 0"
    using that until by (simp add: x_def algebra_simps)
  have small: "sint (k - d) < 0 \<longleftrightarrow> k < d" if "d < 2 ^ 31"
    using sint_sub_small [OF assms(6) that] by (simp add: word_less_def)
  have small1: "sint (k - (d + 1)) < 0 \<longleftrightarrow> k \<le> d" if "d < 2 ^ 31"
  proof (cases "d + 1 < 2 ^ 31")
    case True
    have "uint (d + 1) = uint d + 1" using that by (simp add: word_less_def uint_word_ariths)
    then show ?thesis using sint_sub_small [OF assms(6) True] by (simp add: word_le_def)
  next
    case False
    have "uint d = 2 ^ 31 - 1" using that False by (simp add: word_less_def uint_word_ariths)
    then have d: "d = 0x7FFFFFFF" by (simp add: word_uint_eq_iff)
    have "sint (k - 0x80000000) = uint k - 2 ^ 31"
    proof -
      have "sint (k - 0x80000000) = signed_take_bit 31 (uint k - 2 ^ 31)"
        by (simp add: sint_uint uint_word_ariths signed_take_bit_eq_take_bit_shift take_bit_eq_mod mod_simps)
      also have "\<dots> = uint k - 2 ^ 31"
        by (rule signed_take_bit_int_eq_self) (use assms(6) uint_ge_0 [of k] in \<open>simp_all add: word_less_def\<close>)
      finally show ?thesis .
    qed
    then show ?thesis using assms(6) by (simp add: d word_less_def word_le_def)
  qed
  have big: "\<not> sint (0 - d) < 0" if "d > 2 ^ 31"
  proof -
    have "uint d < 2 ^ 32" using uint_lt2p [of d] by simp
    then have "0 - d < 2 ^ 31"
      using that by (simp add: word_less_def uint_word_ariths zmod_zminus1_eq_if)
    then show ?thesis using sint_sub_small [of "0 - d" 0] by simp
  qed
  have until0: "io_coast_until s0 \<noteq> 0" using until by simp
  have yes: "coasts_at (t + k) s0" if "d < 2 ^ 31" "k < d"
    using that small small1 normal late unfolding at by (cases "t + d = 0") auto
  have no: "\<not> coasts_at (t + k) s0"
    if "d < 2 ^ 31 \<and> d < k \<or> d < 2 ^ 31 \<and> k = d \<and> t + d \<noteq> 0 \<or> d > 2 ^ 31 \<and> k = 0 \<and> t + d \<noteq> 0"
    using that small small1 normal late big unfolding at by (cases "t + d = 0") auto
  show ?thesis
    using set_outputs_effect [OF ok, of led_ok "t + k"] yes no w s0(1) by (auto simp: braked_def)
qed

theorem coasting_lasts_as_asked_witness:
  "free_wheel (snd (set_outputs (\<lambda>c. True) (7 + 99) (snd (snd (motion_coast 7 100 demo_io))))) \<and>
   braked (snd (set_outputs (\<lambda>c. True) (7 + 100) (snd (snd (motion_coast 7 100 demo_io)))))"
proof -
  have v: "motor_value i demo_io = 0" for i
    by (simp add: motor_value_def pwm_get_def demo_io_def new_pwm_flags_def new_flags_def flag_on_def Let_def)
  have a: "io_armed demo_io" by (simp add: demo_io_def)
  obtain res lines s0 where m: "motion_coast 7 100 demo_io = (res, lines, s0)" by (metis surj_pair)
  have "(100 :: u32) \<noteq> 0" "(99 :: u32) < 2 ^ 31" "(100 :: u32) < 2 ^ 31" by simp_all
  note * = coasting_lasts_as_asked [OF demo_io_ok a v v this(1,2) m, of "\<lambda>c. True"]
    coasting_lasts_as_asked [OF demo_io_ok a v v this(1,3) m, of "\<lambda>c. True"]
  show ?thesis using * by (simp add: m)
qed

section \<open>Debouncing\<close>

text \<open>The edges of a pin in time order, and the presses among them.\<close>

fun presses :: "int \<Rightarrow> int \<Rightarrow> (int \<times> bool) list \<Rightarrow> int list" where
  "presses debounce_us last_edge [] = []"
| "presses debounce_us last_edge ((now, level) # es) =
     (case button_press_accepted debounce_us now level last_edge of (ok, e) \<Rightarrow>
        (if ok then [now] else []) @ presses debounce_us e es)"

lemma presses_late:
  "sorted (prev # map fst es) \<Longrightarrow> a \<in> set (presses w prev es) \<Longrightarrow> prev + w \<le> a \<and> (a, False) \<in> set es"
proof (induction es arbitrary: prev)
  case (Cons e es)
  obtain now level where e: "e = (now, level)" by (metis surj_pair)
  have srt: "sorted (now # map fst es)" and le: "prev \<le> now" using Cons.prems(1) by (simp_all add: e)
  have "a \<in> set (presses w now es) \<or> a = now \<and> \<not> level \<and> prev + w \<le> now"
    using Cons.prems(2) by (auto simp: e button_press_accepted_def Let_def split: if_splits)
  then show ?case using Cons.IH [OF srt] le by (auto simp: e)
qed simp

lemma presses_quiet:
  "sorted (prev # map fst es) \<Longrightarrow> a \<in> set (presses w prev es) \<Longrightarrow> (t, l) \<in> set es \<Longrightarrow> t < a \<Longrightarrow> t + w \<le> a"
proof (induction es arbitrary: prev)
  case (Cons e es)
  obtain now level where e: "e = (now, level)" by (metis surj_pair)
  have srt: "sorted (now # map fst es)" using Cons.prems(1) by (simp add: e)
  have later: "now \<le> fst x" if "x \<in> set es" for x using srt that by auto
  consider "a = now" | "a \<in> set (presses w now es)"
    using Cons.prems(2) by (auto simp: e button_press_accepted_def Let_def split: if_splits)
  then show ?case
  proof cases
    case 1
    then show ?thesis using Cons.prems(3,4) later [of "(t, l)"] by (auto simp: e)
  next
    case 2
    show ?thesis
    proof (cases "t = now")
      case True
      then show ?thesis using presses_late [OF srt 2] by simp
    next
      case False
      then show ?thesis using Cons.IH [OF srt 2] Cons.prems(3,4) by (simp add: e)
    qed
  qed
qed simp

lemma presses_spaced:
  "sorted (prev # map fst es) \<Longrightarrow> sorted_wrt (\<lambda>a b. a + w \<le> b) (presses w prev es)"
proof (induction es arbitrary: prev)
  case (Cons e es)
  obtain now level where e: "e = (now, level)" by (metis surj_pair)
  have srt: "sorted (now # map fst es)" using Cons.prems by (simp add: e)
  show ?case using Cons.IH [OF srt] presses_late [OF srt] by (auto simp: e button_press_accepted_def Let_def)
qed simp

text \<open>A press is only accepted after a quiet window: no edge of either direction, bounce or
  release, lies less than the window before an accepted press, accepted presses are at least a window
  apart, each is a falling edge, and a falling edge that follows a quiet window is always accepted.\<close>

theorem presses_follow_quiet_window:
  assumes "sorted (prev # map fst (es @ (now, False) # es'))"
  shows "(\<forall>a \<in> set (presses w prev (es @ (now, False) # es')).
      (a, False) \<in> set (es @ (now, False) # es') \<and>
      (\<forall>(t, l) \<in> set (es @ (now, False) # es'). t < a \<longrightarrow> t + w \<le> a)) \<and>
    sorted_wrt (\<lambda>a b. a + w \<le> b) (presses w prev (es @ (now, False) # es')) \<and>
    (fold (\<lambda>e l. fst e) es prev + w \<le> now \<longrightarrow> now \<in> set (presses w prev (es @ (now, False) # es')))"
proof -
  have heard: "now \<in> set (presses w prev (es @ (now, False) # es'))"
    if "fold (\<lambda>e l. fst e) es prev + w \<le> now"
    using that by (induction es arbitrary: prev) (auto simp: button_press_accepted_def Let_def)
  show ?thesis
    using presses_late [OF assms] presses_quiet [OF assms] presses_spaced [OF assms] heard by fastforce
qed

theorem presses_follow_quiet_window_witness:
  "200 \<in> set (presses 50 0 ([(100, True), (101, False)] @ (200, False) # [(203, True), (204, False)]))"
proof -
  have "sorted (0 # map fst ([(100, True), (101, False)] @ (200 :: int, False) # [(203, True), (204, False)]))" by simp
  from presses_follow_quiet_window [OF this, of 50] show ?thesis by simp
qed

section \<open>Blinking with no period\<close>

text \<open>The shell accepts zero for the blink period of the error state, and blinking then divides
  by zero; every other period blinks.\<close>

theorem zero_blink_period_accepted:
  "(\<exists>r'. set_setting ft vg (Some ''error'') (Some ''error_blink_ms'') (Some ''0'') r = (True, r') \<and>
      rs_data r' = (rs_data r)[56 := VU32 0]) \<and>
   blink_error_leds now 0 s = None \<and> (\<exists>s'. p = 0 \<or> blink_error_leds now p s = Some s')"
proof -
  have find: "find_setting (Some ''error'') (Some ''error_blink_ms'') = Some 56"
    by (simp add: find_setting_def kTable_def row_def)
  have zero: "parse_into ft vg (kTable ! 56) (Some ''0'') = Some (VU32 0)"
    using strtoul_show [of 0] digit_char_zero [of 0] by (simp add: parse_into_def kTable_def row_def show_dec.simps)
  show ?thesis by (simp add: set_setting_def find zero blink_error_leds_def)
qed

end
