(* ===== verification/Telemetry_Publisher.thy ===== *)
theory Telemetry_Publisher
  imports Complex_Main Bounded_Fifo
begin

text \<open>
  \<^verbatim>\<open>lib/TelemetryPublisher/\<close>: the topics of the robot, the bounded queue of their samples, the staging
  slot of the one large document, and the delivery of both to up to four targets.

  From the protocol library: the sample writer (\<open>sample_writer\<close>, the outcome of begin, the puts in
  order and finish), the subscription tables and the endpoints, both reading a world \<open>'w\<close> that the
  sends change.  \<open>tp_lock\<close> says that another task holds the counters' lock during the call, so that
  the bounded spin gives up.
\<close>

section \<open>Topics\<close>

definition kProtocolTestTopicId :: u16 where "kProtocolTestTopicId = 0x0001"
definition kRobotStateTopicId :: u16 where "kRobotStateTopicId = 0x0002"
definition kSystemMonitorTopicId :: u16 where "kSystemMonitorTopicId = 0x0003"
definition kSensorsTopicId :: u16 where "kSensorsTopicId = 0x0004"
definition kFlagsTopicId :: u16 where "kFlagsTopicId = 0x0005"
definition kSchemaVersion :: u16 where "kSchemaVersion = 1"
definition kTelemetryQueueCapacity :: nat where "kTelemetryQueueCapacity = 16"
definition kProtocolTestPayloadSize :: nat where "kProtocolTestPayloadSize = 10"
definition kRobotStatePayloadSize :: nat where "kRobotStatePayloadSize = 3"
definition kArraySensorChannels :: nat where "kArraySensorChannels = 8"
definition kSensorsPayloadSize :: nat where "kSensorsPayloadSize = 26 + kArraySensorChannels"
definition kFlagsPayloadSize :: nat where "kFlagsPayloadSize = 7"
definition kMaxSystemMonitorTextSize :: nat where "kMaxSystemMonitorTextSize = 1800"
definition kMaxSystemMonitorPayloadSize :: nat where
  "kMaxSystemMonitorPayloadSize = kMaxSystemMonitorTextSize + 2"
definition kMaxPayloadSize :: nat where "kMaxPayloadSize = kSensorsPayloadSize"
definition kMaxTopics :: nat where "kMaxTopics = 5"
definition kMaxTargets :: nat where "kMaxTargets = 4"

datatype wire_type = Uint8 | Int8 | Uint16 | Uint32 | Float32
datatype encoding = Utf8 | PackedLe

text \<open>A bound that is not-a-number is \<open>None\<close>: no bound on that side.\<close>

record field_schema =
  fs_field_id :: u16
  fs_order :: u16
  fs_name :: string
  fs_type :: wire_type
  fs_unit :: string
  fs_scale :: rat
  fs_offset :: rat
  fs_element_count :: u16
  fs_nullable :: bool
  fs_min :: "rat option"
  fs_max :: "rat option"

record topic_schema =
  ts_topic_id :: u16
  ts_schema_version :: u16
  ts_name :: string
  ts_encoding :: encoding
  ts_fields :: "field_schema list"
  ts_payload_size :: nat
  ts_max_rate :: u32
  ts_min_rate :: u32
  ts_default_rate :: u32

definition field :: "u16 \<Rightarrow> string \<Rightarrow> wire_type \<Rightarrow> string \<Rightarrow> rat option \<Rightarrow> rat option \<Rightarrow> field_schema" where
  "field i name t unit lo hi = \<lparr>fs_field_id = i, fs_order = i - 1, fs_name = name, fs_type = t,
     fs_unit = unit, fs_scale = 1, fs_offset = 0, fs_element_count = 1, fs_nullable = False,
     fs_min = lo, fs_max = hi\<rparr>"

definition kProtocolTestFields :: "field_schema list" where
  "kProtocolTestFields = [field 1 ''counter'' Uint32 ''1'' None None, field 2 ''value'' Float32 ''1'' None None]"

definition kRobotStateFields :: "field_schema list" where
  "kRobotStateFields = [field 1 ''state'' Uint8 ''1'' None None]"

definition kSensorsFields :: "field_schema list" where
  "kSensorsFields = [
     field 1 ''linear_speed'' Float32 ''m/s'' None None, field 2 ''angular_speed'' Float32 ''rad/s'' None None,
     field 3 ''gyro_z'' Float32 ''rad/s'' None None, field 4 ''accel_x'' Float32 ''m/s^2'' None None,
     field 5 ''accel_y'' Float32 ''m/s^2'' None None,
     field 6 ''current_a'' Uint16 ''counts'' (Some 0) (Some 4095),
     field 7 ''current_b'' Uint16 ''counts'' (Some 0) (Some 4095),
     field 8 ''array_0'' Uint8 ''counts'' None None, field 9 ''array_1'' Uint8 ''counts'' None None,
     field 10 ''array_2'' Uint8 ''counts'' None None, field 11 ''array_3'' Uint8 ''counts'' None None,
     field 12 ''array_4'' Uint8 ''counts'' None None, field 13 ''array_5'' Uint8 ''counts'' None None,
     field 14 ''array_6'' Uint8 ''counts'' None None, field 15 ''array_7'' Uint8 ''counts'' None None]"

definition kFlagsFields :: "field_schema list" where
  "kFlagsFields = [field 1 ''buttons'' Uint8 ''1'' None None, field 2 ''side_sensors'' Uint8 ''1'' None None,
     field 3 ''leds'' Uint8 ''1'' None None, field 4 ''pwm_left'' Int8 ''%'' (Some (-100)) (Some 100),
     field 5 ''pwm_right'' Int8 ''%'' (Some (-100)) (Some 100)]"

definition topic :: "u16 \<Rightarrow> string \<Rightarrow> encoding \<Rightarrow> field_schema list \<Rightarrow> nat \<Rightarrow> u32 \<Rightarrow> u32 \<Rightarrow> u32 \<Rightarrow> topic_schema" where
  "topic i name enc fds len mx mn df = \<lparr>ts_topic_id = i, ts_schema_version = kSchemaVersion, ts_name = name,
     ts_encoding = enc, ts_fields = fds, ts_payload_size = len, ts_max_rate = mx, ts_min_rate = mn,
     ts_default_rate = df\<rparr>"

definition kSchemas :: "topic_schema list" where
  "kSchemas = [
     topic kProtocolTestTopicId ''protocol.test'' PackedLe kProtocolTestFields kProtocolTestPayloadSize 50000 100 10000,
     topic kRobotStateTopicId ''robot.state'' PackedLe kRobotStateFields kRobotStatePayloadSize 0 0 10000,
     topic kSystemMonitorTopicId ''system.monitor'' Utf8 [] kMaxSystemMonitorPayloadSize 1000 1 333,
     topic kSensorsTopicId ''robot.sensors'' PackedLe kSensorsFields kSensorsPayloadSize 50000 100 10000,
     topic kFlagsTopicId ''robot.flags'' PackedLe kFlagsFields kFlagsPayloadSize 50000 100 10000]"

definition find_schema :: "u16 \<Rightarrow> topic_schema option" where
  "find_schema i = List.find (\<lambda>t. ts_topic_id t = i) kSchemas"

section \<open>Payloads\<close>

datatype 'f sample_value = PutU u64 | PutI int | PutF 'f

type_synonym 'f sample_writer = "u16 \<Rightarrow> field_schema list \<Rightarrow> 'f sample_value list \<Rightarrow> nat \<Rightarrow> bytes option"

definition pack_protocol_test :: "'f sample_writer \<Rightarrow> u32 \<Rightarrow> 'f \<Rightarrow> bytes option" where
  "pack_protocol_test sw counter v =
     sw kSchemaVersion kProtocolTestFields [PutU (ucast counter), PutF v] kProtocolTestPayloadSize"

text \<open>A refused value leaves the buffer as it was, and is sent.\<close>

definition pack_robot_state :: "'f sample_writer \<Rightarrow> u8 \<Rightarrow> bytes \<Rightarrow> bytes" where
  "pack_robot_state sw state buffer =
     (case sw kSchemaVersion kRobotStateFields [PutU (ucast state)] kRobotStatePayloadSize of
        Some bs \<Rightarrow> bs | None \<Rightarrow> buffer)"

definition pack_sensors ::
    "'f sample_writer \<Rightarrow> 'f \<Rightarrow> 'f \<Rightarrow> 'f \<Rightarrow> 'f \<Rightarrow> 'f \<Rightarrow> u16 \<Rightarrow> u16 \<Rightarrow> bytes option \<Rightarrow> bytes option" where
  "pack_sensors sw linear_speed angular_speed gyro_z accel_x accel_y current_a current_b arr =
     (case arr of
        None \<Rightarrow> None
      | Some xs \<Rightarrow> sw kSchemaVersion kSensorsFields
          ([PutF linear_speed, PutF angular_speed, PutF gyro_z, PutF accel_x, PutF accel_y,
            PutU (ucast current_a), PutU (ucast current_b)] @
           map (\<lambda>i. PutU (ucast (xs ! i))) [0..<kArraySensorChannels]) kSensorsPayloadSize)"

definition pack_flags :: "'f sample_writer \<Rightarrow> u8 \<Rightarrow> u8 \<Rightarrow> u8 \<Rightarrow> u8 \<Rightarrow> u8 \<Rightarrow> bytes option" where
  "pack_flags sw buttons side_sensors leds pwm_left pwm_right =
     sw kSchemaVersion kFlagsFields
       [PutU (ucast buttons), PutU (ucast side_sensors), PutU (ucast leds), PutI (sint pwm_left), PutI (sint pwm_right)]
       kFlagsPayloadSize"

definition write_u16_le :: "u16 \<Rightarrow> bytes" where
  "write_u16_le v = [ucast v, ucast (drop_bit 8 v)]"

definition pack_system_monitor :: "bytes option \<Rightarrow> nat \<Rightarrow> bytes option" where
  "pack_system_monitor body len =
     (if body = None \<and> len \<noteq> 0 \<or> len > kMaxSystemMonitorTextSize then None
      else Some (write_u16_le kSchemaVersion @ (if len \<noteq> 0 then take len (the body) else [])))"

section \<open>State\<close>

record sample =
  sp_timestamp_us :: u64
  sp_sequence :: u32
  sp_topic_id :: u16
  sp_payload :: bytes

record monitor_stage =
  mo_pending :: bool
  mo_timestamp_us :: u64
  mo_sequence :: u32
  mo_payload :: bytes

record topic_runtime =
  rt_topic_id :: u16
  rt_bytes_sent :: u64
  rt_dropped :: u64

text \<open>The endpoint a target sends through and the table of its subscriptions.  Sealing is the
  endpoint's: it gets the target's sealing function, if any.\<close>

record ('w, 's) tele_endpoint =
  te_reserve :: "'w \<Rightarrow> u32 option \<times> 'w"
  te_fragment :: "u16 \<Rightarrow> u32 \<Rightarrow> u64 \<Rightarrow> bytes \<Rightarrow> 's option \<Rightarrow> 'w \<Rightarrow> bool \<times> 'w"
  te_reserved :: "u16 \<Rightarrow> u32 \<Rightarrow> bytes \<Rightarrow> u64 \<Rightarrow> 's option \<Rightarrow> 'w \<Rightarrow> bool \<times> 'w"
  te_logical :: "u16 \<Rightarrow> bytes \<Rightarrow> u64 \<Rightarrow> 's option \<Rightarrow> 'w \<Rightarrow> bool \<times> 'w"
  te_source_id :: "'w \<Rightarrow> u32"

record 'w sub_table =
  st_count :: "u16 \<Rightarrow> 'w \<Rightarrow> u32"
  st_rate :: "u16 \<Rightarrow> 'w \<Rightarrow> u32"

record ('w, 's) target_view =
  tv_endpoint :: "('w, 's) tele_endpoint option"
  tv_seal :: "'s option"
  tv_subscriptions :: "'w sub_table option"

record ('w, 's) publisher =
  tp_endpoint :: "('w, 's) tele_endpoint option"
  tp_seal :: "'s option"
  tp_subscriptions :: "'w sub_table option"
  tp_tcp :: "('w, 's) target_view option"
  tp_ble :: "('w, 's) target_view option"
  tp_serial :: "('w, 's) target_view option"
  tp_slots :: "sample list"
  tp_write :: u32
  tp_read :: u32
  tp_stage :: monitor_stage
  tp_runtime :: "topic_runtime list"
  tp_runtime_initialized :: bool
  tp_lock :: bool
  tp_queued_total :: u32
  tp_sent_total :: u32
  tp_dropped_full :: u32
  tp_dropped_invalid :: u32
  tp_send_failed :: u32
  tp_world :: 'w

definition blank_sample :: sample where
  "blank_sample = \<lparr>sp_timestamp_us = 0, sp_sequence = 0, sp_topic_id = 0, sp_payload = []\<rparr>"

definition new_publisher :: "'w \<Rightarrow> ('w, 's) publisher" where
  "new_publisher w = \<lparr>tp_endpoint = None, tp_seal = None, tp_subscriptions = None, tp_tcp = None,
     tp_ble = None, tp_serial = None, tp_slots = replicate kTelemetryQueueCapacity blank_sample, tp_write = 0,
     tp_read = 0, tp_stage = \<lparr>mo_pending = False, mo_timestamp_us = 0, mo_sequence = 0, mo_payload = []\<rparr>,
     tp_runtime = replicate kMaxTopics \<lparr>rt_topic_id = 0, rt_bytes_sent = 0, rt_dropped = 0\<rparr>,
     tp_runtime_initialized = False, tp_lock = False, tp_queued_total = 0, tp_sent_total = 0,
     tp_dropped_full = 0, tp_dropped_invalid = 0, tp_send_failed = 0, tp_world = w\<rparr>"

section \<open>Binding targets\<close>

definition tp_configure ::
    "('w, 's) tele_endpoint \<Rightarrow> 's option \<Rightarrow> ('w, 's) publisher \<Rightarrow> ('w, 's) publisher" where
  "tp_configure ep seal s = s\<lparr>tp_endpoint := Some ep, tp_seal := seal\<rparr>"

definition bind_subscriptions :: "'w sub_table \<Rightarrow> ('w, 's) publisher \<Rightarrow> ('w, 's) publisher" where
  "bind_subscriptions t s = s\<lparr>tp_subscriptions := Some t\<rparr>"

definition direct_target :: "('w, 's) tele_endpoint \<Rightarrow> 's option \<Rightarrow> 'w sub_table \<Rightarrow> ('w, 's) target_view" where
  "direct_target ep seal t = \<lparr>tv_endpoint = Some ep, tv_seal = seal, tv_subscriptions = Some t\<rparr>"

definition bind_tcp_target where
  "bind_tcp_target ep seal t s = s\<lparr>tp_tcp := Some (direct_target ep seal t)\<rparr>"
definition unbind_tcp_target where "unbind_tcp_target s = s\<lparr>tp_tcp := None\<rparr>"
definition bind_ble_target where
  "bind_ble_target ep seal t s = s\<lparr>tp_ble := Some (direct_target ep seal t)\<rparr>"
definition unbind_ble_target where "unbind_ble_target s = s\<lparr>tp_ble := None\<rparr>"
definition bind_serial_target where
  "bind_serial_target ep seal t s = s\<lparr>tp_serial := Some (direct_target ep seal t)\<rparr>"
definition unbind_serial_target where "unbind_serial_target s = s\<lparr>tp_serial := None\<rparr>"

definition collect_targets :: "('w, 's) publisher \<Rightarrow> ('w, 's) target_view list" where
  "collect_targets s =
     (if tp_endpoint s \<noteq> None \<or> tp_subscriptions s \<noteq> None
      then [\<lparr>tv_endpoint = tp_endpoint s, tv_seal = tp_seal s, tv_subscriptions = tp_subscriptions s\<rparr>] else []) @
     (case tp_tcp s of None \<Rightarrow> [] | Some t \<Rightarrow> [t]) @ (case tp_ble s of None \<Rightarrow> [] | Some t \<Rightarrow> [t]) @
     (case tp_serial s of None \<Rightarrow> [] | Some t \<Rightarrow> [t])"

section \<open>Counters per topic\<close>

definition find_topic_index :: "u16 \<Rightarrow> ('w, 's) publisher \<Rightarrow> nat option" where
  "find_topic_index i s = List.find (\<lambda>k. rt_topic_id (tp_runtime s ! k) = i) [0..<kMaxTopics]"

definition init_runtime_if_needed :: "('w, 's) publisher \<Rightarrow> ('w, 's) publisher" where
  "init_runtime_if_needed s =
     (if tp_runtime_initialized s then s
      else s\<lparr>tp_runtime := fold (\<lambda>k rt. rt[k := (rt ! k)\<lparr>rt_topic_id := ts_topic_id (kSchemas ! k)\<rparr>])
                [0..<min (length kSchemas) kMaxTopics] (tp_runtime s),
             tp_runtime_initialized := True\<rparr>)"

definition on_topic :: "u16 \<Rightarrow> (topic_runtime \<Rightarrow> topic_runtime) \<Rightarrow> ('w, 's) publisher \<Rightarrow> ('w, 's) publisher" where
  "on_topic i f s =
     (if tp_lock s then s
      else let s1 = init_runtime_if_needed s in
        case find_topic_index i s1 of
          None \<Rightarrow> s1
        | Some k \<Rightarrow> s1\<lparr>tp_runtime := (tp_runtime s1)[k := f (tp_runtime s1 ! k)]\<rparr>)"

definition count_dropped :: "u16 \<Rightarrow> ('w, 's) publisher \<Rightarrow> ('w, 's) publisher" where
  "count_dropped i s = on_topic i (\<lambda>r. r\<lparr>rt_dropped := rt_dropped r + 1\<rparr>) s"

definition count_bytes :: "u16 \<Rightarrow> nat \<Rightarrow> ('w, 's) publisher \<Rightarrow> ('w, 's) publisher" where
  "count_bytes i n s = on_topic i (\<lambda>r. r\<lparr>rt_bytes_sent := rt_bytes_sent r + of_nat n\<rparr>) s"

definition count_invalid :: "('w, 's) publisher \<Rightarrow> ('w, 's) publisher" where
  "count_invalid s = s\<lparr>tp_dropped_invalid := tp_dropped_invalid s + 1\<rparr>"

section \<open>Publishing\<close>

datatype publish_result = Queued | NotConfigured | QueueFull | InvalidValue | SequenceUnavailable

text \<open>The ring: the producer's half and the consumer's half.\<close>

definition queue_full :: "('w, 's) publisher \<Rightarrow> bool" where
  "queue_full s \<longleftrightarrow> unat (tp_write s - tp_read s) \<ge> kTelemetryQueueCapacity"

definition push_sample :: "sample \<Rightarrow> ('w, 's) publisher \<Rightarrow> ('w, 's) publisher" where
  "push_sample x s = s\<lparr>tp_slots := (tp_slots s)[unat (tp_write s) mod kTelemetryQueueCapacity := x],
     tp_write := tp_write s + 1\<rparr>"

definition oldest_sample :: "('w, 's) publisher \<Rightarrow> sample" where
  "oldest_sample s = tp_slots s ! (unat (tp_read s) mod kTelemetryQueueCapacity)"

definition drop_sample :: "('w, 's) publisher \<Rightarrow> ('w, 's) publisher" where
  "drop_sample s = s\<lparr>tp_read := tp_read s + 1\<rparr>"

definition tp_enqueue ::
    "u16 \<Rightarrow> bytes option \<Rightarrow> u64 \<Rightarrow> ('w, 's) publisher \<Rightarrow> publish_result \<times> ('w, 's) publisher" where
  "tp_enqueue topic_id payload timestamp_us s =
     (case tp_endpoint s of
        None \<Rightarrow> (NotConfigured, count_invalid s)
      | Some ep \<Rightarrow>
        (case payload of
           None \<Rightarrow> (InvalidValue, count_invalid s)
         | Some bs \<Rightarrow>
           if length bs = 0 \<or> length bs > kMaxPayloadSize \<or> topic_id = 0 then (InvalidValue, count_invalid s)
           else if queue_full s then
             (QueueFull, count_dropped topic_id (s\<lparr>tp_dropped_full := tp_dropped_full s + 1\<rparr>))
           else (case te_reserve ep (tp_world s) of
              (None, w) \<Rightarrow> (SequenceUnavailable, count_invalid (s\<lparr>tp_world := w\<rparr>))
            | (Some sequence, w) \<Rightarrow>
                let s1 = push_sample \<lparr>sp_timestamp_us = timestamp_us, sp_sequence = sequence,
                        sp_topic_id = topic_id, sp_payload = bs\<rparr> (s\<lparr>tp_world := w\<rparr>)
                in (Queued, s1\<lparr>tp_queued_total := tp_queued_total s1 + 1\<rparr>))))"

definition publish_packed ::
    "u16 \<Rightarrow> bytes option \<Rightarrow> u64 \<Rightarrow> ('w, 's) publisher \<Rightarrow> publish_result \<times> ('w, 's) publisher" where
  "publish_packed topic_id packed timestamp_us s =
     (case packed of None \<Rightarrow> (InvalidValue, count_invalid s)
      | Some bs \<Rightarrow> tp_enqueue topic_id (Some bs) timestamp_us s)"

definition publish_protocol_test where
  "publish_protocol_test sw counter v ts s = publish_packed kProtocolTestTopicId (pack_protocol_test sw counter v) ts s"

definition publish_robot_state where
  "publish_robot_state sw state buffer ts s =
     tp_enqueue kRobotStateTopicId (Some (pack_robot_state sw state buffer)) ts s"

definition publish_sensors where
  "publish_sensors sw lin ang gz ax ay ca cb arr ts s =
     publish_packed kSensorsTopicId (pack_sensors sw lin ang gz ax ay ca cb arr) ts s"

definition publish_flags where
  "publish_flags sw b sd l pl pr ts s = publish_packed kFlagsTopicId (pack_flags sw b sd l pl pr) ts s"

definition publish_system_monitor ::
    "bytes option \<Rightarrow> nat \<Rightarrow> u64 \<Rightarrow> ('w, 's) publisher \<Rightarrow> publish_result \<times> ('w, 's) publisher" where
  "publish_system_monitor body len timestamp_us s =
     (case tp_endpoint s of
        None \<Rightarrow> (NotConfigured, count_invalid s)
      | Some ep \<Rightarrow>
          if mo_pending (tp_stage s) then
            (QueueFull, count_dropped kSystemMonitorTopicId (s\<lparr>tp_dropped_full := tp_dropped_full s + 1\<rparr>))
          else (case pack_system_monitor body len of
              None \<Rightarrow> (InvalidValue, count_invalid s)
            | Some bs \<Rightarrow>
                let s1 = s\<lparr>tp_stage := (tp_stage s)\<lparr>mo_payload := bs\<rparr>\<rparr> in
                (case te_reserve ep (tp_world s1) of
                   (None, w) \<Rightarrow> (SequenceUnavailable, count_invalid (s1\<lparr>tp_world := w\<rparr>))
                 | (Some sequence, w) \<Rightarrow>
                     (Queued, s1\<lparr>tp_world := w,
                        tp_stage := \<lparr>mo_pending = True, mo_timestamp_us = timestamp_us, mo_sequence = sequence,
                           mo_payload = bs\<rparr>,
                        tp_queued_total := tp_queued_total s1 + 1\<rparr>))))"

section \<open>Delivery\<close>

text \<open>One document to one target: not at all if the target has no endpoint or its table no
  subscriber; counted as sent or failed otherwise.\<close>

definition wants_topic :: "('w, 's) target_view \<Rightarrow> u16 \<Rightarrow> 'w \<Rightarrow> bool" where
  "wants_topic t topic_id w =
     (case tv_subscriptions t of None \<Rightarrow> True | Some tab \<Rightarrow> st_count tab topic_id w \<noteq> 0)"

definition deliver_to ::
    "u16 \<Rightarrow> nat \<Rightarrow> (('w, 's) tele_endpoint \<Rightarrow> 's option \<Rightarrow> 'w \<Rightarrow> bool \<times> 'w) \<Rightarrow> ('w, 's) target_view \<Rightarrow>
     ('w, 's) publisher \<Rightarrow> ('w, 's) publisher" where
  "deliver_to topic_id n snd_doc t s =
     (case tv_endpoint t of
        None \<Rightarrow> s
      | Some ep \<Rightarrow>
          if \<not> wants_topic t topic_id (tp_world s) then s
          else (case snd_doc ep (tv_seal t) (tp_world s) of
             (True, w) \<Rightarrow> count_bytes topic_id n (s\<lparr>tp_world := w, tp_sent_total := tp_sent_total s + 1\<rparr>)
           | (False, w) \<Rightarrow> s\<lparr>tp_world := w, tp_send_failed := tp_send_failed s + 1\<rparr>))"

definition deliver_sample :: "('w, 's) target_view list \<Rightarrow> sample \<Rightarrow> ('w, 's) publisher \<Rightarrow> ('w, 's) publisher" where
  "deliver_sample targets x s =
     fold (deliver_to (sp_topic_id x) (length (sp_payload x))
        (\<lambda>ep seal. te_fragment ep (sp_topic_id x) (sp_sequence x) (sp_timestamp_us x) (sp_payload x) seal)) targets s"

definition deliver_stage ::
    "('w, 's) target_view list \<Rightarrow> monitor_stage \<Rightarrow> ('w, 's) publisher \<Rightarrow> ('w, 's) publisher" where
  "deliver_stage targets m s =
     fold (deliver_to kSystemMonitorTopicId (length (mo_payload m))
        (\<lambda>ep seal. te_reserved ep kSystemMonitorTopicId (mo_sequence m) (mo_payload m) (mo_timestamp_us m) seal)) targets s"

fun flush_queue :: "('w, 's) target_view list \<Rightarrow> nat \<Rightarrow> ('w, 's) publisher \<Rightarrow> nat \<times> ('w, 's) publisher" where
  "flush_queue targets 0 s = (0, s)"
| "flush_queue targets (Suc left) s =
     (if tp_read s = tp_write s then (0, s)
      else case flush_queue targets left (drop_sample (deliver_sample targets (oldest_sample s) s)) of
             (n, s1) \<Rightarrow> (Suc n, s1))"

definition tp_flush :: "nat \<Rightarrow> ('w, 's) publisher \<Rightarrow> nat \<times> ('w, 's) publisher" where
  "tp_flush max_samples s =
     (let targets = collect_targets s in
      if targets = [] then (0, s)
      else if 0 < max_samples \<and> mo_pending (tp_stage s) then
        let s1 = deliver_stage targets (tp_stage s) s;
            s2 = s1\<lparr>tp_stage := (tp_stage s1)\<lparr>mo_pending := False\<rparr>\<rparr>
        in case flush_queue targets (max_samples - 1) s2 of (n, s3) \<Rightarrow> (Suc n, s3)
      else flush_queue targets max_samples s)"

definition tele_queued_count :: "('w, 's) publisher \<Rightarrow> nat" where
  "tele_queued_count s = unat (tp_write s - tp_read s) + (if mo_pending (tp_stage s) then 1 else 0)"

section \<open>Subscriptions and rates\<close>

definition topic_subscriber_count :: "u16 \<Rightarrow> ('w, 's) publisher \<Rightarrow> u16" where
  "topic_subscriber_count topic_id s =
     (if topic_id = 0 then 0
      else ucast (fold (\<lambda>t n. case tv_subscriptions t of None \<Rightarrow> n
               | Some tab \<Rightarrow> n + st_count tab topic_id (tp_world s)) (collect_targets s) (0 :: u32)))"

definition topic_active :: "u16 \<Rightarrow> ('w, 's) publisher \<Rightarrow> bool" where
  "topic_active topic_id s \<longleftrightarrow> topic_subscriber_count topic_id s \<noteq> 0"

definition topic_effective_rate :: "u16 \<Rightarrow> ('w, 's) publisher \<Rightarrow> u32" where
  "topic_effective_rate topic_id s =
     (if topic_id = 0 then 0
      else fold (\<lambda>t rate. case tv_subscriptions t of None \<Rightarrow> rate
               | Some tab \<Rightarrow> (let r = st_rate tab topic_id (tp_world s) in if r > rate then r else rate))
             (collect_targets s) 0)"

definition active_subscription_count :: "('w, 's) publisher \<Rightarrow> nat" where
  "active_subscription_count s = fold (\<lambda>t n. n + unat (topic_subscriber_count (ts_topic_id t) s)) kSchemas 0"

definition topic_period_us :: "u16 \<Rightarrow> ('w, 's) publisher \<Rightarrow> u64" where
  "topic_period_us topic_id s =
     (let rate = topic_effective_rate topic_id s in
      if rate = 0 then 0 else 1000000000 div ucast rate)"

record topic_stats =
  tt_topic_id :: u16
  tt_subscriber_count :: u16
  tt_rate :: u32
  tt_bytes_sent :: u64
  tt_dropped :: u64

definition stats_row :: "('w, 's) publisher \<Rightarrow> topic_runtime \<Rightarrow> topic_stats" where
  "stats_row s r = \<lparr>tt_topic_id = rt_topic_id r,
     tt_subscriber_count = topic_subscriber_count (rt_topic_id r) s,
     tt_rate = topic_effective_rate (rt_topic_id r) s, tt_bytes_sent = rt_bytes_sent r, tt_dropped = rt_dropped r\<rparr>"

definition topic_stats_of :: "nat \<Rightarrow> ('w, 's) publisher \<Rightarrow> topic_stats list \<times> ('w, 's) publisher" where
  "topic_stats_of max_count s =
     (if tp_lock s then ([], s)
      else let s1 = init_runtime_if_needed s in
        (take max_count (map (stats_row s1) (filter (\<lambda>r. rt_topic_id r \<noteq> 0) (take kMaxTopics (tp_runtime s1)))), s1))"

section \<open>The ring is a list\<close>

definition tele_queue :: "('w, 's) publisher \<Rightarrow> sample list" where
  "tele_queue s = ring_list kTelemetryQueueCapacity (tp_slots s) (unat (tp_read s) mod kTelemetryQueueCapacity)
     (unat (tp_write s - tp_read s))"

definition tele_queue_ok :: "('w, 's) publisher \<Rightarrow> bool" where
  "tele_queue_ok s \<longleftrightarrow> length (tp_slots s) = kTelemetryQueueCapacity \<and> unat (tp_write s - tp_read s) \<le> kTelemetryQueueCapacity"

definition offer_sample :: "sample \<Rightarrow> ('w, 's) publisher \<Rightarrow> ('w, 's) publisher option" where
  "offer_sample x s = (if queue_full s then None else Some (push_sample x s))"

definition take_sample :: "('w, 's) publisher \<Rightarrow> (sample \<times> ('w, 's) publisher) option" where
  "take_sample s = (if tp_read s = tp_write s then None else Some (oldest_sample s, drop_sample s))"

lemma write_index:
  fixes r w :: u32
  shows "unat w mod 16 = (unat r mod 16 + unat (w - r)) mod 16"
proof -
  have "unat w = (unat r + unat (w - r)) mod 2 ^ 32"
    using unat_word_ariths(1) [of r "w - r"] by simp
  then have "unat w mod 16 = (unat r + unat (w - r)) mod 16"
    by (simp add: mod_mod_cancel)
  then show ?thesis by (simp add: mod_add_left_eq)
qed

lemma unat_diff_succ:
  fixes r w :: u32
  assumes "unat (w - r) < 2 ^ 32 - 1"
  shows "unat (w + 1 - r) = Suc (unat (w - r))"
proof -
  have "w - r \<noteq> - 1" using assms by (auto simp: unsigned_minus_1_eq_mask mask_eq_exp_minus_1)
  from unat_word_succ [OF this] show ?thesis by (simp add: algebra_simps)
qed

lemma unat_diff_pred:
  fixes r w :: u32
  assumes "r \<noteq> w"
  shows "unat (w - (r + 1)) = unat (w - r) - 1" "unat (w - r) \<noteq> 0"
proof -
  have nz: "w - r \<noteq> 0" using assms by simp
  then have "unat (w - r - 1) = unat (w - r) - 1" by (rule unat_pred)
  then show "unat (w - (r + 1)) = unat (w - r) - 1" by (simp add: algebra_simps)
  show "unat (w - r) \<noteq> 0" using nz by (simp add: unat_eq_zero)
qed

lemma push_queue:
  assumes "tele_queue_ok s" and "\<not> queue_full s"
  shows "tele_queue_ok (push_sample x s) \<and> tele_queue (push_sample x s) = tele_queue s @ [x]"
proof -
  let ?n = "unat (tp_write s - tp_read s)"
  have n: "?n < 16" using assms(2) by (simp add: queue_full_def kTelemetryQueueCapacity_def)
  have suc: "unat (tp_write s + 1 - tp_read s) = Suc ?n" using n by (intro unat_diff_succ) simp
  have at: "unat (tp_write s) mod 16 = (unat (tp_read s) mod 16 + ?n) mod 16" by (rule write_index)
  have "ring_list 16 ((tp_slots s)[unat (tp_write s) mod 16 := x]) (unat (tp_read s) mod 16) (Suc ?n) =
      ring_list 16 (tp_slots s) (unat (tp_read s) mod 16) ?n @ [x]"
    unfolding at by (rule ring_list_store) (use n assms(1) in \<open>simp_all add: tele_queue_ok_def kTelemetryQueueCapacity_def\<close>)
  then show ?thesis
    using suc n assms(1) by (simp add: tele_queue_ok_def tele_queue_def push_sample_def kTelemetryQueueCapacity_def)
qed

lemma drop_queue:
  assumes "tele_queue_ok s" and "tp_read s \<noteq> tp_write s"
  shows "tele_queue_ok (drop_sample s) \<and> tele_queue s = oldest_sample s # tele_queue (drop_sample s)"
proof -
  note n = unat_diff_pred [OF assms(2)]
  have at: "unat (tp_read s + 1) mod 16 = (unat (tp_read s) mod 16 + 1) mod 16"
    using write_index [of "tp_read s + 1" "tp_read s"] by simp
  obtain m where m: "unat (tp_write s - tp_read s) = Suc m" using n(2) not0_implies_Suc by blast
  have "ring_list 16 (tp_slots s) (unat (tp_read s) mod 16) (Suc m) =
      tp_slots s ! (unat (tp_read s) mod 16) # ring_list 16 (tp_slots s) (unat (tp_read s + 1) mod 16) m"
    unfolding at by (rule ring_list_Suc_front) simp
  then show ?thesis
    using n m assms(1)
    by (simp add: tele_queue_ok_def tele_queue_def drop_sample_def oldest_sample_def kTelemetryQueueCapacity_def)
qed

lemma queue_empty_iff: "tele_queue s = [] \<longleftrightarrow> tp_read s = tp_write s"
proof -
  have "tele_queue s = [] \<longleftrightarrow> unat (tp_write s - tp_read s) = 0"
    using length_ring_list [of kTelemetryQueueCapacity "tp_slots s"] by (metis length_0_conv tele_queue_def)
  then show ?thesis by (auto simp: unat_eq_zero)
qed

lemma length_tele_queue: "length (tele_queue s) = unat (tp_write s - tp_read s)"
  by (simp add: tele_queue_def)

interpretation telemetry_queue: bounded_fifo tele_queue_ok tele_queue kTelemetryQueueCapacity offer_sample take_sample
  "\<lambda>_. True"
proof
  fix s :: "('w, 's) publisher" and x xs
  assume ok: "tele_queue_ok s"
  show "length (tele_queue s) \<le> kTelemetryQueueCapacity" using ok by (simp add: tele_queue_ok_def length_tele_queue)
  show "length (tele_queue s) = kTelemetryQueueCapacity \<Longrightarrow> offer_sample x s = None"
    by (simp add: offer_sample_def queue_full_def length_tele_queue)
  show "length (tele_queue s) < kTelemetryQueueCapacity \<Longrightarrow> True \<Longrightarrow>
      \<exists>q'. offer_sample x s = Some q' \<and> tele_queue_ok q' \<and> tele_queue q' = tele_queue s @ [x]"
    using push_queue [OF ok] by (simp add: offer_sample_def queue_full_def length_tele_queue)
  show "tele_queue s = [] \<Longrightarrow> take_sample s = None" by (simp add: take_sample_def queue_empty_iff)
  show "tele_queue s = x # xs \<Longrightarrow> \<exists>q'. take_sample s = Some (x, q') \<and> tele_queue_ok q' \<and> tele_queue q' = xs"
    using drop_queue [OF ok] queue_empty_iff [of s] by (auto simp: take_sample_def)
qed

section \<open>A flush delivers the front of the list\<close>

datatype document = Staged monitor_stage | Sampled sample

definition documents :: "('w, 's) publisher \<Rightarrow> document list" where
  "documents s = (if mo_pending (tp_stage s) then [Staged (tp_stage s)] else []) @ map Sampled (tele_queue s)"

fun deliver_document :: "('w, 's) target_view list \<Rightarrow> document \<Rightarrow> ('w, 's) publisher \<Rightarrow> ('w, 's) publisher" where
  "deliver_document targets (Staged m) s = deliver_stage targets m s"
| "deliver_document targets (Sampled x) s = deliver_sample targets x s"

text \<open>What a delivery changes does not depend on the queue and the stage, and it does not change them.\<close>

lemma init_runtime_commute:
  "init_runtime_if_needed (s\<lparr>tp_read := r\<rparr>) = (init_runtime_if_needed s)\<lparr>tp_read := r\<rparr>"
  "init_runtime_if_needed (s\<lparr>tp_stage := m\<rparr>) = (init_runtime_if_needed s)\<lparr>tp_stage := m\<rparr>"
  by (simp_all add: init_runtime_if_needed_def)

lemma on_topic_commute:
  "on_topic i f (s\<lparr>tp_read := r\<rparr>) = (on_topic i f s)\<lparr>tp_read := r\<rparr>"
  "on_topic i f (s\<lparr>tp_stage := m\<rparr>) = (on_topic i f s)\<lparr>tp_stage := m\<rparr>"
  by (simp_all add: on_topic_def Let_def init_runtime_commute find_topic_index_def split: option.split)

lemma count_commute:
  "count_bytes i n (s\<lparr>tp_read := r\<rparr>) = (count_bytes i n s)\<lparr>tp_read := r\<rparr>"
  "count_bytes i n (s\<lparr>tp_stage := m\<rparr>) = (count_bytes i n s)\<lparr>tp_stage := m\<rparr>"
  by (simp_all add: count_bytes_def on_topic_commute)

definition sent :: "u16 \<Rightarrow> nat \<Rightarrow> 'w \<Rightarrow> ('w, 's) publisher \<Rightarrow> ('w, 's) publisher" where
  "sent i n w s = count_bytes i n (s\<lparr>tp_world := w, tp_sent_total := tp_sent_total s + 1\<rparr>)"

definition not_sent :: "'w \<Rightarrow> ('w, 's) publisher \<Rightarrow> ('w, 's) publisher" where
  "not_sent w s = s\<lparr>tp_world := w, tp_send_failed := tp_send_failed s + 1\<rparr>"

lemma deliver_to_cases:
  "deliver_to i n f t s =
     (case tv_endpoint t of None \<Rightarrow> s
      | Some ep \<Rightarrow> if \<not> wants_topic t i (tp_world s) then s
          else (case f ep (tv_seal t) (tp_world s) of (ok, w) \<Rightarrow> if ok then sent i n w s else not_sent w s))"
  by (simp add: deliver_to_def sent_def not_sent_def split: option.split prod.split bool.split)

lemma sent_commute:
  "sent i n w (s\<lparr>tp_read := r\<rparr>) = (sent i n w s)\<lparr>tp_read := r\<rparr>"
  "sent i n w (s\<lparr>tp_stage := m\<rparr>) = (sent i n w s)\<lparr>tp_stage := m\<rparr>"
proof -
  let ?u = "\<lambda>s. s\<lparr>tp_world := w, tp_sent_total := tp_sent_total s + 1\<rparr>"
  have "?u (s\<lparr>tp_read := r\<rparr>) = (?u s)\<lparr>tp_read := r\<rparr>" "?u (s\<lparr>tp_stage := m\<rparr>) = (?u s)\<lparr>tp_stage := m\<rparr>"
    by simp_all
  then show "sent i n w (s\<lparr>tp_read := r\<rparr>) = (sent i n w s)\<lparr>tp_read := r\<rparr>"
    "sent i n w (s\<lparr>tp_stage := m\<rparr>) = (sent i n w s)\<lparr>tp_stage := m\<rparr>"
    unfolding sent_def by (simp_all only: count_commute)
qed

lemma not_sent_commute:
  "not_sent w (s\<lparr>tp_read := r\<rparr>) = (not_sent w s)\<lparr>tp_read := r\<rparr>"
  "not_sent w (s\<lparr>tp_stage := m\<rparr>) = (not_sent w s)\<lparr>tp_stage := m\<rparr>"
  by (simp_all add: not_sent_def)

lemma deliver_to_commute:
  "deliver_to i n f t (s\<lparr>tp_read := r\<rparr>) = (deliver_to i n f t s)\<lparr>tp_read := r\<rparr>"
  "deliver_to i n f t (s\<lparr>tp_stage := m\<rparr>) = (deliver_to i n f t s)\<lparr>tp_stage := m\<rparr>"
  by (simp_all add: deliver_to_cases sent_commute not_sent_commute split: option.split prod.split)

lemma fold_deliver_commute:
  "fold (deliver_to i n f) ts (s\<lparr>tp_read := r\<rparr>) = (fold (deliver_to i n f) ts s)\<lparr>tp_read := r\<rparr>"
  "fold (deliver_to i n f) ts (s\<lparr>tp_stage := m\<rparr>) = (fold (deliver_to i n f) ts s)\<lparr>tp_stage := m\<rparr>"
  by (induction ts arbitrary: s) (simp_all add: deliver_to_commute)

lemma count_bytes_frame:
  "tp_slots (count_bytes i n s) = tp_slots s" "tp_read (count_bytes i n s) = tp_read s"
  "tp_write (count_bytes i n s) = tp_write s" "tp_stage (count_bytes i n s) = tp_stage s"
  "tp_queued_total (count_bytes i n s) = tp_queued_total s" "collect_targets (count_bytes i n s) = collect_targets s"
  "tp_dropped_full (count_bytes i n s) = tp_dropped_full s"
  "tp_dropped_invalid (count_bytes i n s) = tp_dropped_invalid s"
  "tp_sent_total (count_bytes i n s) = tp_sent_total s" "tp_send_failed (count_bytes i n s) = tp_send_failed s"
  "tp_world (count_bytes i n s) = tp_world s"
  by (simp_all add: count_bytes_def on_topic_def Let_def init_runtime_if_needed_def collect_targets_def
      split: option.split)

lemma sent_frame:
  "tp_slots (sent i n w s) = tp_slots s" "tp_read (sent i n w s) = tp_read s"
  "tp_write (sent i n w s) = tp_write s" "tp_stage (sent i n w s) = tp_stage s"
  "tp_queued_total (sent i n w s) = tp_queued_total s" "collect_targets (sent i n w s) = collect_targets s"
  "tp_dropped_full (sent i n w s) = tp_dropped_full s" "tp_dropped_invalid (sent i n w s) = tp_dropped_invalid s"
  by (simp_all add: sent_def count_bytes_frame) (simp add: collect_targets_def)

lemma not_sent_frame:
  "tp_slots (not_sent w s) = tp_slots s" "tp_read (not_sent w s) = tp_read s"
  "tp_write (not_sent w s) = tp_write s" "tp_stage (not_sent w s) = tp_stage s"
  "tp_queued_total (not_sent w s) = tp_queued_total s" "collect_targets (not_sent w s) = collect_targets s"
  "tp_dropped_full (not_sent w s) = tp_dropped_full s" "tp_dropped_invalid (not_sent w s) = tp_dropped_invalid s"
  by (simp_all add: not_sent_def collect_targets_def)

lemma deliver_to_three:
  obtains "deliver_to i n f t s = s" | w where "deliver_to i n f t s = sent i n w s"
    | w where "deliver_to i n f t s = not_sent w s"
proof -
  have "deliver_to i n f t s = s \<or> (\<exists>w. deliver_to i n f t s = sent i n w s) \<or>
      (\<exists>w. deliver_to i n f t s = not_sent w s)"
    unfolding deliver_to_cases by (auto split: option.split prod.split)
  then show thesis using that by blast
qed

lemma deliver_to_frame:
  "tp_slots (deliver_to i n f t s) = tp_slots s" "tp_read (deliver_to i n f t s) = tp_read s"
  "tp_write (deliver_to i n f t s) = tp_write s" "tp_stage (deliver_to i n f t s) = tp_stage s"
  "tp_queued_total (deliver_to i n f t s) = tp_queued_total s"
  "collect_targets (deliver_to i n f t s) = collect_targets s"
  "tp_dropped_full (deliver_to i n f t s) = tp_dropped_full s"
  "tp_dropped_invalid (deliver_to i n f t s) = tp_dropped_invalid s"
  by (cases rule: deliver_to_three [of i n f t s]; simp add: sent_frame not_sent_frame)+

lemma fold_deliver_frame [frame_simps]:
  "tp_slots (fold (deliver_to i n f) ts s) = tp_slots s" "tp_read (fold (deliver_to i n f) ts s) = tp_read s"
  "tp_write (fold (deliver_to i n f) ts s) = tp_write s" "tp_stage (fold (deliver_to i n f) ts s) = tp_stage s"
  "tp_queued_total (fold (deliver_to i n f) ts s) = tp_queued_total s"
  "collect_targets (fold (deliver_to i n f) ts s) = collect_targets s"
  "tp_dropped_full (fold (deliver_to i n f) ts s) = tp_dropped_full s"
  "tp_dropped_invalid (fold (deliver_to i n f) ts s) = tp_dropped_invalid s"
  by (induction ts arbitrary: s) (simp_all add: deliver_to_frame)

lemma deliver_document_frame [frame_simps]:
  "tp_slots (deliver_document ts d s) = tp_slots s" "tp_read (deliver_document ts d s) = tp_read s"
  "tp_write (deliver_document ts d s) = tp_write s" "tp_stage (deliver_document ts d s) = tp_stage s"
  "tp_queued_total (deliver_document ts d s) = tp_queued_total s"
  "collect_targets (deliver_document ts d s) = collect_targets s"
  "tp_dropped_full (deliver_document ts d s) = tp_dropped_full s"
  "tp_dropped_invalid (deliver_document ts d s) = tp_dropped_invalid s"
  by (cases d; simp add: deliver_sample_def deliver_stage_def frame_simps)+

lemma deliver_document_commute:
  "deliver_document ts d (s\<lparr>tp_read := r\<rparr>) = (deliver_document ts d s)\<lparr>tp_read := r\<rparr>"
  "deliver_document ts d (s\<lparr>tp_stage := m\<rparr>) = (deliver_document ts d s)\<lparr>tp_stage := m\<rparr>"
  by (cases d; simp add: deliver_sample_def deliver_stage_def fold_deliver_commute)+

lemma tele_queue_deliver:
  "tele_queue (deliver_document ts d s) = tele_queue s" "tele_queue_ok (deliver_document ts d s) = tele_queue_ok s"
  by (simp_all add: tele_queue_def tele_queue_ok_def frame_simps)

lemma fold_documents_commute:
  "fold (deliver_document ts) ds (s\<lparr>tp_read := r\<rparr>) = (fold (deliver_document ts) ds s)\<lparr>tp_read := r\<rparr>"
  "fold (deliver_document ts) ds (s\<lparr>tp_stage := m\<rparr>) = (fold (deliver_document ts) ds s)\<lparr>tp_stage := m\<rparr>"
  by (induction ds arbitrary: s) (simp_all add: deliver_document_commute)

lemma flush_queue_delivers:
  assumes "tele_queue_ok s"
  shows "fst (flush_queue ts n s) = min n (length (tele_queue s)) \<and>
    snd (flush_queue ts n s) = (fold (deliver_document ts) (map Sampled (take n (tele_queue s))) s)
      \<lparr>tp_read := tp_read s + of_nat (min n (length (tele_queue s)))\<rparr> \<and>
    tele_queue_ok (snd (flush_queue ts n s)) \<and>
    tele_queue (snd (flush_queue ts n s)) = drop n (tele_queue s)"
  using assms
proof (induction n arbitrary: s)
  case (Suc n)
  show ?case
  proof (cases "tp_read s = tp_write s")
    case True
    then have "tele_queue s = []" by (simp add: queue_empty_iff)
    then show ?thesis using True Suc.prems by simp
  next
    case False
    note d = drop_queue [OF Suc.prems False]
    let ?x = "oldest_sample s"
    let ?s = "drop_sample (deliver_sample ts ?x s)"
    have doc: "deliver_sample ts ?x s = deliver_document ts (Sampled ?x) s" by simp
    have rd: "tp_read (deliver_sample ts ?x s) = tp_read s" by (simp add: deliver_sample_def frame_simps)
    have q: "tele_queue_ok ?s \<and> tele_queue ?s = tele_queue (drop_sample s)"
      using d by (simp add: drop_sample_def tele_queue_def tele_queue_ok_def doc frame_simps del: deliver_document.simps)
    have s: "?s = (deliver_document ts (Sampled ?x) s)\<lparr>tp_read := tp_read s + 1\<rparr>"
      unfolding drop_sample_def rd unfolding doc ..
    obtain k t where kt: "flush_queue ts n ?s = (k, t)" by (metis surj_pair)
    let ?Q = "tele_queue (drop_sample s)"
    have IH: "k = min n (length ?Q)"
        "t = (fold (deliver_document ts) (map Sampled (take n ?Q)) ?s)\<lparr>tp_read := tp_read ?s + of_nat (min n (length ?Q))\<rparr>"
        "tele_queue_ok t" "tele_queue t = drop n ?Q"
      using Suc.IH [of ?s] q unfolding kt by auto
    have f: "flush_queue ts (Suc n) s = (Suc k, t)" using False kt by simp
    have len: "tele_queue s = ?x # ?Q" using d by blast
    have "tp_read ?s = tp_read s + 1" using rd by (simp add: drop_sample_def)
    then have "t = (fold (deliver_document ts) (map Sampled (take (Suc n) (tele_queue s))) s)
        \<lparr>tp_read := tp_read s + of_nat (min (Suc n) (length (tele_queue s)))\<rparr>"
      unfolding IH(2) len unfolding s by (simp add: fold_documents_commute add.commute add.left_commute del: deliver_document.simps)
    then show ?thesis unfolding f using IH(1,3,4) len by simp
  qed
qed simp

lemma tele_queue_frame:
  "tele_queue (s\<lparr>tp_stage := m\<rparr>) = tele_queue s" "tele_queue_ok (s\<lparr>tp_stage := m\<rparr>) = tele_queue_ok s"
  by (simp_all add: tele_queue_def tele_queue_ok_def)

lemma fold_documents_frame [frame_simps]:
  "tp_read (fold (deliver_document ts) ds s) = tp_read s"
  "tp_stage (fold (deliver_document ts) ds s) = tp_stage s"
  "tp_queued_total (fold (deliver_document ts) ds s) = tp_queued_total s"
  "tp_dropped_full (fold (deliver_document ts) ds s) = tp_dropped_full s"
  "tp_dropped_invalid (fold (deliver_document ts) ds s) = tp_dropped_invalid s"
  by (induction ds arbitrary: s) (simp_all add: frame_simps)

lemma tp_flush_delivers:
  assumes "tele_queue_ok s" and "collect_targets s \<noteq> []"
  shows "fst (tp_flush n s) = min n (length (documents s)) \<and>
    (\<exists>r p. snd (tp_flush n s) =
       (fold (deliver_document (collect_targets s)) (take n (documents s)) s)\<lparr>tp_read := r,
          tp_stage := (tp_stage s)\<lparr>mo_pending := p\<rparr>\<rparr>) \<and>
    tele_queue_ok (snd (tp_flush n s)) \<and> documents (snd (tp_flush n s)) = drop n (documents s)"
proof (cases "0 < n \<and> mo_pending (tp_stage s)")
  case True
  then obtain m where m: "n = Suc m" by (cases n) auto
  let ?T = "collect_targets s"
  let ?s1 = "deliver_document ?T (Staged (tp_stage s)) s"
  let ?s2 = "?s1\<lparr>tp_stage := (tp_stage s)\<lparr>mo_pending := False\<rparr>\<rparr>"
  have st: "tp_stage ?s1 = tp_stage s" by (simp only: frame_simps)
  have q: "tele_queue_ok ?s2" "tele_queue ?s2 = tele_queue s"
    using assms(1) by (simp_all only: tele_queue_frame tele_queue_deliver)
  obtain k t where kt: "flush_queue ?T m ?s2 = (k, t)" by (metis surj_pair)
  have f: "tp_flush n s = (Suc k, t)"
    using True assms(2) kt st by (simp add: tp_flush_def Let_def m)
  have K: "k = min m (length (tele_queue s))"
      "t = (fold (deliver_document ?T) (map Sampled (take m (tele_queue s))) ?s2)
         \<lparr>tp_read := tp_read ?s2 + of_nat (min m (length (tele_queue s)))\<rparr>"
      "tele_queue_ok t" "tele_queue t = drop m (tele_queue s)"
    using flush_queue_delivers [OF q(1), of ?T m] unfolding kt q(2) by auto
  have docs: "documents s = Staged (tp_stage s) # map Sampled (tele_queue s)"
    using True by (simp add: documents_def)
  have t: "t = (fold (deliver_document ?T) (take n (documents s)) s)\<lparr>tp_read := tp_read ?s2 + of_nat (min m (length (tele_queue s))),
      tp_stage := (tp_stage s)\<lparr>mo_pending := False\<rparr>\<rparr>"
    unfolding K(2) docs m
    by (simp add: fold_documents_commute take_map del: deliver_document.simps)
  have "mo_pending (tp_stage t) = False" unfolding t by simp
  then have "documents t = drop n (documents s)" using K(4) docs m by (simp add: documents_def drop_map)
  then show ?thesis unfolding f using K(1,3) t docs m by (auto simp: m)
next
  case False
  let ?T = "collect_targets s"
  obtain k t where kt: "flush_queue ?T n s = (k, t)" by (metis surj_pair)
  have f: "tp_flush n s = (k, t)" using False assms(2) kt by (auto simp: tp_flush_def Let_def)
  have K: "k = min n (length (tele_queue s))"
      "t = (fold (deliver_document ?T) (map Sampled (take n (tele_queue s))) s)
         \<lparr>tp_read := tp_read s + of_nat (min n (length (tele_queue s)))\<rparr>"
      "tele_queue_ok t" "tele_queue t = drop n (tele_queue s)"
    using flush_queue_delivers [OF assms(1), of ?T n] unfolding kt by auto
  have stg: "tp_stage t = tp_stage s" unfolding K(2) by (simp add: frame_simps)
  show ?thesis
  proof (cases "n = 0")
    case True
    have "k = 0" "t = s" using kt True by auto
    moreover have "\<exists>r p. s = s\<lparr>tp_read := r, tp_stage := (tp_stage s)\<lparr>mo_pending := p\<rparr>\<rparr>"
      by (rule exI [of _ "tp_read s"], rule exI [of _ "mo_pending (tp_stage s)"]) simp
    ultimately show ?thesis unfolding f using True assms(1) by auto
  next
    case nz: False
    then have np: "\<not> mo_pending (tp_stage s)" using False by simp
    then have docs: "documents s = map Sampled (tele_queue s)" by (simp add: documents_def)
    have tt: "t = (fold (deliver_document ?T) (take n (documents s)) s)
        \<lparr>tp_read := tp_read s + of_nat (min n (length (tele_queue s))),
         tp_stage := (tp_stage s)\<lparr>mo_pending := mo_pending (tp_stage s)\<rparr>\<rparr>"
      unfolding K(2) docs using stg K(2) by (simp add: take_map frame_simps fold_documents_commute)
    have dd: "documents t = drop n (documents s)"
      using K(4) docs np stg by (simp add: documents_def drop_map)
    have "k = min n (length (documents s))" using K(1) docs by simp
    then show ?thesis unfolding f fst_conv snd_conv using K(3) tt dd by blast
  qed
qed

text \<open>C26: Telemetry leaves in order and every document once.  With at least one target bound, a flush
  takes the oldest documents waiting, the large one first and then the samples in the order they were
  published, as many as it may; each is delivered to the targets in turn, and what was not taken
  waits unchanged.\<close>

theorem flush_delivers_oldest_first:
  assumes "tele_queue_ok s" and "collect_targets s \<noteq> []"
  shows "\<exists>s'. tp_flush n s = (min n (length (documents s)), s') \<and> tele_queue_ok s' \<and>
    documents s' = drop n (documents s) \<and>
    (let d = fold (deliver_document (collect_targets s)) (take n (documents s)) s in
       tp_world s' = tp_world d \<and> tp_sent_total s' = tp_sent_total d \<and>
       tp_send_failed s' = tp_send_failed d \<and> tp_runtime s' = tp_runtime d)"
proof -
  obtain k s' where f: "tp_flush n s = (k, s')" by (metis surj_pair)
  show ?thesis using tp_flush_delivers [OF assms, of n] unfolding f Let_def by auto
qed

section \<open>Every subscriber, and only subscribers\<close>

fun document_topic :: "document \<Rightarrow> u16" where
  "document_topic (Staged m) = kSystemMonitorTopicId"
| "document_topic (Sampled x) = sp_topic_id x"

definition reached :: "document \<Rightarrow> ('w, 's) target_view \<Rightarrow> 'w \<Rightarrow> bool" where
  "reached d t w \<longleftrightarrow> tv_endpoint t \<noteq> None \<and> wants_topic t (document_topic d) w"

text \<open>Sending changes nobody's subscriptions: the tables belong to the receiving side.\<close>

definition sends_keep_tables :: "('w, 's) target_view list \<Rightarrow> bool" where
  "sends_keep_tables ts \<longleftrightarrow>
     (\<forall>t \<in> set ts. \<forall>ep. tv_endpoint t = Some ep \<longrightarrow> (\<forall>u \<in> set ts. \<forall>tab. tv_subscriptions u = Some tab \<longrightarrow>
       (\<forall>i q ts' bs seal w j. st_count tab j (snd (te_fragment ep i q ts' bs seal w)) = st_count tab j w \<and>
          st_count tab j (snd (te_reserved ep i q bs ts' seal w)) = st_count tab j w)))"

definition offers :: "('w, 's) publisher \<Rightarrow> u32" where
  "offers s = tp_sent_total s + tp_send_failed s"

lemma offers_sent: "offers (sent i n w s) = offers s + 1" "offers (not_sent w s) = offers s + 1"
  "tp_world (sent i n w s) = w" "tp_world (not_sent w s) = w"
  by (simp_all add: offers_def sent_def not_sent_def count_bytes_frame)

lemma wants_topic_cong:
  assumes "\<forall>tab. tv_subscriptions u = Some tab \<longrightarrow> st_count tab j w' = st_count tab j w"
  shows "wants_topic u j w' = wants_topic u j w"
  using assms by (simp add: wants_topic_def split: option.split)

lemma fold_deliver_offers:
  assumes "\<forall>t \<in> set us. \<forall>u \<in> set all. \<forall>ep tab j seal w. tv_endpoint t = Some ep \<longrightarrow>
      tv_subscriptions u = Some tab \<longrightarrow> st_count tab j (snd (f ep seal w)) = st_count tab j w"
    and "set us \<subseteq> set all"
  shows "offers (fold (deliver_to i n f) us s) =
      offers s + of_nat (length (filter (\<lambda>t. tv_endpoint t \<noteq> None \<and> wants_topic t i (tp_world s)) us)) \<and>
    (\<forall>u \<in> set all. \<forall>j. wants_topic u j (tp_world (fold (deliver_to i n f) us s)) = wants_topic u j (tp_world s))"
  using assms
proof (induction us arbitrary: s)
  case (Cons t us)
  let ?s = "deliver_to i n f t s"
  have same: "wants_topic u j (tp_world ?s) = wants_topic u j (tp_world s)" if "u \<in> set all" for u j
  proof (cases "tv_endpoint t")
    case (Some ep)
    then have "tv_subscriptions u = Some tab \<Longrightarrow> st_count tab j (snd (f ep (tv_seal t) (tp_world s))) = st_count tab j (tp_world s)" for tab
      using Cons.prems(1) that by simp
    then have "wants_topic u j (snd (f ep (tv_seal t) (tp_world s))) = wants_topic u j (tp_world s)"
      by (intro wants_topic_cong) simp
    then show ?thesis using Some by (auto simp: deliver_to_cases offers_sent split: prod.split)
  qed (simp add: deliver_to_cases)
  have one: "offers ?s = offers s + of_nat (length (filter (\<lambda>t. tv_endpoint t \<noteq> None \<and> wants_topic t i (tp_world s)) [t]))"
    by (auto simp: deliver_to_cases offers_sent split: option.split prod.split)
  have IH: "offers (fold (deliver_to i n f) us ?s) =
      offers ?s + of_nat (length (filter (\<lambda>t. tv_endpoint t \<noteq> None \<and> wants_topic t i (tp_world ?s)) us))"
    "\<forall>u \<in> set all. \<forall>j. wants_topic u j (tp_world (fold (deliver_to i n f) us ?s)) = wants_topic u j (tp_world ?s)"
    using Cons.IH [of ?s] Cons.prems by simp_all
  have "filter (\<lambda>t. tv_endpoint t \<noteq> None \<and> wants_topic t i (tp_world ?s)) us =
      filter (\<lambda>t. tv_endpoint t \<noteq> None \<and> wants_topic t i (tp_world s)) us"
    using same Cons.prems(2) by (intro filter_cong) auto
  then show ?case using IH same one by simp
qed simp

lemma deliver_document_offers:
  assumes "sends_keep_tables ts"
  shows "offers (deliver_document ts d s) = offers s + of_nat (length (filter (\<lambda>t. reached d t (tp_world s)) ts)) \<and>
    (\<forall>u \<in> set ts. \<forall>j. wants_topic u j (tp_world (deliver_document ts d s)) = wants_topic u j (tp_world s))"
proof (cases d)
  case (Staged m)
  show ?thesis
    unfolding Staged deliver_document.simps deliver_stage_def reached_def document_topic.simps
    by (rule fold_deliver_offers) (use assms in \<open>auto simp: sends_keep_tables_def\<close>)
next
  case (Sampled x)
  show ?thesis
    unfolding Sampled deliver_document.simps deliver_sample_def reached_def document_topic.simps
    by (rule fold_deliver_offers) (use assms in \<open>auto simp: sends_keep_tables_def\<close>)
qed

lemma fold_documents_offers:
  assumes "sends_keep_tables ts"
  shows "offers (fold (deliver_document ts) ds s) =
    offers s + of_nat (\<Sum>d\<leftarrow>ds. length (filter (\<lambda>t. reached d t (tp_world s)) ts))"
proof (induction ds arbitrary: s)
  case (Cons d ds)
  let ?s = "deliver_document ts d s"
  note one = deliver_document_offers [OF assms, of d s]
  have "filter (\<lambda>t. reached e t (tp_world ?s)) ts = filter (\<lambda>t. reached e t (tp_world s)) ts" for e
    using one by (intro filter_cong) (auto simp: reached_def)
  then show ?case using Cons.IH [of ?s] one by simp
qed simp


section \<open>Rates\<close>

lemma fold_rate_max:
  "fold (\<lambda>t rate. case tv_subscriptions t of None \<Rightarrow> rate
     | Some tab \<Rightarrow> (let r = st_rate tab i w in if r > rate then r else rate)) ts (r0 :: u32) =
   Max (insert r0 {st_rate tab i w | t tab. t \<in> set ts \<and> tv_subscriptions t = Some tab})"
proof (induction ts arbitrary: r0)
  case (Cons t ts)
  let ?R = "{st_rate tab i w | t tab. t \<in> set ts \<and> tv_subscriptions t = Some tab}"
  have fin: "finite ?R"
  proof -
    have "?R \<subseteq> (\<lambda>t. case tv_subscriptions t of None \<Rightarrow> 0 | Some tab \<Rightarrow> st_rate tab i w) ` set ts" by force
    then show ?thesis by (rule finite_subset) simp
  qed
  show ?case
  proof (cases "tv_subscriptions t")
    case None
    then have "{st_rate tab i w | t' tab. t' \<in> set (t # ts) \<and> tv_subscriptions t' = Some tab} = ?R" by auto
    then show ?thesis using Cons.IH None by simp
  next
    case (Some tab)
    then have R: "{st_rate tab i w | t' tab. t' \<in> set (t # ts) \<and> tv_subscriptions t' = Some tab} =
        insert (st_rate tab i w) ?R" by auto
    have gen: "Max (insert (if b > a then b else a) S) = Max (insert a (insert b S))" if "finite S" for a b :: u32 and S
      using that by (cases "S = {}") (auto simp: max_def)
    show ?thesis
      unfolding R using Cons.IH [of "if st_rate tab i w > r0 then st_rate tab i w else r0"] Some gen [OF fin]
      by (simp add: Let_def)
  qed
qed simp

text \<open>The publishing rate of a topic is the fastest granted on any of the targets, none of them is
  slowed down by another; the period is the one of that rate, rounded down to a microsecond, and zero
  exactly when nobody asked or the rate is beyond a megahertz.\<close>

theorem period_serves_fastest_subscriber:
  assumes "i \<noteq> 0"
  shows "topic_effective_rate i s = Max (insert 0 {st_rate tab i (tp_world s) | t tab.
      t \<in> set (collect_targets s) \<and> tv_subscriptions t = Some tab}) \<and>
    unat (topic_period_us i s) = (if topic_effective_rate i s = 0 then 0
      else 1000000000 div unat (topic_effective_rate i s)) \<and>
    (topic_period_us i s = 0 \<longleftrightarrow> topic_effective_rate i s = 0 \<or> unat (topic_effective_rate i s) > 1000000000)"
proof -
  have rate: "topic_effective_rate i s = Max (insert 0 {st_rate tab i (tp_world s) | t tab.
      t \<in> set (collect_targets s) \<and> tv_subscriptions t = Some tab})"
    using assms by (simp add: topic_effective_rate_def fold_rate_max)
  have p: "unat (topic_period_us i s) = (if topic_effective_rate i s = 0 then 0
      else 1000000000 div unat (topic_effective_rate i s))"
    by (simp add: topic_period_us_def Let_def unat_div)
  have "topic_period_us i s = 0 \<longleftrightarrow> unat (topic_period_us i s) = 0" by (simp add: unat_eq_zero)
  also have "\<dots> \<longleftrightarrow> topic_effective_rate i s = 0 \<or> unat (topic_effective_rate i s) > 1000000000"
    unfolding p by (simp add: div_eq_0_iff unat_eq_zero)
  finally show ?thesis using rate p by blast
qed

section \<open>Every publication is accounted for\<close>

datatype ('w, 's) tele_call =
    Publish u16 "bytes option" u64
  | Publish_Monitor "bytes option" nat u64
  | Flush nat
  | Configure "('w, 's) tele_endpoint" "'s option"
  | Bind_Base "'w sub_table"
  | Bind_Tcp "('w, 's) tele_endpoint" "'s option" "'w sub_table"
  | Unbind_Tcp
  | Bind_Ble "('w, 's) tele_endpoint" "'s option" "'w sub_table"
  | Unbind_Ble
  | Bind_Serial "('w, 's) tele_endpoint" "'s option" "'w sub_table"
  | Unbind_Serial
  | Other_Task bool 'w

text \<open>How many publications were asked for, how many documents a flush took, and the state.\<close>

fun tele_step :: "('w, 's) tele_call \<Rightarrow> ('w, 's) publisher \<Rightarrow> nat \<times> nat \<times> ('w, 's) publisher" where
  "tele_step (Publish i bs t) s = (1, 0, snd (publish_packed i bs t s))"
| "tele_step (Publish_Monitor bs n t) s = (1, 0, snd (publish_system_monitor bs n t s))"
| "tele_step (Flush n) s = (0, fst (tp_flush n s), snd (tp_flush n s))"
| "tele_step (Configure ep seal) s = (0, 0, tp_configure ep seal s)"
| "tele_step (Bind_Base t) s = (0, 0, bind_subscriptions t s)"
| "tele_step (Bind_Tcp ep seal t) s = (0, 0, bind_tcp_target ep seal t s)"
| "tele_step Unbind_Tcp s = (0, 0, unbind_tcp_target s)"
| "tele_step (Bind_Ble ep seal t) s = (0, 0, bind_ble_target ep seal t s)"
| "tele_step Unbind_Ble s = (0, 0, unbind_ble_target s)"
| "tele_step (Bind_Serial ep seal t) s = (0, 0, bind_serial_target ep seal t s)"
| "tele_step Unbind_Serial s = (0, 0, unbind_serial_target s)"
| "tele_step (Other_Task l w) s = (0, 0, s\<lparr>tp_lock := l, tp_world := w\<rparr>)"

fun tele_run :: "('w, 's) tele_call list \<Rightarrow> ('w, 's) publisher \<Rightarrow> nat \<times> nat \<times> ('w, 's) publisher" where
  "tele_run [] s = (0, 0, s)"
| "tele_run (c # cs) s = (case tele_step c s of (a, t, s1) \<Rightarrow>
     case tele_run cs s1 of (a', t', s2) \<Rightarrow> (a + a', t + t', s2))"

definition tele_books :: "('w, 's) publisher \<Rightarrow> u32" where
  "tele_books s = tp_queued_total s + tp_dropped_full s + tp_dropped_invalid s"

definition waiting :: "('w, 's) publisher \<Rightarrow> u32" where
  "waiting s = tp_queued_total s - of_nat (length (documents s))"

lemma on_topic_frame:
  "tp_slots (on_topic i f s) = tp_slots s" "tp_read (on_topic i f s) = tp_read s"
  "tp_write (on_topic i f s) = tp_write s" "tp_stage (on_topic i f s) = tp_stage s"
  "tp_queued_total (on_topic i f s) = tp_queued_total s" "tp_dropped_full (on_topic i f s) = tp_dropped_full s"
  "tp_dropped_invalid (on_topic i f s) = tp_dropped_invalid s"
  by (simp_all add: on_topic_def Let_def init_runtime_if_needed_def split: option.split)

text \<open>A publication either leaves the documents and counts one loss, or adds one document.\<close>

definition one_more :: "('w, 's) publisher \<Rightarrow> ('w, 's) publisher \<Rightarrow> bool" where
  "one_more s s' \<longleftrightarrow> tele_queue_ok s' \<and> tele_books s' = tele_books s + 1 \<and> waiting s' = waiting s"

lemma one_more_lost:
  assumes "tele_queue_ok s" and "tp_slots s' = tp_slots s" "tp_read s' = tp_read s" "tp_write s' = tp_write s"
    "mo_pending (tp_stage s') = mo_pending (tp_stage s)" "tp_queued_total s' = tp_queued_total s"
    "tp_dropped_full s' + tp_dropped_invalid s' = tp_dropped_full s + tp_dropped_invalid s + 1"
  shows "one_more s s'"
proof -
  have q: "tele_queue s' = tele_queue s" "tele_queue_ok s'"
    using assms by (simp_all add: tele_queue_def tele_queue_ok_def)
  have "tele_books s' = tele_books s + 1"
    using assms(6,7) by (simp add: tele_books_def add.assoc)
  then show ?thesis using q assms by (simp add: one_more_def waiting_def documents_def)
qed

lemma publish_packed_one_more:
  assumes "tele_queue_ok s"
  shows "one_more s (snd (publish_packed i bs t s))"
proof (cases "\<exists>b ep q w. bs = Some b \<and> tp_endpoint s = Some ep \<and> \<not> (length b = 0 \<or> length b > kMaxPayloadSize \<or> i = 0) \<and>
    \<not> queue_full s \<and> te_reserve ep (tp_world s) = (Some q, w)")
  case True
  then obtain b ep q w where c: "bs = Some b" "tp_endpoint s = Some ep"
      "\<not> (length b = 0 \<or> length b > kMaxPayloadSize \<or> i = 0)" "\<not> queue_full s"
      "te_reserve ep (tp_world s) = (Some q, w)" by blast
  let ?x = "\<lparr>sp_timestamp_us = t, sp_sequence = q, sp_topic_id = i, sp_payload = b\<rparr>"
  let ?s = "push_sample ?x (s\<lparr>tp_world := w\<rparr>)"
  have e: "snd (publish_packed i bs t s) = ?s\<lparr>tp_queued_total := tp_queued_total ?s + 1\<rparr>"
    using c by (simp add: publish_packed_def tp_enqueue_def Let_def)
  have ok: "tele_queue_ok (s\<lparr>tp_world := w\<rparr>)" "\<not> queue_full (s\<lparr>tp_world := w\<rparr>)"
    "tele_queue (s\<lparr>tp_world := w\<rparr>) = tele_queue s"
    using assms c(4) by (simp_all add: tele_queue_ok_def queue_full_def tele_queue_def)
  note p = push_queue [OF ok(1,2), of ?x, unfolded ok(3)]
  have "tele_queue (snd (publish_packed i bs t s)) = tele_queue s @ [?x]" "tele_queue_ok (snd (publish_packed i bs t s))"
    unfolding e using p by (simp_all add: tele_queue_def tele_queue_ok_def)
  moreover have "tp_queued_total (snd (publish_packed i bs t s)) = tp_queued_total s + 1"
      "tp_stage (snd (publish_packed i bs t s)) = tp_stage s"
      "tp_dropped_full (snd (publish_packed i bs t s)) = tp_dropped_full s"
      "tp_dropped_invalid (snd (publish_packed i bs t s)) = tp_dropped_invalid s"
    unfolding e by (simp_all add: push_sample_def)
  ultimately show ?thesis by (simp add: one_more_def tele_books_def waiting_def documents_def)
next
  case False
  show ?thesis
    by (rule one_more_lost [OF assms])
      (use False in \<open>auto simp: publish_packed_def tp_enqueue_def count_invalid_def count_dropped_def
        on_topic_frame split: option.splits prod.splits if_splits\<close>)
qed

lemma publish_monitor_one_more:
  assumes "tele_queue_ok s"
  shows "one_more s (snd (publish_system_monitor bs n t s))"
proof (cases "\<exists>b ep q w. pack_system_monitor bs n = Some b \<and> tp_endpoint s = Some ep \<and> \<not> mo_pending (tp_stage s) \<and>
    te_reserve ep (tp_world s) = (Some q, w)")
  case True
  then obtain b ep q w where c: "pack_system_monitor bs n = Some b" "tp_endpoint s = Some ep"
      "\<not> mo_pending (tp_stage s)" "te_reserve ep (tp_world s) = (Some q, w)" by blast
  then have "snd (publish_system_monitor bs n t s) = s\<lparr>tp_stage := (tp_stage s)\<lparr>mo_payload := b\<rparr>, tp_world := w,
      tp_stage := \<lparr>mo_pending = True, mo_timestamp_us = t, mo_sequence = q, mo_payload = b\<rparr>,
      tp_queued_total := tp_queued_total s + 1\<rparr>"
    by (simp add: publish_system_monitor_def Let_def)
  then show ?thesis
    using assms c(3) by (simp add: one_more_def tele_queue_ok_def tele_books_def waiting_def documents_def tele_queue_def)
next
  case False
  show ?thesis
    by (rule one_more_lost [OF assms])
      (use False in \<open>auto simp: publish_system_monitor_def count_invalid_def count_dropped_def Let_def
        on_topic_frame split: option.splits prod.splits if_splits\<close>)
qed

lemma tp_flush_books:
  assumes "tele_queue_ok s"
  shows "tele_queue_ok (snd (tp_flush n s)) \<and> tele_books (snd (tp_flush n s)) = tele_books s \<and>
    waiting (snd (tp_flush n s)) = waiting s + of_nat (fst (tp_flush n s))"
proof (cases "collect_targets s = []")
  case True
  then show ?thesis using assms by (simp add: tp_flush_def)
next
  case False
  note f = tp_flush_delivers [OF assms False, of n]
  let ?d = "fold (deliver_document (collect_targets s)) (take n (documents s)) s"
  have same: "tp_queued_total (snd (tp_flush n s)) = tp_queued_total s"
      "tele_books (snd (tp_flush n s)) = tele_books s"
    using f by (auto simp: tele_books_def frame_simps)
  have "length (documents (snd (tp_flush n s))) = length (documents s) - fst (tp_flush n s)"
    "fst (tp_flush n s) \<le> length (documents s)"
    using f by auto
  then show ?thesis using f same by (simp add: waiting_def of_nat_diff)
qed

lemma tele_step_books:
  assumes "tele_queue_ok s" and "tele_step c s = (a, t, s')"
  shows "tele_queue_ok s' \<and> tele_books s' = tele_books s + of_nat a \<and> waiting s' = waiting s + of_nat t"
proof -
  have same: "tele_queue_ok s' \<and> tele_books s' = tele_books s \<and> waiting s' = waiting s"
    if "tp_slots s' = tp_slots s" "tp_read s' = tp_read s" "tp_write s' = tp_write s" "tp_stage s' = tp_stage s"
      "tp_queued_total s' = tp_queued_total s" "tp_dropped_full s' = tp_dropped_full s"
      "tp_dropped_invalid s' = tp_dropped_invalid s" for s'
    using that assms(1) by (simp add: tele_queue_ok_def tele_books_def waiting_def documents_def tele_queue_def)
  show ?thesis
  proof (cases c)
    case (Publish i bs t)
    then show ?thesis using publish_packed_one_more [OF assms(1), of i bs t] assms(2) by (auto simp: one_more_def)
  next
    case (Publish_Monitor bs n t)
    then show ?thesis using publish_monitor_one_more [OF assms(1), of bs n t] assms(2) by (auto simp: one_more_def)
  next
    case (Flush n)
    then show ?thesis using tp_flush_books [OF assms(1), of n] assms(2) by auto
  qed (use assms(2) same [of s'] in \<open>auto simp: tp_configure_def bind_subscriptions_def bind_tcp_target_def
      unbind_tcp_target_def bind_ble_target_def unbind_ble_target_def bind_serial_target_def unbind_serial_target_def\<close>)
qed

lemma tele_run_books:
  "tele_queue_ok s \<Longrightarrow> tele_run cs s = (a, t, s') \<Longrightarrow>
   tele_queue_ok s' \<and> tele_books s' = tele_books s + of_nat a \<and> waiting s' = waiting s + of_nat t"
proof (induction cs arbitrary: s a t s')
  case (Cons c cs)
  obtain a1 t1 s1 where 1: "tele_step c s = (a1, t1, s1)" by (metis surj_pair)
  obtain a2 t2 s2 where 2: "tele_run cs s1 = (a2, t2, s2)" by (metis surj_pair)
  have "a = a1 + a2" "t = t1 + t2" "s' = s2" using Cons.prems(2) 1 2 by auto
  then show ?case
    using tele_step_books [OF Cons.prems(1) 1] Cons.IH [OF _ 2] by (simp add: add.assoc)
qed simp

text \<open>C28: No telemetry disappears unnoticed.  After any run from the start, with targets coming and
  going: every publication asked for is counted once, as queued, as dropped for lack of room or as
  refused; what was queued is what flushes took and what still waits, never more than sixteen samples
  and one document; and the queue is well formed.\<close>

theorem telemetry_accounted_for:
  assumes "tele_run cs (new_publisher w) = (attempts, taken, s)"
  shows "tp_queued_total s + tp_dropped_full s + tp_dropped_invalid s = of_nat attempts \<and>
    tp_queued_total s = of_nat (taken + length (documents s)) \<and>
    length (documents s) = tele_queued_count s \<and> tele_queued_count s \<le> kTelemetryQueueCapacity + 1 \<and> tele_queue_ok s"
proof -
  have start: "tele_queue_ok (new_publisher w)" "tele_books (new_publisher w) = 0" "waiting (new_publisher w) = 0"
    by (simp_all add: new_publisher_def tele_queue_ok_def tele_books_def waiting_def documents_def tele_queue_def
        kTelemetryQueueCapacity_def)
  note b = tele_run_books [OF start(1) assms, unfolded start(2,3)]
  have "length (documents s) = tele_queued_count s"
    by (simp add: documents_def tele_queued_count_def length_tele_queue)
  moreover have "tele_queued_count s \<le> kTelemetryQueueCapacity + 1"
    using b by (simp add: tele_queued_count_def tele_queue_ok_def)
  moreover have "tp_queued_total s = of_nat (taken + length (documents s))"
    using b by (simp add: waiting_def algebra_simps)
  ultimately show ?thesis using b by (simp add: tele_books_def)
qed

section \<open>Witnesses\<close>

definition demo_target :: "(nat, unit) tele_endpoint" where
  "demo_target = \<lparr>te_reserve = (\<lambda>w. (Some (of_nat w), w + 1)), te_fragment = (\<lambda>i q t bs seal w. (True, w)),
     te_reserved = (\<lambda>i q bs t seal w. (False, w)), te_logical = (\<lambda>i bs t seal w. (True, w)),
     te_source_id = (\<lambda>w. 7)\<rparr>"

definition demo_table :: "nat sub_table" where
  "demo_table = \<lparr>st_count = (\<lambda>i w. if i = 5 then 0 else 2), st_rate = (\<lambda>i w. 10000)\<rparr>"

definition demo_publisher :: "(nat, unit) publisher" where
  "demo_publisher = bind_tcp_target demo_target None demo_table (tp_configure demo_target None (new_publisher 3))"

definition demo_waiting :: "(nat, unit) publisher" where
  "demo_waiting = demo_publisher\<lparr>tp_slots := (tp_slots demo_publisher)
     [0 := \<lparr>sp_timestamp_us = 1, sp_sequence = 3, sp_topic_id = 5, sp_payload = [1, 0, 9]\<rparr>,
      1 := \<lparr>sp_timestamp_us = 2, sp_sequence = 4, sp_topic_id = 1, sp_payload = [1, 0, 8]\<rparr>], tp_write := 2\<rparr>"

lemma demo_targets:
  "collect_targets demo_waiting = [\<lparr>tv_endpoint = Some demo_target, tv_seal = None, tv_subscriptions = None\<rparr>,
     \<lparr>tv_endpoint = Some demo_target, tv_seal = None, tv_subscriptions = Some demo_table\<rparr>]"
  by (simp add: collect_targets_def demo_waiting_def demo_publisher_def bind_tcp_target_def direct_target_def
      tp_configure_def new_publisher_def)

lemma demo_waiting_ok: "tele_queue_ok demo_waiting"
  by (simp add: tele_queue_ok_def demo_waiting_def demo_publisher_def bind_tcp_target_def tp_configure_def
      new_publisher_def kTelemetryQueueCapacity_def)

lemma demo_documents:
  "documents demo_waiting =
     [Sampled \<lparr>sp_timestamp_us = 1, sp_sequence = 3, sp_topic_id = 5, sp_payload = [1, 0, 9]\<rparr>,
      Sampled \<lparr>sp_timestamp_us = 2, sp_sequence = 4, sp_topic_id = 1, sp_payload = [1, 0, 8]\<rparr>]"
proof -
  have two: "[0..<2] = [0, 1 :: nat]" by code_simp
  show ?thesis
    by (simp add: documents_def tele_queue_def ring_list_def demo_waiting_def demo_publisher_def
        bind_tcp_target_def tp_configure_def new_publisher_def kTelemetryQueueCapacity_def two)
qed

theorem flush_delivers_oldest_first_witness:
  "\<exists>s'. tp_flush 1 demo_waiting = (1, s') \<and> documents s' =
     [Sampled \<lparr>sp_timestamp_us = 2, sp_sequence = 4, sp_topic_id = 1, sp_payload = [1, 0, 8]\<rparr>]"
proof -
  have "collect_targets demo_waiting \<noteq> []" by (simp add: demo_targets)
  from flush_delivers_oldest_first [OF demo_waiting_ok this, of 1] show ?thesis by (auto simp: demo_documents)
qed


theorem period_serves_fastest_subscriber_witness:
  "topic_effective_rate 1 demo_waiting = 10000 \<and> unat (topic_period_us 1 demo_waiting) = 100000"
proof -
  have "(1 :: u16) \<noteq> 0" by simp
  note p = period_serves_fastest_subscriber [OF this, of demo_waiting]
  have "{st_rate tab 1 (tp_world demo_waiting) | t tab. t \<in> set (collect_targets demo_waiting) \<and>
      tv_subscriptions t = Some tab} = {10000}"
  proof -
    have some: "\<exists>t. t \<in> set (collect_targets demo_waiting) \<and> tv_subscriptions t = Some demo_table"
      by (rule exI [of _ "\<lparr>tv_endpoint = Some demo_target, tv_seal = None, tv_subscriptions = Some demo_table\<rparr>"])
        (simp add: demo_targets)
    have rate: "st_rate demo_table 1 v = 10000" for v by (simp add: demo_table_def)
    have one: "tab = demo_table" if "t \<in> set (collect_targets demo_waiting)" "tv_subscriptions t = Some tab" for t tab
      using that by (auto simp: demo_targets)
    show ?thesis
    proof (intro set_eqI iffI)
      fix x
      assume "x \<in> {st_rate tab 1 (tp_world demo_waiting) | t tab. t \<in> set (collect_targets demo_waiting) \<and>
        tv_subscriptions t = Some tab}"
      then show "x \<in> {10000}" using rate one by auto
    next
      fix x :: u32
      assume "x \<in> {10000}"
      then have "x = st_rate demo_table 1 (tp_world demo_waiting)" using rate by simp
      then show "x \<in> {st_rate tab 1 (tp_world demo_waiting) | t tab. t \<in> set (collect_targets demo_waiting) \<and>
        tv_subscriptions t = Some tab}" using some by blast
    qed
  qed
  then show ?thesis using p by simp
qed

theorem telemetry_accounted_for_witness:
  "\<exists>s. tele_run [Configure demo_target None, Publish 1 (Some [1, 0]) 5, Publish 1 None 6, Flush 4]
      (new_publisher 0) = (2, 1, s) \<and> tp_queued_total s + tp_dropped_full s + tp_dropped_invalid s = 2"
proof -
  let ?cs = "[Configure demo_target None, Publish 1 (Some [1, 0]) 5, Publish 1 None 6, Flush 4]"
  obtain a t s where r: "tele_run ?cs (new_publisher 0) = (a, t, s)" by (metis surj_pair)
  have "fst (tele_run ?cs (new_publisher 0)) = 2 \<and> fst (snd (tele_run ?cs (new_publisher 0))) = 1" by code_simp
  then have at: "a = 2" "t = 1" unfolding r by simp_all
  have "tp_queued_total s + tp_dropped_full s + tp_dropped_invalid s = of_nat a"
    using telemetry_accounted_for [OF r] by blast
  then show ?thesis using r unfolding at by (intro exI [of _ s]) (simp only: of_nat_numeral simp_thms)
qed

end
