(* ===== verification/Status_Reporter.thy ===== *)
theory Status_Reporter
  imports Telemetry_Publisher
begin

text \<open>
  \<^verbatim>\<open>lib/StatusReporter/\<close>: the periodic STATUS message, the link's counters and one record for each
  telemetry topic.

  The two encoders are the protocol library's: they answer the octets, or nothing when the buffer is
  too small.
\<close>

definition kStatusMessageObjectId :: u16 where "kStatusMessageObjectId = 0x0009"
definition kFlagDegraded :: u16 where "kFlagDegraded = 0x0001"
definition kBaseSize :: nat where "kBaseSize = 92"
definition kTopicStatusCountSize :: nat where "kTopicStatusCountSize = 2"
definition kTopicStatusRecordSize :: nat where "kTopicStatusRecordSize = 28"
definition kMaxTopicRecords :: nat where "kMaxTopicRecords = 4"
definition kMaxStatusPayloadSize :: nat where
  "kMaxStatusPayloadSize = kBaseSize + kTopicStatusCountSize + kTopicStatusRecordSize * kMaxTopicRecords"

record counters =
  co_frames_rx :: u64
  co_frames_tx :: u64
  co_frames_dropped :: u64
  co_crc_errors :: u64
  co_decode_errors :: u64
  co_reassembly_completed :: u64
  co_reassembly_timeouts :: u64
  co_reassembly_rejected :: u64
  co_command_duplicates :: u64
  co_telemetry_dropped :: u64

record topic_record =
  tr_source_id :: u32
  tr_topic_id :: u16
  tr_subscriber_count :: u16
  tr_rate :: u32
  tr_bytes_total :: u64
  tr_samples_dropped :: u64

record status_base =
  sb_flags :: u16
  sb_uptime_us :: u64
  sb_counters :: counters

record status_codec =
  sc_v1 :: "status_base \<Rightarrow> nat \<Rightarrow> bytes option"
  sc_v2 :: "status_base \<Rightarrow> topic_record list \<Rightarrow> nat \<Rightarrow> bytes option"

text \<open>A record is kept if it names a source and a topic and no kept record names the same two.\<close>

definition keep_record :: "topic_record \<Rightarrow> topic_record list \<Rightarrow> topic_record list" where
  "keep_record r kept =
     (if tr_source_id r = 0 \<or> tr_topic_id r = 0 then kept
      else if \<exists>k \<in> set kept. tr_source_id k = tr_source_id r \<and> tr_topic_id k = tr_topic_id r then kept
      else kept @ [r])"

definition kept_records :: "topic_record list option \<Rightarrow> topic_record list" where
  "kept_records topics =
     (case topics of None \<Rightarrow> [] | Some rs \<Rightarrow> fold keep_record (take kMaxTopicRecords rs) [])"

definition status_base_of :: "u16 \<Rightarrow> u64 \<Rightarrow> counters \<Rightarrow> status_base" where
  "status_base_of flags uptime_us c =
     \<lparr>sb_flags = flags AND kFlagDegraded, sb_uptime_us = uptime_us, sb_counters = c\<rparr>"

definition serialize ::
    "status_codec \<Rightarrow> u16 \<Rightarrow> u64 \<Rightarrow> counters \<Rightarrow> topic_record list option \<Rightarrow> nat \<Rightarrow> bool \<Rightarrow> bytes option" where
  "serialize codec flags uptime_us c topics output_capacity version1 =
     (let base = status_base_of flags uptime_us c in
      if version1 then sc_v1 codec base output_capacity
      else sc_v2 codec base (kept_records topics) output_capacity)"

text \<open>The reporter holds an endpoint, the publisher and a sealing function once configured.\<close>

record ('w, 's) status_reporter =
  sr_endpoint :: "('w, 's) tele_endpoint option"
  sr_seal :: "'s option"

definition sr_configure :: "('w, 's) tele_endpoint \<Rightarrow> 's option \<Rightarrow> ('w, 's) status_reporter" where
  "sr_configure ep seal = \<lparr>sr_endpoint = Some ep, sr_seal = seal\<rparr>"

definition status_record :: "u32 \<Rightarrow> topic_stats \<Rightarrow> topic_record" where
  "status_record source t = \<lparr>tr_source_id = source, tr_topic_id = tt_topic_id t,
     tr_subscriber_count = tt_subscriber_count t, tr_rate = tt_rate t, tr_bytes_total = tt_bytes_sent t,
     tr_samples_dropped = tt_dropped t\<rparr>"

definition publish_status ::
    "status_codec \<Rightarrow> u16 \<Rightarrow> u64 \<Rightarrow> counters \<Rightarrow> u64 \<Rightarrow> ('w, 's) status_reporter \<Rightarrow> ('w, 's) publisher \<Rightarrow>
     bool \<times> ('w, 's) publisher" where
  "publish_status codec flags uptime_us c timestamp_us r s =
     (case sr_endpoint r of
        None \<Rightarrow> (False, s)
      | Some ep \<Rightarrow>
          (case topic_stats_of kMaxTopicRecords s of (stats, s1) \<Rightarrow>
             let records = map (status_record (te_source_id ep (tp_world s1))) stats in
             (case serialize codec flags uptime_us c (Some records) kMaxStatusPayloadSize False of
                None \<Rightarrow> (False, s1)
              | Some payload \<Rightarrow>
                  if payload = [] then (False, s1)
                  else (case te_logical ep kStatusMessageObjectId payload timestamp_us (sr_seal r) (tp_world s1) of
                          (ok, w) \<Rightarrow> (ok, s1\<lparr>tp_world := w\<rparr>)))))"

section \<open>What a message says\<close>

definition record_key :: "topic_record \<Rightarrow> u32 \<times> u16" where
  "record_key r = (tr_source_id r, tr_topic_id r)"

definition proper :: "topic_record \<Rightarrow> bool" where
  "proper r \<longleftrightarrow> tr_source_id r \<noteq> 0 \<and> tr_topic_id r \<noteq> 0"

lemma keep_record_cases:
  "keep_record r kept = (if proper r \<and> record_key r \<notin> record_key ` set kept then kept @ [r] else kept)"
proof -
  have "(\<exists>k \<in> set kept. tr_source_id k = tr_source_id r \<and> tr_topic_id k = tr_topic_id r) \<longleftrightarrow>
      record_key r \<in> record_key ` set kept"
    unfolding record_key_def image_iff by (simp, metis)
  then show ?thesis by (auto simp: keep_record_def proper_def)
qed

lemma fold_keep_record:
  assumes "distinct (map record_key kept)" and "\<forall>r \<in> set kept. proper r"
  shows "distinct (map record_key (fold keep_record rs kept)) \<and>
    (\<forall>r \<in> set (fold keep_record rs kept). proper r \<and> (r \<in> set kept \<or> r \<in> set rs)) \<and>
    record_key ` set (fold keep_record rs kept) = record_key ` set kept \<union> record_key ` {r \<in> set rs. proper r}"
  using assms
proof (induction rs arbitrary: kept)
  case (Cons r rs)
  have step: "distinct (map record_key (keep_record r kept))" "\<forall>x \<in> set (keep_record r kept). proper x"
    using Cons.prems by (auto simp: keep_record_cases)
  have keys: "record_key ` set (keep_record r kept) =
      record_key ` set kept \<union> (if proper r then {record_key r} else {})"
    by (auto simp: keep_record_cases)
  have from_kept: "x \<in> set kept \<or> x = r" if "x \<in> set (keep_record r kept)" for x
    using that by (auto simp: keep_record_cases split: if_splits)
  note IH = Cons.IH [OF step]
  have 1: "proper x \<and> (x \<in> set kept \<or> x \<in> set (r # rs))" if "x \<in> set (fold keep_record (r # rs) kept)" for x
    using IH from_kept that by auto
  have 2: "record_key ` set (fold keep_record (r # rs) kept) =
      record_key ` set kept \<union> record_key ` {x \<in> set (r # rs). proper x}"
    using IH unfolding fold.simps comp_def keys by (auto split: if_splits)
  show ?case using IH 1 2 by simp
qed simp

text \<open>C29: Within one message every record names a source and a topic, no two name the same, none is
  invented, and every proper record among the first four offered is represented.\<close>

theorem status_records_unique:
  "distinct (map record_key (kept_records (Some rs))) \<and>
   set (kept_records (Some rs)) \<subseteq> {r \<in> set rs. proper r} \<and>
   record_key ` set (kept_records (Some rs)) = record_key ` {r \<in> set (take kMaxTopicRecords rs). proper r} \<and>
   length (kept_records (Some rs)) \<le> kMaxTopicRecords"
proof -
  note f = fold_keep_record [of "[]" "take kMaxTopicRecords rs"]
  have k: "kept_records (Some rs) = fold keep_record (take kMaxTopicRecords rs) []" by (simp add: kept_records_def)
  have d: "distinct (map record_key (kept_records (Some rs)))"
    "record_key ` set (kept_records (Some rs)) = record_key ` {r \<in> set (take kMaxTopicRecords rs). proper r}"
    "\<forall>r \<in> set (kept_records (Some rs)). proper r \<and> r \<in> set (take kMaxTopicRecords rs)"
    unfolding k using f by auto
  have "length (kept_records (Some rs)) = card (record_key ` set (kept_records (Some rs)))"
    using d(1) distinct_card [of "map record_key (kept_records (Some rs))"] by simp
  also have "\<dots> \<le> card (record_key ` set (take kMaxTopicRecords rs))"
    unfolding d(2) by (intro card_mono image_mono) auto
  also have "\<dots> \<le> kMaxTopicRecords"
  proof -
    have "card (record_key ` set (take kMaxTopicRecords rs)) \<le> card (set (take kMaxTopicRecords rs))"
      by (rule card_image_le) simp
    also have "\<dots> \<le> length (take kMaxTopicRecords rs)" by (rule card_length)
    finally show ?thesis by simp
  qed
  finally have len: "length (kept_records (Some rs)) \<le> kMaxTopicRecords" .
  have "\<forall>r \<in> set (kept_records (Some rs)). proper r \<and> r \<in> set rs"
    using d(3) in_set_takeD by fast
  then show ?thesis using d(1,2) len by blast
qed

section \<open>The topics reported\<close>

text \<open>The counters' table is empty until its first use and then lists the topics in order.\<close>

definition runtime_ok :: "('w, 's) publisher \<Rightarrow> bool" where
  "runtime_ok s \<longleftrightarrow> (if tp_runtime_initialized s then map rt_topic_id (tp_runtime s) = [1, 2, 3, 4, 5]
     else length (tp_runtime s) = kMaxTopics)"

lemma init_runtime_topics:
  assumes "runtime_ok s"
  shows "map rt_topic_id (tp_runtime (init_runtime_if_needed s)) = [1, 2, 3, 4, 5]"
proof (cases "tp_runtime_initialized s")
  case False
  then obtain a b c d e where r: "tp_runtime s = [a, b, c, d, e]"
    using assms by (auto simp: runtime_ok_def kMaxTopics_def numeral_eq_Suc length_Suc_conv)
  have l: "[0..<min (length kSchemas) kMaxTopics] = [0, 1, 2, 3, 4]" by code_simp
  have k: "map ts_topic_id kSchemas = [1, 2, 3, 4, 5]" by code_simp
  then have "ts_topic_id (kSchemas ! i) = [1, 2, 3, 4, 5] ! i" if "i < 5" for i
    using that nth_map [of i kSchemas ts_topic_id] by (simp add: kSchemas_def)
  then show ?thesis using False by (simp add: init_runtime_if_needed_def l r)
qed (use assms in \<open>simp add: init_runtime_if_needed_def runtime_ok_def\<close>)

lemma runtime_ok_init: "runtime_ok s \<Longrightarrow> runtime_ok (init_runtime_if_needed s)"
  using init_runtime_topics [of s] by (auto simp: runtime_ok_def init_runtime_if_needed_def split: if_splits)

lemma map_list_update_same: "k < length xs \<Longrightarrow> g x = g (xs ! k) \<Longrightarrow> map g (xs[k := x]) = map g xs"
  by (metis list_update_id map_update nth_map)

lemma find_topic_index_bound: "find_topic_index i s = Some k \<Longrightarrow> k < kMaxTopics"
  by (auto simp: find_topic_index_def find_Some_iff)

lemma runtime_ok_on_topic:
  assumes "runtime_ok s" and "\<And>r. rt_topic_id (f r) = rt_topic_id r"
  shows "runtime_ok (on_topic i f s)"
proof -
  let ?s = "init_runtime_if_needed s"
  note ids = init_runtime_topics [OF assms(1)]
  have len: "length (tp_runtime ?s) = 5" using arg_cong [OF ids, of length] by simp
  have "runtime_ok (?s\<lparr>tp_runtime := (tp_runtime ?s)[k := f (tp_runtime ?s ! k)]\<rparr>)"
    if "find_topic_index i ?s = Some k" for k
    using find_topic_index_bound [OF that] len ids assms(2)
    by (simp add: runtime_ok_def init_runtime_if_needed_def map_list_update_same kMaxTopics_def)
  then show ?thesis
    using assms(1) runtime_ok_init [OF assms(1)] by (simp add: on_topic_def Let_def split: option.split)
qed

lemma runtime_ok_cong:
  "tp_runtime s' = tp_runtime s \<Longrightarrow> tp_runtime_initialized s' = tp_runtime_initialized s \<Longrightarrow> runtime_ok s' = runtime_ok s"
  by (simp add: runtime_ok_def)

lemma runtime_ok_deliver_to: "runtime_ok s \<Longrightarrow> runtime_ok (deliver_to i n f t s)"
proof (cases rule: deliver_to_three [of i n f t s])
  case (2 w)
  assume "runtime_ok s"
  then have "runtime_ok (s\<lparr>tp_world := w, tp_sent_total := tp_sent_total s + 1\<rparr>)" by (simp add: runtime_ok_def)
  then show ?thesis unfolding 2 sent_def count_bytes_def by (rule runtime_ok_on_topic) simp
qed (auto simp: not_sent_def runtime_ok_def)

lemma runtime_ok_deliver: "runtime_ok s \<Longrightarrow> runtime_ok (fold (deliver_to i n f) ts s)"
  by (induction ts arbitrary: s) (simp_all add: runtime_ok_deliver_to)

lemma runtime_ok_flush_queue: "runtime_ok s \<Longrightarrow> runtime_ok (snd (flush_queue ts n s))"
proof (induction n arbitrary: s)
  case (Suc n)
  have "runtime_ok (drop_sample (deliver_sample ts (oldest_sample s) s))"
    using runtime_ok_deliver [OF Suc.prems] by (simp add: drop_sample_def deliver_sample_def runtime_ok_def)
  then show ?case using Suc.IH Suc.prems by (auto simp: split_beta)
qed simp

lemma runtime_ok_flush: "runtime_ok s \<Longrightarrow> runtime_ok (snd (tp_flush n s))"
proof -
  assume ok: "runtime_ok s"
  let ?T = "collect_targets s"
  have "runtime_ok (deliver_stage ?T (tp_stage s) s)" using runtime_ok_deliver [OF ok] by (simp add: deliver_stage_def)
  then have "runtime_ok ((deliver_stage ?T (tp_stage s) s)\<lparr>tp_stage := m\<rparr>)" for m by (simp add: runtime_ok_def)
  then have "runtime_ok (snd (flush_queue ?T k ((deliver_stage ?T (tp_stage s) s)\<lparr>tp_stage := m\<rparr>)))" for k m
    by (rule runtime_ok_flush_queue)
  then show ?thesis
    using runtime_ok_flush_queue [OF ok] ok unfolding tp_flush_def Let_def by (simp add: split_beta)
qed

lemma runtime_ok_publish:
  assumes "runtime_ok s"
  shows "runtime_ok (snd (publish_packed i bs t s))" "runtime_ok (snd (publish_system_monitor bs n t s))"
proof -
  have drop: "runtime_ok (count_dropped i (s\<lparr>tp_dropped_full := x\<rparr>))" for i x
    unfolding count_dropped_def by (rule runtime_ok_on_topic) (use assms in \<open>simp_all add: runtime_ok_def\<close>)
  have inv: "runtime_ok (count_invalid s')" if "runtime_ok s'" for s' :: "('a, 'b) publisher"
    using that by (simp add: count_invalid_def runtime_ok_def)
  have w: "runtime_ok (s\<lparr>tp_world := w\<rparr>)" "runtime_ok (s\<lparr>tp_stage := m, tp_world := w\<rparr>)" for w m
    using assms by (simp_all add: runtime_ok_def)
  have push: "runtime_ok (let s1 = push_sample x (s\<lparr>tp_world := w\<rparr>) in s1\<lparr>tp_queued_total := tp_queued_total s1 + 1\<rparr>)" for x w
    using assms by (simp add: push_sample_def runtime_ok_def Let_def)
  show "runtime_ok (snd (publish_packed i bs t s))"
    using assms drop inv w push
    by (simp add: publish_packed_def tp_enqueue_def Let_def split: option.split prod.split)
  show "runtime_ok (snd (publish_system_monitor bs n t s))"
    using assms drop inv w
    by (simp add: publish_system_monitor_def Let_def runtime_ok_def split: option.split prod.split)
qed

lemma runtime_ok_run: "runtime_ok s \<Longrightarrow> tele_run cs s = (a, t, s') \<Longrightarrow> runtime_ok s'"
proof (induction cs arbitrary: s a t)
  case (Cons c cs)
  have "runtime_ok (snd (snd (tele_step c s)))"
    using runtime_ok_publish [OF Cons.prems(1)] runtime_ok_flush [OF Cons.prems(1)] Cons.prems(1)
    by (cases c) (simp_all add: runtime_ok_def tp_configure_def bind_subscriptions_def bind_tcp_target_def
        unbind_tcp_target_def bind_ble_target_def unbind_ble_target_def bind_serial_target_def unbind_serial_target_def)
  then show ?case using Cons.IH Cons.prems(2) by (auto split: prod.splits)
qed simp

text \<open>The message has room for four topics and the publisher has five: from any state of the
  publisher, what is handed to the encoder reports the first four topics in order, and never
  \<^verbatim>\<open>robot.flags\<close>.\<close>

theorem status_leaves_out_last_topic:
  assumes "tele_run cs (new_publisher w) = (a, t, s)" and "\<not> tp_lock s" and "sr_endpoint r = Some ep"
    and "\<forall>w. te_source_id ep w \<noteq> 0"
  shows "\<exists>rs s1. map tr_topic_id rs = [kProtocolTestTopicId, kRobotStateTopicId, kSystemMonitorTopicId, kSensorsTopicId] \<and>
    kFlagsTopicId \<notin> tr_topic_id ` set rs \<and> kFlagsTopicId \<in> ts_topic_id ` set kSchemas \<and>
    publish_status codec flags up c ts r s =
      (case sc_v2 codec (status_base_of flags up c) rs kMaxStatusPayloadSize of
         None \<Rightarrow> (False, s1)
       | Some p \<Rightarrow> if p = [] then (False, s1)
           else (fst (te_logical ep kStatusMessageObjectId p ts (sr_seal r) (tp_world s1)),
                 s1\<lparr>tp_world := snd (te_logical ep kStatusMessageObjectId p ts (sr_seal r) (tp_world s1))\<rparr>))"
proof -
  have "runtime_ok (new_publisher w)" by (simp add: runtime_ok_def new_publisher_def)
  from runtime_ok_run [OF this assms(1)] have ok: "runtime_ok s" .
  define s1 where "s1 = init_runtime_if_needed s"
  have ids: "map rt_topic_id (tp_runtime s1) = [1, 2, 3, 4, 5]" unfolding s1_def by (rule init_runtime_topics [OF ok])
  then obtain x1 x2 x3 x4 x5 where rt: "tp_runtime s1 = [x1, x2, x3, x4, x5]"
      "rt_topic_id x1 = 1" "rt_topic_id x2 = 2" "rt_topic_id x3 = 3" "rt_topic_id x4 = 4" "rt_topic_id x5 = 5"
    by (auto simp: map_eq_Cons_conv)
  define rs where "rs = map (\<lambda>x. status_record (te_source_id ep (tp_world s1)) (stats_row s1 x)) [x1, x2, x3, x4]"
  have st: "topic_stats_of kMaxTopicRecords s = (map (stats_row s1) [x1, x2, x3, x4], s1)"
    using assms(2) rt by (simp add: topic_stats_of_def Let_def s1_def [symmetric] kMaxTopics_def kMaxTopicRecords_def)
  have kept: "kept_records (Some rs) = rs"
    using assms(4) rt
    by (simp add: kept_records_def keep_record_def rs_def status_record_def stats_row_def kMaxTopicRecords_def)
  have topics: "map tr_topic_id rs = [1, 2, 3, 4]"
    using rt by (simp add: rs_def status_record_def stats_row_def)
  have "publish_status codec flags up c ts r s =
      (case sc_v2 codec (status_base_of flags up c) rs kMaxStatusPayloadSize of
         None \<Rightarrow> (False, s1)
       | Some p \<Rightarrow> if p = [] then (False, s1)
           else (fst (te_logical ep kStatusMessageObjectId p ts (sr_seal r) (tp_world s1)),
                 s1\<lparr>tp_world := snd (te_logical ep kStatusMessageObjectId p ts (sr_seal r) (tp_world s1))\<rparr>))"
    using assms(3) st kept
    by (simp add: publish_status_def serialize_def Let_def rs_def comp_def case_prod_beta split: option.split)
  moreover have "tr_topic_id ` set rs = {1, 2, 3, 4}" using arg_cong [OF topics, of set] by simp
  ultimately show ?thesis
    using topics
    by (intro exI [of _ rs] exI [of _ s1])
      (simp add: kFlagsTopicId_def kProtocolTestTopicId_def kRobotStateTopicId_def kSystemMonitorTopicId_def
        kSensorsTopicId_def kSchemas_def topic_def)
qed

definition no_counts :: counters where
  "no_counts = \<lparr>co_frames_rx = 0, co_frames_tx = 0, co_frames_dropped = 0, co_crc_errors = 0, co_decode_errors = 0,
     co_reassembly_completed = 0, co_reassembly_timeouts = 0, co_reassembly_rejected = 0,
     co_command_duplicates = 0, co_telemetry_dropped = 0\<rparr>"

theorem status_leaves_out_last_topic_witness:
  "\<exists>s1. publish_status \<lparr>sc_v1 = (\<lambda>b n. None), sc_v2 = (\<lambda>b rs n. None)\<rparr> 0 0 no_counts 0
       (sr_configure demo_target None) (new_publisher 3) = (False, s1)"
proof -
  have run: "tele_run [] (new_publisher 3) = (0, 0, new_publisher 3)" by simp
  have l: "\<not> tp_lock (new_publisher (3 :: nat) :: (nat, unit) publisher)" by (simp add: new_publisher_def)
  have e: "sr_endpoint (sr_configure demo_target None) = Some demo_target" by (simp add: sr_configure_def)
  have n: "\<forall>w. te_source_id demo_target w \<noteq> 0" by (simp add: demo_target_def)
  note * = status_leaves_out_last_topic [OF run l e n, of "\<lparr>sc_v1 = (\<lambda>b n. None), sc_v2 = (\<lambda>b rs n. None)\<rparr>" 0 0 no_counts 0]
  show ?thesis using * unfolding status_codec.simps option.case by (elim exE conjE) (rule exI)
qed

end
