(* ===== verification/Manifest_Catalog.thy ===== *)
theory Manifest_Catalog
  imports Telemetry_Publisher
begin

text \<open>
  \<^verbatim>\<open>lib/ManifestCatalog/\<close>: the topics of the publisher and the facts about the robot handed to the
  protocol library's catalogue, which is the parameter \<open>'c\<close> with its three operations.
\<close>

definition kMaxSourceInfoEntries :: nat where "kMaxSourceInfoEntries = 16"
definition kMaxCatalogFields :: nat where "kMaxCatalogFields = 24"

record source_info_entry =
  si_key :: string
  si_label :: string
  si_value :: "string option"

record field_record =
  fr_field_id :: u16
  fr_order :: u16
  fr_type :: wire_type
  fr_nullable :: bool
  fr_element_count :: u16
  fr_max_element_count :: u16
  fr_scale :: rat
  fr_offset :: rat
  fr_min :: "rat option"
  fr_max :: "rat option"
  fr_enum_count :: nat
  fr_name :: string
  fr_unit :: string

record catalog_topic =
  ct_topic_id :: u16
  ct_schema_version :: u16
  ct_encoding :: encoding
  ct_subscribable :: bool
  ct_max_rate :: u32
  ct_name :: string
  ct_fields :: "field_record list"
  ct_min_rate :: u32
  ct_default_rate :: u32

record 'c catalog_ops =
  ca_auto_revision :: "'c \<Rightarrow> 'c"
  ca_add_topic :: "catalog_topic \<Rightarrow> 'c \<Rightarrow> bool \<times> 'c"
  ca_add_source_info :: "string \<Rightarrow> string \<Rightarrow> string \<Rightarrow> 'c \<Rightarrow> bool \<times> 'c"

definition field_record_of :: "field_schema \<Rightarrow> field_record" where
  "field_record_of f = \<lparr>fr_field_id = fs_field_id f, fr_order = fs_order f, fr_type = fs_type f,
     fr_nullable = fs_nullable f, fr_element_count = fs_element_count f, fr_max_element_count = 0,
     fr_scale = fs_scale f, fr_offset = fs_offset f, fr_min = fs_min f, fr_max = fs_max f, fr_enum_count = 0,
     fr_name = fs_name f, fr_unit = fs_unit f\<rparr>"

definition catalog_topic_of :: "topic_schema \<Rightarrow> catalog_topic" where
  "catalog_topic_of t = \<lparr>ct_topic_id = ts_topic_id t, ct_schema_version = ts_schema_version t,
     ct_encoding = ts_encoding t, ct_subscribable = True, ct_max_rate = ts_max_rate t, ct_name = ts_name t,
     ct_fields = map field_record_of (ts_fields t), ct_min_rate = ts_min_rate t,
     ct_default_rate = ts_default_rate t\<rparr>"

definition add_schema :: "'c catalog_ops \<Rightarrow> topic_schema \<Rightarrow> bool \<times> 'c \<Rightarrow> bool \<times> 'c" where
  "add_schema ops t p = (case p of (ok, c) \<Rightarrow>
     if length (ts_fields t) \<noteq> 0 \<and> length (ts_fields t) > kMaxCatalogFields then (False, c)
     else (case ca_add_topic ops (catalog_topic_of t) c of (fine, c') \<Rightarrow> (ok \<and> fine, c')))"

definition add_entry :: "'c catalog_ops \<Rightarrow> source_info_entry \<Rightarrow> bool \<times> 'c \<Rightarrow> bool \<times> 'c" where
  "add_entry ops e p = (case p of (ok, c) \<Rightarrow>
     (case si_value e of
        None \<Rightarrow> (ok, c)
      | Some v \<Rightarrow> if v = [] then (ok, c)
          else (case ca_add_source_info ops (si_key e) (si_label e) v c of (fine, c') \<Rightarrow> (ok \<and> fine, c'))))"

definition populate ::
    "'c catalog_ops \<Rightarrow> topic_schema list \<Rightarrow> source_info_entry list \<Rightarrow> 'c \<Rightarrow> bool \<times> 'c" where
  "populate ops schemas infos c =
     fold (add_entry ops) infos (fold (add_schema ops) schemas (True, ca_auto_revision ops c))"

section \<open>The robot's own schemas\<close>

text \<open>Every topic the publisher has is offered, with as many fields as its payload has room for, and
  all fields together fit the pool.\<close>

lemma schemas_fit:
  "(\<Sum>t\<leftarrow>kSchemas. length (ts_fields t)) = 23" "\<forall>t \<in> set kSchemas. length (ts_fields t) \<le> kMaxCatalogFields"
  by (simp_all add: kSchemas_def topic_def kProtocolTestFields_def kRobotStateFields_def kSensorsFields_def
      kFlagsFields_def kMaxCatalogFields_def)

definition wire_size :: "wire_type \<Rightarrow> nat" where
  "wire_size t = (case t of Uint8 \<Rightarrow> 1 | Int8 \<Rightarrow> 1 | Uint16 \<Rightarrow> 2 | Uint32 \<Rightarrow> 4 | Float32 \<Rightarrow> 4)"

lemma payload_sizes_match:
  "\<forall>t \<in> set kSchemas. ts_encoding t = PackedLe \<longrightarrow>
     ts_payload_size t = 2 + (\<Sum>f\<leftarrow>ts_fields t. wire_size (fs_type f))"
  by (simp add: kSchemas_def topic_def kProtocolTestFields_def kRobotStateFields_def kSensorsFields_def
      kFlagsFields_def field_def wire_size_def kProtocolTestPayloadSize_def kRobotStatePayloadSize_def
      kSensorsPayloadSize_def kFlagsPayloadSize_def kArraySensorChannels_def)

lemma add_schema_accepted:
  assumes "length (ts_fields t) \<le> kMaxCatalogFields" and "ca_add_topic ops (catalog_topic_of t) c = (True, c')"
  shows "add_schema ops t (ok, c) = (ok, c')"
  using assms by (simp add: add_schema_def)

text \<open>What the robot publishes is what it advertises.  With a catalogue that accepts a topic while
  all the fields so far fit a pool of \<open>kMaxCatalogFields\<close> and remembers it, loading the robot's
  schemas succeeds and the catalogue then lists exactly the topics of the publisher, in order.\<close>

theorem catalogue_lists_every_topic:
  assumes accepts: "\<And>t c. (\<Sum>u\<leftarrow>topics c. length (ct_fields u)) + length (ct_fields t) \<le> kMaxCatalogFields \<Longrightarrow>
      fst (ca_add_topic ops t c) \<and> topics (snd (ca_add_topic ops t c)) = topics c @ [t]"
    and "topics (ca_auto_revision ops c) = []"
  shows "fst (populate ops kSchemas [] c) \<and> topics (snd (populate ops kSchemas [] c)) = map catalog_topic_of kSchemas"
proof -
  have len: "length (ct_fields (catalog_topic_of t)) = length (ts_fields t)" for t by (simp add: catalog_topic_of_def)
  have *: "fst (fold (add_schema ops) ts (ok, d)) = ok \<and>
      topics (snd (fold (add_schema ops) ts (ok, d))) = topics d @ map catalog_topic_of ts"
    if "(\<Sum>u\<leftarrow>topics d. length (ct_fields u)) + (\<Sum>t\<leftarrow>ts. length (ts_fields t)) \<le> kMaxCatalogFields" for ts ok d
    using that
  proof (induction ts arbitrary: ok d)
    case (Cons t ts)
    obtain fine d' where a: "ca_add_topic ops (catalog_topic_of t) d = (fine, d')" by (metis surj_pair)
    have n: "fine" "topics d' = topics d @ [catalog_topic_of t]"
      using accepts [of d "catalog_topic_of t"] Cons.prems a by (auto simp: len)
    have "add_schema ops t (ok, d) = (ok, d')"
      using add_schema_accepted [of t ops d d' ok] a n(1) Cons.prems by simp
    moreover have "(\<Sum>u\<leftarrow>topics d'. length (ct_fields u)) + (\<Sum>t\<leftarrow>ts. length (ts_fields t)) \<le> kMaxCatalogFields"
      using Cons.prems n(2) by (simp add: len)
    ultimately show ?case using Cons.IH [of d' ok] n(2) by simp
  qed simp
  have "(\<Sum>u\<leftarrow>topics (ca_auto_revision ops c). length (ct_fields u)) + (\<Sum>t\<leftarrow>kSchemas. length (ts_fields t)) \<le> kMaxCatalogFields"
    using assms(2) schemas_fit(1) by (simp add: kMaxCatalogFields_def)
  from * [OF this, of True] show ?thesis using assms(2) by (simp add: populate_def)
qed

definition list_catalog :: "catalog_topic list catalog_ops" where
  "list_catalog = \<lparr>ca_auto_revision = (\<lambda>c. c),
     ca_add_topic = (\<lambda>t c. if (\<Sum>u\<leftarrow>c. length (ct_fields u)) + length (ct_fields t) \<le> kMaxCatalogFields
        then (True, c @ [t]) else (False, c)),
     ca_add_source_info = (\<lambda>k l v c. (True, c))\<rparr>"

theorem catalogue_lists_every_topic_witness:
  "fst (populate list_catalog kSchemas [] []) \<and>
   snd (populate list_catalog kSchemas [] []) = map catalog_topic_of kSchemas"
  by (rule catalogue_lists_every_topic [where topics = "\<lambda>c. c"]) (simp_all add: list_catalog_def)

end
