(* ===== verification/OTA_Networks.thy ===== *)
theory OTA_Networks
  imports SD_Card C_Text
begin

text \<open>
  The list of Wi-Fi networks on the card (\<^verbatim>\<open>lib/OTAUpdater/OTAUpdater.cpp\<close>, \<^verbatim>\<open>parse_list_file\<close> to
  \<^verbatim>\<open>network_count\<close>): one \<^verbatim>\<open>ssid,password\<close> per line.  \<open>None\<close> for the card is the null pointer the
  updater holds before \<^verbatim>\<open>begin\<close>.  Names and passwords are cut to their arrays; at most sixteen
  entries are read, from the part of the file that fits the buffer.
\<close>

definition OTA_WIFI_LIST_FILE :: string where "OTA_WIFI_LIST_FILE = ''wifi.txt''"
definition OTA_MAX_NETWORKS :: nat where "OTA_MAX_NETWORKS = 16"
definition OTA_SSID_MAX_LEN :: nat where "OTA_SSID_MAX_LEN = 33"
definition OTA_PASS_MAX_LEN :: nat where "OTA_PASS_MAX_LEN = 65"

definition ota_buffer_size :: nat where
  "ota_buffer_size = OTA_MAX_NETWORKS * (OTA_SSID_MAX_LEN + OTA_PASS_MAX_LEN)"

record credential =
  cr_ssid :: string
  cr_password :: string

lemmas ota_sizes = OTA_MAX_NETWORKS_def OTA_SSID_MAX_LEN_def OTA_PASS_MAX_LEN_def ota_buffer_size_def

section \<open>Reading\<close>

definition parse_network :: "string \<Rightarrow> credential option" where
  "parse_network line =
     (case dropWhile (\<lambda>c. c \<noteq> CHR '','') line of
        [] \<Rightarrow> None
      | _ # password \<Rightarrow>
          (let ssid = takeWhile (\<lambda>c. c \<noteq> CHR '','') line in
           if ssid = [] then None
           else Some \<lparr>cr_ssid = take (OTA_SSID_MAX_LEN - 1) ssid,
                      cr_password = take (OTA_PASS_MAX_LEN - 1) password\<rparr>))"

fun parse_lines :: "string list \<Rightarrow> nat \<Rightarrow> credential list" where
  "parse_lines [] n = []"
| "parse_lines (l # ls) 0 = []"
| "parse_lines (l # ls) (Suc n) =
     (case parse_network l of None \<Rightarrow> parse_lines ls (Suc n) | Some c \<Rightarrow> c # parse_lines ls n)"

definition line_ends :: "char set" where "line_ends = {CHR 0x0D, CHR 0x0A}"

definition parse_networks :: "string \<Rightarrow> nat \<Rightarrow> credential list" where
  "parse_networks t n = parse_lines (tokens line_ends (takeWhile (\<lambda>c. c \<noteq> CHR 0x00) t)) n"

definition parse_list_file :: "nat \<Rightarrow> sd_card option \<Rightarrow> credential list" where
  "parse_list_file max_entries card_opt =
     (case card_opt of
        None \<Rightarrow> []
      | Some c \<Rightarrow>
          if max_entries = 0 then []
          else (case read_file (Some OTA_WIFI_LIST_FILE) (ota_buffer_size - 1) c of
                  None \<Rightarrow> []
                | Some t \<Rightarrow> parse_networks t max_entries))"

definition network_count :: "sd_card option \<Rightarrow> nat" where
  "network_count c = length (parse_list_file OTA_MAX_NETWORKS c)"

definition get_network :: "nat \<Rightarrow> nat \<Rightarrow> sd_card option \<Rightarrow> string option" where
  "get_network i capacity c =
     (let cs = parse_list_file OTA_MAX_NETWORKS c in
      if capacity = 0 \<or> \<not> i < length cs then None
      else Some (take (capacity - 1) (cr_ssid (cs ! i))))"

section \<open>Changing\<close>

definition network_line :: "credential \<Rightarrow> string" where
  "network_line c = cr_ssid c @ '','' @ cr_password c @ [CHR 0x0A]"

definition add_network :: "string option \<Rightarrow> string option \<Rightarrow> sd_card option \<Rightarrow> bool \<times> sd_card option" where
  "add_network ssid_opt password_opt card_opt =
     (case (card_opt, ssid_opt, password_opt) of
        (Some c, Some ssid, Some password) \<Rightarrow>
          if ssid = [] then (False, card_opt)
          else if CHR '','' \<in> set ssid \<or> CHR '','' \<in> set password then (False, card_opt)
          else if length ssid \<ge> OTA_SSID_MAX_LEN \<or> length password \<ge> OTA_PASS_MAX_LEN then (False, card_opt)
          else if network_count card_opt \<ge> OTA_MAX_NETWORKS then (False, card_opt)
          else
            (let line = network_line \<lparr>cr_ssid = ssid, cr_password = password\<rparr> in
             if length line \<ge> OTA_SSID_MAX_LEN + OTA_PASS_MAX_LEN + 2 then (False, card_opt)
             else case append_file (Some OTA_WIFI_LIST_FILE) (Some line) (length line) c of
               (ok, c') \<Rightarrow> (ok, Some c'))
      | _ \<Rightarrow> (False, card_opt))"

text \<open>The lines are printed one after another into the buffer; \<open>None\<close> when one does not fit.\<close>

fun print_networks :: "credential list \<Rightarrow> string \<Rightarrow> string option" where
  "print_networks [] t = Some t"
| "print_networks (c # cs) t =
     (if length (network_line c) \<ge> ota_buffer_size - length t then None
      else print_networks cs (t @ network_line c))"

definition remove_at :: "nat \<Rightarrow> 'a list \<Rightarrow> 'a list" where
  "remove_at i xs = take i xs @ drop (Suc i) xs"

definition remove_network :: "nat \<Rightarrow> sd_card option \<Rightarrow> bool \<times> sd_card option" where
  "remove_network i card_opt =
     (case card_opt of
        None \<Rightarrow> (False, card_opt)
      | Some c \<Rightarrow>
          (let cs = parse_list_file OTA_MAX_NETWORKS card_opt in
           if \<not> i < length cs then (False, card_opt)
           else case print_networks (remove_at i cs) [] of
             None \<Rightarrow> (False, card_opt)
           | Some t \<Rightarrow>
               (case write_file (Some OTA_WIFI_LIST_FILE) (Some t) (length t) c of (ok, c') \<Rightarrow> (ok, Some c'))))"

section \<open>What is read is proper\<close>

definition line_char :: "char \<Rightarrow> bool" where
  "line_char c \<longleftrightarrow> c \<noteq> CHR 0x0D \<and> c \<noteq> CHR 0x0A \<and> c \<noteq> CHR 0x00"

definition proper_network :: "credential \<Rightarrow> bool" where
  "proper_network c \<longleftrightarrow> cr_ssid c \<noteq> [] \<and> CHR '','' \<notin> set (cr_ssid c) \<and>
     (\<forall>x \<in> set (cr_ssid c) \<union> set (cr_password c). line_char x) \<and>
     length (cr_ssid c) < OTA_SSID_MAX_LEN \<and> length (cr_password c) < OTA_PASS_MAX_LEN"

lemma tokens_chars: "l \<in> set (tokens ds s) \<Longrightarrow> x \<in> set l \<Longrightarrow> x \<in> set s \<and> x \<notin> ds"
proof (induction ds s rule: tokens.induct)
  case (1 ds s)
  define s' where "s' = dropWhile (\<lambda>c. c \<in> ds) s"
  have sub: "set s' \<subseteq> set s" using set_dropWhileD s'_def by fastforce
  have ne: "s' \<noteq> []" using "1.prems"(1) by (auto simp: tokens.simps [of ds s] s'_def Let_def split: if_splits)
  then consider "l = takeWhile (\<lambda>c. c \<notin> ds) s'" | "l \<in> set (tokens ds (dropWhile (\<lambda>c. c \<notin> ds) s'))"
    using "1.prems"(1) by (auto simp: tokens.simps [of ds s] Let_def simp flip: s'_def)
  then show ?case
  proof cases
    case 1
    then show ?thesis using "1.prems"(2) sub set_takeWhileD by fastforce
  next
    case 2
    then have "x \<in> set (dropWhile (\<lambda>c. c \<notin> ds) s') \<and> x \<notin> ds"
      using "1.IH" [OF s'_def ne 2 "1.prems"(2)] by blast
    then show ?thesis using sub set_dropWhileD by fastforce
  qed
qed

lemma parse_network_proper:
  assumes "parse_network l = Some c" and "\<forall>x \<in> set l. line_char x"
  shows "proper_network c"
proof -
  obtain p where d: "dropWhile (\<lambda>c. c \<noteq> CHR '','') l = CHR '','' # p"
    and c: "takeWhile (\<lambda>c. c \<noteq> CHR '','') l \<noteq> []"
      "c = \<lparr>cr_ssid = take 32 (takeWhile (\<lambda>c. c \<noteq> CHR '','') l), cr_password = take 64 p\<rparr>"
  proof (cases "dropWhile (\<lambda>c. c \<noteq> CHR '','') l")
    case (Cons a p)
    then have "a = CHR '',''" using hd_dropWhile [of "\<lambda>c. c \<noteq> CHR '',''" l] by auto
    with Cons assms(1) show ?thesis by (intro that) (auto simp: parse_network_def ota_sizes Let_def split: if_splits)
  next
    case Nil
    then show ?thesis using assms(1) unfolding parse_network_def Nil by simp
  qed
  have "set p \<subseteq> set l" using d set_dropWhileD [of _ "\<lambda>c. c \<noteq> CHR '',''" l] by fastforce
  then have "\<forall>x \<in> set (take 64 p). line_char x" using assms(2) set_take_subset by fastforce
  define ssid where "ssid = takeWhile (\<lambda>c. c \<noteq> CHR '','') l"
  have "\<forall>x \<in> set ssid. line_char x \<and> x \<noteq> CHR '',''"
    using assms(2) by (auto simp: ssid_def dest!: set_takeWhileD)
  then have "\<forall>x \<in> set (take 32 ssid). line_char x \<and> x \<noteq> CHR '',''" by (auto dest!: in_set_takeD)
  then have 1: "\<forall>x \<in> set (take 32 ssid). line_char x" "CHR '','' \<notin> set (take 32 ssid)" by blast+
  have 2: "\<forall>x \<in> set (take 64 p). line_char x" using \<open>set p \<subseteq> set l\<close> assms(2) by (blast dest: in_set_takeD)
  have ne: "ssid \<noteq> []" using c(1) by (simp only: ssid_def not_False_eq_True)
  have cc: "cr_ssid c = take 32 ssid" "cr_password c = take 64 p" by (simp_all only: c(2) ssid_def credential.select_convs)
  show ?thesis
    unfolding proper_network_def cc ball_Un
    by (intro conjI 1 2) (simp_all only: take_eq_Nil ne length_take ota_sizes, simp_all)
qed

lemma parse_lines_proper:
  assumes "\<forall>l \<in> set ls. \<forall>x \<in> set l. line_char x"
  shows "\<forall>c \<in> set (parse_lines ls n). proper_network c"
  using assms by (induction ls n rule: parse_lines.induct) (auto split: option.splits intro: parse_network_proper)

lemma parse_lines_bound: "length (parse_lines ls n) \<le> n"
  by (induction ls n rule: parse_lines.induct) (auto split: option.splits)

lemma parse_networks_proper: "\<forall>c \<in> set (parse_networks t n). proper_network c"
  unfolding parse_networks_def
proof (rule parse_lines_proper, intro ballI)
  fix l x
  assume "l \<in> set (tokens line_ends (takeWhile (\<lambda>c. c \<noteq> CHR 0x00) t))" "x \<in> set l"
  from tokens_chars [OF this] show "line_char x"
    using set_takeWhileD [of x "\<lambda>c. c \<noteq> CHR 0x00" t] by (simp add: line_char_def line_ends_def)
qed

lemma parse_list_proper:
  "\<forall>c \<in> set (parse_list_file n card_opt). proper_network c" "length (parse_list_file n card_opt) \<le> n"
  using parse_networks_proper parse_lines_bound
  by (auto simp: parse_list_file_def parse_networks_def split: option.splits)

section \<open>What is printed is read back\<close>

lemma parse_network_printed:
  assumes "proper_network c"
  shows "parse_network (cr_ssid c @ '','' @ cr_password c) = Some c"
  using assms upto_char [of "CHR '',''" "cr_ssid c" "cr_password c"]
  by (simp add: parse_network_def proper_network_def ota_sizes)

lemma parse_printed_lines:
  assumes "\<forall>c \<in> set cs. proper_network c"
  shows "length cs \<le> n \<Longrightarrow> parse_lines (map (\<lambda>c. cr_ssid c @ '','' @ cr_password c) cs) n = cs"
  using assms
proof (induction cs arbitrary: n)
  case (Cons c cs)
  then obtain m where "n = Suc m" by (cases n) auto
  then show ?case using Cons parse_network_printed [of c] by (simp del: append.simps add: append_Cons [symmetric])
qed simp

lemma parse_lines_printed_then:
  assumes "\<forall>c \<in> set cs. proper_network c"
  shows "length cs < n \<Longrightarrow> parse_network l = Some e \<Longrightarrow>
    parse_lines (map (\<lambda>c. cr_ssid c @ '','' @ cr_password c) cs @ [l]) n = cs @ [e]"
  using assms
proof (induction cs arbitrary: n)
  case Nil
  then obtain m where "n = Suc m" by (cases n) auto
  then show ?case using Nil by simp
next
  case (Cons c cs)
  then obtain m where "n = Suc m" by (cases n) auto
  then show ?case using Cons parse_network_printed [of c] by simp
qed

definition networks_text :: "credential list \<Rightarrow> string" where
  "networks_text cs = concat (map network_line cs)"

lemma networks_text_chars:
  assumes "\<forall>c \<in> set cs. proper_network c"
  shows "takeWhile (\<lambda>x. x \<noteq> CHR 0x00) (networks_text cs) = networks_text cs"
  using assms by (auto simp: takeWhile_eq_all_conv networks_text_def network_line_def proper_network_def line_char_def)

lemma tokens_networks:
  assumes "\<forall>c \<in> set cs. proper_network c"
  shows "tokens line_ends (networks_text cs) = map (\<lambda>c. cr_ssid c @ '','' @ cr_password c) cs"
proof -
  let ?ls = "map (\<lambda>c. cr_ssid c @ '','' @ cr_password c) cs"
  have "networks_text cs = concat (map (\<lambda>l. l @ [CHR 0x0A]) ?ls)"
    by (induction cs) (simp_all add: networks_text_def network_line_def)
  moreover have "\<forall>l \<in> set ?ls. \<forall>x \<in> set l. x \<notin> line_ends"
    using assms by (auto simp: proper_network_def line_char_def line_ends_def)
  moreover have "filter (\<lambda>l. l \<noteq> []) ?ls = ?ls" by (auto simp: filter_id_conv)
  ultimately show ?thesis using tokens_lines [of "CHR 0x0A" line_ends ?ls] by (simp add: line_ends_def)
qed

lemma parse_networks_text:
  assumes "\<forall>c \<in> set cs. proper_network c" and "length cs \<le> n"
  shows "parse_networks (networks_text cs) n = cs"
  unfolding parse_networks_def networks_text_chars [OF assms(1)] tokens_networks [OF assms(1)]
  by (rule parse_printed_lines [OF assms])

lemma network_line_length: "proper_network c \<Longrightarrow> length (network_line c) \<le> 98"
  by (simp add: network_line_def proper_network_def ota_sizes)

lemma networks_text_length:
  assumes "\<forall>c \<in> set cs. proper_network c"
  shows "length (networks_text cs) \<le> 98 * length cs"
  using assms
proof (induction cs)
  case (Cons c cs)
  then show ?case using network_line_length [of c] by (simp add: networks_text_def)
qed (simp add: networks_text_def)

lemma print_networks_text:
  assumes "\<forall>c \<in> set cs. proper_network c"
  shows "length t + 98 * length cs < ota_buffer_size \<Longrightarrow> print_networks cs t = Some (t @ networks_text cs)"
  using assms
proof (induction cs arbitrary: t)
  case (Cons c cs)
  then show ?case using network_line_length [of c] Cons.IH [of "t @ network_line c"] by (simp add: networks_text_def)
qed (simp add: networks_text_def)

text \<open>Removing a stored network succeeds for an index in the list unless the card fails, and
  the list then holds the others in their order; any other index is refused and changes nothing.\<close>

theorem removed_network_is_gone:
  assumes "remove_network i card_opt = (ok, card_opt')"
  shows "(ok \<longrightarrow> i < network_count card_opt \<and>
           parse_list_file OTA_MAX_NETWORKS card_opt' = remove_at i (parse_list_file OTA_MAX_NETWORKS card_opt)) \<and>
         (\<not> i < network_count card_opt \<longrightarrow> \<not> ok \<and> card_opt' = card_opt)"
proof (cases "\<exists>c. card_opt = Some c \<and> i < network_count card_opt")
  case False
  then show ?thesis using assms by (auto simp: remove_network_def network_count_def Let_def split: option.splits)
next
  case True
  then obtain c where c: "card_opt = Some c" and i: "i < network_count card_opt" by auto
  define cs where "cs = parse_list_file OTA_MAX_NETWORKS card_opt"
  have cs: "\<forall>c \<in> set cs. proper_network c" "length cs \<le> 16" "i < length cs"
    using parse_list_proper [of OTA_MAX_NETWORKS card_opt] i by (auto simp: cs_def network_count_def ota_sizes)
  let ?r = "remove_at i cs"
  have r: "\<forall>c \<in> set ?r. proper_network c" "length ?r \<le> 15"
    using cs by (auto simp: remove_at_def dest: in_set_takeD in_set_dropD)
  have len: "length (networks_text ?r) \<le> 1470" using networks_text_length [OF r(1)] r(2) by linarith
  have "print_networks ?r [] = Some (networks_text ?r)"
    using print_networks_text [OF r(1), of "[]"] r(2) by (simp add: ota_sizes)
  then obtain c' where w: "write_text OTA_WIFI_LIST_FILE (networks_text ?r) c = (ok, c')" "card_opt' = Some c'"
    using assms cs(3) unfolding remove_network_def c option.case Let_def cs_def [unfolded c, symmetric]
    by (auto simp: write_text_def split: prod.splits)
  have "parse_list_file OTA_MAX_NETWORKS card_opt' = ?r" if ok
  proof -
    have "write_text OTA_WIFI_LIST_FILE (networks_text ?r) c = (True, c')" using w(1) that by simp
    then have "read_text OTA_WIFI_LIST_FILE (ota_buffer_size - 1) c' = Some (networks_text ?r)"
      by (rule card_text.read_written) (use len in \<open>simp_all add: ota_sizes\<close>)
    then show ?thesis
      using parse_networks_text [OF r(1), of 16] r(2)
      by (simp add: w(2) parse_list_file_def read_text_def ota_sizes)
  qed
  then show ?thesis using i by (simp add: cs_def)
qed

section \<open>Adding\<close>

text \<open>What appending does to the file, when it succeeds.\<close>

definition list_path :: "sd_card \<Rightarrow> string" where
  "list_path c = (case make_path (Some OTA_WIFI_LIST_FILE) MAX_PATH_LENGTH c of None \<Rightarrow> [] | Some p \<Rightarrow> p)"

definition stored_list :: "sd_card \<Rightarrow> string" where
  "stored_list c = (case dk_files (sd_disk c) (list_path c) of None \<Rightarrow> [] | Some t \<Rightarrow> t)"

lemma append_stored:
  assumes "append_file (Some OTA_WIFI_LIST_FILE) (Some line) (length line) c = (True, c')"
  shows "stored_list c' = stored_list c @ line \<and> make_path (Some OTA_WIFI_LIST_FILE) MAX_PATH_LENGTH c' \<noteq> None \<and>
    dk_files (sd_disk c') (list_path c') \<noteq> None \<and> \<not> dk_fault (sd_disk c')"
proof -
  obtain p where p: "make_path (Some OTA_WIFI_LIST_FILE) MAX_PATH_LENGTH c = Some p"
    using assms by (auto simp: append_file_def split: option.splits)
  have same: "sd_mounted c' = sd_mounted c" "sd_mount_point c' = sd_mount_point c"
    using assms by (auto simp: append_file_def split: option.splits prod.splits)
  have p': "make_path (Some OTA_WIFI_LIST_FILE) MAX_PATH_LENGTH c' = Some p"
    using make_path_cong [OF same] p by simp
  have "\<not> dk_fault (sd_disk c') \<and>
     dk_files (sd_disk c') p = Some ((case dk_files (sd_disk c) p of None \<Rightarrow> [] | Some t \<Rightarrow> t) @ line)"
    using assms p
    by (auto simp: append_file_def fopen_append_def write_opened_def fwrite_def Let_def
      split: option.splits prod.splits if_splits)
  then show ?thesis by (simp add: stored_list_def list_path_def p p')
qed

lemma parse_stored:
  assumes "make_path (Some OTA_WIFI_LIST_FILE) MAX_PATH_LENGTH c \<noteq> None"
    and "dk_files (sd_disk c) (list_path c) \<noteq> None" and "\<not> dk_fault (sd_disk c)"
  shows "parse_list_file OTA_MAX_NETWORKS (Some c) = parse_networks (take (ota_buffer_size - 1) (stored_list c)) OTA_MAX_NETWORKS"
  using assms by (auto simp: parse_list_file_def read_file_def stored_list_def list_path_def ota_sizes)

text \<open>A network whose name and password hold no line end is, once added to a list that the
  program wrote itself and that has room, the last entry of the list; the others stay.\<close>

theorem added_network_is_listed:
  assumes "stored_list c = networks_text cs" and "\<forall>n \<in> set cs. proper_network n"
    and "98 * length cs + 98 < ota_buffer_size"
    and "\<forall>x \<in> set ssid \<union> set password. line_char x"
    and "add_network (Some ssid) (Some password) (Some c) = (True, card_opt')"
  shows "parse_list_file OTA_MAX_NETWORKS card_opt' = cs @ [\<lparr>cr_ssid = ssid, cr_password = password\<rparr>]"
proof -
  define n where "n = \<lparr>cr_ssid = ssid, cr_password = password\<rparr>"
  have n: "proper_network n"
    using assms(4,5) by (auto simp: n_def proper_network_def add_network_def split: if_splits)
  obtain c' where a: "append_file (Some OTA_WIFI_LIST_FILE) (Some (network_line n)) (length (network_line n)) c = (True, c')"
    and c': "card_opt' = Some c'"
    using assms(5) unfolding add_network_def
    by (auto simp: Let_def simp flip: n_def split: if_splits prod.splits)
  note st = append_stored [OF a]
  have whole_text: "stored_list c' = networks_text (cs @ [n])" using st assms(1) by (simp add: networks_text_def)
  have proper: "\<forall>m \<in> set (cs @ [n]). proper_network m" using n assms(2) by simp
  have "length (networks_text (cs @ [n])) \<le> ota_buffer_size - 1"
    using networks_text_length [OF proper] assms(3) by simp
  then have "parse_list_file OTA_MAX_NETWORKS card_opt' = parse_networks (networks_text (cs @ [n])) OTA_MAX_NETWORKS"
    using parse_stored [of c'] st by (simp add: c' whole_text)
  also have "\<dots> = cs @ [n]"
    using parse_networks_text [OF proper, of OTA_MAX_NETWORKS] assms(3) by (simp add: ota_sizes)
  finally show ?thesis by (simp add: n_def)
qed

text \<open>A list whose last line is not ended (edited by hand) takes the next network into that
  line: the addition reports success, the new network is not in the list, and the password of the
  last one has changed.\<close>

theorem adding_after_open_line_corrupts:
  assumes "stored_list c = networks_text cs @ cr_ssid l @ '','' @ cr_password l"
    and "\<forall>n \<in> set cs. proper_network n" and "proper_network l"
    and "98 * length cs + 196 < ota_buffer_size"
    and "\<forall>x \<in> set ssid \<union> set password. line_char x"
    and "add_network (Some ssid) (Some password) (Some c) = (True, card_opt')"
  shows "parse_list_file OTA_MAX_NETWORKS card_opt' =
    cs @ [l\<lparr>cr_password := take 64 (cr_password l @ ssid @ '','' @ password)\<rparr>]"
proof -
  define n where "n = \<lparr>cr_ssid = ssid, cr_password = password\<rparr>"
  define line where "line = cr_ssid l @ '','' @ cr_password l @ ssid @ '','' @ password"
  have n: "proper_network n"
    using assms(5,6) by (auto simp: n_def proper_network_def add_network_def split: if_splits)
  obtain c' where a: "append_file (Some OTA_WIFI_LIST_FILE) (Some (network_line n)) (length (network_line n)) c = (True, c')"
    and c': "card_opt' = Some c'"
    using assms(6) unfolding add_network_def
    by (auto simp: Let_def simp flip: n_def split: if_splits prod.splits)
  note st = append_stored [OF a]
  let ?ls = "map (\<lambda>c. cr_ssid c @ '','' @ cr_password c) cs @ [line]"
  have whole_text: "stored_list c' = networks_text cs @ line @ [CHR 0x0A]"
    using st assms(1) by (simp add: network_line_def n_def line_def)
  have chars: "\<forall>x \<in> set line. line_char x"
    using assms(3,5) by (auto simp: line_def proper_network_def line_char_def)
  have whole: "takeWhile (\<lambda>x. x \<noteq> CHR 0x00) (stored_list c') = stored_list c'"
    using networks_text_chars [OF assms(2)] chars
    by (auto simp: whole_text takeWhile_eq_all_conv line_char_def)
  have "length (network_line l) \<le> 98" "length (network_line n) \<le> 98"
    using network_line_length assms(3) n by blast+
  then have "length (stored_list c') \<le> ota_buffer_size - 1"
    using networks_text_length [OF assms(2)] assms(4)
    by (simp add: whole_text line_def network_line_def n_def)
  then have "parse_list_file OTA_MAX_NETWORKS card_opt' = parse_networks (stored_list c') OTA_MAX_NETWORKS"
    using parse_stored [of c'] st by (simp add: c')
  moreover have "stored_list c' = concat (map (\<lambda>l. l @ [CHR 0x0A]) ?ls)"
    unfolding whole_text by (induction cs) (simp_all add: networks_text_def network_line_def)
  moreover have "\<forall>l \<in> set ?ls. \<forall>x \<in> set l. x \<notin> line_ends"
    using assms(2) chars by (auto simp: proper_network_def line_char_def line_ends_def)
  then have "tokens line_ends (concat (map (\<lambda>l. l @ [CHR 0x0A]) ?ls)) = filter (\<lambda>l. l \<noteq> []) ?ls"
    by (intro tokens_lines) (auto simp: line_ends_def)
  moreover have "filter (\<lambda>l. l \<noteq> []) ?ls = ?ls" by (auto simp: filter_id_conv line_def)
  ultimately have "parse_list_file OTA_MAX_NETWORKS card_opt' = parse_lines ?ls OTA_MAX_NETWORKS"
    unfolding parse_networks_def whole by metis
  also have "\<dots> = cs @ [l\<lparr>cr_password := take 64 (cr_password l @ ssid @ '','' @ password)\<rparr>]"
  proof (rule parse_lines_printed_then [OF assms(2)])
    show "length cs < OTA_MAX_NETWORKS" using assms(4) by (simp add: ota_sizes)
    show "parse_network line = Some (l\<lparr>cr_password := take 64 (cr_password l @ ssid @ '','' @ password)\<rparr>)"
      using assms(3) upto_char [of "CHR '',''" "cr_ssid l" "cr_password l @ ssid @ '','' @ password"]
      by (simp add: line_def parse_network_def proper_network_def ota_sizes)
  qed
  finally show ?thesis .
qed


definition demo_list_card :: "string \<Rightarrow> sd_card" where
  "demo_list_card t = \<lparr>sd_mounted = True, sd_mount_point = ''/sdcard'', sd_stream = None,
     sd_disk = \<lparr>dk_files = [''/sdcard/wifi.txt'' \<mapsto> t], dk_room = 4096, dk_fault = False\<rparr>\<rparr>"

lemma demo_list_stored: "stored_list (demo_list_card t) = t"
  by (simp add: stored_list_def list_path_def demo_list_card_def make_path_def OTA_WIFI_LIST_FILE_def
    MAX_PATH_LENGTH_def Let_def)


lemma added_network_is_listed_witness:
  "parse_list_file OTA_MAX_NETWORKS
     (snd (add_network (Some ''lab'') (Some ''pw2'') (Some (demo_list_card (''home,pw1'' @ [CHR 0x0A])))))
   = [\<lparr>cr_ssid = ''home'', cr_password = ''pw1''\<rparr>, \<lparr>cr_ssid = ''lab'', cr_password = ''pw2''\<rparr>]"
proof -
  let ?h = "\<lparr>cr_ssid = ''home'', cr_password = ''pw1''\<rparr>"
  let ?c = "demo_list_card (''home,pw1'' @ [CHR 0x0A])"
  let ?r = "add_network (Some ''lab'') (Some ''pw2'') (Some ?c)"
  have "fst ?r" by code_simp
  then have r: "?r = (True, snd ?r)" by (cases ?r) simp
  have "stored_list ?c = networks_text [?h]" by (simp add: demo_list_stored networks_text_def network_line_def)
  from added_network_is_listed [OF this _ _ _ r] show ?thesis
    by (simp add: proper_network_def line_char_def ota_sizes)
qed

lemma adding_after_open_line_corrupts_witness:
  "parse_list_file OTA_MAX_NETWORKS
     (snd (add_network (Some ''lab'') (Some ''pw2'') (Some (demo_list_card ''home,pw1''))))
   = [\<lparr>cr_ssid = ''home'', cr_password = ''pw1lab,pw2''\<rparr>]"
proof -
  let ?h = "\<lparr>cr_ssid = ''home'', cr_password = ''pw1''\<rparr>"
  let ?c = "demo_list_card ''home,pw1''"
  let ?r = "add_network (Some ''lab'') (Some ''pw2'') (Some ?c)"
  have "fst ?r" by code_simp
  then have r: "?r = (True, snd ?r)" by (cases ?r) simp
  have "stored_list ?c = networks_text [] @ cr_ssid ?h @ '','' @ cr_password ?h"
    by (simp add: demo_list_stored networks_text_def)
  from adding_after_open_line_corrupts [OF this _ _ _ _ r] show ?thesis
    by (simp add: proper_network_def line_char_def ota_sizes)
qed

lemma removed_network_is_gone_witness:
  "parse_list_file OTA_MAX_NETWORKS
     (snd (remove_network 0 (Some (demo_list_card (''home,pw1'' @ [CHR 0x0A] @ ''lab,pw2'' @ [CHR 0x0A])))))
   = [\<lparr>cr_ssid = ''lab'', cr_password = ''pw2''\<rparr>]"
proof -
  let ?c = "demo_list_card (''home,pw1'' @ [CHR 0x0A] @ ''lab,pw2'' @ [CHR 0x0A])"
  let ?r = "remove_network 0 (Some ?c)"
  have "fst ?r" by code_simp
  then have r: "?r = (True, snd ?r)" by (cases ?r) simp
  have "remove_at 0 (parse_list_file OTA_MAX_NETWORKS (Some ?c)) = [\<lparr>cr_ssid = ''lab'', cr_password = ''pw2''\<rparr>]"
    by code_simp
  then show ?thesis using removed_network_is_gone [OF r] by simp
qed

end
