(* ===== verification/OTA_Updater.thy ===== *)
theory OTA_Updater
  imports OTA_Networks Robot_Outputs Job_Commands
begin

text \<open>
  The firmware updater (\<^verbatim>\<open>lib/OTAUpdater/\<close>): joining one of the networks of the card's list, the
  upload endpoint, its phases and the shell module \<^verbatim>\<open>ota\<close>.

  The Wi-Fi driver, the HTTP server and the boot loader are not the program's: what they answer is
  the record \<open>ota_io\<close> of a call, and what is asked of them is written to the trace \<open>oa_out\<close> with
  the log lines.  The clock is read once per call.  \<open>oa_boot\<close> is the image staged for the next
  boot.  The handlers of events, of requests and the periodic tick run one at a time; an upload is
  two steps, its start and its end, with anything in between.
\<close>

section \<open>Types\<close>

definition OTA_MAX_SCAN_RESULTS :: nat where "OTA_MAX_SCAN_RESULTS = 20"
definition OTA_MDNS_NAME_MAX_LEN :: nat where "OTA_MDNS_NAME_MAX_LEN = 33"
definition OTA_PASSWORD_MAX_LEN :: nat where "OTA_PASSWORD_MAX_LEN = 33"

datatype ota_phase = IDLE | SCANNING | CONNECTING | CONNECT_FAILED | SERVING

datatype auth_mode = AUTH_OPEN | AUTH_WEP | AUTH_WPA_PSK | AUTH_WPA2_PSK | AUTH_WPA_WPA2_PSK
  | AUTH_WPA3_PSK | AUTH_WPA2_WPA3_PSK | AUTH_OWE | AUTH_OTHER

fun auth_mode_str :: "auth_mode \<Rightarrow> string" where
  "auth_mode_str AUTH_OPEN = ''OPEN''"
| "auth_mode_str AUTH_WEP = ''WEP''"
| "auth_mode_str AUTH_WPA_PSK = ''WPA-PSK''"
| "auth_mode_str AUTH_WPA2_PSK = ''WPA2-PSK''"
| "auth_mode_str AUTH_WPA_WPA2_PSK = ''WPA/WPA2-PSK''"
| "auth_mode_str AUTH_WPA3_PSK = ''WPA3-PSK''"
| "auth_mode_str AUTH_WPA2_WPA3_PSK = ''WPA2/WPA3-PSK''"
| "auth_mode_str AUTH_OWE = ''OWE''"
| "auth_mode_str AUTH_OTHER = ''other''"

text \<open>The driver's numbers of the reasons are its own; here the ones the program names.\<close>

datatype disconnect_reason = NO_AP_FOUND | NO_AP_FOUND_W_COMPATIBLE_SECURITY
  | NO_AP_FOUND_IN_AUTHMODE_THRESHOLD | NO_AP_FOUND_IN_RSSI_THRESHOLD | AUTH_FAIL | AUTH_EXPIRE
  | HANDSHAKE_TIMEOUT_4WAY | HANDSHAKE_TIMEOUT | ASSOC_FAIL | ASSOC_LEAVE | ASSOC_NOT_AUTHED
  | BEACON_TIMEOUT | REASON_OTHER

fun disconnect_reason_str :: "disconnect_reason \<Rightarrow> string" where
  "disconnect_reason_str r =
     (if r \<in> {NO_AP_FOUND, NO_AP_FOUND_W_COMPATIBLE_SECURITY, NO_AP_FOUND_IN_AUTHMODE_THRESHOLD,
        NO_AP_FOUND_IN_RSSI_THRESHOLD} then ''AP not found''
      else if r \<in> {AUTH_FAIL, AUTH_EXPIRE, HANDSHAKE_TIMEOUT_4WAY, HANDSHAKE_TIMEOUT}
        then ''authentication failed, check the password''
      else if r \<in> {ASSOC_FAIL, ASSOC_LEAVE, ASSOC_NOT_AUTHED} then ''association rejected by the AP''
      else if r = BEACON_TIMEOUT then ''beacon timeout, weak signal''
      else ''unspecified'')"

record ota_tuning =
  led_step_ms :: u32
  led_hold_ms :: u32
  led_fail_hold_ms :: u32
  connect_timeout_ms :: u32
  retry_scan_ms :: u32
  espnow_channel :: u8
  tn_hostname :: "string option"
  tn_instance_name :: "string option"
  tn_password :: "string option"

definition default_tuning :: ota_tuning where
  "default_tuning = \<lparr>led_step_ms = 150, led_hold_ms = 200, led_fail_hold_ms = 800,
     connect_timeout_ms = 10000, retry_scan_ms = 5000, espnow_channel = 11,
     tn_hostname = None, tn_instance_name = None, tn_password = None\<rparr>"

record access_point =
  ap_ssid :: string
  ap_bssid :: bytes
  ap_primary :: u8
  ap_rssi :: int
  ap_auth :: auth_mode

record wifi_config =
  wc_ssid :: string
  wc_password :: string
  wc_channel :: u8
  wc_bssid :: bytes

record scan_row =
  sr_ssid :: string
  sr_rssi :: int
  sr_open :: bool

text \<open>The first two are the sizes of the name and the password in the driver's configuration.\<close>

record ota_io =
  wi_ssid_size :: nat
  wi_password_size :: nat
  wi_now :: u32
  wi_scan_starts :: bool
  wi_aps :: "access_point list"
  wi_set_config :: bool
  wi_connects :: bool
  wi_http_starts :: bool

datatype ota_effect = Scan_Start | Set_Config wifi_config | Wifi_Connect | Wifi_Disconnect
  | Set_Channel u8 | Http_Stop | Mdns_Start string string | Respond nat string
  | Log_Line log_type string

record ota =
  oa_leds :: out_flags
  oa_tuning :: ota_tuning
  oa_hostname :: string
  oa_instance :: string
  oa_password :: string
  oa_registered :: bool
  oa_mdns :: bool
  oa_phase :: ota_phase
  oa_flashing :: bool
  oa_direct :: bool
  oa_scan_done :: bool
  oa_got_ip :: bool
  oa_disconnected :: bool
  oa_reason :: "u8 \<times> disconnect_reason"
  oa_in_flight :: bool
  oa_survey :: bool
  oa_next_scan :: u32
  oa_deadline :: u32
  oa_retry_at :: u32
  oa_last_scan :: "scan_row list"
  oa_candidates :: "credential list"
  oa_index :: nat
  oa_ssid :: string
  oa_ip :: string
  oa_carousel :: nat
  oa_carousel_next :: u32
  oa_server :: bool
  oa_boot :: "bytes option"
  oa_out :: "ota_effect list"

definition new_ota :: "out_flags \<Rightarrow> ota" where
  "new_ota leds = \<lparr>oa_leds = leds, oa_tuning = default_tuning, oa_hostname = [], oa_instance = [],
     oa_password = [], oa_registered = False, oa_mdns = False, oa_phase = IDLE, oa_flashing = False,
     oa_direct = False, oa_scan_done = False, oa_got_ip = False, oa_disconnected = False,
     oa_reason = (0, REASON_OTHER), oa_in_flight = False, oa_survey = False, oa_next_scan = 0,
     oa_deadline = 0, oa_retry_at = 0, oa_last_scan = [], oa_candidates = [], oa_index = 0,
     oa_ssid = [], oa_ip = [], oa_carousel = 0, oa_carousel_next = 0, oa_server = False,
     oa_boot = None, oa_out = []\<rparr>"

definition emit :: "ota_effect \<Rightarrow> ota \<Rightarrow> ota" where
  "emit e s = s\<lparr>oa_out := oa_out s @ [e]\<rparr>"

text \<open>A buffer of 192 octets.\<close>

definition ota_log :: "log_type \<Rightarrow> string \<Rightarrow> ota \<Rightarrow> ota" where
  "ota_log ty msg s = emit (Log_Line ty (take 191 msg)) s"

definition quoted :: "string \<Rightarrow> string" where "quoted x = [CHR 0x27] @ x @ [CHR 0x27]"

text \<open>\<open>static_cast<int32_t>(now - at) >= 0\<close>.\<close>

definition due :: "u32 \<Rightarrow> u32 \<Rightarrow> bool" where
  "due now when = (0 \<le> sint (now - when))"

definition is_active :: "ota \<Rightarrow> bool" where "is_active s \<longleftrightarrow> oa_phase s \<noteq> IDLE"

definition is_upload_session :: "ota \<Rightarrow> bool" where
  "is_upload_session s \<longleftrightarrow> is_active s \<and> \<not> oa_direct s"

section \<open>Set-up\<close>

definition ota_configure :: "ota_tuning \<Rightarrow> ota \<Rightarrow> ota" where
  "ota_configure t s = s\<lparr>oa_tuning := t,
     oa_hostname := (case tn_hostname t of None \<Rightarrow> oa_hostname s | Some h \<Rightarrow> take (OTA_MDNS_NAME_MAX_LEN - 1) h),
     oa_instance := (case tn_instance_name t of None \<Rightarrow> oa_instance s | Some h \<Rightarrow> take (OTA_MDNS_NAME_MAX_LEN - 1) h),
     oa_password := (case tn_password t of None \<Rightarrow> oa_password s | Some p \<Rightarrow> take (OTA_PASSWORD_MAX_LEN - 1) p)\<rparr>"

definition ensure_mdns :: "bool \<Rightarrow> ota \<Rightarrow> ota" where
  "ensure_mdns starts s =
     (if oa_mdns s \<or> oa_hostname s = [] then s
      else if \<not> starts then s
      else (emit (Mdns_Start (oa_hostname s) (if oa_instance s \<noteq> [] then oa_instance s else oa_hostname s)) s)
             \<lparr>oa_mdns := True\<rparr>)"

text \<open>Whether the two event handlers can be registered and mDNS starts.\<close>

definition ota_begin :: "bool \<Rightarrow> bool \<Rightarrow> bool \<Rightarrow> ota \<Rightarrow> bool \<times> ota" where
  "ota_begin wifi_handler ip_handler mdns s =
     (if oa_registered s then (True, s)
      else if \<not> wifi_handler then (False, ota_log ERRO ''OTA: failed to register the Wi-Fi event handler'' s)
      else if \<not> ip_handler then (False, ota_log ERRO ''OTA: failed to register the IP event handler'' s)
      else
        let s1 = ensure_mdns mdns (s\<lparr>oa_registered := True\<rparr>) in
        (True, if oa_hostname s1 \<noteq> [] \<and> \<not> oa_mdns s1
               then ota_log WARN (''OTA: mDNS init failed; use '' @ quoted ''ota status'' @
                      '' for the IP instead of '' @ oa_hostname s1 @ ''.local'') s1
               else s1))"

section \<open>The upload server\<close>

definition start_http_server :: "ota_io \<Rightarrow> ota \<Rightarrow> bool \<times> ota" where
  "start_http_server io s = (if wi_http_starts io then (True, s\<lparr>oa_server := True\<rparr>) else (False, s))"

definition stop_http_server :: "ota \<Rightarrow> ota" where
  "stop_http_server s = (if \<not> oa_server s then s else (emit Http_Stop s)\<lparr>oa_server := False\<rparr>)"

section \<open>Scanning and connecting\<close>

definition fail_candidate :: "ota_io \<Rightarrow> ota \<Rightarrow> ota" where
  "fail_candidate io s = (emit Wifi_Disconnect s)
     \<lparr>oa_retry_at := wi_now io + led_fail_hold_ms (oa_tuning s), oa_phase := CONNECT_FAILED\<rparr>"

definition load_candidates :: "sd_card option \<Rightarrow> ota \<Rightarrow> bool \<times> ota" where
  "load_candidates c s =
     (let cs = parse_list_file OTA_MAX_NETWORKS c in (cs \<noteq> [], s\<lparr>oa_candidates := cs, oa_index := 0\<rparr>))"

definition scan_start :: "ota_io \<Rightarrow> ota \<Rightarrow> ota" where
  "scan_start io s = (emit Scan_Start s)\<lparr>oa_in_flight := wi_scan_starts io\<rparr>"

definition upgrade_session :: "ota_io \<Rightarrow> ota \<Rightarrow> ota" where
  "upgrade_session io s =
     (let s1 = s\<lparr>oa_direct := False\<rparr> in
      if oa_phase s1 = SERVING then
        (case start_http_server io s1 of
           (True, s2) \<Rightarrow> ota_log INFO (''OTA: upgraded the existing direct connection to '' @ quoted (oa_ssid s2) @
              '' at '' @ oa_ip s2 @ '', now serving updates'') s2
         | (False, s2) \<Rightarrow> fail_candidate io (ota_log ERRO (''OTA: connected to '' @ quoted (oa_ssid s2) @
              '' but the HTTP server failed to start'') s2))
      else ota_log INFO ''OTA: will serve updates once the existing connection lands'' s1)"

definition begin_scanning :: "bool \<Rightarrow> string \<Rightarrow> ota_io \<Rightarrow> sd_card option \<Rightarrow> ota \<Rightarrow> bool \<times> ota" where
  "begin_scanning direct_mode log_verb io c s =
     (if oa_phase s \<noteq> IDLE then
        (True, if \<not> direct_mode \<and> oa_direct s then upgrade_session io s else s)
      else if (case c of None \<Rightarrow> True | Some d \<Rightarrow> \<not> is_mounted d) then
        (False, ota_log ERRO ''OTA: cannot start, SD card is not mounted for the robot'' s)
      else case load_candidates c s of
        (False, s1) \<Rightarrow> (False, ota_log ERRO (''OTA: cannot start, no networks stored in '' @
           OTA_WIFI_LIST_FILE @ '' (use '' @ quoted ''ota wifi_add'' @ '')'') s1)
      | (True, s1) \<Rightarrow>
          let s2 = scan_start io (s1\<lparr>oa_direct := direct_mode, oa_scan_done := False, oa_got_ip := False,
                     oa_disconnected := False, oa_carousel := 0, oa_carousel_next := wi_now io\<rparr>);
              s3 = s2\<lparr>oa_next_scan := wi_now io + retry_scan_ms (oa_tuning s2), oa_phase := SCANNING\<rparr>
          in (True, ota_log INFO (''OTA: '' @ log_verb @ '', scanning for '' @
                show_dec (length (oa_candidates s3)) @ '' known network(s)'' @
                (if oa_in_flight s3 then [] else '' (initial scan failed to start, retrying)'')) s3))"

definition start :: "ota_io \<Rightarrow> sd_card option \<Rightarrow> ota \<Rightarrow> bool \<times> ota" where
  "start = begin_scanning False ''started''"

definition startDirect :: "ota_io \<Rightarrow> sd_card option \<Rightarrow> ota \<Rightarrow> bool \<times> ota" where
  "startDirect = begin_scanning True ''started (direct, no HTTP server)''"

definition survey :: "ota_io \<Rightarrow> ota \<Rightarrow> bool \<times> ota" where
  "survey io s =
     (if oa_phase s \<noteq> IDLE then (False, s)
      else
        let s1 = scan_start io (s\<lparr>oa_scan_done := False, oa_survey := True\<rparr>);
            s2 = s1\<lparr>oa_next_scan := wi_now io + retry_scan_ms (oa_tuning s1), oa_phase := SCANNING\<rparr>
        in (True, ota_log INFO (''OTA: scanning for visible networks'' @
              (if oa_in_flight s2 then [] else '' (initial scan failed to start, retrying)'')) s2))"

definition get_scan_result :: "nat \<Rightarrow> nat \<Rightarrow> ota \<Rightarrow> (string \<times> int \<times> bool) option" where
  "get_scan_result i capacity s =
     (if capacity = 0 \<or> \<not> i < length (oa_last_scan s) then None
      else let r = oa_last_scan s ! i in Some (take (capacity - 1) (sr_ssid r), sr_rssi r, sr_open r))"

definition row_of :: "access_point \<Rightarrow> scan_row" where
  "row_of a = \<lparr>sr_ssid = take (OTA_SSID_MAX_LEN - 1) (ap_ssid a), sr_rssi = ap_rssi a, sr_open = (ap_auth a = AUTH_OPEN)\<rparr>"

text \<open>From the current candidate on, the first that some record names (\<open>strncmp\<close> over the record's
  33 octets), and that record.\<close>

definition names :: "credential \<Rightarrow> access_point \<Rightarrow> bool" where
  "names c a \<longleftrightarrow> take 33 (ap_ssid a) = take 33 (cr_ssid c)"

fun scan_match :: "access_point list \<Rightarrow> credential list \<Rightarrow> nat \<Rightarrow> nat \<times> access_point option" where
  "scan_match aps [] i = (i, None)"
| "scan_match aps (c # cs) i =
     (case find (names c) aps of Some a \<Rightarrow> (i, Some a) | None \<Rightarrow> scan_match aps cs (Suc i))"

text \<open>The driver's fields, each cut to its size with the terminator.\<close>

definition sta_config :: "ota_io \<Rightarrow> credential \<Rightarrow> access_point \<Rightarrow> wifi_config" where
  "sta_config io c a = \<lparr>wc_ssid = take (wi_ssid_size io - 1) (cr_ssid c),
     wc_password = take (wi_password_size io - 1) (cr_password c),
     wc_channel = ap_primary a, wc_bssid = ap_bssid a\<rparr>"

definition connect_to :: "ota_io \<Rightarrow> access_point \<Rightarrow> ota \<Rightarrow> ota" where
  "connect_to io a s =
     (let c = oa_candidates s ! oa_index s;
          s1 = emit (Set_Config (sta_config io c a)) s;
          s2 = (if wi_set_config io then emit Wifi_Connect s1 else s1)
      in if \<not> wi_set_config io \<or> \<not> wi_connects io
         then fail_candidate io (ota_log ERRO (''OTA: esp_wifi_connect() failed for '' @ quoted (cr_ssid c)) s2)
         else (ota_log INFO (''OTA: '' @ quoted (cr_ssid c) @ '' is visible, connecting...'') s2)
                \<lparr>oa_deadline := wi_now io + connect_timeout_ms (oa_tuning s2), oa_phase := CONNECTING\<rparr>)"

definition retain_scan :: "ota_io \<Rightarrow> ota \<Rightarrow> ota" where
  "retain_scan io s = s\<lparr>oa_in_flight := False,
     oa_last_scan := map row_of (take OTA_MAX_SCAN_RESULTS (wi_aps io))\<rparr>"

definition handle_scan_done :: "ota_io \<Rightarrow> ota \<Rightarrow> ota" where
  "handle_scan_done io s =
     (let s1 = retain_scan io s in
      if oa_survey s1 then
        (ota_log INFO (''OTA: scan complete, '' @ show_dec (length (oa_last_scan s1)) @ '' network(s) visible'')
           (s1\<lparr>oa_survey := False\<rparr>))\<lparr>oa_phase := IDLE\<rparr>
      else case scan_match (take OTA_MAX_SCAN_RESULTS (wi_aps io)) (drop (oa_index s1) (oa_candidates s1)) (oa_index s1) of
        (i, None) \<Rightarrow>
          (ota_log WARN (''OTA: none of the '' @ show_dec (length (oa_candidates s1)) @
             '' known network(s) are visible, rescanning in '' @ show_dec (unat (retry_scan_ms (oa_tuning s1))) @ ''ms'') s1)
            \<lparr>oa_index := 0, oa_next_scan := wi_now io + retry_scan_ms (oa_tuning s1)\<rparr>
      | (i, Some a) \<Rightarrow> connect_to io a (s1\<lparr>oa_index := i\<rparr>))"

definition try_next_candidate :: "ota_io \<Rightarrow> ota \<Rightarrow> ota" where
  "try_next_candidate io s = s\<lparr>oa_index := Suc (oa_index s), oa_next_scan := wi_now io, oa_phase := SCANNING\<rparr>"

section \<open>The tick\<close>

definition set_led :: "nat \<Rightarrow> u32 \<Rightarrow> ota_io \<Rightarrow> ota \<Rightarrow> ota" where
  "set_led i ms io s = s\<lparr>oa_leds := out_set_flag (wi_now io) i ms (oa_leds s)\<rparr>"

definition advance_carousel :: "ota_io \<Rightarrow> ota \<Rightarrow> ota" where
  "advance_carousel io s =
     (if \<not> due (wi_now io) (oa_carousel_next s) then s
      else (set_led (oa_carousel s) (led_step_ms (oa_tuning s)) io s)
             \<lparr>oa_carousel := (oa_carousel s + 1) mod 4,
              oa_carousel_next := wi_now io + led_step_ms (oa_tuning s)\<rparr>)"

fun update_status_led :: "ota_phase \<Rightarrow> ota_io \<Rightarrow> ota \<Rightarrow> ota" where
  "update_status_led SCANNING io s = advance_carousel io s"
| "update_status_led CONNECTING io s = set_led LED_YELLOW (led_hold_ms (oa_tuning s)) io s"
| "update_status_led CONNECT_FAILED io s = set_led LED_RED (led_hold_ms (oa_tuning s)) io s"
| "update_status_led SERVING io s =
     set_led (if oa_flashing s then LED_BLUE else LED_GREEN) (led_hold_ms (oa_tuning s)) io s"
| "update_status_led IDLE io s = s"

definition ota_cancel :: "ota_io \<Rightarrow> ota \<Rightarrow> ota" where
  "ota_cancel io s =
     (if oa_flashing s then s
      else if oa_phase s = IDLE then s
      else
        let s1 = ota_log INFO ''OTA: cancelled, restoring ESP-NOW'' s;
            s2 = emit (Set_Channel (espnow_channel (oa_tuning s))) (emit Wifi_Disconnect (stop_http_server s1));
            s3 = fold (\<lambda>i. set_led i 1 io) [0..<4] s2
        in s3\<lparr>oa_ssid := [], oa_ip := [], oa_candidates := [], oa_index := 0, oa_in_flight := False,
              oa_survey := False, oa_direct := False, oa_phase := IDLE\<rparr>)"

definition candidate_name :: "ota \<Rightarrow> string" where
  "candidate_name s = quoted (cr_ssid (oa_candidates s ! oa_index s))"

definition process_scanning :: "ota_io \<Rightarrow> ota \<Rightarrow> ota" where
  "process_scanning io s =
     (if oa_scan_done s then handle_scan_done io (s\<lparr>oa_scan_done := False\<rparr>)
      else if \<not> oa_in_flight s \<and> due (wi_now io) (oa_next_scan s) then
        let s1 = scan_start io s in
        if oa_in_flight s1 then s1 else s1\<lparr>oa_next_scan := wi_now io + retry_scan_ms (oa_tuning s1)\<rparr>
      else s)"

definition connected :: "ota_io \<Rightarrow> ota \<Rightarrow> ota" where
  "connected io s =
     (if oa_direct s then
        (ota_log INFO (''OTA: connected to '' @ quoted (oa_ssid s) @ '' at '' @ oa_ip s @
           '' (direct mode, no HTTP server)'') s)\<lparr>oa_phase := SERVING\<rparr>
      else case start_http_server io s of
        (True, s1) \<Rightarrow> (ota_log INFO (''OTA: connected to '' @ quoted (oa_ssid s1) @ '' at '' @ oa_ip s1 @
           '', serving updates'') s1)\<lparr>oa_phase := SERVING\<rparr>
      | (False, s1) \<Rightarrow> fail_candidate io (ota_log ERRO (''OTA: connected to '' @ quoted (oa_ssid s1) @
           '' but the HTTP server failed to start'') s1))"

definition process_connecting :: "ota_io \<Rightarrow> ota \<Rightarrow> ota" where
  "process_connecting io s =
     (if oa_got_ip s then connected io (s\<lparr>oa_got_ip := False\<rparr>)
      else if oa_disconnected s then
        (let s1 = s\<lparr>oa_disconnected := False\<rparr> in
         fail_candidate io (ota_log ERRO (''OTA: '' @ candidate_name s1 @ '' disconnected (reason '' @
           show_dec (unat (fst (oa_reason s1))) @ '': '' @ disconnect_reason_str (snd (oa_reason s1)) @ '')'') s1))
      else if due (wi_now io) (oa_deadline s) then
        fail_candidate io (ota_log ERRO (''OTA: timed out connecting to '' @ candidate_name s) s)
      else s)"

fun process_phase :: "ota_phase \<Rightarrow> ota_io \<Rightarrow> ota \<Rightarrow> ota" where
  "process_phase SCANNING io s = process_scanning io s"
| "process_phase CONNECTING io s = process_connecting io s"
| "process_phase CONNECT_FAILED io s =
     (if due (wi_now io) (oa_retry_at s) then try_next_candidate io s else s)"
| "process_phase SERVING io s = s"
| "process_phase IDLE io s = s"

definition ota_process :: "u8 \<Rightarrow> ota_io \<Rightarrow> ota \<Rightarrow> ota" where
  "ota_process button_flags io s =
     (let phase = oa_phase s in
      if phase = IDLE then s
      else if button_flags \<noteq> 0 \<and> \<not> oa_flashing s \<and> \<not> oa_direct s then ota_cancel io s
      else process_phase phase io (update_status_led phase io s))"

section \<open>Requests\<close>

text \<open>A request: the password header (when there is one that fits the buffer), the announced
  length, and what the partition, the reception and the boot loader answer.\<close>

datatype recv = Recv_Timeout | Recv_Error | Recv bytes bool

record upload =
  up_header :: "nat \<Rightarrow> string option"
  up_content_len :: u32
  up_partition :: bool
  up_begin :: bool
  up_end :: bool
  up_set_boot :: bool

definition ota_respond :: "nat \<Rightarrow> string \<Rightarrow> ota \<Rightarrow> ota" where
  "ota_respond code msg s = emit (Respond code msg) s"

definition post_start :: "upload \<Rightarrow> ota \<Rightarrow> bool \<times> ota" where
  "post_start rq s =
     (if oa_password s \<noteq> [] \<and> up_header rq OTA_PASSWORD_MAX_LEN \<noteq> Some (oa_password s) then
        (False, ota_respond 401 ''Wrong OTA password'' (ota_log WARN ''OTA: upload rejected, wrong or missing password'' s))
      else if up_content_len rq = 0 then
        (False, ota_respond 400 ''Empty body'' (ota_log ERRO ''OTA: upload rejected, empty body'' s))
      else if \<not> up_partition rq then
        (False, ota_respond 500 ''No OTA partition available'' (ota_log ERRO ''OTA: no free OTA partition available'' s))
      else if \<not> up_begin rq then
        (False, ota_respond 500 ''esp_ota_begin failed'' (ota_log ERRO ''OTA: esp_ota_begin() failed'' s))
      else (True, (ota_log INFO (''OTA: firmware upload started ('' @ show_int (sint (up_content_len rq)) @ '' bytes)'') s)
                    \<lparr>oa_flashing := True\<rparr>))"

text \<open>The reception: what was written so far.  With no more answers it still waits.\<close>

datatype transfer = Waiting bytes | Broken bytes | Complete bytes

fun receive :: "recv list \<Rightarrow> int \<Rightarrow> bytes \<Rightarrow> transfer" where
  "receive [] remaining written = (if remaining > 0 then Waiting written else Complete written)"
| "receive (r # rs) remaining written =
     (if \<not> remaining > 0 then Complete written
      else case r of
        Recv_Timeout \<Rightarrow> receive rs remaining written
      | Recv_Error \<Rightarrow> Broken written
      | Recv bs write_ok \<Rightarrow>
          (let got = take (nat (min remaining 1024)) bs in
           if got = [] then Broken written
           else if \<not> write_ok then Broken written
           else receive rs (remaining - int (length got)) (written @ got)))"

text \<open>The end of the upload, when its reception is over; whether the deferred \<open>finish_update\<close> is
  scheduled.\<close>

definition post_finish :: "upload \<Rightarrow> transfer \<Rightarrow> ota \<Rightarrow> bool \<times> ota" where
  "post_finish rq tr s =
     (let s1 = s\<lparr>oa_flashing := False\<rparr>;
          write_error = (case tr of Complete _ \<Rightarrow> False | _ \<Rightarrow> True);
          failed = ota_respond 500 ''OTA write failed'' (ota_log ERRO (''OTA: firmware write failed'' @
            (if write_error then '' (transfer error)'' else [])) s1)
      in case tr of
        Complete img \<Rightarrow>
          if \<not> up_end rq \<or> \<not> up_set_boot rq then (False, failed)
          else (True, ota_respond 200 (''OK. Reset the robot (or send '' @ quoted ''ota reboot'' @ '') to boot into it.'' @ [CHR 0x0A])
                  (ota_log INFO ''OTA: firmware written OK, waiting for reset'' (s1\<lparr>oa_boot := Some img\<rparr>)))
      | _ \<Rightarrow> (False, failed))"

definition handle_update_post :: "upload \<Rightarrow> recv list \<Rightarrow> ota \<Rightarrow> bool \<times> ota" where
  "handle_update_post rq rs s =
     (case post_start rq s of
        (False, s1) \<Rightarrow> (False, s1)
      | (True, s1) \<Rightarrow>
          (case receive rs (sint (up_content_len rq)) [] of
             Waiting _ \<Rightarrow> (False, s1)
           | tr \<Rightarrow> post_finish rq tr s1))"

definition finish_update :: "ota_io \<Rightarrow> ota \<Rightarrow> ota" where
  "finish_update io s = ota_log INFO (''OTA: firmware staged as the active boot partition '' @ [CHR 0xE2, CHR 0x80, CHR 0x94] @
     '' reset the robot (or send '' @ quoted ''ota reboot'' @ '') to boot into it'') (ota_cancel io s)"

definition handle_status_get :: "string \<Rightarrow> ota \<Rightarrow> string" where
  "handle_status_get version s = take 255
     (''{'' @ [CHR 0x22] @ ''device'' @ [CHR 0x22] @ '':'' @ [CHR 0x22] @ ''BallyRobot'' @ [CHR 0x22] @ '','' @
      [CHR 0x22] @ ''online'' @ [CHR 0x22] @ '':true,'' @ [CHR 0x22] @ ''firmware'' @ [CHR 0x22] @ '':'' @
      [CHR 0x22] @ version @ [CHR 0x22] @ '','' @ [CHR 0x22] @ ''ota_ready'' @ [CHR 0x22] @ '':'' @
      (if oa_flashing s then ''false'' else ''true'') @ ''}'')"

section \<open>Driver events\<close>

datatype wifi_event = Wifi_Scan_Done | Sta_Connected string u8 auth_mode
  | Sta_Disconnected u8 disconnect_reason | Wifi_Other

fun wifi_event_handler :: "wifi_event \<Rightarrow> ota \<Rightarrow> ota" where
  "wifi_event_handler Wifi_Scan_Done s = s\<lparr>oa_scan_done := True\<rparr>"
| "wifi_event_handler (Sta_Connected ssid channel auth) s =
     ota_log INFO (''OTA: associated with '' @ quoted ssid @ '' on ch'' @ show_dec (unat channel) @ '' ('' @
       auth_mode_str auth @ ''), waiting for DHCP...'') s"
| "wifi_event_handler (Sta_Disconnected code reason) s = s\<lparr>oa_reason := (code, reason), oa_disconnected := True\<rparr>"
| "wifi_event_handler Wifi_Other s = s"

definition ip_text :: "u8 \<times> u8 \<times> u8 \<times> u8 \<Rightarrow> string" where
  "ip_text ip = (case ip of (a, b, c, d) \<Rightarrow> show_dec (unat a) @ ''.'' @ show_dec (unat b) @ ''.'' @
     show_dec (unat c) @ ''.'' @ show_dec (unat d))"

definition ip_event_handler :: "u8 \<times> u8 \<times> u8 \<times> u8 \<Rightarrow> ota \<Rightarrow> ota" where
  "ip_event_handler ip s = s\<lparr>oa_ip := take 15 (ip_text ip),
     oa_ssid := (if oa_index s < length (oa_candidates s) then cr_ssid (oa_candidates s ! oa_index s) else oa_ssid s),
     oa_got_ip := True\<rparr>"

section \<open>The shell module\<close>

definition ota_start_command ::
    "state_name \<Rightarrow> bool \<Rightarrow> bool \<Rightarrow> ota_io \<Rightarrow> sd_card option \<Rightarrow> bool \<Rightarrow> ota \<Rightarrow> shell_result \<times> log_line list \<times> ota" where
  "ota_start_command state usb_active test_active io c mounted s =
     (if state \<noteq> DEBUG then (RESULT_ERROR, [(ERRO, ''OTA update requires DEBUG state; enter DEBUG first'')], s)
      else if usb_active \<or> \<not> mounted then
        (RESULT_ERROR, [(ERRO, ''OTA update unavailable: SD card is not mounted for robot'')], s)
      else if test_active then
        (RESULT_ERROR, [(ERRO, ''OTA update blocked: wait for the DEBUG test to finish'')], s)
      else case start io c s of
        (False, s') \<Rightarrow> (RESULT_ERROR, [(ERRO, ''Failed to start OTA update'')], s')
      | (True, s') \<Rightarrow> (RESULT_OK,
          [(INFO, ''OTA update started: scanning for a known network; press any button to cancel'')], s'))"

fun phase_text :: "ota_phase \<Rightarrow> string" where
  "phase_text SCANNING = ''scanning for a known network''"
| "phase_text CONNECTING = ''connecting''"
| "phase_text CONNECT_FAILED = ''connect failed, retrying''"
| "phase_text SERVING = ''serving OTA updates''"
| "phase_text IDLE = ''idle''"

definition ota_status :: "ota \<Rightarrow> shell_result \<times> log_line list" where
  "ota_status s =
     (RESULT_OK, [(INFO, take 159
        (if oa_phase s = SERVING
         then ''OTA: '' @ phase_text (oa_phase s) @ '', ssid='' @ oa_ssid s @ '' ip='' @ oa_ip s @
           '' (or http://'' @ oa_hostname s @ ''.local/)''
         else ''OTA: '' @ phase_text (oa_phase s)))])"

definition ota_wifi_add :: "string \<Rightarrow> string \<Rightarrow> sd_card option \<Rightarrow> shell_result \<times> log_line list \<times> sd_card option" where
  "ota_wifi_add ssid password c =
     (case add_network (Some ssid) (Some password) c of
        (False, c') \<Rightarrow> (RESULT_ERROR,
          [(ERRO, ''Failed to add network: invalid ssid/password, list full or SD unavailable'')], c')
      | (True, c') \<Rightarrow> (RESULT_OK, [(INFO, ''Network added: '' @ ssid)], c'))"

definition ota_wifi_remove :: "u16 \<Rightarrow> sd_card option \<Rightarrow> shell_result \<times> log_line list \<times> sd_card option" where
  "ota_wifi_remove i c =
     (case remove_network (unat i) c of
        (False, c') \<Rightarrow> (RESULT_ERROR, [(ERRO, ''Invalid network index'')], c')
      | (True, c') \<Rightarrow> (RESULT_OK, [(INFO, ''Network '' @ show_dec (unat i) @ '' removed'')], c'))"

definition ota_wifi_list :: "sd_card option \<Rightarrow> shell_result \<times> log_line list" where
  "ota_wifi_list c =
     (let n = network_count c in
      (RESULT_OK, (INFO, ''OTA networks: '' @ show_dec n) #
        concat (map (\<lambda>i. case get_network i OTA_SSID_MAX_LEN c of
                           None \<Rightarrow> []
                         | Some ssid \<Rightarrow> [(INFO, ''['' @ show_dec i @ ''] '' @ ssid)]) [0..<n])))"

definition ota_scan :: "ota_io \<Rightarrow> ota \<Rightarrow> shell_result \<times> log_line list \<times> ota" where
  "ota_scan io s =
     (case survey io s of
        (False, s') \<Rightarrow> (RESULT_ERROR,
          [(ERRO, ''OTA busy: another scan/connect/serve cycle is already active'')], s')
      | (True, s') \<Rightarrow> (RESULT_OK, [(INFO, ''Scanning for visible networks, see '' @ quoted ''ota scan_results'' @ '' shortly'')], s'))"

definition ota_scan_results :: "ota \<Rightarrow> shell_result \<times> log_line list" where
  "ota_scan_results s =
     (let n = length (oa_last_scan s) in
      (RESULT_OK, (INFO, ''visible='' @ show_dec n) #
        concat (map (\<lambda>i. case get_scan_result i OTA_SSID_MAX_LEN s of
                           None \<Rightarrow> []
                         | Some (ssid, rssi, is_open) \<Rightarrow>
                             [(INFO, ''['' @ show_dec i @ ''] ssid='' @ ssid @ '' rssi='' @ show_int rssi @
                                '' open='' @ (if is_open then ''1'' else ''0''))]) [0..<n])))"


section \<open>Histories\<close>

text \<open>What happens between two ticks arrives in any order.  A request only reaches a server that runs,
  one at a time; its end follows its start.\<close>

datatype ota_event = Tick u8 ota_io | Start_Cmd ota_io "sd_card option" | Start_Direct ota_io "sd_card option"
  | Survey_Cmd ota_io | Leave_Cmd ota_io | Configure ota_tuning | Wifi_Event wifi_event
  | Got_Ip "u8 \<times> u8 \<times> u8 \<times> u8" | Post_Start upload | Post_End upload transfer | Finish_Timer ota_io

fun ota_step :: "ota_event \<Rightarrow> ota \<Rightarrow> ota" where
  "ota_step (Tick b io) s = ota_process b io s"
| "ota_step (Start_Cmd io c) s = snd (start io c s)"
| "ota_step (Start_Direct io c) s = snd (startDirect io c s)"
| "ota_step (Survey_Cmd io) s = snd (survey io s)"
| "ota_step (Leave_Cmd io) s = ota_cancel io s"
| "ota_step (Configure t) s = ota_configure t s"
| "ota_step (Wifi_Event e) s = wifi_event_handler e s"
| "ota_step (Got_Ip ip) s = ip_event_handler ip s"
| "ota_step (Post_Start rq) s = (if oa_server s \<and> \<not> oa_flashing s then snd (post_start rq s) else s)"
| "ota_step (Post_End rq tr) s = (if oa_flashing s then snd (post_finish rq tr s) else s)"
| "ota_step (Finish_Timer io) s = finish_update io s"

inductive ota_reach :: "ota \<Rightarrow> bool" where
  initial: "ota_reach (new_ota leds)"
| stepped: "ota_reach s \<Longrightarrow> ota_reach (ota_step e s)"

definition ota_inv :: "ota_phase \<Rightarrow> bool \<Rightarrow> bool \<Rightarrow> bool \<Rightarrow> bool \<Rightarrow> nat \<Rightarrow> nat \<Rightarrow> bool" where
  "ota_inv phase flashing direct surveying server count i \<longleftrightarrow>
     i \<le> count \<and> count \<le> OTA_MAX_NETWORKS \<and>
     (phase \<in> {CONNECTING, CONNECT_FAILED, SERVING} \<longrightarrow> i < count) \<and>
     (server \<longleftrightarrow> phase = SERVING \<and> \<not> direct) \<and>
     (flashing \<longrightarrow> server) \<and>
     (phase = IDLE \<longrightarrow> \<not> direct \<and> \<not> surveying \<and> count = 0) \<and>
     (surveying \<longrightarrow> phase = SCANNING \<and> \<not> direct \<and> count = 0)"

definition ota_ok :: "ota \<Rightarrow> bool" where
  "ota_ok s \<longleftrightarrow> ota_inv (oa_phase s) (oa_flashing s) (oa_direct s) (oa_survey s) (oa_server s)
     (length (oa_candidates s)) (oa_index s)"

text \<open>Only these parts matter to it; reports, lights and the driver's flags do not.\<close>

definition ota_core :: "ota \<Rightarrow> ota_phase \<times> bool \<times> bool \<times> bool \<times> bool \<times> credential list \<times> nat" where
  "ota_core s = (oa_phase s, oa_flashing s, oa_direct s, oa_survey s, oa_server s, oa_candidates s, oa_index s)"

lemma ota_ok_cong: "ota_core s' = ota_core s \<Longrightarrow> ota_ok s' = ota_ok s"
  by (simp add: ota_core_def ota_ok_def)

lemma emit_fields [simp]:
  "oa_phase (emit e s) = oa_phase s" "oa_flashing (emit e s) = oa_flashing s"
  "oa_direct (emit e s) = oa_direct s" "oa_survey (emit e s) = oa_survey s"
  "oa_server (emit e s) = oa_server s" "oa_candidates (emit e s) = oa_candidates s"
  "oa_index (emit e s) = oa_index s" "oa_tuning (emit e s) = oa_tuning s" "oa_boot (emit e s) = oa_boot s"
  "oa_got_ip (emit e s) = oa_got_ip s" "oa_disconnected (emit e s) = oa_disconnected s"
  "oa_in_flight (emit e s) = oa_in_flight s" "oa_ssid (emit e s) = oa_ssid s"
  "oa_scan_done (emit e s) = oa_scan_done s" "oa_password (emit e s) = oa_password s"
  by (simp_all add: emit_def)

lemma ota_log_fields [simp]:
  "oa_phase (ota_log t m s) = oa_phase s" "oa_flashing (ota_log t m s) = oa_flashing s"
  "oa_direct (ota_log t m s) = oa_direct s" "oa_survey (ota_log t m s) = oa_survey s"
  "oa_server (ota_log t m s) = oa_server s" "oa_candidates (ota_log t m s) = oa_candidates s"
  "oa_index (ota_log t m s) = oa_index s" "oa_tuning (ota_log t m s) = oa_tuning s"
  "oa_boot (ota_log t m s) = oa_boot s" "oa_got_ip (ota_log t m s) = oa_got_ip s"
  "oa_disconnected (ota_log t m s) = oa_disconnected s" "oa_in_flight (ota_log t m s) = oa_in_flight s"
  "oa_ssid (ota_log t m s) = oa_ssid s" "oa_scan_done (ota_log t m s) = oa_scan_done s"
  "oa_password (ota_log t m s) = oa_password s"
  by (simp_all add: ota_log_def)

lemma set_led_fields [simp]:
  "oa_phase (set_led i m io s) = oa_phase s" "oa_flashing (set_led i m io s) = oa_flashing s"
  "oa_direct (set_led i m io s) = oa_direct s" "oa_survey (set_led i m io s) = oa_survey s"
  "oa_server (set_led i m io s) = oa_server s" "oa_candidates (set_led i m io s) = oa_candidates s"
  "oa_index (set_led i m io s) = oa_index s" "oa_boot (set_led i m io s) = oa_boot s"
  "oa_got_ip (set_led i m io s) = oa_got_ip s" "oa_disconnected (set_led i m io s) = oa_disconnected s"
  "oa_scan_done (set_led i m io s) = oa_scan_done s" "oa_tuning (set_led i m io s) = oa_tuning s"
  "oa_in_flight (set_led i m io s) = oa_in_flight s" "oa_ssid (set_led i m io s) = oa_ssid s"
  by (simp_all add: set_led_def)

lemma status_led_fields [simp]:
  "oa_phase (update_status_led p io s) = oa_phase s" "oa_flashing (update_status_led p io s) = oa_flashing s"
  "oa_direct (update_status_led p io s) = oa_direct s" "oa_survey (update_status_led p io s) = oa_survey s"
  "oa_server (update_status_led p io s) = oa_server s" "oa_candidates (update_status_led p io s) = oa_candidates s"
  "oa_index (update_status_led p io s) = oa_index s" "oa_boot (update_status_led p io s) = oa_boot s"
  "oa_got_ip (update_status_led p io s) = oa_got_ip s"
  "oa_disconnected (update_status_led p io s) = oa_disconnected s"
  "oa_scan_done (update_status_led p io s) = oa_scan_done s"
  "oa_tuning (update_status_led p io s) = oa_tuning s"
  "oa_ssid (update_status_led p io s) = oa_ssid s"
  by (cases p; simp add: advance_carousel_def)+

lemma fail_candidate_core:
  "ota_core (fail_candidate io s) = (CONNECT_FAILED, oa_flashing s, oa_direct s, oa_survey s, oa_server s, oa_candidates s, oa_index s)"
  by (simp add: fail_candidate_def ota_core_def)

lemma fail_candidate_boot [simp]: "oa_boot (fail_candidate io s) = oa_boot s"
  by (simp add: fail_candidate_def)

lemma fail_candidate_ok:
  assumes "ota_ok s" and "oa_index s < length (oa_candidates s)" and "\<not> oa_server s" and "\<not> oa_survey s"
  shows "ota_ok (fail_candidate io s)"
  using assms by (auto simp: ota_ok_def ota_inv_def fail_candidate_def)

lemma scan_start_core [simp]: "ota_core (scan_start io s) = ota_core s"
  by (simp add: scan_start_def ota_core_def)

lemma scan_match_bound:
  "scan_match aps cs i = (j, r) \<Longrightarrow> i \<le> j \<and> j \<le> i + length cs \<and> (r \<noteq> None \<longrightarrow> j < i + length cs)"
  by (induction aps cs i rule: scan_match.induct) (auto split: option.splits)

lemma upgrade_ok:
  assumes "ota_ok s" and "oa_phase s \<noteq> IDLE" and "oa_direct s"
  shows "ota_ok (upgrade_session io s)"
  using assms
  by (auto simp: upgrade_session_def Let_def start_http_server_def ota_ok_def ota_inv_def fail_candidate_def)

text \<open>A scan begun: what remains to be seen of it is its phase and candidates.\<close>

lemma begin_scanning_idle:
  assumes "oa_phase s = IDLE"
  shows "ota_core (snd (begin_scanning direct v io c s)) =
     (if (case c of None \<Rightarrow> False | Some d \<Rightarrow> is_mounted d) then
        (if parse_list_file OTA_MAX_NETWORKS c \<noteq> []
         then (SCANNING, oa_flashing s, direct, oa_survey s, oa_server s, parse_list_file OTA_MAX_NETWORKS c, 0)
         else (IDLE, oa_flashing s, oa_direct s, oa_survey s, oa_server s, [], 0))
      else ota_core s)"
  using assms by (simp add: begin_scanning_def load_candidates_def scan_start_def ota_core_def Let_def split: option.split)

lemma begin_scanning_ok [inv_intros]:
  assumes "ota_ok s"
  shows "ota_ok (snd (begin_scanning direct v io c s))"
proof (cases "oa_phase s = IDLE")
  case False
  then show ?thesis using assms upgrade_ok [OF assms] by (simp add: begin_scanning_def)
next
  case True
  let ?t = "snd (begin_scanning direct v io c s)"
  have f: "\<not> oa_flashing s" "\<not> oa_direct s" "\<not> oa_survey s" "\<not> oa_server s"
    using assms True by (auto simp: ota_ok_def ota_inv_def)
  have n: "length (parse_list_file OTA_MAX_NETWORKS c) \<le> OTA_MAX_NETWORKS" by (rule parse_list_proper(2))
  note core = begin_scanning_idle [OF True, of direct v io c]
  consider "ota_core ?t = (SCANNING, False, direct, False, False, parse_list_file OTA_MAX_NETWORKS c, 0)"
    | "ota_core ?t = (IDLE, False, False, False, False, [], 0)" | "ota_core ?t = ota_core s"
    using core f by (auto split: if_splits)
  then show ?thesis
  proof cases
    case 1
    then show ?thesis using n by (simp add: ota_core_def ota_ok_def ota_inv_def)
  next
    case 2
    then show ?thesis by (simp add: ota_core_def ota_ok_def ota_inv_def)
  next
    case 3
    then show ?thesis using assms ota_ok_cong by blast
  qed
qed

lemma survey_ok [inv_intros]: "ota_ok s \<Longrightarrow> ota_ok (snd (survey io s))"
  by (auto simp: survey_def Let_def ota_ok_def ota_inv_def scan_start_def)

lemma cancel_ok [inv_intros]: "ota_ok s \<Longrightarrow> ota_ok (ota_cancel io s)"
  by (auto simp: ota_cancel_def Let_def ota_ok_def ota_inv_def stop_http_server_def upt_rec)

lemma connect_to_ok:
  assumes "ota_ok s" and "oa_phase s = SCANNING" and "\<not> oa_survey s" and "oa_index s < length (oa_candidates s)"
  shows "ota_ok (connect_to io a s)"
  using assms by (auto simp: connect_to_def Let_def ota_ok_def ota_inv_def fail_candidate_def)

lemma scan_done_ok:
  assumes "ota_ok s" and "oa_phase s = SCANNING"
  shows "ota_ok (handle_scan_done io s)"
proof (cases "oa_survey s")
  case True
  then show ?thesis using assms by (auto simp: handle_scan_done_def retain_scan_def Let_def ota_ok_def ota_inv_def)
next
  case False
  obtain j r where m: "scan_match (take OTA_MAX_SCAN_RESULTS (wi_aps io)) (drop (oa_index s) (oa_candidates s)) (oa_index s) = (j, r)"
    by (cases "scan_match (take OTA_MAX_SCAN_RESULTS (wi_aps io)) (drop (oa_index s) (oa_candidates s)) (oa_index s)")
  note b = scan_match_bound [OF m]
  show ?thesis
  proof (cases r)
    case None
    then show ?thesis using assms False m
      by (auto simp: handle_scan_done_def retain_scan_def Let_def ota_ok_def ota_inv_def)
  next
    case (Some a)
    let ?s = "retain_scan io s\<lparr>oa_index := j\<rparr>"
    have "ota_ok ?s" using assms b Some by (auto simp: retain_scan_def ota_ok_def ota_inv_def)
    moreover have "handle_scan_done io s = connect_to io a ?s"
      using False m Some by (simp add: handle_scan_done_def retain_scan_def Let_def)
    ultimately show ?thesis using assms b Some False by (auto simp: retain_scan_def intro!: connect_to_ok)
  qed
qed

lemma scanning_ok:
  assumes "ota_ok s" and "oa_phase s = SCANNING"
  shows "ota_ok (process_scanning io s)"
proof -
  have "ota_ok (handle_scan_done io (s\<lparr>oa_scan_done := False\<rparr>))"
    by (rule scan_done_ok) (use assms in \<open>simp_all add: ota_ok_def\<close>)
  then show ?thesis using assms(1) by (simp add: process_scanning_def Let_def scan_start_def ota_ok_def)
qed

lemma connecting_ok:
  assumes "ota_ok s" and "oa_phase s = CONNECTING"
  shows "ota_ok (process_connecting io s)"
proof -
  have i: "oa_index s < length (oa_candidates s)" "\<not> oa_server s" "\<not> oa_survey s" "\<not> oa_flashing s"
    using assms by (auto simp: ota_ok_def ota_inv_def)
  then show ?thesis using assms
    by (auto simp: process_connecting_def connected_def start_http_server_def Let_def ota_ok_def ota_inv_def fail_candidate_def)
qed

lemma process_ok [inv_intros]:
  assumes "ota_ok s"
  shows "ota_ok (ota_process b io s)"
proof -
  let ?s = "update_status_led (oa_phase s) io s"
  have core: "ota_core ?s = ota_core s" by (simp add: ota_core_def)
  then have ok: "ota_ok ?s" using assms ota_ok_cong by blast
  have "ota_ok (process_phase (oa_phase s) io ?s)"
  proof (cases "oa_phase s")
    case SCANNING
    have "oa_phase ?s = SCANNING" unfolding status_led_fields by (rule SCANNING)
    from scanning_ok [OF ok this] SCANNING show ?thesis by simp
  next
    case CONNECTING
    then show ?thesis using ok connecting_ok [of ?s io] by simp
  next
    case CONNECT_FAILED
    then show ?thesis using ok by (auto simp: try_next_candidate_def ota_ok_def ota_inv_def)
  qed (use ok in simp_all)
  then show ?thesis using assms cancel_ok [OF assms] by (simp add: ota_process_def Let_def)
qed

lemma ota_step_ok [inv_intros]:
  assumes "ota_ok s"
  shows "ota_ok (ota_step e s)"
proof (cases e)
  case (Wifi_Event w)
  then show ?thesis using assms by (cases w) (auto simp: ota_ok_def)
next
  case (Post_Start rq)
  then show ?thesis using assms by (auto simp: post_start_def ota_respond_def ota_ok_def ota_inv_def)
next
  case (Post_End rq tr)
  then show ?thesis using assms
    by (cases tr) (auto simp: post_finish_def ota_respond_def Let_def ota_ok_def ota_inv_def)
next
  case (Finish_Timer io)
  then show ?thesis using cancel_ok [OF assms] by (simp add: finish_update_def ota_ok_def)
next
  case (Got_Ip ip)
  then show ?thesis using assms by (simp add: ip_event_handler_def ota_ok_def)
next
  case (Configure t)
  then show ?thesis using assms by (simp add: ota_configure_def ota_ok_def)
qed (use assms in \<open>auto simp: start_def startDirect_def intro: inv_intros\<close>)

lemma ota_reach_ok: "ota_reach s \<Longrightarrow> ota_ok s"
proof (induction rule: ota_reach.induct)
  case (initial leds)
  show ?case by (simp add: new_ota_def ota_ok_def ota_inv_def ota_sizes)
qed (rule ota_step_ok)


section \<open>The upload endpoint\<close>

text \<open>C31: At any time the upload server runs exactly while an upload session, not a direct
  connection, is connected; an image is only being written while it runs.\<close>

theorem endpoint_only_in_upload_session:
  assumes "ota_reach s"
  shows "(oa_server s \<longleftrightarrow> is_upload_session s \<and> oa_phase s = SERVING) \<and> (oa_flashing s \<longrightarrow> oa_server s)"
  using ota_reach_ok [OF assms] by (auto simp: ota_ok_def ota_inv_def is_upload_session_def is_active_def)

text \<open>While an image is being written nothing ends the session: neither a button, a command, a
  lost link nor the timer of an earlier upload; only the end of the upload does.\<close>

theorem flashing_not_interrupted:
  assumes "ota_reach s" and "oa_flashing s" and "\<forall>rq tr. e \<noteq> Post_End rq tr"
  shows "oa_flashing (ota_step e s) \<and> oa_server (ota_step e s) \<and> oa_phase (ota_step e s) = SERVING"
proof -
  have ok: "oa_server s" "oa_phase s = SERVING" "\<not> oa_direct s"
    using ota_reach_ok [OF assms(1)] assms(2) by (auto simp: ota_ok_def ota_inv_def)
  show ?thesis
  proof (cases e)
    case (Tick b io)
    have "ota_process b io s = update_status_led SERVING io s"
      using ok assms(2) by (simp add: ota_process_def Let_def)
    then show ?thesis using Tick ok assms(2) by (simp del: update_status_led.simps)
  next
    case (Wifi_Event w)
    then show ?thesis using ok assms(2) by (cases w) simp_all
  qed (use ok assms in \<open>simp_all add: start_def startDirect_def begin_scanning_def survey_def ota_cancel_def
      ota_configure_def ip_event_handler_def finish_update_def\<close>)
qed

text \<open>What reaches the boot loader is as long as announced.\<close>

lemma receive_length:
  "receive rs remaining written = Complete img \<Longrightarrow> 0 \<le> remaining \<Longrightarrow>
     length img = length written + nat remaining"
proof (induction rs remaining written rule: receive.induct)
  case (2 r rs remaining written)
  show ?case
  proof (cases r)
    case (Recv bs w)
    define got where "got = take (nat (min remaining 1024)) bs"
    show ?thesis
    proof (cases "remaining > 0")
      case True
      with "2.prems"(1) have "got \<noteq> []" "w"
        "receive rs (remaining - int (length got)) (written @ got) = Complete img"
        by (simp_all add: Recv got_def [symmetric] Let_def split: if_splits)
      moreover have "int (length got) \<le> remaining" using True by (simp add: got_def)
      ultimately have "length img = length (written @ got) + nat (remaining - int (length got))"
        using "2.IH"(2) [of bs w got] True Recv got_def by simp
      then show ?thesis using \<open>int (length got) \<le> remaining\<close> by simp
    qed (use "2.prems" in simp)
  qed (use 2 in \<open>auto split: if_splits\<close>)
qed (simp split: if_splits)

lemma receive_nothing: "remaining \<le> 0 \<Longrightarrow> receive rs remaining written = Complete written"
  by (cases rs) simp_all

lemma sint_u32: "sint (w :: u32) = (if w < 0x80000000 then uint w else uint w - 2 ^ 32)"
proof -
  have lt: "uint w < 2 ^ 32" using uint_lt2p [of w] by simp
  have s: "sint w = (uint w + 2 ^ 31) mod 2 ^ 32 - 2 ^ 31"
    by (simp add: sint_uint signed_take_bit_eq_take_bit_shift take_bit_eq_mod)
  show ?thesis
  proof (cases "w < 0x80000000")
    case True
    then have "uint w < 2 ^ 31" by (simp add: word_less_def)
    then show ?thesis using True s by simp
  next
    case False
    then have "2 ^ 31 \<le> uint w" by (simp add: word_less_def)
    then have "(uint w + 2 ^ 31) mod 2 ^ 32 = uint w + 2 ^ 31 - 2 ^ 32"
      using lt mod_pos_pos_trivial [of "uint w + 2 ^ 31 - 2 ^ 32" "2 ^ 32"]
        mod_add_self2 [of "uint w + 2 ^ 31 - 2 ^ 32" "2 ^ 32"] by (simp add: add.commute)
    then show ?thesis using False s by simp
  qed
qed

lemma complete_length:
  fixes len :: u32
  assumes "receive rs (sint len) [] = Complete img"
  shows "length img = (if len < 0x80000000 then unat len else 0)"
proof (cases "len < 0x80000000")
  case True
  then show ?thesis using receive_length [OF assms] by (simp add: sint_u32)
next
  case False
  then have "sint len \<le> 0" using uint_lt2p [of len] by (simp add: sint_u32)
  then show ?thesis using assms receive_nothing [of "sint len" rs "[]"] False by simp
qed

lemma staged_by_upload:
  assumes "handle_update_post rq rs s = (ok, s')"
  shows "if ok then
       (oa_password s = [] \<or> up_header rq OTA_PASSWORD_MAX_LEN = Some (oa_password s)) \<and>
       up_content_len rq \<noteq> 0 \<and> up_partition rq \<and> up_begin rq \<and> up_end rq \<and> up_set_boot rq \<and>
       (\<exists>img. receive rs (sint (up_content_len rq)) [] = Complete img \<and> oa_boot s' = Some img \<and>
          length img = (if up_content_len rq < 0x80000000 then unat (up_content_len rq) else 0))
     else oa_boot s' = oa_boot s"
proof (cases "post_start rq s")
  case (Pair started s1)
  have s1: "oa_boot s1 = oa_boot s" using Pair by (auto simp: post_start_def ota_respond_def split: if_splits)
  show ?thesis
  proof (cases started)
    case False
    then show ?thesis using assms Pair s1 by (auto simp: handle_update_post_def)
  next
    case True
    let ?tr = "receive rs (sint (up_content_len rq)) []"
    have guards: "oa_password s = [] \<or> up_header rq OTA_PASSWORD_MAX_LEN = Some (oa_password s)"
      "up_content_len rq \<noteq> 0" "up_partition rq" "up_begin rq"
      using Pair True by (auto simp: post_start_def split: if_splits)
    have h: "handle_update_post rq rs s = (case ?tr of Waiting _ \<Rightarrow> (False, s1) | tr \<Rightarrow> post_finish rq tr s1)"
      using Pair True by (simp add: handle_update_post_def)
    show ?thesis
    proof (cases ?tr)
      case (Complete img)
      have "length img = (if up_content_len rq < 0x80000000 then unat (up_content_len rq) else 0)"
        using complete_length [OF Complete] .
      then show ?thesis using assms h Complete guards s1
        by (auto simp: post_finish_def ota_respond_def Let_def split: if_splits)
    qed (use assms h s1 in \<open>auto simp: post_finish_def ota_respond_def Let_def\<close>)
  qed
qed



section \<open>Joining a network\<close>

text \<open>The first of the remaining candidates that is visible.\<close>

lemma scan_match_first:
  "scan_match aps cs i = (j, Some a) \<Longrightarrow>
     i \<le> j \<and> j < i + length cs \<and> find (names (cs ! (j - i))) aps = Some a \<and>
     (\<forall>k. i \<le> k \<longrightarrow> k < j \<longrightarrow> find (names (cs ! (k - i))) aps = None)"
proof (induction aps cs i rule: scan_match.induct)
  case (2 aps c cs i)
  show ?case
  proof (cases "find (names c) aps")
    case None
    with 2 have IH: "Suc i \<le> j" "j < Suc i + length cs" "find (names (cs ! (j - Suc i))) aps = Some a"
      "\<forall>k. Suc i \<le> k \<longrightarrow> k < j \<longrightarrow> find (names (cs ! (k - Suc i))) aps = None" by auto
    have "find (names ((c # cs) ! (k - i))) aps = None" if "i \<le> k" "k < j" for k
      using IH(4) None that by (cases "k = i") (auto simp: nth_Cons' Suc_diff_Suc)
    then show ?thesis using IH by (auto simp: nth_Cons' Suc_diff_Suc)
  qed (use 2 in auto)
qed simp

lemma scan_match_found:
  "j < length cs \<Longrightarrow> find (names (cs ! j)) aps = Some a \<Longrightarrow>
     (\<forall>k < j. find (names (cs ! k)) aps = None) \<Longrightarrow> scan_match aps cs i = (i + j, Some a)"
proof (induction cs arbitrary: i j)
  case (Cons c cs)
  show ?case
  proof (cases j)
    case (Suc m)
    have "find (names c) aps = None" using Cons.prems(3) Suc by force
    moreover have "\<forall>k < m. find (names (cs ! k)) aps = None" using Cons.prems(3) Suc by force
    ultimately show ?thesis using Cons.IH [of m "Suc i"] Cons.prems Suc by simp
  qed (use Cons in simp)
qed simp

text \<open>A finished scan that shows the candidate \<open>j\<close> and none before it.\<close>

definition shows_candidate :: "ota_io \<Rightarrow> ota \<Rightarrow> nat \<Rightarrow> access_point \<Rightarrow> bool" where
  "shows_candidate io s j a \<longleftrightarrow>
     oa_index s \<le> j \<and> j < length (oa_candidates s) \<and>
     find (names (oa_candidates s ! j)) (take OTA_MAX_SCAN_RESULTS (wi_aps io)) = Some a \<and>
     (\<forall>k. oa_index s \<le> k \<longrightarrow> k < j \<longrightarrow>
        find (names (oa_candidates s ! k)) (take OTA_MAX_SCAN_RESULTS (wi_aps io)) = None)"

lemma scan_leads_to_connect:
  assumes "oa_phase s = SCANNING" and "oa_scan_done s" and "\<not> oa_survey s"
    and "shows_candidate io s j a"
  shows "\<exists>s1. ota_process 0 io s = connect_to io a s1 \<and> oa_index s1 = j \<and> oa_candidates s1 = oa_candidates s \<and>
    oa_direct s1 = oa_direct s \<and> oa_got_ip s1 = oa_got_ip s \<and> oa_disconnected s1 = oa_disconnected s \<and>
    oa_tuning s1 = oa_tuning s"
proof -
  define s0 where "s0 = (update_status_led SCANNING io s)\<lparr>oa_scan_done := False\<rparr>"
  define s1 where "s1 = (retain_scan io s0)\<lparr>oa_index := j\<rparr>"
  have f0: "oa_index s0 = oa_index s" "oa_candidates s0 = oa_candidates s" "oa_survey s0 = oa_survey s"
    "oa_direct s0 = oa_direct s" "oa_got_ip s0 = oa_got_ip s" "oa_disconnected s0 = oa_disconnected s"
    "oa_tuning s0 = oa_tuning s"
    unfolding s0_def by (simp_all del: update_status_led.simps)
  let ?aps = "take OTA_MAX_SCAN_RESULTS (wi_aps io)" and ?cs = "drop (oa_index s) (oa_candidates s)"
  have "scan_match ?aps ?cs (oa_index s) = (oa_index s + (j - oa_index s), Some a)"
  proof (rule scan_match_found)
    show "j - oa_index s < length ?cs" "find (names (?cs ! (j - oa_index s))) ?aps = Some a"
      using assms(4) by (auto simp: shows_candidate_def)
    show "\<forall>k < j - oa_index s. find (names (?cs ! k)) ?aps = None"
    proof (intro allI impI)
      fix k assume "k < j - oa_index s"
      then show "find (names (?cs ! k)) ?aps = None"
        using assms(4) by (simp add: shows_candidate_def)
    qed
  qed
  then have m: "scan_match ?aps (drop (oa_index s0) (oa_candidates s0)) (oa_index s0) = (j, Some a)"
    using assms(4) by (simp add: f0 shows_candidate_def)
  have "ota_process 0 io s = handle_scan_done io s0"
    using assms(1,2) unfolding s0_def
    by (simp add: ota_process_def process_scanning_def Let_def del: update_status_led.simps)
  also have "\<dots> = connect_to io a s1"
    using m assms(3) by (simp add: handle_scan_done_def retain_scan_def s1_def f0)
  finally have "ota_process 0 io s = connect_to io a s1" .
  moreover have "oa_index s1 = j" "oa_candidates s1 = oa_candidates s" "oa_direct s1 = oa_direct s"
    "oa_got_ip s1 = oa_got_ip s" "oa_disconnected s1 = oa_disconnected s" "oa_tuning s1 = oa_tuning s"
    by (simp_all add: s1_def retain_scan_def f0)
  ultimately show ?thesis by (intro exI [of _ s1]) simp
qed

lemma connect_accepted:
  assumes "wi_set_config io" and "wi_connects io"
  shows "oa_phase (connect_to io a s) = CONNECTING" "oa_index (connect_to io a s) = oa_index s"
    "oa_candidates (connect_to io a s) = oa_candidates s" "oa_direct (connect_to io a s) = oa_direct s"
    "oa_got_ip (connect_to io a s) = oa_got_ip s" "oa_disconnected (connect_to io a s) = oa_disconnected s"
    "Set_Config (sta_config io (oa_candidates s ! oa_index s) a) \<in> set (oa_out (connect_to io a s))"
  using assms by (simp_all add: connect_to_def Let_def)
     (simp add: emit_def ota_log_def)

text \<open>When a finished scan shows stored networks, the first of them in the order of the file is
  joined: once the driver accepts and an address arrives, the robot is connected to it, and serves
  uploads unless the connection was asked for as a direct one.\<close>

theorem joins_first_visible_network:
  assumes "ota_reach s" and "oa_phase s = SCANNING" and "oa_scan_done s" and "\<not> oa_survey s"
    and "shows_candidate io1 s j a" and "wi_set_config io1" and "wi_connects io1" and "wi_http_starts io2"
  shows "oa_phase (fold ota_step [Tick 0 io1, Got_Ip ip, Tick 0 io2] s) = SERVING \<and>
    oa_ssid (fold ota_step [Tick 0 io1, Got_Ip ip, Tick 0 io2] s) = cr_ssid (oa_candidates s ! j) \<and>
    (oa_server (fold ota_step [Tick 0 io1, Got_Ip ip, Tick 0 io2] s) \<longleftrightarrow> \<not> oa_direct s)"
proof -
  obtain s1 where s1: "ota_process 0 io1 s = connect_to io1 a s1" "oa_index s1 = j"
    "oa_candidates s1 = oa_candidates s" "oa_direct s1 = oa_direct s"
    using scan_leads_to_connect [OF assms(2-5)] by blast
  define s2 where "s2 = ip_event_handler ip (connect_to io1 a s1)"
  have c: "oa_phase s2 = CONNECTING" "oa_direct s2 = oa_direct s" "oa_got_ip s2"
    "oa_ssid s2 = cr_ssid (oa_candidates s ! j)"
    using connect_accepted [OF assms(6,7), where a = a and s = s1] assms(5) s1
    by (simp_all add: s2_def ip_event_handler_def shows_candidate_def)
  let ?f = "ota_process 0 io2 s2"
  have f: "fold ota_step [Tick 0 io1, Got_Ip ip, Tick 0 io2] s = ?f" by (simp add: s1 s2_def)
  have "ota_reach (fold ota_step [Tick 0 io1, Got_Ip ip, Tick 0 io2] s)"
    using assms(1) by (auto intro: ota_reach.stepped simp del: ota_step.simps)
  then have "ota_ok ?f" unfolding f by (rule ota_reach_ok)
  moreover have "oa_phase ?f = SERVING \<and> oa_ssid ?f = cr_ssid (oa_candidates s ! j) \<and> oa_direct ?f = oa_direct s"
    using c assms(8)
    by (simp add: ota_process_def process_connecting_def connected_def start_http_server_def Let_def
      del: update_status_led.simps)
  ultimately show ?thesis unfolding f by (auto simp: ota_ok_def ota_inv_def)
qed

text \<open>A disconnection reported after an attempt was given up (the updater itself disconnects
  then) stays noted: the next attempt, which the driver accepted, is given up at its first tick
  although nothing happened to it and its time has not passed.\<close>

theorem stale_disconnect_fails_next_attempt:
  assumes "oa_phase s = SCANNING" and "oa_scan_done s" and "\<not> oa_survey s" and "\<not> oa_got_ip s"
    and "shows_candidate io1 s j a" and "wi_set_config io1" and "wi_connects io1"
  shows "let s1 = ota_process 0 io1 (wifi_event_handler (Sta_Disconnected code reason) s);
             s2 = ota_process 0 io2 s1
         in oa_phase s1 = CONNECTING \<and> oa_index s1 = j \<and> oa_phase s2 = CONNECT_FAILED \<and>
            Wifi_Disconnect \<in> set (oa_out s2)"
proof -
  define s0 where "s0 = wifi_event_handler (Sta_Disconnected code reason) s"
  have pre: "oa_phase s0 = SCANNING" "oa_scan_done s0" "\<not> oa_survey s0" "shows_candidate io1 s0 j a"
    using assms by (simp_all add: s0_def shows_candidate_def)
  obtain t where t: "ota_process 0 io1 s0 = connect_to io1 a t" "oa_index t = j"
    "oa_got_ip t = oa_got_ip s0" "oa_disconnected t = oa_disconnected s0"
    using scan_leads_to_connect [OF pre] by blast
  let ?s1 = "ota_process 0 io1 s0"
  have s1: "oa_phase ?s1 = CONNECTING" "oa_index ?s1 = j" "\<not> oa_got_ip ?s1" "oa_disconnected ?s1"
    using connect_accepted [OF assms(6,7), where a = a and s = t] t assms(4) by (simp_all add: s0_def)
  define u where "u = update_status_led CONNECTING io2 ?s1"
  have u: "oa_phase u = CONNECTING" "\<not> oa_got_ip u" "oa_disconnected u"
    using s1 unfolding u_def by (simp_all del: update_status_led.simps)
  have "ota_process 0 io2 ?s1 = process_connecting io2 u"
    using s1(1) by (simp add: ota_process_def u_def Let_def del: update_status_led.simps)
  then have "oa_phase (ota_process 0 io2 ?s1) = CONNECT_FAILED \<and> Wifi_Disconnect \<in> set (oa_out (ota_process 0 io2 ?s1))"
  proof -
    assume p: "ota_process 0 io2 ?s1 = process_connecting io2 u"
    from u have "\<exists>v. process_connecting io2 u = fail_candidate io2 v"
      unfolding process_connecting_def Let_def by (simp only: if_True if_False) blast
    then obtain v where "process_connecting io2 u = fail_candidate io2 v" by blast
    then show ?thesis unfolding p by (simp add: fail_candidate_def emit_def)
  qed
  then show ?thesis using s1 by (simp add: Let_def s0_def [symmetric] del: wifi_event_handler.simps)
qed

text \<open>A stored network whose name has 32 characters, the most that is accepted, is never asked
  for under its name: the driver's field, of 32 octets, receives the first 31 of them.\<close>

theorem longest_names_are_cut:
  assumes "oa_phase s = SCANNING" and "oa_scan_done s" and "\<not> oa_survey s"
    and "shows_candidate io s j a" and "wi_set_config io" and "wi_connects io"
    and "length (cr_ssid (oa_candidates s ! j)) = 32" and "wi_ssid_size io = 32"
  shows "\<exists>w. Set_Config w \<in> set (oa_out (ota_process 0 io s)) \<and>
     wc_ssid w = butlast (cr_ssid (oa_candidates s ! j)) \<and> oa_phase (ota_process 0 io s) = CONNECTING"
proof -
  obtain t where t: "ota_process 0 io s = connect_to io a t" "oa_index t = j" "oa_candidates t = oa_candidates s"
    using scan_leads_to_connect [OF assms(1-4)] by blast
  have "wc_ssid (sta_config io (oa_candidates t ! oa_index t) a) = butlast (cr_ssid (oa_candidates s ! j))"
    using assms(7,8) by (simp add: sta_config_def t butlast_conv_take)
  then show ?thesis
    using connect_accepted(1,7) [OF assms(5,6), where a = a and s = t] t(1) by metis
qed

text \<open>A request to update, or for a direct connection, that comes while the visible networks are
  being listed reports success, but is forgotten: nothing changes, and the listing's end leaves the
  updater idle.\<close>

theorem start_during_survey_is_lost:
  assumes "ota_reach s" and "oa_survey s" and "oa_scan_done s"
  shows "start io c s = (True, s) \<and> startDirect io c s = (True, s) \<and> oa_phase (ota_process 0 io' s) = IDLE"
proof -
  have ok: "oa_phase s = SCANNING" "\<not> oa_direct s" using ota_reach_ok [OF assms(1)] assms(2) by (auto simp: ota_ok_def ota_inv_def)
  let ?u = "(update_status_led SCANNING io' s)\<lparr>oa_scan_done := False\<rparr>"
  have "ota_process 0 io' s = handle_scan_done io' ?u"
    using ok assms(3) by (simp add: ota_process_def process_scanning_def Let_def del: update_status_led.simps)
  moreover have "oa_phase (handle_scan_done io' ?u) = IDLE"
    using assms(2) by (simp add: handle_scan_done_def retain_scan_def Let_def del: update_status_led.simps)
  ultimately show ?thesis using ok by (simp add: start_def startDirect_def begin_scanning_def)
qed


section \<open>A session\<close>

definition demo_ap :: "string \<Rightarrow> access_point" where
  "demo_ap name = \<lparr>ap_ssid = name, ap_bssid = [1, 2, 3, 4, 5, 6], ap_primary = 6, ap_rssi = -60, ap_auth = AUTH_WPA2_PSK\<rparr>"

definition demo_io :: "u32 \<Rightarrow> ota_io" where
  "demo_io t = \<lparr>wi_ssid_size = 32, wi_password_size = 64, wi_now = t, wi_scan_starts = True,
     wi_aps = [demo_ap ''lab'', demo_ap ''home''], wi_set_config = True, wi_connects = True, wi_http_starts = True\<rparr>"

definition demo_list :: "sd_card option" where
  "demo_list = Some (demo_list_card (''away,pw0'' @ [CHR 0x0A] @ ''home,pw1'' @ [CHR 0x0A]))"

definition demo_started :: ota where
  "demo_started = fold ota_step [Start_Cmd (demo_io 0) demo_list, Wifi_Event Wifi_Scan_Done] (new_ota new_out_flags)"

definition demo_home :: credential where "demo_home = \<lparr>cr_ssid = ''home'', cr_password = ''pw1''\<rparr>"

lemma fold_reach: "ota_reach s \<Longrightarrow> ota_reach (fold ota_step es s)"
  by (induction es arbitrary: s) (auto intro: ota_reach.stepped simp del: ota_step.simps)

lemma demo_started_facts:
  "ota_reach demo_started" "oa_phase demo_started = SCANNING" "oa_scan_done demo_started"
  "\<not> oa_survey demo_started" "\<not> oa_got_ip demo_started" "\<not> oa_direct demo_started"
  "oa_candidates demo_started = [\<lparr>cr_ssid = ''away'', cr_password = ''pw0''\<rparr>, demo_home]"
  "oa_index demo_started = 0"
proof -
  show "ota_reach demo_started" unfolding demo_started_def by (intro fold_reach ota_reach.initial)
  have p: "parse_list_file OTA_MAX_NETWORKS demo_list = [\<lparr>cr_ssid = ''away'', cr_password = ''pw0''\<rparr>, demo_home]"
    by code_simp
  have m: "case demo_list of None \<Rightarrow> True | Some d \<Rightarrow> \<not> is_mounted d \<Longrightarrow> False" by (simp add: demo_list_def demo_list_card_def is_mounted_def)
  show "oa_phase demo_started = SCANNING" "oa_scan_done demo_started" "\<not> oa_survey demo_started"
    "\<not> oa_got_ip demo_started" "\<not> oa_direct demo_started"
    "oa_candidates demo_started = [\<lparr>cr_ssid = ''away'', cr_password = ''pw0''\<rparr>, demo_home]"
    "oa_index demo_started = 0"
    using p m unfolding demo_started_def
    by (auto simp: start_def begin_scanning_def new_ota_def load_candidates_def Let_def scan_start_def)
qed

lemma demo_shows: "shows_candidate (demo_io t) demo_started 1 (demo_ap ''home'')"
  by (auto simp: shows_candidate_def demo_started_facts demo_io_def demo_home_def names_def demo_ap_def
    OTA_MAX_SCAN_RESULTS_def less_Suc_eq numeral_nat)

lemma joins_first_visible_network_witness:
  "oa_phase (fold ota_step [Tick 0 (demo_io 5), Got_Ip (10, 0, 0, 7), Tick 0 (demo_io 9)] demo_started) = SERVING \<and>
   oa_ssid (fold ota_step [Tick 0 (demo_io 5), Got_Ip (10, 0, 0, 7), Tick 0 (demo_io 9)] demo_started) = ''home''"
  using joins_first_visible_network [OF demo_started_facts(1-4) demo_shows [of 5], where ?io2.0 = "demo_io 9" and ip = "(10, 0, 0, 7)"]
    demo_started_facts(7) by (simp add: demo_io_def demo_home_def)

lemma stale_disconnect_fails_next_attempt_witness:
  "oa_phase (ota_process 0 (demo_io 6) (ota_process 0 (demo_io 5)
     (wifi_event_handler (Sta_Disconnected 8 ASSOC_LEAVE) demo_started))) = CONNECT_FAILED"
  using stale_disconnect_fails_next_attempt [OF demo_started_facts(2-5) demo_shows [of 5],
    where ?io2.0 = "demo_io 6" and code = 8 and reason = ASSOC_LEAVE]
  by (simp add: demo_io_def Let_def)

lemma endpoint_only_in_upload_session_witness:
  "is_upload_session demo_started \<and> \<not> oa_server demo_started \<and> \<not> oa_flashing demo_started"
  using endpoint_only_in_upload_session [OF demo_started_facts(1)] demo_started_facts(2,6)
  by (auto simp add: is_upload_session_def is_active_def)

lemma longest_names_are_cut_witness:
  "wc_ssid (sta_config (demo_io 0) \<lparr>cr_ssid = ''0123456789abcdef0123456789abcdef'', cr_password = []\<rparr> (demo_ap [])) =
     ''0123456789abcdef0123456789abcde''"
  by (simp add: sta_config_def demo_io_def)

end
