(* ===== verification/Send_Queue.thy ===== *)
theory Send_Queue
  imports Bounded_Fifo Btp_Command
begin

text \<open>
  What the three direct links share (\<^verbatim>\<open>lib/BtpTransport/TcpSendAdmission.h\<close> and the send queues of
  \<^verbatim>\<open>lib/TcpBtpServer\<close>, \<^verbatim>\<open>lib/BleBtpServer\<close>, \<^verbatim>\<open>lib/UsbSerialBtpServer\<close>): a ring of sixteen frames,
  the admission of telemetry, and the stream of octets the peer receives.  A frame owns a copy of
  its octets and how many of them are gone.
\<close>

definition kSendQueueDepth :: nat where "kSendQueueDepth = 16"
definition kTelemetryQueueCeiling :: nat where "kTelemetryQueueCeiling = (kSendQueueDepth * 3) div 4"

section \<open>The ring\<close>

record queued_frame =
  qf_data :: bytes
  qf_offset :: nat

definition no_frame :: queued_frame where "no_frame = \<lparr>qf_data = [], qf_offset = 0\<rparr>"

record send_queue =
  sq_slots :: "queued_frame list"
  sq_head :: nat
  sq_count :: nat

definition new_send_queue :: send_queue where
  "new_send_queue = \<lparr>sq_slots = replicate kSendQueueDepth no_frame, sq_head = 0, sq_count = 0\<rparr>"

definition push_frame :: "bytes \<Rightarrow> send_queue \<Rightarrow> send_queue" where
  "push_frame copy q = q\<lparr>sq_slots := (sq_slots q)[(sq_head q + sq_count q) mod kSendQueueDepth := \<lparr>qf_data = copy, qf_offset = 0\<rparr>],
     sq_count := sq_count q + 1\<rparr>"

text \<open>The frame at the head, how much of it is left, some of it gone, all of it gone.\<close>

definition front_frame :: "send_queue \<Rightarrow> queued_frame" where
  "front_frame q = sq_slots q ! sq_head q"

definition front_rest :: "send_queue \<Rightarrow> bytes" where
  "front_rest q = drop (qf_offset (front_frame q)) (qf_data (front_frame q))"

definition advance_front :: "nat \<Rightarrow> send_queue \<Rightarrow> send_queue" where
  "advance_front n q = q\<lparr>sq_slots := (sq_slots q)[sq_head q := (front_frame q)\<lparr>qf_offset := qf_offset (front_frame q) + n\<rparr>]\<rparr>"

definition pop_front :: "send_queue \<Rightarrow> send_queue" where
  "pop_front q = q\<lparr>sq_slots := (sq_slots q)[sq_head q := no_frame],
     sq_head := (sq_head q + 1) mod kSendQueueDepth, sq_count := sq_count q - 1\<rparr>"

definition sq_ok :: "send_queue \<Rightarrow> bool" where
  "sq_ok q \<longleftrightarrow> length (sq_slots q) = kSendQueueDepth \<and> sq_head q < kSendQueueDepth \<and> sq_count q \<le> kSendQueueDepth"

definition sq_frames :: "send_queue \<Rightarrow> queued_frame list" where
  "sq_frames q = ring_list kSendQueueDepth (sq_slots q) (sq_head q) (sq_count q)"

text \<open>The octets still owed to the peer, in order.\<close>

definition owed :: "send_queue \<Rightarrow> bytes" where
  "owed q = concat (map (\<lambda>f. drop (qf_offset f) (qf_data f)) (sq_frames q))"

lemma new_send_queue_ok [simp]: "sq_ok new_send_queue" "owed new_send_queue = []" "sq_count new_send_queue = 0"
  by (simp_all add: new_send_queue_def sq_ok_def kSendQueueDepth_def owed_def sq_frames_def)

lemma push_frame_frames:
  assumes "sq_ok q" and "sq_count q < kSendQueueDepth"
  shows "sq_ok (push_frame d q) \<and> sq_frames (push_frame d q) = sq_frames q @ [\<lparr>qf_data = d, qf_offset = 0\<rparr>] \<and>
    owed (push_frame d q) = owed q @ d \<and> sq_count (push_frame d q) = sq_count q + 1"
proof -
  have "sq_frames (push_frame d q) = sq_frames q @ [\<lparr>qf_data = d, qf_offset = 0\<rparr>]"
    unfolding sq_frames_def push_frame_def
    using ring_list_store [of "sq_count q" kSendQueueDepth "sq_slots q"] assms by (simp add: sq_ok_def)
  then show ?thesis using assms by (simp add: owed_def) (simp add: sq_ok_def push_frame_def)
qed

lemma front_first:
  assumes "sq_ok q" and "sq_count q \<noteq> 0"
  shows "\<exists>fs. sq_frames q = front_frame q # fs \<and> sq_frames (pop_front q) = fs \<and>
    sq_frames (advance_front n q) = (front_frame q)\<lparr>qf_offset := qf_offset (front_frame q) + n\<rparr> # fs"
proof -
  let ?d = kSendQueueDepth and ?h = "sq_head q"
  obtain k where k: "sq_count q = Suc k" using assms(2) by (cases "sq_count q") auto
  have h: "?h < ?d" "length (sq_slots q) = ?d" "Suc k \<le> ?d" using assms(1) k by (auto simp: sq_ok_def)
  have other: "ring_list ?d ((sq_slots q)[?h := x]) ((?h + 1) mod ?d) k = ring_list ?d (sq_slots q) ((?h + 1) mod ?d) k" for x
  proof -
    have "?h \<noteq> ((?h + 1) mod ?d + i) mod ?d" if "i < k" for i
    proof
      assume "?h = ((?h + 1) mod ?d + i) mod ?d"
      then have "(?h + Suc i) mod ?d = (?h + 0) mod ?d" using h(1) by (metis add.right_neutral add_Suc_shift mod_add_left_eq mod_less plus_1_eq_Suc add.commute)
      from mod_add_left_inj [OF _ _ this] show False using that h(3) by simp
    qed
    then show ?thesis by (auto simp: ring_list_def)
  qed
  note other' = other [unfolded Suc_eq_plus1 [symmetric]]
  let ?fs = "ring_list ?d (sq_slots q) ((?h + 1) mod ?d) k"
  have "sq_frames q = front_frame q # ?fs"
    unfolding sq_frames_def k front_frame_def by (rule ring_list_Suc_front [OF h(1)])
  moreover have "sq_frames (pop_front q) = ?fs" by (simp add: sq_frames_def pop_front_def k other')
  moreover have "sq_frames (advance_front n q) = (front_frame q)\<lparr>qf_offset := qf_offset (front_frame q) + n\<rparr> # ?fs"
    using h other' by (simp add: sq_frames_def advance_front_def k ring_list_Suc_front)
  ultimately show ?thesis by blast
qed

lemma pop_front_ok: "sq_ok q \<Longrightarrow> sq_ok (pop_front q)"
  by (auto simp: sq_ok_def pop_front_def kSendQueueDepth_def)

lemma advance_front_ok: "sq_ok q \<Longrightarrow> sq_ok (advance_front n q)"
  by (simp add: sq_ok_def advance_front_def)

lemma pop_front_count [simp]: "sq_count (pop_front q) = sq_count q - 1"
  by (simp add: pop_front_def)

lemma advance_front_count [simp]: "sq_count (advance_front n q) = sq_count q"
  by (simp add: advance_front_def)

lemma owed_pop: "sq_ok q \<Longrightarrow> sq_count q \<noteq> 0 \<Longrightarrow> owed q = front_rest q @ owed (pop_front q)"
  using front_first [of q 0] by (auto simp: owed_def front_rest_def)

lemma owed_advance:
  assumes "sq_ok q" and "sq_count q \<noteq> 0" and "n \<le> length (front_rest q)"
  shows "owed q = take n (front_rest q) @ owed (advance_front n q)"
  using front_first [OF assms(1,2), of n] append_take_drop_id [of n "front_rest q"]
  by (auto simp: owed_def front_rest_def add.commute)

section \<open>Streams\<close>

text \<open>What a link's users rely on: a frame taken is owed in full behind what is owed, a refused one
  changes nothing, and whatever the link does next only moves octets from what is owed to what the
  peer has been given, in order.\<close>

datatype ('o, 'e) stream_op = Offer 'o frame_priority bytes | Progress 'e

primrec stream_run ::
    "('o \<Rightarrow> frame_priority \<Rightarrow> bytes \<Rightarrow> 's \<Rightarrow> bool \<times> 's) \<Rightarrow> ('e \<Rightarrow> 's \<Rightarrow> 's) \<Rightarrow> ('o, 'e) stream_op list \<Rightarrow> 's \<Rightarrow>
     bytes list \<times> 's" where
  "stream_run offer progress [] s = ([], s)"
| "stream_run offer progress (x # xs) s =
     (case x of
        Offer o' p d \<Rightarrow>
          (case offer o' p d s of (ok, s') \<Rightarrow>
             (case stream_run offer progress xs s' of (ds, t) \<Rightarrow> (if ok then d # ds else ds, t)))
      | Progress e \<Rightarrow> stream_run offer progress xs (progress e s))"

locale byte_stream =
  fixes inv :: "'s \<Rightarrow> bool"
    and given :: "'s \<Rightarrow> bytes" and due :: "'s \<Rightarrow> bytes"
    and offer :: "'o \<Rightarrow> frame_priority \<Rightarrow> bytes \<Rightarrow> 's \<Rightarrow> bool \<times> 's"
    and progress :: "'e \<Rightarrow> 's \<Rightarrow> 's"
  assumes offer_taken: "inv s \<Longrightarrow> offer e p d s = (True, s') \<Longrightarrow> inv s' \<and>
      given s' @ due s' = given s @ due s @ d \<and> (\<exists>m. given s' = given s @ m)"
    and offer_refused: "inv s \<Longrightarrow> offer e p d s = (False, s') \<Longrightarrow> s' = s"
    and progress_moves: "inv s \<Longrightarrow> inv (progress a s) \<and>
      (\<exists>m. given (progress a s) = given s @ m \<and> due s = m @ due (progress a s))"
begin

lemma stream_intact:
  assumes "inv s" and "stream_run offer progress xs s = (ds, t)"
  shows "inv t \<and> given t @ due t = given s @ due s @ concat ds \<and> (\<exists>m. given t = given s @ m)"
  using assms
proof (induction xs arbitrary: s ds)
  case Nil
  then show ?case by simp
next
  case (Cons x xs)
  show ?case
  proof (cases x)
    case (Progress e)
    obtain m where m: "inv (progress e s)" "given (progress e s) = given s @ m" "due s = m @ due (progress e s)"
      using progress_moves [OF Cons.prems(1), of e] by blast
    then show ?thesis using Cons.IH [OF m(1)] Cons.prems(2) Progress by auto
  next
    case (Offer e p d)
    obtain ok s' where o: "offer e p d s = (ok, s')" by (cases "offer e p d s")
    obtain es where r: "stream_run offer progress xs s' = (es, t)" "ds = (if ok then d # es else es)"
      using Cons.prems(2) Offer o by (cases "stream_run offer progress xs s'") auto
    show ?thesis
    proof (cases ok)
      case False
      then have "s' = s" using offer_refused [OF Cons.prems(1), of e p d s'] o by simp
      then show ?thesis using Cons.IH [OF Cons.prems(1)] r False by simp
    next
      case True
      then obtain m where s': "inv s'" "given s' @ due s' = given s @ due s @ d" "given s' = given s @ m"
        using offer_taken [OF Cons.prems(1), of e p d s'] o by auto
      have IH: "inv t \<and> given t @ due t = given s' @ due s' @ concat es \<and> (\<exists>m. given t = given s' @ m)"
        by (rule Cons.IH [OF s'(1) r(1)])
      then show ?thesis using s' r True by auto
    qed
  qed
qed

end

end
