(* ===== verification/Tcp_Server.thy ===== *)
theory Tcp_Server
  imports Send_Queue
begin

text \<open>
  The control link over TCP (\<^verbatim>\<open>lib/TcpBtpServer/\<close>): one active client, at most one pending connection
  that may only be told that the server is busy, and the queue of frames owed to the client.

  Sockets are numbers the network stack hands out; what it answers to a call is an argument.  A
  callback is the last thing its stage of \<^verbatim>\<open>run()\<close> does, so it is recorded in \<open>tc_out\<close>, and what the
  composition layer does in it is a step between two stages.  \<open>tc_given\<close> is what the present client's
  socket has accepted.
\<close>

section \<open>State\<close>

definition kPendingHelloDeadlineMs :: u32 where "kPendingHelloDeadlineMs = 2000"

datatype tcp_effect = On_Connect | On_Receive bytes | On_Pending_Receive bytes | On_Disconnect
  | Pending_Sent bytes | Closed_Socket nat

text \<open>Which of the callbacks are set.\<close>

record tcp_callbacks =
  cb_receive :: bool
  cb_connect :: bool
  cb_pending :: bool
  cb_disconnect :: bool

definition no_callbacks :: tcp_callbacks where
  "no_callbacks = \<lparr>cb_receive = False, cb_connect = False, cb_pending = False, cb_disconnect = False\<rparr>"

record tcp_server =
  tc_running :: bool
  tc_listen :: "nat option"
  tc_mutex :: bool
  tc_client :: "nat option"
  tc_pending :: "nat option"
  tc_pending_started :: u32
  tc_callbacks :: tcp_callbacks
  tc_queue :: send_queue
  tc_given :: bytes
  tc_out :: "tcp_effect list"

definition new_tcp_server :: tcp_server where
  "new_tcp_server = \<lparr>tc_running = False, tc_listen = None, tc_mutex = False, tc_client = None,
     tc_pending = None, tc_pending_started = 0, tc_callbacks = no_callbacks, tc_queue = new_send_queue,
     tc_given = [], tc_out = []\<rparr>"

definition tcp_emit :: "tcp_effect \<Rightarrow> tcp_server \<Rightarrow> tcp_server" where
  "tcp_emit e s = s\<lparr>tc_out := tc_out s @ [e]\<rparr>"

section \<open>Starting and stopping\<close>

text \<open>The socket, then whether it can be bound and listened on, the semaphore made and the task
  created.\<close>

definition tcp_start ::
    "nat option \<Rightarrow> bool \<Rightarrow> bool \<Rightarrow> bool \<Rightarrow> u16 \<Rightarrow> tcp_callbacks \<Rightarrow> tcp_server \<Rightarrow> bool \<times> tcp_server" where
  "tcp_start socket bound mutex task port callbacks s =
     (if tc_running s \<or> \<not> cb_receive callbacks \<or> port = 0 then (False, s)
      else case socket of
        None \<Rightarrow> (False, s)
      | Some fd \<Rightarrow>
          if \<not> bound then (False, tcp_emit (Closed_Socket fd) s)
          else if \<not> mutex then (False, tcp_emit (Closed_Socket fd) (s\<lparr>tc_mutex := False\<rparr>))
          else
            let s1 = s\<lparr>tc_mutex := True, tc_listen := Some fd, tc_callbacks := callbacks,
                       tc_queue := (tc_queue s)\<lparr>sq_head := 0, sq_count := 0\<rparr>, tc_running := True\<rparr>
            in if \<not> task then
                 (False, tcp_emit (Closed_Socket fd) (s1\<lparr>tc_running := False, tc_mutex := False, tc_listen := None\<rparr>))
               else (True, s1))"

text \<open>Only the frames in the ring are released; the other slots stay as they are.\<close>

definition clear_slots :: "send_queue \<Rightarrow> send_queue" where
  "clear_slots q = q\<lparr>sq_slots := fold (\<lambda>i xs. let k = (sq_head q + i) mod kSendQueueDepth in
       xs[k := (xs ! k)\<lparr>qf_data := []\<rparr>]) [0..<sq_count q] (sq_slots q), sq_head := 0, sq_count := 0\<rparr>"

definition close_client :: "tcp_server \<Rightarrow> tcp_server" where
  "close_client s =
     (case tc_client s of
        None \<Rightarrow> s
      | Some fd \<Rightarrow>
          let s1 = tcp_emit (Closed_Socket fd) (s\<lparr>tc_client := None\<rparr>);
              s2 = s1\<lparr>tc_queue := clear_slots (tc_queue s1)\<rparr>
          in if cb_disconnect (tc_callbacks s2) then tcp_emit On_Disconnect s2 else s2)"

definition close_pending :: "tcp_server \<Rightarrow> tcp_server" where
  "close_pending s =
     (case tc_pending s of
        None \<Rightarrow> s
      | Some fd \<Rightarrow> tcp_emit (Closed_Socket fd) (s\<lparr>tc_pending := None\<rparr>))"

definition close_active_client :: "tcp_server \<Rightarrow> tcp_server" where
  "close_active_client s = close_client s"

text \<open>\<open>stop\<close> waits for the task, which closes what is left when it ends.\<close>

definition tcp_exit :: "tcp_server \<Rightarrow> tcp_server" where
  "tcp_exit s = close_pending (close_client s)"

definition tcp_stop :: "tcp_server \<Rightarrow> tcp_server" where
  "tcp_stop s =
     (if \<not> tc_running s then s
      else
        let s1 = s\<lparr>tc_running := False, tc_listen := None\<rparr>;
            s2 = (case tc_listen s of None \<Rightarrow> s1 | Some fd \<Rightarrow> tcp_emit (Closed_Socket fd) s1);
            s3 = tcp_exit (close_pending (close_client s2))
        in s3\<lparr>tc_queue := clear_slots (tc_queue s3), tc_mutex := False, tc_callbacks := no_callbacks\<rparr>)"

section \<open>Sending\<close>

text \<open>Whether the semaphore was got in time and the copy allocated.\<close>

definition tcp_send :: "bool \<Rightarrow> bool \<Rightarrow> frame_priority \<Rightarrow> bytes option \<Rightarrow> tcp_server \<Rightarrow> bool \<times> tcp_server" where
  "tcp_send locked allocated priority data s =
     (case data of
        None \<Rightarrow> (False, s)
      | Some d \<Rightarrow>
          if d = [] \<or> \<not> tc_mutex s then (False, s)
          else if \<not> locked then (False, s)
          else if tc_client s \<noteq> None \<and> admit priority (sq_count (tc_queue s)) kSendQueueDepth kTelemetryQueueCeiling
               \<and> allocated
          then (True, s\<lparr>tc_queue := push_frame d (tc_queue s)\<rparr>)
          else (False, s))"

text \<open>How much the pending connection's socket took.\<close>

definition send_pending :: "nat \<Rightarrow> bytes option \<Rightarrow> tcp_server \<Rightarrow> bool \<times> tcp_server" where
  "send_pending written data s =
     (case data of
        None \<Rightarrow> (False, s)
      | Some d \<Rightarrow>
          if d = [] then (False, s)
          else (case tc_pending s of
                  None \<Rightarrow> (False, s)
                | Some fd \<Rightarrow> (written = length d, tcp_emit (Pending_Sent (take written d)) s)))"

text \<open>What \<open>send()\<close> answers: octets taken, no room for now, or an error.  A lack of answers is no room.\<close>

datatype write_result = Wrote nat | Would_Block | Write_Error

fun drain_loop :: "write_result list \<Rightarrow> tcp_server \<Rightarrow> bool \<times> tcp_server" where
  "drain_loop [] s = (False, s)"
| "drain_loop (r # rs) s =
     (if sq_count (tc_queue s) = 0 then (False, s)
      else case r of
        Would_Block \<Rightarrow> (False, s)
      | Write_Error \<Rightarrow> (True, s)
      | Wrote n \<Rightarrow>
          (let rest = front_rest (tc_queue s); written = min n (length rest) in
           if written = 0 then (True, s)
           else
             let s1 = s\<lparr>tc_given := tc_given s @ take written rest, tc_queue := advance_front written (tc_queue s)\<rparr>
             in if written < length rest then (False, s1)
                else drain_loop rs (s1\<lparr>tc_queue := pop_front (tc_queue s1)\<rparr>)))"

definition tcp_drain :: "bool \<Rightarrow> write_result list \<Rightarrow> tcp_server \<Rightarrow> tcp_server" where
  "tcp_drain locked rs s =
     (if \<not> tc_mutex s \<or> \<not> locked then s
      else case (if tc_client s = None then (False, s) else drain_loop rs s) of
        (broken, s1) \<Rightarrow> if broken then close_client s1 else s1)"

section \<open>The task\<close>

text \<open>What \<open>select\<close> reports (by number) and what the calls of one pass answer; \<open>None\<close> for a
  reception is an end or an error.\<close>

record tcp_io =
  ti_now :: u32
  ti_ready :: bool
  ti_listen :: bool
  ti_read :: "nat list"
  ti_write :: "nat list"
  ti_accept :: "nat option"
  ti_recv :: "bytes option"
  ti_recv_pending :: "bytes option"
  ti_locked :: bool
  ti_writes :: "write_result list"

definition deadline_stage :: "tcp_io \<Rightarrow> tcp_server \<Rightarrow> tcp_server" where
  "deadline_stage io s =
     (if tc_pending s \<noteq> None \<and> ti_now io - tc_pending_started s \<ge> kPendingHelloDeadlineMs
      then close_pending s else s)"

definition accept_stage :: "tcp_io \<Rightarrow> tcp_server \<Rightarrow> tcp_server" where
  "accept_stage io s =
     (if \<not> ti_listen io then s
      else case ti_accept io of
        None \<Rightarrow> s
      | Some fd \<Rightarrow>
          if tc_client s = None then
            let s1 = s\<lparr>tc_client := Some fd, tc_given := []\<rparr>
            in if cb_connect (tc_callbacks s1) then tcp_emit On_Connect s1 else s1
          else if tc_pending s = None then s\<lparr>tc_pending := Some fd, tc_pending_started := ti_now io\<rparr>
          else tcp_emit (Closed_Socket fd) s)"

definition read_stage :: "tcp_io \<Rightarrow> tcp_server \<Rightarrow> tcp_server" where
  "read_stage io s =
     (case tc_client s of
        None \<Rightarrow> s
      | Some fd \<Rightarrow>
          if fd \<notin> set (ti_read io) then s
          else (case ti_recv io of
                  None \<Rightarrow> close_client s
                | Some d \<Rightarrow> if cb_receive (tc_callbacks s) then tcp_emit (On_Receive d) s else s))"

definition write_stage :: "tcp_io \<Rightarrow> tcp_server \<Rightarrow> tcp_server" where
  "write_stage io s =
     (case tc_client s of
        None \<Rightarrow> s
      | Some fd \<Rightarrow> if fd \<in> set (ti_write io) then tcp_drain (ti_locked io) (ti_writes io) s else s)"

definition reads_pending :: "tcp_io \<Rightarrow> tcp_server \<Rightarrow> bool" where
  "reads_pending io s = (case tc_pending s of None \<Rightarrow> False | Some fd \<Rightarrow> fd \<in> set (ti_read io))"

definition pending_stage :: "tcp_io \<Rightarrow> tcp_server \<Rightarrow> tcp_server" where
  "pending_stage io s =
     (if \<not> reads_pending io s then s
      else case ti_recv_pending io of
        None \<Rightarrow> close_pending s
      | Some d \<Rightarrow> if cb_pending (tc_callbacks s) then tcp_emit (On_Pending_Receive d) s else s)"

text \<open>One pass; \<open>react\<close> is what the callbacks called in a stage do.\<close>

definition tcp_pass :: "(nat \<Rightarrow> tcp_server \<Rightarrow> tcp_server) \<Rightarrow> tcp_io \<Rightarrow> tcp_server \<Rightarrow> tcp_server" where
  "tcp_pass react io s =
     (if \<not> tc_running s \<or> tc_listen s = None then tcp_exit s
      else
        let s0 = deadline_stage io s in
        if \<not> ti_ready io then s0
        else
          let s1 = react 0 (accept_stage io s0);
              s2 = react 1 (read_stage io s1);
              s3 = react 2 (write_stage io s2)
          in react 3 (pending_stage io s3))"


section \<open>The stream of frames\<close>

definition with_client :: "tcp_server \<Rightarrow> bool" where
  "with_client s \<longleftrightarrow> sq_ok (tc_queue s) \<and> tc_client s \<noteq> None"

definition tcp_owed :: "tcp_server \<Rightarrow> bytes" where "tcp_owed s = owed (tc_queue s)"

definition tcp_offer :: "bool \<times> bool \<Rightarrow> frame_priority \<Rightarrow> bytes \<Rightarrow> tcp_server \<Rightarrow> bool \<times> tcp_server" where
  "tcp_offer e p d s = tcp_send (fst e) (snd e) p (Some d) s"

definition tcp_progress :: "write_result list \<Rightarrow> tcp_server \<Rightarrow> tcp_server" where
  "tcp_progress rs s = snd (drain_loop rs s)"

lemma tcp_send_ok:
  assumes "sq_ok (tc_queue s)" and "tcp_send l a p data s = (True, s')"
  shows "\<exists>d. data = Some d \<and> s' = s\<lparr>tc_queue := push_frame d (tc_queue s)\<rparr> \<and> sq_ok (tc_queue s') \<and>
     tc_client s \<noteq> None \<and> tcp_owed s' = tcp_owed s @ d \<and> sq_count (tc_queue s') = sq_count (tc_queue s) + 1"
  using assms push_frame_frames [OF assms(1)]
  by (auto simp: tcp_send_def admit_def tcp_owed_def split: option.splits if_splits)

lemma tcp_send_refused: "tcp_send l a p data s = (False, s') \<Longrightarrow> s' = s"
  by (auto simp: tcp_send_def split: option.splits if_splits)

lemma drain_loop_moves:
  assumes "sq_ok (tc_queue s)"
  shows "sq_ok (tc_queue (snd (drain_loop rs s))) \<and>
    (\<exists>m. tc_given (snd (drain_loop rs s)) = tc_given s @ m \<and> tcp_owed s = m @ tcp_owed (snd (drain_loop rs s)))"
  using assms
proof (induction rs s rule: drain_loop.induct)
  case (1 s)
  then show ?case by simp
next
  case (2 r rs s)
  show ?case
  proof (cases "sq_count (tc_queue s) = 0 \<or> (\<forall>n. r \<noteq> Wrote n)")
    case True
    then show ?thesis using 2 by (cases r) auto
  next
    case False
    then obtain n where r: "r = Wrote n" and c: "sq_count (tc_queue s) \<noteq> 0" by auto
    define rest where "rest = front_rest (tc_queue s)"
    define w where "w = min n (length rest)"
    define s1 where "s1 = s\<lparr>tc_given := tc_given s @ take w rest, tc_queue := advance_front w (tc_queue s)\<rparr>"
    show ?thesis
    proof (cases "w = 0")
      case True
      then show ?thesis using 2 r c by (simp add: rest_def w_def)
    next
      case w: False
      have ok1: "sq_ok (tc_queue s1)" using 2 advance_front_ok by (simp add: s1_def)
      have owed1: "tcp_owed s = take w rest @ tcp_owed s1"
        using owed_advance [of "tc_queue s" w] 2 c by (simp add: tcp_owed_def s1_def rest_def w_def)
      show ?thesis
      proof (cases "w < length rest")
        case True
        have "drain_loop (r # rs) s = (False, s1)"
          using r c w True unfolding s1_def w_def rest_def by (auto simp: Let_def min_def)
        then show ?thesis using ok1 owed1 by (simp add: s1_def)
      next
        case False
        define s2 where "s2 = s1\<lparr>tc_queue := pop_front (tc_queue s1)\<rparr>"
        have d: "drain_loop (r # rs) s = drain_loop rs s2"
          using r c w False unfolding s2_def s1_def w_def rest_def by (auto simp: Let_def min_def)
        have full: "take w rest = rest" using False by (simp add: w_def)
        have ok2: "sq_ok (tc_queue s2)" using ok1 pop_front_ok by (simp add: s2_def)
        have "front_rest (tc_queue s1) = []"
          using 2(2) False by (auto simp: s1_def advance_front_def front_rest_def front_frame_def sq_ok_def w_def rest_def)
        then have owed2: "tcp_owed s1 = tcp_owed s2"
          using owed_pop [OF ok1] c by (simp add: tcp_owed_def s2_def s1_def)
        have "\<exists>m. tc_given (snd (drain_loop rs s2)) = tc_given s2 @ m \<and> tcp_owed s2 = m @ tcp_owed (snd (drain_loop rs s2))"
          "sq_ok (tc_queue (snd (drain_loop rs s2)))"
          using 2(1) [OF _ r rest_def w_def w s1_def, folded s2_def] c False ok2 by auto
        then show ?thesis unfolding d using owed1 owed2 by (auto simp: s2_def s1_def)
      qed
    qed
  qed
qed

lemma drain_loop_client [simp]: "tc_client (snd (drain_loop rs s)) = tc_client s"
  by (induction rs s rule: drain_loop.induct) (auto simp: Let_def split: write_result.splits)

interpretation tcp_stream: byte_stream with_client tc_given tcp_owed tcp_offer tcp_progress
proof unfold_locales
  show "with_client s' \<and> tc_given s' @ tcp_owed s' = tc_given s @ tcp_owed s @ d \<and> (\<exists>m. tc_given s' = tc_given s @ m)"
    if "with_client s" "tcp_offer e p d s = (True, s')" for s e p d s'
    using tcp_send_ok [of s "fst e" "snd e" p "Some d" s'] that
    by (auto simp: with_client_def tcp_offer_def)
  show "s' = s" if "tcp_offer e p d s = (False, s')" for s e p d s'
    using tcp_send_refused that by (simp add: tcp_offer_def)
  show "with_client (tcp_progress a s) \<and>
     (\<exists>m. tc_given (tcp_progress a s) = tc_given s @ m \<and> tcp_owed s = m @ tcp_owed (tcp_progress a s))"
    if "with_client s" for s a
    using drain_loop_moves [of s a] that by (simp add: with_client_def tcp_progress_def)
qed

text \<open>C32: Over any sequence of sends and of passes over the queue, in which the socket may take any
  part of what it is offered, the client is given exactly the frames that were accepted, whole, in
  order and never mixed: what it has, followed by what is still owed, is their concatenation.\<close>

theorem tcp_frames_delivered_intact:
  assumes "with_client s" and "stream_run tcp_offer tcp_progress ops s = (accepted, t)"
  shows "tc_given t @ tcp_owed t = tc_given s @ tcp_owed s @ concat accepted \<and> (\<exists>m. tc_given t = tc_given s @ m)"
  using tcp_stream.stream_intact [OF assms] by simp

section \<open>One session\<close>

text \<open>The stages only run while the server does.\<close>

datatype tcp_call = Do_Start "nat option" bool bool bool u16 bool | Do_Stop
  | Do_Send bool bool frame_priority "bytes option" | Do_Send_Pending nat "bytes option"
  | Do_Close_Pending | Do_Close_Active
  | Do_Deadline tcp_io | Do_Accept tcp_io | Do_Read tcp_io | Do_Write tcp_io | Do_Pending tcp_io

fun tcp_step :: "tcp_call \<Rightarrow> tcp_server \<Rightarrow> tcp_server" where
  "tcp_step (Do_Start fd b m t port pend) s = snd (tcp_start fd b m t port
     \<lparr>cb_receive = True, cb_connect = True, cb_pending = pend, cb_disconnect = True\<rparr> s)"
| "tcp_step Do_Stop s = tcp_stop s"
| "tcp_step (Do_Send l a p d) s = snd (tcp_send l a p d s)"
| "tcp_step (Do_Send_Pending n d) s = snd (send_pending n d s)"
| "tcp_step Do_Close_Pending s = close_pending s"
| "tcp_step Do_Close_Active s = close_active_client s"
| "tcp_step (Do_Deadline io) s = (if tc_running s then deadline_stage io s else s)"
| "tcp_step (Do_Accept io) s = (if tc_running s then accept_stage io s else s)"
| "tcp_step (Do_Read io) s = (if tc_running s then read_stage io s else s)"
| "tcp_step (Do_Write io) s = (if tc_running s then write_stage io s else s)"
| "tcp_step (Do_Pending io) s = (if tc_running s then pending_stage io s else s)"

text \<open>What the composition layer was told: connected and disconnected alternate.\<close>

definition track :: "tcp_effect \<Rightarrow> bool option \<Rightarrow> bool option" where
  "track e b = (case e of
      On_Connect \<Rightarrow> (if b = Some False then Some True else None)
    | On_Disconnect \<Rightarrow> (if b = Some True then Some False else None)
    | _ \<Rightarrow> b)"

definition tcp_core :: "tcp_server \<Rightarrow> bool" where
  "tcp_core s \<longleftrightarrow> sq_ok (tc_queue s) \<and> (tc_client s = None \<longrightarrow> sq_count (tc_queue s) = 0) \<and>
     (tc_running s \<or> tc_client s \<noteq> None \<longrightarrow> cb_connect (tc_callbacks s) \<and> cb_disconnect (tc_callbacks s)) \<and>
     fold track (tc_out s) (Some False) = Some (tc_client s \<noteq> None)"

definition tcp_ok :: "tcp_server \<Rightarrow> bool" where
  "tcp_ok s \<longleftrightarrow> tcp_core s \<and> (tc_client s \<noteq> None \<longrightarrow> tc_running s)"

lemma fold_slots_length [simp]:
  "length (fold (\<lambda>i xs. xs[f i := (xs ! f i)\<lparr>qf_data := []\<rparr>]) is xs) = length xs"
  by (induction "is" arbitrary: xs) auto

lemma clear_slots_ok [simp]: "sq_ok q \<Longrightarrow> sq_ok (clear_slots q)" "sq_count (clear_slots q) = 0"
  by (simp_all add: clear_slots_def sq_ok_def Let_def kSendQueueDepth_def)

lemma close_client_core: "tcp_core s \<Longrightarrow> tcp_core (close_client s)"
  by (auto simp: close_client_def tcp_core_def tcp_emit_def track_def Let_def split: option.splits)

lemma close_client_none [simp]: "tc_client (close_client s) = None"
  by (simp add: close_client_def tcp_emit_def Let_def split: option.splits)

lemma close_client_ok [inv_intros]: "tcp_ok s \<Longrightarrow> tcp_ok (close_client s)"
  using close_client_core by (simp add: tcp_ok_def)

lemma close_pending_core: "tcp_core s \<Longrightarrow> tcp_core (close_pending s)"
  by (auto simp: close_pending_def tcp_core_def tcp_emit_def track_def split: option.splits)

lemma close_pending_fields [simp]:
  "tc_client (close_pending s) = tc_client s" "tc_running (close_pending s) = tc_running s"
  by (simp_all add: close_pending_def tcp_emit_def split: option.splits)

lemma close_pending_ok [inv_intros]: "tcp_ok s \<Longrightarrow> tcp_ok (close_pending s)"
  using close_pending_core by (simp add: tcp_ok_def)

lemma close_client_running [simp]: "tc_running (close_client s) = tc_running s"
  by (simp add: close_client_def tcp_emit_def Let_def split: option.splits)

lemma tcp_stop_ok [inv_intros]:
  assumes "tcp_ok s"
  shows "tcp_ok (tcp_stop s)"
proof (cases "tc_running s")
  case True
  define s2 where "s2 = (case tc_listen s of None \<Rightarrow> s\<lparr>tc_running := False, tc_listen := None\<rparr>
    | Some fd \<Rightarrow> tcp_emit (Closed_Socket fd) (s\<lparr>tc_running := False, tc_listen := None\<rparr>))"
  define s3 where "s3 = tcp_exit (close_pending (close_client s2))"
  have "tcp_core s2" using assms
    by (auto simp: s2_def tcp_ok_def tcp_core_def tcp_emit_def track_def split: option.splits)
  then have "tcp_core s3" unfolding s3_def tcp_exit_def by (intro close_client_core close_pending_core)
  moreover have "tc_client s3 = None" by (simp add: s3_def tcp_exit_def)
  moreover have "\<not> tc_running s3"
    by (simp add: s3_def tcp_exit_def s2_def tcp_emit_def split: option.split)
  ultimately have "tcp_ok (s3\<lparr>tc_queue := clear_slots (tc_queue s3), tc_mutex := False, tc_callbacks := no_callbacks\<rparr>)"
    by (simp add: tcp_ok_def tcp_core_def)
  then show ?thesis using True by (simp add: tcp_stop_def Let_def s3_def s2_def)
qed (use assms in \<open>simp add: tcp_stop_def\<close>)

lemma tcp_send_keeps [inv_intros]:
  assumes "tcp_ok s"
  shows "tcp_ok (snd (tcp_send l a p d s))"
proof (cases "tcp_send l a p d s")
  case (Pair ok s')
  have q: "sq_ok (tc_queue s)" using assms by (simp add: tcp_ok_def tcp_core_def)
  show ?thesis
  proof (cases ok)
    case True
    then show ?thesis using tcp_send_ok [OF q, of l a p d s'] Pair assms by (auto simp: tcp_ok_def tcp_core_def)
  next
    case False
    then show ?thesis using tcp_send_refused [of l a p d s s'] Pair assms by simp
  qed
qed

lemma drain_loop_frame:
  "tc_out (snd (drain_loop rs s)) = tc_out s \<and> tc_callbacks (snd (drain_loop rs s)) = tc_callbacks s \<and>
   tc_running (snd (drain_loop rs s)) = tc_running s"
  by (induction rs s rule: drain_loop.induct) (auto simp: Let_def split: write_result.splits)

lemma write_stage_ok [inv_intros]:
  assumes "tcp_ok s"
  shows "tcp_ok (write_stage io s)"
proof -
  have "tcp_ok (snd (drain_loop rs s))" if "tc_client s \<noteq> None" for rs
    using drain_loop_moves [of s rs] drain_loop_frame [of rs s] assms that by (auto simp: tcp_ok_def tcp_core_def)
  then show ?thesis using assms close_client_ok
    by (auto simp: write_stage_def tcp_drain_def split: option.splits prod.splits) (metis snd_conv option.distinct(1))+
qed

lemma tcp_step_ok:
  assumes "tcp_ok s"
  shows "tcp_ok (tcp_step x s)"
proof (cases x)
  case (Do_Start fd b m t port pend)
  show ?thesis
  proof (cases "tc_running s")
    case False
    then have "tc_client s = None" using assms by (auto simp: tcp_ok_def tcp_core_def)
    then show ?thesis using assms False Do_Start
      by (auto simp: tcp_start_def tcp_ok_def tcp_core_def tcp_emit_def track_def sq_ok_def Let_def split: option.splits)
  qed (use assms Do_Start in \<open>simp add: tcp_start_def\<close>)
next
  case (Do_Accept io)
  then show ?thesis using assms
    by (auto simp: accept_stage_def tcp_ok_def tcp_core_def tcp_emit_def track_def Let_def split: option.splits)
next
  case (Do_Send_Pending n d)
  then show ?thesis using assms
    by (auto simp: send_pending_def tcp_ok_def tcp_core_def tcp_emit_def track_def split: option.splits)
next
  case (Do_Read io)
  then show ?thesis using assms close_client_ok [OF assms]
    by (auto simp: read_stage_def) (auto simp: tcp_ok_def tcp_core_def tcp_emit_def track_def split: option.splits)
next
  case (Do_Pending io)
  then show ?thesis using assms close_pending_ok [OF assms]
    by (auto simp: pending_stage_def) (auto simp: tcp_ok_def tcp_core_def tcp_emit_def track_def split: option.splits)
qed (use assms in \<open>auto simp: close_active_client_def deadline_stage_def intro: inv_intros\<close>)


text \<open>C33: Whatever the peers, the network and the composition layer do, the layer is told of
  connections and disconnections in turn, of one client at a time, a client exists exactly between
  the two, and no frame is queued while there is none.\<close>

theorem tcp_one_session:
  "fold track (tc_out (fold tcp_step xs new_tcp_server)) (Some False)
     = Some (tc_client (fold tcp_step xs new_tcp_server) \<noteq> None) \<and>
   sq_count (tc_queue (fold tcp_step xs new_tcp_server))
     \<le> (if tc_client (fold tcp_step xs new_tcp_server) = None then 0 else kSendQueueDepth)"
proof -
  have "tcp_ok s \<Longrightarrow> tcp_ok (fold tcp_step xs s)" for s
    by (induction xs arbitrary: s) (simp_all add: tcp_step_ok del: tcp_step.simps)
  moreover have "tcp_ok new_tcp_server" by (simp add: new_tcp_server_def tcp_ok_def tcp_core_def track_def)
  ultimately have "tcp_ok (fold tcp_step xs new_tcp_server)" by blast
  then show ?thesis by (auto simp: tcp_ok_def tcp_core_def sq_ok_def)
qed

text \<open>Frames offered one after another, with nothing sent in between.\<close>

fun offer_all :: "(frame_priority \<times> bytes) list \<Rightarrow> tcp_server \<Rightarrow> bool list \<times> tcp_server" where
  "offer_all [] s = ([], s)"
| "offer_all ((p, d) # xs) s =
     (case tcp_send True True p (Some d) s of (ok, s1) \<Rightarrow>
        (case offer_all xs s1 of (oks, t) \<Rightarrow> (ok # oks, t)))"

definition answers :: "(frame_priority \<times> bytes) list \<Rightarrow> bool list \<Rightarrow> bool list" where
  "answers xs oks = map snd (filter (\<lambda>x. fst (fst x) = FP_Normal) (zip xs oks))"

lemma offers_reserved:
  assumes "sq_ok (tc_queue s)" and "tc_client s \<noteq> None" and "tc_mutex s"
    and "\<forall>x \<in> set xs. snd x \<noteq> []"
    and "sq_count (tc_queue s) \<le> 12 + k"
    and "length (filter (\<lambda>x. fst x = FP_Normal) xs) + k \<le> 4"
    and "offer_all xs s = (oks, t)"
  shows "(\<forall>b \<in> set (answers xs oks). b) \<and> sq_count (tc_queue t) \<le> 16"
  using assms
proof (induction xs arbitrary: s k oks)
  case Nil
  then show ?case by (simp add: answers_def)
next
  case (Cons x xs)
  obtain p d where x: "x = (p, d)" by (cases x)
  obtain ok s1 where o1: "tcp_send True True p (Some d) s = (ok, s1)" by (cases "tcp_send True True p (Some d) s")
  obtain oks' where o2: "offer_all xs s1 = (oks', t)" "oks = ok # oks'"
    using Cons.prems(7) x o1 by (cases "offer_all xs s1") auto
  have d: "d \<noteq> []" using Cons.prems(4) x by simp
  have ok: "ok \<longleftrightarrow> admit p (sq_count (tc_queue s)) 16 12"
    using o1 d Cons.prems(2,3) by (auto simp: tcp_send_def kSendQueueDepth_def kTelemetryQueueCeiling_def split: if_splits)
  show ?case
  proof (cases ok)
    case False
    then have s1: "s1 = s" using o1 tcp_send_refused [of True True p "Some d" s s1] by simp
    have n: "p \<noteq> FP_Normal"
    proof
      assume "p = FP_Normal"
      then have "sq_count (tc_queue s) < 16" using Cons.prems(5,6) x by simp
      then show False using ok False \<open>p = FP_Normal\<close> by (simp add: admit_def)
    qed
    have "(\<forall>b \<in> set (answers xs oks'). b) \<and> sq_count (tc_queue t) \<le> 16"
      by (rule Cons.IH [of s k oks']) (use Cons.prems o2 s1 n x in auto)
    then show ?thesis using n x o2 by (auto simp: answers_def)
  next
    case True
    have c: "sq_ok (tc_queue s1)" "sq_count (tc_queue s1) = sq_count (tc_queue s) + 1"
      "tc_client s1 \<noteq> None" "tc_mutex s1"
      using tcp_send_ok [OF Cons.prems(1), of True True p "Some d" s1] o1 True Cons.prems(2,3) by auto
    show ?thesis
    proof (cases "p = FP_Normal")
      case normal: True
      have "(\<forall>b \<in> set (answers xs oks'). b) \<and> sq_count (tc_queue t) \<le> 16"
        by (rule Cons.IH [of s1 "Suc k" oks']) (use Cons.prems o2 c normal x in auto)
      then show ?thesis using True x o2 by (auto simp: answers_def)
    next
      case False
      have "sq_count (tc_queue s) < 12" using ok True False by (cases p) (auto simp: admit_def split: if_splits)
      then have "(\<forall>b \<in> set (answers xs oks'). b) \<and> sq_count (tc_queue t) \<le> 16"
        by (intro Cons.IH [of s1 k oks']) (use Cons.prems o2 c False x in auto)
      then show ?thesis using False x o2 by (auto simp: answers_def)
    qed
  qed
qed

text \<open>Telemetry leaves room for replies: however much of it is offered in between, from a queue of
  at most twelve frames the next four other frames are all taken.\<close>

theorem telemetry_leaves_room_for_replies:
  assumes "sq_ok (tc_queue s)" and "tc_client s \<noteq> None" and "tc_mutex s"
    and "\<forall>x \<in> set xs. snd x \<noteq> []" and "sq_count (tc_queue s) \<le> kTelemetryQueueCeiling"
    and "length (filter (\<lambda>x. fst x = FP_Normal) xs) \<le> kSendQueueDepth - kTelemetryQueueCeiling"
  shows "list_all (\<lambda>ok. ok) (answers xs (fst (offer_all xs s)))"
proof -
  obtain oks t where "offer_all xs s = (oks, t)" by (cases "offer_all xs s")
  then show ?thesis
    using offers_reserved [of s xs 0 oks t] assms
    by (auto simp: kSendQueueDepth_def kTelemetryQueueCeiling_def list_all_iff)
qed

section \<open>The second connection\<close>

text \<open>While there is an active client, another connection never reaches the frames of the session:
  it waits as the pending one, or is closed when one is already waiting; the active client stays.\<close>

lemma second_connection_waits:
  assumes "tc_client s = Some fd" and "ti_listen io" and "ti_accept io = Some fd'"
  shows "tc_client (accept_stage io s) = Some fd \<and> tc_given (accept_stage io s) = tc_given s \<and>
    tc_queue (accept_stage io s) = tc_queue s \<and>
    (if tc_pending s = None then tc_pending (accept_stage io s) = Some fd' \<and> tc_out (accept_stage io s) = tc_out s
     else tc_pending (accept_stage io s) = tc_pending s \<and>
       tc_out (accept_stage io s) = tc_out s @ [Closed_Socket fd'])"
  using assms by (simp add: accept_stage_def tcp_emit_def split: option.split)

text \<open>In the pass in which a pending connection is closed for being late, a new one that the
  network gives the same number takes over what \<open>select\<close> reported of the old one: it is read although
  nothing is known to have arrived on it, by a call that waits.\<close>

theorem reused_socket_is_read:
  assumes "tc_client s \<noteq> None" and "tc_pending s = Some fd"
    and "ti_now io - tc_pending_started s \<ge> kPendingHelloDeadlineMs"
    and "ti_listen io" and "ti_accept io = Some fd" and "fd \<in> set (ti_read io)"
  shows "reads_pending io (accept_stage io (deadline_stage io s)) \<and>
    tc_pending_started (accept_stage io (deadline_stage io s)) = ti_now io"
proof -
  have "deadline_stage io s = close_pending s" using assms(2,3) by (simp add: deadline_stage_def)
  moreover have "tc_pending (close_pending s) = None" by (simp add: close_pending_def tcp_emit_def split: option.split)
  moreover have "tc_client (close_pending s) \<noteq> None" using assms(1) by simp
  ultimately show ?thesis using assms(4-6) by (auto simp: accept_stage_def reads_pending_def)
qed

section \<open>Instances\<close>

definition demo_served :: tcp_server where
  "demo_served = fold tcp_step
     [Do_Start (Some 3) True True True 44300 True,
      Do_Accept \<lparr>ti_now = 0, ti_ready = True, ti_listen = True, ti_read = [], ti_write = [],
        ti_accept = Some 4, ti_recv = None, ti_recv_pending = None, ti_locked = True, ti_writes = []\<rparr>] new_tcp_server"

lemma demo_served_facts:
  "sq_ok (tc_queue demo_served)" "tc_client demo_served = Some 4" "tc_mutex demo_served"
  "sq_count (tc_queue demo_served) = 0" "tc_given demo_served = []" "tcp_owed demo_served = []"
proof -
  show "sq_ok (tc_queue demo_served)" by code_simp
  show "tc_client demo_served = Some 4" by code_simp
  show "tc_mutex demo_served" by code_simp
  show "sq_count (tc_queue demo_served) = 0" by code_simp
  show "tc_given demo_served = []" by code_simp
  show "tcp_owed demo_served = []" by code_simp
qed

definition demo_ops :: "(bool \<times> bool, write_result list) stream_op list" where
  "demo_ops = [Offer (True, True) FP_Normal [1, 2, 3], Progress [Wrote 2, Would_Block],
     Offer (True, True) FP_Telemetry [4, 5], Progress [Wrote 1, Wrote 5]]"

lemma tcp_frames_delivered_intact_witness:
  "tc_given (snd (stream_run tcp_offer tcp_progress demo_ops demo_served)) @
     tcp_owed (snd (stream_run tcp_offer tcp_progress demo_ops demo_served)) = [1, 2, 3, 4, 5]"
proof -
  have c: "with_client demo_served" using demo_served_facts by (simp add: with_client_def)
  have "fst (stream_run tcp_offer tcp_progress demo_ops demo_served) = [[1, 2, 3], [4, 5]]" by code_simp
  then have r: "stream_run tcp_offer tcp_progress demo_ops demo_served =
      ([[1, 2, 3], [4, 5]], snd (stream_run tcp_offer tcp_progress demo_ops demo_served))"
    by (simp add: prod_eq_iff)
  show ?thesis using tcp_frames_delivered_intact [OF c r] demo_served_facts by simp
qed

lemma telemetry_leaves_room_for_replies_witness:
  "list_all (\<lambda>ok. ok) (answers [(FP_Telemetry, [1]), (FP_Normal, [2]), (FP_Telemetry, [3]), (FP_Normal, [4])]
     (fst (offer_all [(FP_Telemetry, [1]), (FP_Normal, [2]), (FP_Telemetry, [3]), (FP_Normal, [4])] demo_served)))"
  by (rule telemetry_leaves_room_for_replies)
    (use demo_served_facts in \<open>simp_all add: kSendQueueDepth_def kTelemetryQueueCeiling_def\<close>)

end
