(* ===== verification/Ble_Server.thy ===== *)
theory Ble_Server
  imports Send_Queue
begin

text \<open>
  The control link over Bluetooth (\<^verbatim>\<open>lib/BleBtpServer/\<close>): advertising, one central at a time, and the
  queue drained one notification at a time.  What the host stack answers is an argument;
  \<open>bs_given\<close> is what it accepted for the present central, \<open>bs_out\<close> what was asked of it and the
  callbacks called.
\<close>

section \<open>State\<close>

definition kAdvPayloadMax :: nat where "kAdvPayloadMax = 31"
definition kUuid128AdSize :: nat where "kUuid128AdSize = 18"
definition kMaxChunkSize :: nat where "kMaxChunkSize = 512"
definition kMaxDeviceNameLength :: nat where "kMaxDeviceNameLength = 29"
definition kInvalidHandle :: u16 where "kInvalidHandle = 0xFFFF"

text \<open>\<^verbatim>\<open>BallyRobot\<close>.\<close>

definition kDefaultDeviceName :: bytes where
  "kDefaultDeviceName = [0x42, 0x61, 0x6C, 0x6C, 0x79, 0x52, 0x6F, 0x62, 0x6F, 0x74]"

datatype ble_effect = Ble_Connect | Ble_Disconnect | Ble_Receive bytes | Advertise bytes bool | Adv_Stop
  | Terminate u16 | Update_Params u16 | Notify u16 bytes

record ble_server =
  bs_running :: bool
  bs_instance :: bool
  bs_handle :: u16
  bs_notify :: bool
  bs_mtu :: u16
  bs_connect_cb :: bool
  bs_disconnect_cb :: bool
  bs_receive_cb :: bool
  bs_mutex :: bool
  bs_name :: bytes
  bs_queue :: send_queue
  bs_in_flight :: bool
  bs_given :: bytes
  bs_out :: "ble_effect list"

definition new_ble_server :: ble_server where
  "new_ble_server = \<lparr>bs_running = False, bs_instance = False, bs_handle = kInvalidHandle, bs_notify = False,
     bs_mtu = 23, bs_connect_cb = False, bs_disconnect_cb = False, bs_receive_cb = False, bs_mutex = False,
     bs_name = kDefaultDeviceName, bs_queue = new_send_queue, bs_in_flight = False, bs_given = [], bs_out = []\<rparr>"

definition bs_emit :: "ble_effect \<Rightarrow> ble_server \<Rightarrow> ble_server" where
  "bs_emit e s = s\<lparr>bs_out := bs_out s @ [e]\<rparr>"

definition has_client :: "ble_server \<Rightarrow> bool" where
  "has_client s \<longleftrightarrow> bs_handle s \<noteq> kInvalidHandle \<and> bs_notify s"

definition reset_send_queue :: "ble_server \<Rightarrow> ble_server" where
  "reset_send_queue s = s\<lparr>bs_queue := new_send_queue, bs_in_flight := False\<rparr>"

section \<open>The name\<close>

definition continuation :: "u8 \<Rightarrow> bool" where "continuation b \<longleftrightarrow> b AND 0xC0 = 0x80"

fun back_off :: "bytes \<Rightarrow> nat \<Rightarrow> nat" where
  "back_off name 0 = 0"
| "back_off name (Suc n) = (if continuation (name ! Suc n) then back_off name n else Suc n)"

definition set_device_name :: "bytes option \<Rightarrow> ble_server \<Rightarrow> ble_server" where
  "set_device_name name s =
     (let n = (case name of None \<Rightarrow> kDefaultDeviceName | Some x \<Rightarrow> if x = [] then kDefaultDeviceName else x);
          k = (if length n > kMaxDeviceNameLength then back_off n kMaxDeviceNameLength else length n)
      in s\<lparr>bs_name := take k n\<rparr>)"

section \<open>Advertising\<close>

text \<open>Whether the fields, the response, the address and the start are accepted.\<close>

record adv_io =
  ai_fields :: bool
  ai_response :: bool
  ai_address :: bool
  ai_start :: bool

text \<open>What the scan response carries: the name, and the service's UUID when both fit.\<close>

definition uuid_beside_name :: "bytes \<Rightarrow> bool" where
  "uuid_beside_name name \<longleftrightarrow> 2 + length name + kUuid128AdSize \<le> kAdvPayloadMax"

definition start_advertising :: "adv_io \<Rightarrow> ble_server \<Rightarrow> ble_server" where
  "start_advertising io s =
     (if \<not> ai_fields io then s
      else if \<not> ai_response io then s
      else if \<not> ai_address io then s
      else if \<not> ai_start io then s
      else bs_emit (Advertise (bs_name s) (uuid_beside_name (bs_name s))) s)"

definition on_sync :: "adv_io \<Rightarrow> ble_server \<Rightarrow> ble_server" where
  "on_sync io s = (if bs_instance s then start_advertising io s else s)"

section \<open>Starting and stopping\<close>

record ble_start_io =
  bi_other_instance :: bool
  bi_mutex :: bool
  bi_port :: bool
  bi_count_cfg :: bool
  bi_add_svcs :: bool

definition ble_start :: "bool \<Rightarrow> bool \<Rightarrow> bool \<Rightarrow> ble_start_io \<Rightarrow> ble_server \<Rightarrow> bool \<times> ble_server" where
  "ble_start receive_cb connect_cb disconnect_cb io s =
     (if bs_running s then (True, s)
      else if \<not> receive_cb then (False, s)
      else if bi_other_instance io then (False, s)
      else
        let s1 = reset_send_queue (s\<lparr>bs_receive_cb := receive_cb, bs_connect_cb := connect_cb, bs_disconnect_cb := disconnect_cb\<rparr>)
        in if \<not> bs_mutex s1 \<and> \<not> bi_mutex io then (False, s1)
           else if \<not> bi_port io \<or> \<not> bi_count_cfg io \<or> \<not> bi_add_svcs io
             then (False, s1\<lparr>bs_mutex := True, bs_instance := False\<rparr>)
           else (True, s1\<lparr>bs_mutex := True, bs_instance := True, bs_running := True\<rparr>))"

definition ble_close_active :: "ble_server \<Rightarrow> ble_server" where
  "ble_close_active s = (if bs_handle s \<noteq> kInvalidHandle then bs_emit (Terminate (bs_handle s)) s else s)"

definition ble_stop :: "ble_server \<Rightarrow> ble_server" where
  "ble_stop s =
     (if \<not> bs_running s then s
      else (reset_send_queue ((bs_emit Adv_Stop (ble_close_active s))\<lparr>bs_running := False\<rparr>))\<lparr>bs_instance := False\<rparr>)"

section \<open>Sending\<close>

text \<open>The notification filled from as many frames as fit.\<close>

function fill_chunk :: "nat \<Rightarrow> bytes \<Rightarrow> send_queue \<Rightarrow> bytes \<times> send_queue" where
  "fill_chunk capacity chunk q =
     (if length chunk < capacity \<and> sq_count q > 0 then
        let rest = front_rest q; room = capacity - length chunk;
            n = (if length rest < room then length rest else room)
        in if n = length rest then fill_chunk capacity (chunk @ take n rest) (pop_front q)
           else fill_chunk capacity (chunk @ take n rest) (advance_front n q)
      else (chunk, q))"
  by pat_completeness auto
termination
proof (relation "measure (\<lambda>(capacity, chunk, q). sq_count q + (capacity - length chunk))")
  show "wf (measure (\<lambda>(capacity, chunk :: bytes, q). sq_count q + (capacity - length chunk)))" by simp
  fix capacity chunk q rest room and n :: nat
  assume a: "length (chunk :: bytes) < capacity \<and> 0 < sq_count q" "rest = front_rest q" "room = capacity - length chunk"
    "n = (if length rest < room then length rest else room)"
  show "((capacity, chunk @ take n rest, pop_front q), capacity, chunk, q)
      \<in> measure (\<lambda>(capacity, chunk :: bytes, q). sq_count q + (capacity - length chunk))"
    using a(1) by auto
  assume "n \<noteq> length rest"
  then show "((capacity, chunk @ take n rest, advance_front n q), capacity, chunk, q)
      \<in> measure (\<lambda>(capacity, chunk :: bytes, q). sq_count q + (capacity - length chunk))"
    using a by (auto split: if_splits)
qed

declare fill_chunk.simps [simp del]

definition chunk_capacity :: "u16 \<Rightarrow> nat" where
  "chunk_capacity mtu = min (if mtu > 3 then unat mtu - 3 else 20) 512"

text \<open>Whether the stack has a buffer for the notification and accepts it.\<close>

definition ble_drain :: "bool \<Rightarrow> bool \<Rightarrow> ble_server \<Rightarrow> ble_server" where
  "ble_drain buffer accepts s =
     (if \<not> has_client s then s
      else if bs_in_flight s then s
      else if sq_count (bs_queue s) = 0 then s\<lparr>bs_in_flight := False\<rparr>
      else case fill_chunk (chunk_capacity (bs_mtu s)) [] (bs_queue s) of
        (chunk, q) \<Rightarrow>
          let s1 = s\<lparr>bs_queue := q, bs_in_flight := True\<rparr> in
          if \<not> buffer then s1\<lparr>bs_in_flight := False\<rparr>
          else if \<not> accepts then s1\<lparr>bs_in_flight := False\<rparr>
          else bs_emit (Notify (bs_handle s1) chunk) (s1\<lparr>bs_given := bs_given s1 @ chunk\<rparr>))"

definition ble_send ::
    "bool \<times> bool \<times> bool \<Rightarrow> frame_priority \<Rightarrow> bytes option \<Rightarrow> ble_server \<Rightarrow> bool \<times> ble_server" where
  "ble_send env priority data s =
     (case env of (allocated, buffer, accepts) \<Rightarrow>
        (case data of
           None \<Rightarrow> (False, s)
         | Some d \<Rightarrow>
             if d = [] \<or> \<not> has_client s then (False, s)
             else if \<not> bs_mutex s then (False, s)
             else if \<not> admit priority (sq_count (bs_queue s)) kSendQueueDepth kTelemetryQueueCeiling then (False, s)
             else if \<not> allocated then (False, s)
             else (True, ble_drain buffer accepts (s\<lparr>bs_queue := push_frame d (bs_queue s)\<rparr>))))"

section \<open>Events\<close>

datatype gap_event = Gap_Connect bool u16 | Gap_Disconnect | Gap_Subscribe u16 bool | Gap_Mtu u16
  | Gap_Notify_Tx | Gap_Other

text \<open>\<open>tx\<close> is the handle the stack gave the notify characteristic.\<close>

definition gap_event_handler :: "u16 \<Rightarrow> adv_io \<Rightarrow> bool \<Rightarrow> bool \<Rightarrow> gap_event \<Rightarrow> ble_server \<Rightarrow> ble_server" where
  "gap_event_handler tx io buffer accepts e s =
     (if \<not> bs_instance s then s
      else case e of
        Gap_Connect ok handle \<Rightarrow>
          if ok then
            let s1 = reset_send_queue (s\<lparr>bs_handle := handle, bs_notify := False\<rparr>);
                s2 = bs_emit (Update_Params handle) (s1\<lparr>bs_given := []\<rparr>)
            in if bs_connect_cb s2 then bs_emit Ble_Connect s2 else s2
          else start_advertising io s
      | Gap_Disconnect \<Rightarrow>
          let s1 = reset_send_queue (s\<lparr>bs_handle := kInvalidHandle, bs_notify := False, bs_mtu := 23\<rparr>);
              s2 = (if bs_disconnect_cb s1 then bs_emit Ble_Disconnect s1 else s1)
          in start_advertising io s2
      | Gap_Subscribe attr cur \<Rightarrow> if attr = tx then s\<lparr>bs_notify := cur\<rparr> else s
      | Gap_Mtu v \<Rightarrow> s\<lparr>bs_mtu := v\<rparr>
      | Gap_Notify_Tx \<Rightarrow> ble_drain buffer accepts (s\<lparr>bs_in_flight := False\<rparr>)
      | Gap_Other \<Rightarrow> s)"

datatype att_result = Att_Ok | Att_Unlikely | Att_Invalid_Length

text \<open>An access: whether it is a write, its octets, and whether they can be copied.\<close>

definition gatt_access_handler :: "u16 \<Rightarrow> bool \<Rightarrow> bytes \<Rightarrow> bool \<Rightarrow> ble_server \<Rightarrow> att_result \<times> ble_server" where
  "gatt_access_handler conn_handle is_write data copies s =
     (if \<not> bs_instance s then (Att_Unlikely, s)
      else if \<not> is_write then (Att_Unlikely, s)
      else if data = [] \<or> length data > kMaxChunkSize then (Att_Invalid_Length, s)
      else if \<not> copies then (Att_Unlikely, s)
      else (Att_Ok, if bs_receive_cb s \<and> conn_handle = bs_handle s then bs_emit (Ble_Receive data) s else s))"

section \<open>The name is cut at a character\<close>

definition boundary :: "bytes \<Rightarrow> nat \<Rightarrow> bool" where
  "boundary name i \<longleftrightarrow> i = 0 \<or> i = length name \<or> \<not> continuation (name ! i)"

lemma back_off_bound: "back_off name n \<le> n"
  by (induction name n rule: back_off.induct) auto

lemma back_off_boundary: "boundary name (back_off name n)"
  by (induction name n rule: back_off.induct) (auto simp: boundary_def)

lemma back_off_longest:
  "n < length name \<Longrightarrow> back_off name n < j \<Longrightarrow> j \<le> n \<Longrightarrow> \<not> boundary name j"
proof (induction name n arbitrary: j rule: back_off.induct)
  case (2 name n)
  show ?case
  proof (cases "j = Suc n")
    case True
    then show ?thesis using 2 by (auto simp: boundary_def split: if_splits)
  next
    case False
    then show ?thesis using 2 by (auto split: if_splits)
  qed
qed simp

text \<open>The name advertised is the longest part of the configured one that has at most 29 octets and
  ends between two characters (of UTF-8), and with it the scan response fits its 31 octets.\<close>

theorem device_name_cut_at_character:
  "let n = (case name of None \<Rightarrow> kDefaultDeviceName | Some x \<Rightarrow> if x = [] then kDefaultDeviceName else x);
       shown = bs_name (set_device_name name s)
   in shown = take (length shown) n \<and> boundary n (length shown) \<and> length shown \<le> kMaxDeviceNameLength \<and>
      filter (boundary n) [Suc (length shown)..<Suc (min (length n) kMaxDeviceNameLength)] = [] \<and>
      2 + length shown + (if uuid_beside_name shown then kUuid128AdSize else 0) \<le> kAdvPayloadMax"
proof -
  define n where "n = (case name of None \<Rightarrow> kDefaultDeviceName | Some x \<Rightarrow> if x = [] then kDefaultDeviceName else x)"
  define k where "k = (if length n > kMaxDeviceNameLength then back_off n kMaxDeviceNameLength else length n)"
  have name: "bs_name (set_device_name name s) = take k n"
    by (simp add: set_device_name_def n_def k_def Let_def)
  have le: "k \<le> length n" "k \<le> kMaxDeviceNameLength"
    using back_off_bound [of n kMaxDeviceNameLength] by (auto simp: k_def)
  have b: "boundary n k" using back_off_boundary [of n] by (simp add: k_def boundary_def)
  have "\<not> boundary n j" if "k < j" "j \<le> min (length n) kMaxDeviceNameLength" for j
    using back_off_longest [of kMaxDeviceNameLength n j] that by (simp add: k_def split: if_splits)
  then have "filter (boundary n) [Suc k..<Suc (min (length n) kMaxDeviceNameLength)] = []"
    by (auto simp: filter_empty_conv less_Suc_eq_le Suc_le_eq simp del: upt_Suc)
  then show ?thesis
    using le b unfolding Let_def n_def [symmetric] name
    by (simp add: uuid_beside_name_def kAdvPayloadMax_def kMaxDeviceNameLength_def del: upt_Suc)
qed

section \<open>The stream of frames\<close>

definition ble_ok :: "ble_server \<Rightarrow> bool" where "ble_ok s \<longleftrightarrow> sq_ok (bs_queue s)"

definition ble_owed :: "ble_server \<Rightarrow> bytes" where "ble_owed s = owed (bs_queue s)"

lemma fill_chunk_moves:
  assumes "sq_ok q" and "length chunk \<le> capacity" and "fill_chunk capacity chunk q = (c, q')"
  shows "sq_ok q' \<and> length c \<le> capacity \<and> (\<exists>m. c = chunk @ m \<and> owed q = m @ owed q') \<and>
    (length c = capacity \<or> sq_count q' = 0)"
  using assms
proof (induction capacity chunk q rule: fill_chunk.induct)
  case (1 capacity chunk q)
  show ?case
  proof (cases "length chunk < capacity \<and> sq_count q > 0")
    case False
    then have "c = chunk" "q' = q" using "1.prems"(3) by (auto simp: fill_chunk.simps [of capacity chunk q])
    then show ?thesis using "1.prems" False by auto
  next
    case True
    define rest where "rest = front_rest q"
    define room where "room = capacity - length chunk"
    define n where "n = (if length rest < room then length rest else room)"
    have n: "n \<le> length rest" "length chunk + n \<le> capacity" using True by (auto simp: n_def room_def)
    show ?thesis
    proof (cases "n = length rest")
      case whole: True
      have f: "fill_chunk capacity (chunk @ take n rest) (pop_front q) = (c, q')"
        using "1.prems"(3) True whole unfolding fill_chunk.simps [of capacity chunk q] Let_def
          rest_def [symmetric] room_def [symmetric] n_def [symmetric] by simp
      have "sq_ok q' \<and> length c \<le> capacity \<and>
          (\<exists>m. c = (chunk @ take n rest) @ m \<and> owed (pop_front q) = m @ owed q') \<and> (length c = capacity \<or> sq_count q' = 0)"
        by (rule "1.IH"(1) [OF True rest_def room_def n_def whole _ _ f])
          (use "1.prems"(1) pop_front_ok n in auto)
      then show ?thesis using owed_pop [OF "1.prems"(1)] True whole by (auto simp: rest_def)
    next
      case part: False
      have f: "fill_chunk capacity (chunk @ take n rest) (advance_front n q) = (c, q')"
        using "1.prems"(3) True part unfolding fill_chunk.simps [of capacity chunk q] Let_def
          rest_def [symmetric] room_def [symmetric] n_def [symmetric] by simp
      have "sq_ok q' \<and> length c \<le> capacity \<and>
          (\<exists>m. c = (chunk @ take n rest) @ m \<and> owed (advance_front n q) = m @ owed q') \<and> (length c = capacity \<or> sq_count q' = 0)"
        by (rule "1.IH"(2) [OF True rest_def room_def n_def part _ _ f])
          (use "1.prems"(1) advance_front_ok n in auto)
      then show ?thesis using owed_advance [OF "1.prems"(1), of n] True n by (auto simp: rest_def)
    qed
  qed
qed

lemma chunk_capacity_pos: "0 < chunk_capacity mtu \<and> chunk_capacity mtu \<le> 512"
proof -
  have "3 < unat mtu" if "mtu > 3" using that by (simp add: word_less_nat_alt)
  then show ?thesis by (auto simp: chunk_capacity_def)
qed

lemma ble_drain_moves:
  assumes "ble_ok s"
  shows "ble_ok (ble_drain True True s) \<and>
    (\<exists>m. bs_given (ble_drain True True s) = bs_given s @ m \<and> ble_owed s = m @ ble_owed (ble_drain True True s))"
proof (cases "has_client s \<and> \<not> bs_in_flight s \<and> sq_count (bs_queue s) \<noteq> 0")
  case False
  then show ?thesis using assms by (auto simp: ble_drain_def ble_ok_def ble_owed_def)
next
  case True
  obtain chunk q where f: "fill_chunk (chunk_capacity (bs_mtu s)) [] (bs_queue s) = (chunk, q)"
    by (cases "fill_chunk (chunk_capacity (bs_mtu s)) [] (bs_queue s)")
  from fill_chunk_moves [OF _ _ f] assms show ?thesis
    using True f by (auto simp: ble_drain_def ble_ok_def ble_owed_def bs_emit_def Let_def)
qed

definition ble_offer :: "bool \<Rightarrow> frame_priority \<Rightarrow> bytes \<Rightarrow> ble_server \<Rightarrow> bool \<times> ble_server" where
  "ble_offer allocated p d s = ble_send (allocated, True, True) p (Some d) s"

definition ble_sent :: "unit \<Rightarrow> ble_server \<Rightarrow> ble_server" where
  "ble_sent u s = ble_drain True True (s\<lparr>bs_in_flight := False\<rparr>)"

interpretation ble_stream: byte_stream ble_ok bs_given ble_owed ble_offer ble_sent
proof unfold_locales
  show "ble_ok s' \<and> bs_given s' @ ble_owed s' = bs_given s @ ble_owed s @ d \<and> (\<exists>m. bs_given s' = bs_given s @ m)"
    if ok: "ble_ok s" and t: "ble_offer e p d s = (True, s')" for s e p d s'
  proof -
    let ?q = "s\<lparr>bs_queue := push_frame d (bs_queue s)\<rparr>"
    have s': "s' = ble_drain True True ?q" and a: "sq_count (bs_queue s) < kSendQueueDepth"
      using t by (auto simp: ble_offer_def ble_send_def admit_def split: if_splits)
    have p: "ble_ok ?q" "ble_owed ?q = ble_owed s @ d"
      using push_frame_frames [of "bs_queue s" d] ok a by (auto simp: ble_ok_def ble_owed_def)
    show ?thesis using ble_drain_moves [OF p(1)] p(2) by (auto simp: s')
  qed
  show "s' = s" if "ble_offer e p d s = (False, s')" for s e p d s'
    using that by (auto simp: ble_offer_def ble_send_def split: if_splits)
  show "ble_ok (ble_sent a s) \<and> (\<exists>m. bs_given (ble_sent a s) = bs_given s @ m \<and> ble_owed s = m @ ble_owed (ble_sent a s))"
    if "ble_ok s" for s a
    using ble_drain_moves [of "s\<lparr>bs_in_flight := False\<rparr>"] that by (simp add: ble_sent_def ble_ok_def ble_owed_def)
qed

text \<open>As long as the stack takes every notification, the central receives the accepted frames whole and
  in order.\<close>

lemma ble_frames_delivered_intact:
  assumes "ble_ok s" and "stream_run ble_offer ble_sent ops s = (accepted, t)"
  shows "bs_given t @ ble_owed t = bs_given s @ ble_owed s @ concat accepted"
  using ble_stream.stream_intact [OF assms] by simp

text \<open>A notification the stack has no room for is lost: the octets it was filled with, at least one
  of them accepted before, have left the queue and are given to nobody, and nothing is sent again.\<close>

theorem refused_notification_loses_octets:
  assumes "ble_ok s" and "has_client s" and "\<not> bs_in_flight s" and "ble_owed s \<noteq> []"
  shows "\<exists>lost. lost \<noteq> [] \<and> ble_owed s = lost @ ble_owed (ble_drain False accepts s) \<and>
    bs_given (ble_drain False accepts s) = bs_given s \<and> bs_out (ble_drain False accepts s) = bs_out s \<and>
    ble_drain True False s = ble_drain False accepts s"
proof -
  obtain chunk q where f: "fill_chunk (chunk_capacity (bs_mtu s)) [] (bs_queue s) = (chunk, q)"
    by (cases "fill_chunk (chunk_capacity (bs_mtu s)) [] (bs_queue s)")
  from fill_chunk_moves [OF _ _ f] assms(1) have m: "owed (bs_queue s) = chunk @ owed q"
    "length chunk = chunk_capacity (bs_mtu s) \<or> sq_count q = 0" "sq_ok q" by (auto simp: ble_ok_def)
  have "owed q = []" if "sq_count q = 0" using that by (simp add: owed_def sq_frames_def)
  then have "chunk \<noteq> []" using m chunk_capacity_pos [of "bs_mtu s"] assms(4) by (auto simp: ble_owed_def)
  moreover have "sq_count (bs_queue s) \<noteq> 0"
    using assms(4) by (intro notI) (simp add: ble_owed_def owed_def sq_frames_def)
  ultimately show ?thesis using f m(1) assms(2,3)
    by (intro exI [of _ chunk]) (simp add: ble_drain_def ble_owed_def Let_def)
qed


section \<open>Instances\<close>

definition demo_adv :: adv_io where
  "demo_adv = \<lparr>ai_fields = True, ai_response = True, ai_address = True, ai_start = True\<rparr>"

definition demo_central :: ble_server where
  "demo_central =
     gap_event_handler 7 demo_adv True True (Gap_Subscribe 7 True)
       (gap_event_handler 7 demo_adv True True (Gap_Connect True 1)
          (snd (ble_start True True True \<lparr>bi_other_instance = False, bi_mutex = True, bi_port = True,
             bi_count_cfg = True, bi_add_svcs = True\<rparr> new_ble_server)))"

definition demo_reply :: ble_server where
  "demo_reply = demo_central\<lparr>bs_queue := push_frame [1, 2, 3] (bs_queue demo_central)\<rparr>"

lemma refused_notification_loses_octets_witness:
  "\<exists>lost. lost \<noteq> [] \<and> [1, 2, 3] = lost @ ble_owed (ble_drain False True demo_reply)"
proof -
  have q: "ble_ok demo_reply" by code_simp
  have c: "has_client demo_reply" by code_simp
  have f: "\<not> bs_in_flight demo_reply" by code_simp
  have d: "ble_owed demo_reply = [1, 2, 3]" by code_simp
  then have n: "ble_owed demo_reply \<noteq> []" by simp
  from refused_notification_loses_octets [OF q c f n, of True] d show ?thesis by auto
qed

end
