(* ===== verification/Serial_Server.thy ===== *)
theory Serial_Server
  imports Send_Queue
begin

text \<open>
  The control link over the USB serial port (\<^verbatim>\<open>lib/UsbSerialBtpServer/\<close>): sessions opened and closed by
  the host's DTR line, and the queue that is drained into the port's buffer.  What the USB stack
  answers is an argument; \<open>us_given\<close> is what its buffer has taken in this session, \<open>us_out\<close> the
  callbacks called.
\<close>

datatype serial_effect = Serial_Connect | Serial_Disconnect | Serial_Receive bytes | Fifo_Clear

record serial_server =
  us_running :: bool
  us_connected :: bool
  us_connect_cb :: bool
  us_disconnect_cb :: bool
  us_mutex :: bool
  us_queue :: send_queue
  us_given :: bytes
  us_out :: "serial_effect list"

definition new_serial_server :: serial_server where
  "new_serial_server = \<lparr>us_running = False, us_connected = False, us_connect_cb = False,
     us_disconnect_cb = False, us_mutex = False, us_queue = new_send_queue, us_given = [], us_out = []\<rparr>"

definition us_emit :: "serial_effect \<Rightarrow> serial_server \<Rightarrow> serial_server" where
  "us_emit e s = s\<lparr>us_out := us_out s @ [e]\<rparr>"

text \<open>Whether the receive callback is set, the semaphore can be made and the interface initialized.\<close>

definition serial_start :: "bool \<Rightarrow> bool \<Rightarrow> bool \<Rightarrow> bool \<Rightarrow> bool \<Rightarrow> serial_server \<Rightarrow> bool \<times> serial_server" where
  "serial_start receive_cb connect_cb disconnect_cb mutex cdc s =
     (if us_running s then (True, s)
      else if \<not> receive_cb then (False, s)
      else if \<not> us_mutex s \<and> \<not> mutex then (False, s)
      else
        let s1 = s\<lparr>us_mutex := True, us_connect_cb := connect_cb, us_disconnect_cb := disconnect_cb\<rparr>
        in if \<not> cdc then (False, s1) else (True, s1\<lparr>us_running := True\<rparr>))"

definition open_session :: "serial_server \<Rightarrow> serial_server" where
  "open_session s =
     (let s1 = s\<lparr>us_queue := new_send_queue, us_connected := True, us_given := []\<rparr>
      in if us_connect_cb s1 then us_emit Serial_Connect s1 else s1)"

definition close_session :: "serial_server \<Rightarrow> serial_server" where
  "close_session s =
     (let s1 = us_emit Fifo_Clear (s\<lparr>us_connected := False, us_queue := new_send_queue\<rparr>)
      in if us_disconnect_cb s1 then us_emit Serial_Disconnect s1 else s1)"

definition handle_line_state :: "bool \<Rightarrow> serial_server \<Rightarrow> serial_server" where
  "handle_line_state dtr s =
     (if dtr then open_session (if us_connected s then close_session s else s)
      else if us_connected s then close_session s else s)"

text \<open>The chunks the port gives until it has no more.\<close>

fun handle_rx :: "bytes list \<Rightarrow> serial_server \<Rightarrow> serial_server" where
  "handle_rx [] s = s"
| "handle_rx (d # ds) s =
     (if d = [] then s
      else handle_rx ds (us_emit (Serial_Receive (take 512 d)) (if \<not> us_connected s then open_session s else s)))"

text \<open>How much the port's buffer takes of each attempt.\<close>

fun serial_drain_loop :: "nat list \<Rightarrow> serial_server \<Rightarrow> serial_server" where
  "serial_drain_loop [] s = s"
| "serial_drain_loop (n # ns) s =
     (if sq_count (us_queue s) = 0 then s
      else
        let rest = front_rest (us_queue s); written = min n (length rest) in
        if written = 0 then s
        else
          let s1 = s\<lparr>us_given := us_given s @ take written rest\<rparr> in
          if written < length rest then s1\<lparr>us_queue := advance_front written (us_queue s1)\<rparr>
          else serial_drain_loop ns (s1\<lparr>us_queue := pop_front (us_queue s1)\<rparr>))"

definition serial_drain :: "nat list \<Rightarrow> serial_server \<Rightarrow> serial_server" where
  "serial_drain ns s = (if \<not> us_mutex s \<or> \<not> us_connected s then s else serial_drain_loop ns s)"

text \<open>Whether the device is ready and the copy allocated, and what the buffer then takes.\<close>

definition serial_send ::
    "bool \<times> bool \<times> nat list \<Rightarrow> frame_priority \<Rightarrow> bytes option \<Rightarrow> serial_server \<Rightarrow> bool \<times> serial_server" where
  "serial_send env priority data s =
     (case env of (ready, allocated, ns) \<Rightarrow>
        (case data of
           None \<Rightarrow> (False, s)
         | Some d \<Rightarrow>
             if d = [] \<or> \<not> us_connected s then (False, s)
             else if \<not> us_mutex s \<or> \<not> ready then (False, s)
             else if \<not> admit priority (sq_count (us_queue s)) kSendQueueDepth kTelemetryQueueCeiling then (False, s)
             else if \<not> allocated then (False, s)
             else (True, serial_drain ns (s\<lparr>us_queue := push_frame d (us_queue s)\<rparr>))))"

section \<open>The stream of frames\<close>

definition serial_ok :: "serial_server \<Rightarrow> bool" where "serial_ok s \<longleftrightarrow> sq_ok (us_queue s)"

definition serial_owed :: "serial_server \<Rightarrow> bytes" where "serial_owed s = owed (us_queue s)"

definition serial_offer :: "bool \<times> bool \<times> nat list \<Rightarrow> frame_priority \<Rightarrow> bytes \<Rightarrow> serial_server \<Rightarrow> bool \<times> serial_server" where
  "serial_offer env p d s = serial_send env p (Some d) s"

lemma serial_drain_loop_moves:
  assumes "serial_ok s"
  shows "serial_ok (serial_drain_loop ns s) \<and>
    (\<exists>m. us_given (serial_drain_loop ns s) = us_given s @ m \<and> serial_owed s = m @ serial_owed (serial_drain_loop ns s))"
  using assms
proof (induction ns s rule: serial_drain_loop.induct)
  case (1 s)
  then show ?case by simp
next
  case (2 n ns s)
  show ?case
  proof (cases "sq_count (us_queue s) = 0")
    case True
    then show ?thesis using 2 by simp
  next
    case c: False
    define rest where "rest = front_rest (us_queue s)"
    define w where "w = min n (length rest)"
    define s1 where "s1 = s\<lparr>us_given := us_given s @ take w rest\<rparr>"
    have ok: "sq_ok (us_queue s)" using 2(2) by (simp add: serial_ok_def)
    show ?thesis
    proof (cases "w = 0")
      case True
      then show ?thesis using 2 c by (simp add: rest_def w_def)
    next
      case w: False
      show ?thesis
      proof (cases "w < length rest")
        case True
        have "serial_drain_loop (n # ns) s = s1\<lparr>us_queue := advance_front w (us_queue s1)\<rparr>"
          using c w True unfolding s1_def w_def rest_def by (auto simp: Let_def min_def)
        then show ?thesis
          using owed_advance [OF ok c, of w] advance_front_ok [OF ok, of w]
          by (simp add: serial_ok_def serial_owed_def s1_def rest_def w_def)
      next
        case False
        define s2 where "s2 = s1\<lparr>us_queue := pop_front (us_queue s1)\<rparr>"
        have d: "serial_drain_loop (n # ns) s = serial_drain_loop ns s2"
          using c w False unfolding s2_def s1_def w_def rest_def by (auto simp: Let_def min_def)
        have full: "take w rest = rest" using False by (simp add: w_def)
        have owed2: "serial_owed s = rest @ serial_owed s2"
          using owed_pop [OF ok c] by (simp add: serial_owed_def s2_def s1_def rest_def)
        have ok2: "serial_ok s2" using pop_front_ok [OF ok] by (simp add: serial_ok_def s2_def s1_def)
        have "serial_ok (serial_drain_loop ns s2) \<and> (\<exists>m. us_given (serial_drain_loop ns s2) = us_given s2 @ m \<and>
           serial_owed s2 = m @ serial_owed (serial_drain_loop ns s2))"
          using 2(1) [OF c rest_def w_def w s1_def, folded s2_def] False ok2 by blast
        then show ?thesis unfolding d using owed2 full by (auto simp: s2_def s1_def)
      qed
    qed
  qed
qed

lemma serial_drain_moves:
  assumes "serial_ok s"
  shows "serial_ok (serial_drain ns s) \<and>
    (\<exists>m. us_given (serial_drain ns s) = us_given s @ m \<and> serial_owed s = m @ serial_owed (serial_drain ns s))"
  using assms serial_drain_loop_moves [OF assms, of ns] by (simp add: serial_drain_def)

interpretation serial_stream: byte_stream serial_ok us_given serial_owed serial_offer serial_drain
proof unfold_locales
  show "serial_ok s' \<and> us_given s' @ serial_owed s' = us_given s @ serial_owed s @ d \<and> (\<exists>m. us_given s' = us_given s @ m)"
    if ok: "serial_ok s" and t: "serial_offer e p d s = (True, s')" for s e p d s'
  proof -
    obtain ready allocated ns where e: "e = (ready, allocated, ns)" by (cases e)
    let ?q = "s\<lparr>us_queue := push_frame d (us_queue s)\<rparr>"
    have s': "s' = serial_drain ns ?q" and a: "sq_count (us_queue s) < kSendQueueDepth"
      using t by (auto simp: serial_offer_def serial_send_def e admit_def split: if_splits)
    have p: "serial_ok ?q" "serial_owed ?q = serial_owed s @ d"
      using push_frame_frames [of "us_queue s" d] ok a by (auto simp: serial_ok_def serial_owed_def)
    show ?thesis using serial_drain_moves [OF p(1), of ns] p(2) by (auto simp: s')
  qed
  show "s' = s" if "serial_offer e p d s = (False, s')" for s e p d s'
    using that by (auto simp: serial_offer_def serial_send_def split: prod.splits if_splits)
qed (rule serial_drain_moves)

text \<open>Within a session the port's buffer is given exactly the accepted frames, whole, in order and
  never mixed, however little it takes at a time.\<close>

theorem serial_frames_delivered_intact:
  assumes "serial_ok s" and "stream_run serial_offer serial_drain ops s = (accepted, t)"
  shows "us_given t @ serial_owed t = us_given s @ serial_owed s @ concat accepted \<and> (\<exists>m. us_given t = us_given s @ m)"
  using serial_stream.stream_intact [OF assms] by simp

section \<open>Sessions\<close>

text \<open>A host that opens the port always starts from nothing: whatever was going on, its session
  begins with an empty queue, the buffer's leftovers cleared and the former session reported as
  ended before the new one is reported.\<close>

theorem new_host_inherits_nothing:
  "us_connected (handle_line_state True s) \<and> serial_owed (handle_line_state True s) = [] \<and>
   us_given (handle_line_state True s) = [] \<and>
   us_out (handle_line_state True s) = us_out s @
     (if us_connected s then Fifo_Clear # (if us_disconnect_cb s then [Serial_Disconnect] else []) else []) @
     (if us_connect_cb s then [Serial_Connect] else [])"
  by (simp add: handle_line_state_def open_session_def close_session_def us_emit_def Let_def serial_owed_def)



section \<open>An instance\<close>

definition demo_host :: serial_server where
  "demo_host = handle_line_state True (snd (serial_start True True True True True new_serial_server))"

definition demo_serial_ops :: "(bool \<times> bool \<times> nat list, nat list) stream_op list" where
  "demo_serial_ops = [Offer (True, True, [2, 0]) FP_Normal [1, 2, 3], Offer (True, True, []) FP_Telemetry [4, 5], Progress [1, 5]]"

lemma serial_frames_delivered_intact_witness:
  "us_given (snd (stream_run serial_offer serial_drain demo_serial_ops demo_host)) @
     serial_owed (snd (stream_run serial_offer serial_drain demo_serial_ops demo_host)) = [1, 2, 3, 4, 5]"
proof -
  have c: "serial_ok demo_host" "us_given demo_host = []" "serial_owed demo_host = []" by code_simp+
  have "fst (stream_run serial_offer serial_drain demo_serial_ops demo_host) = [[1, 2, 3], [4, 5]]" by code_simp
  then have r: "stream_run serial_offer serial_drain demo_serial_ops demo_host =
      ([[1, 2, 3], [4, 5]], snd (stream_run serial_offer serial_drain demo_serial_ops demo_host))"
    by (simp add: prod_eq_iff)
  show ?thesis using serial_frames_delivered_intact [OF c(1) r] c(2,3) by simp
qed

end
