(* ===== verification/USB_Storage.thy ===== *)
theory USB_Storage
  imports SD_Card Robot_Outputs Job_Commands
begin

text \<open>
  The card over USB (\<^verbatim>\<open>lib/USBMassStorage/\<close>): who owns the card, the session in which the PC does, and
  the shell module \<^verbatim>\<open>storage\<close> as far as it is defined there.

  The USB and mass storage drivers are not the program's: what they answer in a call is the record
  \<open>usb_io\<close>, and what is asked of them is written to \<open>um_out\<close>.  The three mount points are the
  answers to the questions a call asks in turn: \<open>None\<close> is an error, \<open>Some True\<close> that the program has
  the card.
\<close>

section \<open>State\<close>

definition kStorageBlinkPeriodMs :: u32 where "kStorageBlinkPeriodMs = 1000"
definition kStorageLedHoldMs :: u32 where "kStorageLedHoldMs = 200"

datatype usb_effect = Msc_Install | Msc_Uninstall | Storage_New | Storage_Delete | Mount_App | Mount_Usb
  | Usb_Install bool | Usb_Uninstall

record usb_storage =
  um_card :: bool
  um_leds :: "out_flags option"
  um_storage :: bool
  um_serial :: string
  um_product :: string
  um_prepared :: bool
  um_initialized :: bool
  um_app :: bool
  um_installed :: bool
  um_persistent :: bool
  um_session :: bool
  um_attached :: bool
  um_failed :: bool
  um_blink_next :: u32
  um_blink_alt :: bool
  um_sd :: sd_card
  um_out :: "usb_effect list"

definition new_usb_storage :: "sd_card \<Rightarrow> usb_storage" where
  "new_usb_storage c = \<lparr>um_card = False, um_leds = None, um_storage = False, um_serial = [], um_product = [],
     um_prepared = False, um_initialized = False, um_app = False, um_installed = False, um_persistent = False,
     um_session = False, um_attached = False, um_failed = False, um_blink_next = 0, um_blink_alt = False,
     um_sd = c, um_out = []\<rparr>"

record usb_io =
  ui_now :: u32
  ui_set_mount :: bool
  ui_transition_fails :: bool
  ui_return_fails :: bool
  ui_point1 :: "bool option"
  ui_point2 :: "bool option"
  ui_point3 :: "bool option"
  ui_install :: bool
  ui_mac :: "bytes option"

definition um_emit :: "usb_effect \<Rightarrow> usb_storage \<Rightarrow> usb_storage" where
  "um_emit e s = s\<lparr>um_out := um_out s @ [e]\<rparr>"

definition is_ready :: "usb_storage \<Rightarrow> bool" where "is_ready s \<longleftrightarrow> um_initialized s"

definition is_exposed :: "usb_storage \<Rightarrow> bool" where "is_exposed s \<longleftrightarrow> um_session s \<and> \<not> um_app s"

definition usb_is_active :: "usb_storage \<Rightarrow> bool" where
  "usb_is_active s \<longleftrightarrow> um_session s \<or> (um_installed s \<and> \<not> um_persistent s)"

section \<open>The identity shown to the host\<close>

definition hex_digit :: "nat \<Rightarrow> char" where "hex_digit n = ''0123456789ABCDEF'' ! n"

definition hex_serial :: "bytes \<Rightarrow> string" where
  "hex_serial mac = concat (map (\<lambda>b. [hex_digit (unat (drop_bit 4 b)), hex_digit (unat (b AND 0x0F))]) mac)"

definition prepare_usb_identity :: "usb_io \<Rightarrow> usb_storage \<Rightarrow> bool \<times> usb_storage" where
  "prepare_usb_identity io s =
     (case ui_mac io of
        None \<Rightarrow> (False, s)
      | Some mac \<Rightarrow> (True, s\<lparr>um_serial := hex_serial mac, um_prepared := True\<rparr>))"

text \<open>The six descriptors, with the strings of the configuration: the table points to the product name
  as soon as there is one.\<close>

definition usb_strings :: "string \<Rightarrow> string \<Rightarrow> string \<Rightarrow> usb_storage \<Rightarrow> string list" where
  "usb_strings manufacturer product msc s =
     (let name = (if um_product s \<noteq> [] then um_product s else product)
      in [[CHR 0x09, CHR 0x04], manufacturer, name, um_serial s, name, msc])"

definition set_product_name :: "string option \<Rightarrow> usb_storage \<Rightarrow> usb_storage" where
  "set_product_name name s =
     (case name of
        None \<Rightarrow> s
      | Some n \<Rightarrow> if um_installed s \<or> n = [] then s else s\<lparr>um_product := take 31 n\<rparr>)"

section \<open>Owning the card\<close>

definition sync_mount_state :: "bool option \<Rightarrow> usb_storage \<Rightarrow> bool \<times> usb_storage" where
  "sync_mount_state point s =
     (if \<not> um_storage s \<or> \<not> um_card s then (False, s)
      else case point of
        None \<Rightarrow> (False, s)
      | Some app \<Rightarrow> (True, s\<lparr>um_app := app, um_sd := set_app_mounted app (um_sd s)\<rparr>))"

text \<open>Asking for a transition: the driver's events in the course of it tell whether it failed.\<close>

datatype storage_event = Mount_Start | Mount_Failed | Mount_Complete | Storage_Other

fun handle_storage_event :: "storage_event \<Rightarrow> usb_storage \<Rightarrow> usb_storage" where
  "handle_storage_event Mount_Start s = s\<lparr>um_failed := False\<rparr>"
| "handle_storage_event Mount_Failed s = s\<lparr>um_failed := True\<rparr>"
| "handle_storage_event Mount_Complete s = s\<lparr>um_failed := False\<rparr>"
| "handle_storage_event Storage_Other s = s"

definition set_mount :: "usb_effect \<Rightarrow> bool \<Rightarrow> usb_storage \<Rightarrow> usb_storage" where
  "set_mount e fails s = handle_storage_event (if fails then Mount_Failed else Mount_Complete)
     (handle_storage_event Mount_Start (um_emit e s))"

definition handle_host_connection :: "bool \<Rightarrow> usb_storage \<Rightarrow> usb_storage" where
  "handle_host_connection attached s = s\<lparr>um_attached := attached\<rparr>"

definition has_open_stream :: "sd_card \<Rightarrow> bool" where "has_open_stream c \<longleftrightarrow> sd_stream c \<noteq> None"

text \<open>\<open>begin\<close>: whether the card has its handle and mount point, the driver and the storage can be
  installed, what the volume answers, and what the repair of the disk signature answers.\<close>

definition usb_begin ::
    "out_flags \<Rightarrow> bool \<Rightarrow> bool \<Rightarrow> bool \<Rightarrow> (u64 \<times> u64) option \<Rightarrow> bool \<Rightarrow> usb_io \<Rightarrow> usb_storage \<Rightarrow> bool \<times> usb_storage" where
  "usb_begin leds has_card msc new_storage fat mbr io s =
     (if um_initialized s then (True, s)
      else if \<not> has_card then (False, s)
      else case prepare_usb_identity io s of
        (False, s1) \<Rightarrow> (False, s1)
      | (True, s1) \<Rightarrow>
          let s2 = s1\<lparr>um_leds := Some leds\<rparr> in
          if \<not> msc then (False, s2)
          else
            let s3 = um_emit Msc_Install s2 in
            if \<not> new_storage then (False, um_emit Msc_Uninstall s3)
            else
              let s4 = (um_emit Storage_New s3)\<lparr>um_card := True, um_storage := True, um_failed := False, um_initialized := True\<rparr>
              in case sync_mount_state (ui_point1 io) s4 of (synced, s5) \<Rightarrow>
                   if \<not> synced \<or> \<not> um_app s5 \<or> get_storage_info fat (um_sd s5) = None \<or> \<not> mbr
                   then (False, (um_emit Msc_Uninstall (um_emit Storage_Delete s5))
                           \<lparr>um_storage := False, um_card := False, um_initialized := False\<rparr>)
                   else (True, s5))"

definition install_usb_driver :: "bool \<Rightarrow> usb_io \<Rightarrow> usb_storage \<Rightarrow> bool \<times> usb_storage" where
  "install_usb_driver stay io s =
     (if \<not> ui_install io then (False, s)
      else (True, (um_emit (Usb_Install stay) s)\<lparr>um_persistent := stay, um_installed := True\<rparr>))"

definition install_persistent_usb_device :: "usb_io \<Rightarrow> usb_storage \<Rightarrow> bool \<times> usb_storage" where
  "install_persistent_usb_device io s =
     (if um_persistent s then (True, s)
      else if um_installed s then (True, s\<lparr>um_persistent := True\<rparr>)
      else case (if um_prepared s then (True, s) else prepare_usb_identity io s) of
        (False, s1) \<Rightarrow> (False, s1)
      | (True, s1) \<Rightarrow> install_usb_driver True io s1)"

definition expose :: "usb_io \<Rightarrow> usb_storage \<Rightarrow> bool \<times> usb_storage" where
  "expose io s =
     (if \<not> um_initialized s \<or> \<not> um_storage s \<or> um_session s then (False, s)
      else case sync_mount_state (ui_point1 io) s of (synced, s1) \<Rightarrow>
        if \<not> synced \<or> \<not> um_app s1 \<or> \<not> um_card s1 \<or> has_open_stream (um_sd s1) then (False, s1)
        else
          let s2 = set_mount Mount_Usb (ui_transition_fails io) (s1\<lparr>um_failed := False\<rparr>) in
          if \<not> ui_set_mount io \<or> um_failed s2 then (False, s2)
          else case sync_mount_state (ui_point2 io) s2 of (synced2, s3) \<Rightarrow>
            if \<not> synced2 \<or> um_app s3 then (False, s3)
            else case (if um_installed s3 then (True, s3) else install_usb_driver False io (s3\<lparr>um_attached := False\<rparr>)) of
              (False, s4) \<Rightarrow> (False, snd (sync_mount_state (ui_point3 io) (set_mount Mount_App (ui_return_fails io) s4)))
            | (True, s4) \<Rightarrow> (True, s4\<lparr>um_session := True, um_blink_alt := False,
                                      um_blink_next := ui_now io + kStorageBlinkPeriodMs\<rparr>))"

definition um_led :: "nat \<Rightarrow> u32 \<Rightarrow> usb_io \<Rightarrow> usb_storage \<Rightarrow> usb_storage" where
  "um_led i ms io s = s\<lparr>um_leds := (case um_leds s of None \<Rightarrow> None | Some l \<Rightarrow> Some (out_set_flag (ui_now io) i ms l))\<rparr>"

definition reclaim :: "usb_io \<Rightarrow> usb_storage \<Rightarrow> bool \<times> usb_storage" where
  "reclaim io s =
     (if \<not> um_session s \<or> \<not> um_storage s then (False, s)
      else
        let s1 = snd (sync_mount_state (ui_point1 io) (set_mount Mount_App (ui_return_fails io) s));
            s2 = (if um_installed s1 \<and> \<not> um_persistent s1
                  then (um_emit Usb_Uninstall s1)\<lparr>um_installed := False, um_attached := False\<rparr> else s1);
            s3 = fold (\<lambda>i. um_led i 1 io) [0..<4] (s2\<lparr>um_session := False\<rparr>)
        in (um_app s3, s3))"

definition usb_update_status_led :: "usb_io \<Rightarrow> usb_storage \<Rightarrow> usb_storage" where
  "usb_update_status_led io s =
     (if um_leds s = None then s
      else
        let s1 = (if 0 \<le> sint (ui_now io - um_blink_next s)
                  then s\<lparr>um_blink_alt := \<not> um_blink_alt s, um_blink_next := ui_now io + kStorageBlinkPeriodMs\<rparr> else s)
        in if um_blink_alt s1 then um_led 3 kStorageLedHoldMs io (um_led 1 kStorageLedHoldMs io s1)
           else um_led 2 kStorageLedHoldMs io (um_led 0 kStorageLedHoldMs io s1))"

text \<open>The periodic call and the second button.  The call's first question is the tick's, the second
  the reclaiming's.\<close>

definition usb_process :: "u8 \<Rightarrow> usb_io \<Rightarrow> usb_storage \<Rightarrow> usb_storage" where
  "usb_process button_flags io s =
     (if \<not> um_session s \<or> \<not> um_storage s then s
      else
        let s1 = usb_update_status_led io (snd (sync_mount_state (ui_point1 io) s))
        in if bit button_flags 2 then snd (reclaim (io\<lparr>ui_point1 := ui_point2 io\<rparr>) s1) else s1)"

definition usb_release :: "usb_io \<Rightarrow> usb_storage \<Rightarrow> usb_storage" where
  "usb_release io s =
     (if \<not> um_storage s then s
      else
        let s0 = (if um_card s then s\<lparr>um_sd := snd (close_stream (um_sd s))\<rparr> else s);
            s1 = snd (sync_mount_state (ui_point1 io) (set_mount Mount_App (ui_return_fails io) s0));
            s2 = (if um_installed s1 then (um_emit Usb_Uninstall s1)\<lparr>um_installed := False\<rparr> else s1);
            s3 = (um_emit Msc_Uninstall (um_emit Storage_Delete s2))\<lparr>um_storage := False, um_initialized := False,
                    um_app := False, um_session := False, um_attached := False\<rparr>
        in if um_card s3 then s3\<lparr>um_sd := set_app_mounted False (um_sd s3)\<rparr> else s3)"

text \<open>The capacity: what the driver says of the sectors.\<close>

definition capacity_bytes :: "u32 option \<Rightarrow> u32 option \<Rightarrow> usb_storage \<Rightarrow> u64" where
  "capacity_bytes count sector s =
     (if \<not> um_storage s then 0
      else case (count, sector) of (Some n, Some z) \<Rightarrow> ucast n * ucast z | _ \<Rightarrow> 0)"

section \<open>The shell commands\<close>

definition storage_expose :: "state_name \<Rightarrow> bool \<Rightarrow> usb_io \<Rightarrow> usb_storage \<Rightarrow> shell_result \<times> log_line list \<times> usb_storage" where
  "storage_expose state test_active io s =
     (if state \<noteq> DEBUG then (RESULT_ERROR, [(ERRO, ''USB storage requires DEBUG state; enter DEBUG first'')], s)
      else if is_exposed s then (RESULT_OK, [(INFO, ''USB storage is already enabled'')], s)
      else if \<not> is_ready s \<or> \<not> um_app s \<or> \<not> is_mounted (um_sd s) then
        (RESULT_ERROR, [(ERRO, ''USB storage unavailable: SD card is not mounted for robot'')], s)
      else if has_open_stream (um_sd s) then
        (RESULT_ERROR, [(ERRO, ''USB storage blocked: close the active SD file first'')], s)
      else if test_active then
        (RESULT_ERROR, [(ERRO, ''USB storage blocked: wait for the DEBUG test to finish'')], s)
      else case expose io s of
        (False, s') \<Rightarrow> (RESULT_ERROR, [(ERRO, ''Failed to transfer SD card ownership to native USB'')], s')
      | (True, s') \<Rightarrow> (RESULT_OK, [(INFO, ''USB storage enabled; press button 2 on the robot to give the SD card back (the PC'' @
           [CHR 0x27] @ ''s own safe-eject no longer reclaims it automatically)'')], s'))"

definition storage_status :: "(u64 \<Rightarrow> string) \<Rightarrow> u32 option \<Rightarrow> u32 option \<Rightarrow> usb_storage \<Rightarrow> shell_result \<times> log_line list" where
  "storage_status format_bytes count sector s =
     (if \<not> is_ready s then (RESULT_ERROR, [(ERRO, ''USB storage is not initialized'')])
      else
        let owner = (if is_exposed s then ''PC owns SD''
                     else if usb_is_active s then
                       (if um_attached s then ''PC connected, waiting for media'' else ''waiting for PC connection'')
                     else ''robot owns SD'')
        in (RESULT_OK, [(INFO, take 95 (''USB storage: '' @ owner @ ''; media='' @
              take 23 (format_bytes (capacity_bytes count sector s))))]))"

section \<open>One owner\<close>

lemma um_emit_fields [simp]:
  "um_app (um_emit e s) = um_app s" "um_sd (um_emit e s) = um_sd s" "um_session (um_emit e s) = um_session s"
  "um_storage (um_emit e s) = um_storage s" "um_card (um_emit e s) = um_card s"
  "um_initialized (um_emit e s) = um_initialized s" "um_installed (um_emit e s) = um_installed s"
  "um_persistent (um_emit e s) = um_persistent s" "um_leds (um_emit e s) = um_leds s" "um_failed (um_emit e s) = um_failed s"
  "um_out (um_emit e s) = um_out s @ [e]"
  by (simp_all add: um_emit_def)

lemma um_led_fields [simp]:
  "um_app (um_led i m io s) = um_app s" "um_sd (um_led i m io s) = um_sd s" "um_session (um_led i m io s) = um_session s"
  "um_storage (um_led i m io s) = um_storage s" "um_card (um_led i m io s) = um_card s"
  "um_initialized (um_led i m io s) = um_initialized s" "um_installed (um_led i m io s) = um_installed s"
  "um_persistent (um_led i m io s) = um_persistent s" "um_out (um_led i m io s) = um_out s"
  by (simp_all add: um_led_def)

lemma set_mount_fields [simp]:
  "um_app (set_mount e b s) = um_app s" "um_sd (set_mount e b s) = um_sd s" "um_session (set_mount e b s) = um_session s"
  "um_storage (set_mount e b s) = um_storage s" "um_card (set_mount e b s) = um_card s"
  "um_initialized (set_mount e b s) = um_initialized s" "um_installed (set_mount e b s) = um_installed s"
  "um_persistent (set_mount e b s) = um_persistent s"
  "um_out (set_mount e b s) = um_out s @ [e]" "um_leds (set_mount e b s) = um_leds s" "um_failed (set_mount e b s) = b"
  by (simp_all add: set_mount_def um_emit_def)

definition usb_ok :: "usb_storage \<Rightarrow> bool" where
  "usb_ok s \<longleftrightarrow> (um_initialized s \<longrightarrow> um_storage s \<and> um_card s \<and> sd_mounted (um_sd s) = um_app s) \<and>
     (um_session s \<longrightarrow> um_initialized s) \<and> (um_storage s \<longrightarrow> um_initialized s)"

lemma sync_ok [inv_intros]: "usb_ok s \<Longrightarrow> usb_ok (snd (sync_mount_state p s))"
  by (auto simp: sync_mount_state_def usb_ok_def set_app_mounted_def split: option.splits)

lemma sync_fields [simp]:
  "um_session (snd (sync_mount_state p s)) = um_session s" "um_storage (snd (sync_mount_state p s)) = um_storage s"
  "um_card (snd (sync_mount_state p s)) = um_card s" "um_initialized (snd (sync_mount_state p s)) = um_initialized s"
  "um_installed (snd (sync_mount_state p s)) = um_installed s" "um_persistent (snd (sync_mount_state p s)) = um_persistent s"
  "um_out (snd (sync_mount_state p s)) = um_out s" "has_open_stream (um_sd (snd (sync_mount_state p s))) = has_open_stream (um_sd s)"
  by (auto simp: sync_mount_state_def set_app_mounted_def has_open_stream_def split: option.splits)

lemma set_mounted_stream [simp]: "has_open_stream (c\<lparr>sd_mounted := b\<rparr>) = has_open_stream c"
  by (simp add: has_open_stream_def)

lemma prepare_ok [inv_intros]: "usb_ok s \<Longrightarrow> usb_ok (snd (prepare_usb_identity io s))"
  by (auto simp: prepare_usb_identity_def usb_ok_def split: option.splits)

lemma usb_ok_cong:
  "\<lbrakk>usb_ok s; um_initialized t = um_initialized s; um_storage t = um_storage s; um_card t = um_card s;
    um_app t = um_app s; um_sd t = um_sd s; um_session t = um_session s\<rbrakk> \<Longrightarrow> usb_ok t"
  by (simp add: usb_ok_def)

lemma begin_ok [inv_intros]:
  assumes ok: "usb_ok s"
  shows "usb_ok (snd (usb_begin leds c m n fat mbr io s))"
  using ok
  by (auto simp: usb_begin_def Let_def prepare_usb_identity_def sync_mount_state_def set_app_mounted_def usb_ok_def
      split: option.splits if_splits)

lemma driver_ok [inv_intros]: "usb_ok s \<Longrightarrow> usb_ok (snd (install_usb_driver b io s))"
  by (auto simp: install_usb_driver_def usb_ok_def)

lemma persistent_ok [inv_intros]: "usb_ok s \<Longrightarrow> usb_ok (snd (install_persistent_usb_device io s))"
  by (auto simp: install_persistent_usb_device_def install_usb_driver_def prepare_usb_identity_def usb_ok_def
      split: option.splits)

lemma expose_session_ok:
  "\<lbrakk>usb_ok s; um_initialized s\<rbrakk> \<Longrightarrow> usb_ok (s\<lparr>um_session := True, um_blink_alt := a, um_blink_next := n\<rparr>)"
  by (simp add: usb_ok_def)

lemma driver_initialized [simp]: "um_initialized (snd (install_usb_driver b io s)) = um_initialized s"
  by (simp add: install_usb_driver_def)

lemma set_mount_ok [inv_intros]: "usb_ok s \<Longrightarrow> usb_ok (set_mount e b s)"
  by (rule usb_ok_cong) simp_all

lemma flag_ok [inv_intros]: "usb_ok s \<Longrightarrow> usb_ok (s\<lparr>um_failed := b\<rparr>)" "usb_ok s \<Longrightarrow> usb_ok (s\<lparr>um_attached := b\<rparr>)"
  by (simp_all add: usb_ok_def)

lemma expose_ok [inv_intros]:
  assumes ok: "usb_ok s"
  shows "usb_ok (snd (expose io s))"
  using ok unfolding expose_def Let_def case_prod_beta'
  by (auto intro!: expose_session_ok inv_intros split: bool.splits)

lemma fold_led_fields [simp]:
  "um_app (fold (\<lambda>i. um_led i m io) is s) = um_app s" "um_sd (fold (\<lambda>i. um_led i m io) is s) = um_sd s"
  "um_session (fold (\<lambda>i. um_led i m io) is s) = um_session s" "um_storage (fold (\<lambda>i. um_led i m io) is s) = um_storage s"
  "um_card (fold (\<lambda>i. um_led i m io) is s) = um_card s" "um_initialized (fold (\<lambda>i. um_led i m io) is s) = um_initialized s"
  "um_installed (fold (\<lambda>i. um_led i m io) is s) = um_installed s"
  "um_persistent (fold (\<lambda>i. um_led i m io) is s) = um_persistent s" "um_out (fold (\<lambda>i. um_led i m io) is s) = um_out s"
  by (induction "is" arbitrary: s) simp_all

lemma reclaim_ok [inv_intros]:
  assumes ok: "usb_ok s"
  shows "usb_ok (snd (reclaim io s))"
proof -
  have "usb_ok (snd (sync_mount_state (ui_point1 io) (set_mount Mount_App (ui_return_fails io) s)))"
    by (rule sync_ok, rule usb_ok_cong [OF ok]) simp_all
  then show ?thesis using ok
    by (auto simp: reclaim_def Let_def usb_ok_def simp del: upt_rec_numeral)
qed

lemma blink_ok [inv_intros]: "usb_ok s \<Longrightarrow> usb_ok (usb_update_status_led io s)"
  by (auto simp: usb_update_status_led_def Let_def usb_ok_def)

lemma usb_process_ok [inv_intros]: "usb_ok s \<Longrightarrow> usb_ok (usb_process b io s)"
  by (auto simp: usb_process_def Let_def intro!: inv_intros)

lemma release_ok [inv_intros]: "usb_ok s \<Longrightarrow> usb_ok (usb_release io s)"
  by (auto simp: usb_release_def Let_def usb_ok_def)

text \<open>Everything that happens to the storage, the robot's own use of the card included.\<close>

datatype usb_step = Um_Begin out_flags bool bool bool "(u64 \<times> u64) option" bool usb_io | Um_Name "string option"
  | Um_Persistent usb_io | Um_Expose usb_io | Um_Reclaim usb_io | Um_Process u8 usb_io | Um_Host bool
  | Um_Release usb_io | Um_Write "string option" "string option" nat | Um_Open_Write "string option" bool
  | Um_Open_Read "string option" | Um_Close

fun usb_act :: "usb_storage \<Rightarrow> usb_step \<Rightarrow> usb_storage" where
  "usb_act s (Um_Begin l c m n f b io) = snd (usb_begin l c m n f b io s)"
| "usb_act s (Um_Name n) = set_product_name n s"
| "usb_act s (Um_Persistent io) = snd (install_persistent_usb_device io s)"
| "usb_act s (Um_Expose io) = snd (expose io s)"
| "usb_act s (Um_Reclaim io) = snd (reclaim io s)"
| "usb_act s (Um_Process b io) = usb_process b io s"
| "usb_act s (Um_Host a) = handle_host_connection a s"
| "usb_act s (Um_Release io) = usb_release io s"
| "usb_act s (Um_Write p d n) = s\<lparr>um_sd := snd (write_file p d n (um_sd s))\<rparr>"
| "usb_act s (Um_Open_Write p a) = s\<lparr>um_sd := snd (open_write_stream p a (um_sd s))\<rparr>"
| "usb_act s (Um_Open_Read p) = s\<lparr>um_sd := snd (open_read_stream p (um_sd s))\<rparr>"
| "usb_act s Um_Close = s\<lparr>um_sd := snd (close_stream (um_sd s))\<rparr>"

definition usb_run :: "usb_step list \<Rightarrow> usb_storage \<Rightarrow> usb_storage" where
  "usb_run steps s = fold (\<lambda>e t. usb_act t e) steps s"

lemma stream_mounted [simp]:
  "sd_mounted (snd (open_write_stream p a c)) = sd_mounted c" "sd_mounted (snd (open_read_stream p c)) = sd_mounted c"
  "sd_mounted (snd (close_stream c)) = sd_mounted c" "sd_mounted (snd (write_file p d n c)) = sd_mounted c"
  by (auto simp: open_write_stream_def open_read_stream_def close_stream_def write_file_def Let_def split: option.splits prod.splits)

lemma usb_ok_sd: "\<lbrakk>usb_ok s; sd_mounted c = sd_mounted (um_sd s)\<rbrakk> \<Longrightarrow> usb_ok (s\<lparr>um_sd := c\<rparr>)"
  by (simp add: usb_ok_def)

lemma usb_act_ok: "usb_ok s \<Longrightarrow> usb_ok (usb_act s e)"
  by (cases e) (auto simp: set_product_name_def handle_host_connection_def split: option.splits
      intro: usb_ok_cong intro!: inv_intros usb_ok_sd)

lemma usb_run_ok: "usb_ok s \<Longrightarrow> usb_ok (usb_run steps s)"
  unfolding usb_run_def by (induction steps arbitrary: s) (auto intro: usb_act_ok)

lemma usb_ok_new: "usb_ok (new_usb_storage c)"
  by (simp add: usb_ok_def new_usb_storage_def)

lemma exposed_unmounted:
  assumes "is_exposed (usb_run steps (new_usb_storage c))"
  shows "\<not> sd_mounted (um_sd (usb_run steps (new_usb_storage c)))"
  using usb_run_ok [OF usb_ok_new, of steps c] assms by (auto simp: usb_ok_def is_exposed_def)

lemma make_path_unmounted [simp]: "\<not> sd_mounted c \<Longrightarrow> make_path p n c = None"
  by (auto simp: make_path_def split: option.splits)

definition refuses_all :: "sd_card \<Rightarrow> bool" where
  "refuses_all c \<longleftrightarrow> (\<forall>p q d n r a. create_file p c = (False, c) \<and> write_file p d n c = (False, c) \<and>
     append_file p d n c = (False, c) \<and> read_file p n c = None \<and> remove_file p c = (False, c) \<and>
     rename_file r p q c = (False, c) \<and> open_write_stream p a c = (False, c) \<and> open_read_stream p c = (False, c))"

lemma unmounted_refuses: "\<not> sd_mounted c \<Longrightarrow> refuses_all c"
  by (simp add: refuses_all_def create_file_def write_file_def append_file_def read_file_def remove_file_def
      rename_file_def open_write_stream_def open_read_stream_def)


text \<open>The card is handed over only when the robot had it and no stream was open; the driver is asked for the
  mount point first and, when it is not already running, installed after.  Nothing at all is asked of it
  while a stream is open.\<close>

theorem expose_hands_over_idle_card:
  assumes "expose io s = (True, t)"
  shows "\<not> has_open_stream (um_sd s) \<and> ui_point1 io = Some True \<and> ui_point2 io = Some False \<and> is_exposed t \<and>
     refuses_all (um_sd t) \<and>
     um_out t = um_out s @ Mount_Usb # (if um_installed s then [] else [Usb_Install False])"
  using assms
  by (auto simp: expose_def Let_def install_usb_driver_def sync_mount_state_def set_app_mounted_def is_exposed_def
      not_Some_eq intro: unmounted_refuses split: option.splits if_splits)

lemma open_stream_blocks_expose:
  assumes "has_open_stream (um_sd s)"
  shows "\<not> fst (expose io s) \<and> um_out (snd (expose io s)) = um_out s"
  using assms
  by (auto simp: expose_def sync_mount_state_def set_app_mounted_def split: option.splits)

section \<open>A return that fails\<close>

text \<open>What can be tried afterwards, while the driver, which is asked nothing, keeps the card on the USB side.\<close>

fun tries_with_usb :: "usb_step \<Rightarrow> bool" where
  "tries_with_usb (Um_Expose io) = (ui_point1 io = Some False)"
| "tries_with_usb (Um_Reclaim io) = (ui_point1 io = Some False)"
| "tries_with_usb (Um_Process b io) = (ui_point1 io = Some False)"
| "tries_with_usb (Um_Host a) = True"
| "tries_with_usb (Um_Persistent io) = False"
| "tries_with_usb _ = False"

definition stranded :: "usb_effect list \<Rightarrow> usb_storage \<Rightarrow> bool" where
  "stranded out s \<longleftrightarrow> \<not> um_session s \<and> \<not> um_app s \<and> \<not> sd_mounted (um_sd s) \<and> um_initialized s \<and>
     \<not> (um_installed s \<and> \<not> um_persistent s) \<and> um_out s = out"

lemma stranded_step:
  assumes "stranded out s" "tries_with_usb e"
  shows "stranded out (usb_act s e)"
  using assms
  by (cases e) (auto simp: stranded_def expose_def reclaim_def usb_process_def sync_mount_state_def set_app_mounted_def
      handle_host_connection_def split: option.splits)

lemma stranded_run: "\<lbrakk>stranded out s; list_all tries_with_usb es\<rbrakk> \<Longrightarrow> stranded out (usb_run es s)"
  unfolding usb_run_def by (induction es arbitrary: s) (auto intro: stranded_step)

lemma reclaim_strands:
  assumes "usb_ok s" "um_session s" "ui_point1 io = Some False"
  shows "\<not> fst (reclaim io s) \<and> stranded (um_out (snd (reclaim io s))) (snd (reclaim io s))"
  using assms
  by (auto simp: reclaim_def Let_def stranded_def usb_ok_def sync_mount_state_def set_app_mounted_def simp del: upt_rec_numeral)

text \<open>C35: When the mount point has not come back by the end of \<open>reclaim\<close>, the session ends all the same: the card
  stays with USB, no later command, button or periodic call asks the driver for it again, the robot
  cannot use it until it restarts, and the \<open>status\<close> command answers that the robot owns it.\<close>

theorem failed_reclaim_strands_card:
  assumes "usb_ok s" "um_session s" "ui_point1 io = Some False" "list_all tries_with_usb later"
  shows "let t = usb_run later (snd (reclaim io s)) in
     um_out t = um_out (snd (reclaim io s)) \<and> refuses_all (um_sd t) \<and>
     storage_status fmt n z t = (RESULT_OK, [(INFO, take 95 (''USB storage: robot owns SD; media='' @
       take 23 (fmt (capacity_bytes n z t))))])"
  using stranded_run [OF conjunct2 [OF reclaim_strands [OF assms(1-3)]] assms(4)]
  by (auto simp: Let_def stranded_def storage_status_def is_ready_def is_exposed_def usb_is_active_def
      intro: unmounted_refuses)

definition demo_usb_io :: usb_io where
  "demo_usb_io = \<lparr>ui_now = 0, ui_set_mount = True, ui_transition_fails = False, ui_return_fails = False,
     ui_point1 = Some True, ui_point2 = Some False, ui_point3 = Some True, ui_install = True,
     ui_mac = Some [0, 1, 2, 3, 4, 5]\<rparr>"

definition demo_usb_card :: sd_card where
  "demo_usb_card = \<lparr>sd_mounted = True, sd_mount_point = ''/sdcard'', sd_stream = None,
     sd_disk = \<lparr>dk_files = Map.empty, dk_room = 100, dk_fault = False\<rparr>\<rparr>"

definition demo_usb_steps :: "usb_step list" where
  "demo_usb_steps = [Um_Begin new_out_flags True True True (Some (8, 8)) True demo_usb_io,
     Um_Write (Some ''/a'') (Some ''b'') 1, Um_Expose demo_usb_io]"

abbreviation demo_usb_exposed :: usb_storage where
  "demo_usb_exposed \<equiv> usb_run demo_usb_steps (new_usb_storage demo_usb_card)"

lemmas demo_usb_run = demo_usb_steps_def usb_run_def new_usb_storage_def demo_usb_card_def demo_usb_io_def usb_begin_def
  expose_def sync_mount_state_def set_app_mounted_def prepare_usb_identity_def get_storage_info_def Let_def
  install_usb_driver_def is_exposed_def write_file_def make_path_def MAX_PATH_LENGTH_def fopen_write_def
  write_opened_def fwrite_def has_open_stream_def

lemma demo_usb_exposed: "is_exposed demo_usb_exposed"
  by (simp add: demo_usb_run del: upt_rec_numeral)


abbreviation demo_usb_ready :: usb_storage where
  "demo_usb_ready \<equiv> usb_run (take 2 demo_usb_steps) (new_usb_storage demo_usb_card)"

lemma demo_usb_expose: "expose demo_usb_io demo_usb_ready = (True, snd (expose demo_usb_io demo_usb_ready))"
  by (simp add: demo_usb_run del: upt_rec_numeral)

lemma expose_hands_over_idle_card_witness:
  "is_exposed (snd (expose demo_usb_io demo_usb_ready)) \<and> refuses_all (um_sd (snd (expose demo_usb_io demo_usb_ready)))"
  using expose_hands_over_idle_card [OF demo_usb_expose] by blast

lemma failed_reclaim_strands_card_witness:
  "um_out (usb_run [Um_Expose (demo_usb_io\<lparr>ui_point1 := Some False\<rparr>), Um_Process 4 (demo_usb_io\<lparr>ui_point1 := Some False\<rparr>)]
       (snd (reclaim (demo_usb_io\<lparr>ui_point1 := Some False\<rparr>) demo_usb_exposed))) =
     um_out (snd (reclaim (demo_usb_io\<lparr>ui_point1 := Some False\<rparr>) demo_usb_exposed))"
proof -
  have ok: "usb_ok demo_usb_exposed" by (rule usb_run_ok [OF usb_ok_new])
  have s: "um_session demo_usb_exposed" using demo_usb_exposed by (simp add: is_exposed_def)
  show ?thesis using failed_reclaim_strands_card [OF ok s, of "demo_usb_io\<lparr>ui_point1 := Some False\<rparr>"
      "[Um_Expose (demo_usb_io\<lparr>ui_point1 := Some False\<rparr>), Um_Process 4 (demo_usb_io\<lparr>ui_point1 := Some False\<rparr>)]"]
    by (simp add: Let_def)
qed

end
