(* ===== verification/Line_Sensor.thy ===== *)
theory Line_Sensor
  imports Job_Commands Flags "HOL-Library.Signed_Division"
begin

text \<open>
  The line sensor (\<^verbatim>\<open>lib/ArraySensor/\<close>): eight reflectance sensors behind an analog multiplexer, one converter,
  the calibration of each sensor and the position of the line.

  The converter and what is wired to the multiplexer are not the program's: \<open>mux\<close> gives, for the three
  select lines, the conversion's result, \<open>None\<close> when it fails.  The position is a \<open>float\<close>; \<open>rnd\<close> is the
  rounding of a result to a \<open>float\<close>.
\<close>

section \<open>State\<close>

definition MAX_LEN :: u8 where "MAX_LEN = 8"

definition clamp_len :: "u8 \<Rightarrow> u8" where
  "clamp_len n = (if n = 0 then 1 else if MAX_LEN < n then MAX_LEN else n)"

record array_sensor =
  ar_len :: u8
  ar_adc :: bool
  ar_select :: "bool \<times> bool \<times> bool"
  ar_last :: rat
  ar_min :: "u16 list"
  ar_max :: "u16 list"

text \<open>The constructor: whether the pin has a channel, the unit is there, and its channel can be configured.\<close>

definition new_array_sensor :: "bool \<Rightarrow> bool \<Rightarrow> bool \<Rightarrow> u8 \<Rightarrow> array_sensor" where
  "new_array_sensor has_channel unit config n =
     \<lparr>ar_len = clamp_len n, ar_adc = (has_channel \<and> unit \<and> config), ar_select = (False, False, False), ar_last = 0,
      ar_min = replicate (unat (clamp_len n)) 4095, ar_max = replicate (unat (clamp_len n)) 0\<rparr>"

section \<open>Reading\<close>

type_synonym mux = "bool \<times> bool \<times> bool \<Rightarrow> int option"

text \<open>The levels of the lines S2, S1, S0.\<close>

definition select_channel :: "nat \<Rightarrow> array_sensor \<Rightarrow> array_sensor" where
  "select_channel i s = s\<lparr>ar_select := (odd (i div 4), odd (i div 2), odd i)\<rparr>"

definition read_sensor :: "mux \<Rightarrow> nat \<Rightarrow> array_sensor \<Rightarrow> u16 \<times> array_sensor" where
  "read_sensor mux i s =
     (if unat (ar_len s) \<le> i \<or> \<not> ar_adc s then (0, s)
      else let s' = select_channel i s
        in case mux (ar_select s') of
             None \<Rightarrow> (0, s')
           | Some raw \<Rightarrow> (of_int (4095 - raw), s'))"

definition normalize :: "u16 \<Rightarrow> nat \<Rightarrow> array_sensor \<Rightarrow> int" where
  "normalize v i s =
     (let range = uint (ar_max s ! i) - uint (ar_min s ! i) in
      if range \<le> 0 then 0
      else let norm = ((uint v - uint (ar_min s ! i)) * 1000) sdiv range
        in if norm < 0 then 0 else if 1000 < norm then 1000 else norm)"

section \<open>Calibration\<close>

definition calibration_ok :: "array_sensor \<Rightarrow> bool" where
  "calibration_ok s \<longleftrightarrow> list_all (\<lambda>i. 100 < uint (ar_max s ! i) - uint (ar_min s ! i)) [0..<unat (ar_len s)]"

definition widen :: "nat \<Rightarrow> u16 \<Rightarrow> array_sensor \<Rightarrow> array_sensor" where
  "widen i v s =
     (let s1 = (if v < ar_min s ! i then s\<lparr>ar_min := (ar_min s)[i := v]\<rparr> else s)
      in if ar_max s1 ! i < v then s1\<lparr>ar_max := (ar_max s1)[i := v]\<rparr> else s1)"

definition calibrate_channel :: "mux \<Rightarrow> nat \<Rightarrow> array_sensor \<Rightarrow> array_sensor" where
  "calibrate_channel mux i s = (case read_sensor mux i s of (v, s') \<Rightarrow> widen i v s')"

definition calibrate_pass :: "mux \<Rightarrow> array_sensor \<Rightarrow> array_sensor" where
  "calibrate_pass mux s = fold (calibrate_channel mux) [0..<unat (ar_len s)] s"

text \<open>\<open>n\<close> passes; the floor under the sensors may be another at each of them.\<close>

definition calibrate :: "u8 \<Rightarrow> (nat \<Rightarrow> mux) \<Rightarrow> array_sensor \<Rightarrow> bool \<times> array_sensor" where
  "calibrate n muxes s =
     (let s' = fold (\<lambda>k. calibrate_pass (muxes k)) [0..<unat n] s in (calibration_ok s', s'))"

definition calibrate_status :: "array_sensor \<Rightarrow> string" where
  "calibrate_status s = concat (map (\<lambda>i. show_dec (unat (ar_min s ! i)) @ ''-'' @ show_dec (unat (ar_max s ! i)) @
     [CHR 0x0A]) [0..<unat (ar_len s)])"

section \<open>The position of the line\<close>

text \<open>The three accumulators of the loop and the sensor.\<close>

definition weigh :: "mux \<Rightarrow> nat \<Rightarrow> u32 \<times> u32 \<times> bool \<times> array_sensor \<Rightarrow> u32 \<times> u32 \<times> bool \<times> array_sensor" where
  "weigh mux i acc =
     (case acc of (val, meas, line, s) \<Rightarrow>
        case read_sensor mux i s of (raw, s') \<Rightarrow>
          let v = normalize raw i s' in
          (val + of_int (v * (int i + 1) * 1000), meas + of_int v,
           line \<or> uint (ar_len s') * 100 < v, s'))"

definition get_line_position :: "(rat \<Rightarrow> rat) \<Rightarrow> mux \<Rightarrow> array_sensor \<Rightarrow> rat \<times> array_sensor" where
  "get_line_position rnd mux s =
     (case fold (weigh mux) [0..<unat (ar_len s)] (0, 0, False, s) of (val, meas, line, s') \<Rightarrow>
        let p = (if line \<and> 0 < meas
                 then rnd (rnd (of_int (uint val)) / rnd (of_int (uint meas)))
                 else if ar_last s' < of_int ((uint (ar_len s') * 1000) div 2) then 1000
                 else of_int (uint (ar_len s') * 1000))
        in (p, s'\<lparr>ar_last := p\<rparr>))"

definition raw_readings :: "mux \<Rightarrow> array_sensor \<Rightarrow> string \<times> array_sensor" where
  "raw_readings mux s =
     fold (\<lambda>i (t, s). case read_sensor mux i s of (v, s') \<Rightarrow> (t @ show_dec (unat v) @ [CHR 0x09], s'))
       [0..<unat (ar_len s)] ([], s)"

section \<open>The shell module\<close>

definition sensor_calibrate ::
    "state_name \<Rightarrow> u8 \<Rightarrow> (nat \<Rightarrow> mux) \<Rightarrow> array_sensor \<Rightarrow> shell_result \<times> log_line list \<times> array_sensor" where
  "sensor_calibrate state samples muxes s =
     (if state = RUN then (RESULT_ERROR, [(ERRO, ''Calibration blocked while RUN is active'')], s)
      else case calibrate samples muxes s of (ok, s') \<Rightarrow>
        (if ok then RESULT_OK else RESULT_ERROR,
         [(INFO, ''Calibration '' @ (if ok then ''succeeded'' else ''failed''))], s'))"

definition sensor_calibrate_status :: "array_sensor \<Rightarrow> shell_result \<times> log_line list" where
  "sensor_calibrate_status s = (RESULT_OK, [(INFO, calibrate_status s)])"

definition sensor_position ::
    "(rat \<Rightarrow> string) \<Rightarrow> (rat \<Rightarrow> rat) \<Rightarrow> mux \<Rightarrow> array_sensor \<Rightarrow> shell_result \<times> log_line list \<times> array_sensor" where
  "sensor_position fmt3 rnd mux s =
     (case get_line_position rnd mux s of (p, s') \<Rightarrow> (RESULT_OK, [(INFO, ''Line position: '' @ fmt3 p)], s'))"

definition sensor_raw :: "mux \<Rightarrow> array_sensor \<Rightarrow> shell_result \<times> log_line list \<times> array_sensor" where
  "sensor_raw mux s = (case raw_readings mux s of (t, s') \<Rightarrow> (RESULT_OK, [(INFO, t)], s'))"

section \<open>What the operations leave alone\<close>

definition ar_core :: "array_sensor \<Rightarrow> u8 \<times> bool \<times> rat \<times> u16 list \<times> u16 list" where
  "ar_core s = (ar_len s, ar_adc s, ar_last s, ar_min s, ar_max s)"

definition ar_ok :: "array_sensor \<Rightarrow> bool" where
  "ar_ok s \<longleftrightarrow> 1 \<le> unat (ar_len s) \<and> unat (ar_len s) \<le> 8 \<and>
     length (ar_min s) = unat (ar_len s) \<and> length (ar_max s) = unat (ar_len s)"

lemma read_core: "read_sensor mux i s = (v, t) \<Longrightarrow> ar_core t = ar_core s"
  by (auto simp: read_sensor_def ar_core_def select_channel_def Let_def split: if_splits option.splits)

lemma read_fst_core: "ar_core t = ar_core s \<Longrightarrow> fst (read_sensor mux i t) = fst (read_sensor mux i s)"
  by (auto simp: read_sensor_def ar_core_def select_channel_def Let_def split: option.splits)

lemma normalize_core: "ar_core t = ar_core s \<Longrightarrow> normalize v i t = normalize v i s"
  by (simp add: normalize_def ar_core_def)

lemma ar_ok_core: "\<lbrakk>ar_core t = ar_core s; ar_ok s\<rbrakk> \<Longrightarrow> ar_ok t"
  by (auto simp: ar_ok_def ar_core_def)

lemma normalize_range: "0 \<le> normalize v i s \<and> normalize v i s \<le> 1000"
  by (auto simp: normalize_def Let_def)

text \<open>The lines select the multiplexer's input of the sensor's number.\<close>

lemma select_is_index:
  assumes "i < 8"
  shows "(case ar_select (select_channel i s) of (a, b, c) \<Rightarrow> 4 * of_bool a + 2 * of_bool b + of_bool c) = i"
proof -
  have "i \<in> {0, 1, 2, 3, 4, 5, 6, 7}" using assms by auto
  then show ?thesis by (auto simp: select_channel_def)
qed

lemma clamp_len_range: "1 \<le> unat (clamp_len n) \<and> unat (clamp_len n) \<le> 8"
proof -
  have "n \<noteq> 0 \<Longrightarrow> 1 \<le> unat n" by (metis One_nat_def Suc_leI gr0I unat_0_iff)
  then show ?thesis by (auto simp: clamp_len_def MAX_LEN_def word_less_nat_alt)
qed

lemma new_sensor_ok: "ar_ok (new_array_sensor a b c n)"
  using clamp_len_range [of n] by (simp add: ar_ok_def new_array_sensor_def)

section \<open>The position is over the sensors\<close>

definition level :: "mux \<Rightarrow> nat \<Rightarrow> array_sensor \<Rightarrow> int" where
  "level mux i s = normalize (fst (read_sensor mux i s)) i s"

lemma weigh_step:
  assumes "ar_core t = ar_core s"
  obtains t' where "weigh mux i (w, m, l, t) =
      (w + of_int (level mux i s * (int i + 1) * 1000), m + of_int (level mux i s),
       l \<or> uint (ar_len s) * 100 < level mux i s, t')" "ar_core t' = ar_core s"
proof -
  obtain v t' where r: "read_sensor mux i t = (v, t')" by (cases "read_sensor mux i t")
  have c: "ar_core t' = ar_core s" using read_core [OF r] assms by simp
  have "normalize v i t' = level mux i s"
    using r read_fst_core [OF assms, of mux i] normalize_core [OF c] by (simp add: level_def)
  moreover have "ar_len t' = ar_len s" using c by (simp add: ar_core_def)
  ultimately show ?thesis using that [of t'] c r by (simp add: weigh_def Let_def)
qed

lemma weigh_all:
  assumes "k \<le> 8"
  shows "\<exists>w m t. fold (weigh mux) [0..<k] (0, 0, False, s) = (w, m, list_ex (\<lambda>i. uint (ar_len s) * 100 < level mux i s) [0..<k], t) \<and>
    ar_core t = ar_core s \<and> uint m = (\<Sum>i<k. level mux i s) \<and> uint w = (\<Sum>i<k. level mux i s * (int i + 1) * 1000)"
  using assms
proof (induction k)
  case 0 then show ?case by simp
next
  case (Suc k)
  have b: "0 \<le> level mux i s \<and> level mux i s \<le> 1000" for i by (simp add: level_def normalize_range)
  obtain w m t where f: "fold (weigh mux) [0..<k] (0, 0, False, s) =
      (w, m, list_ex (\<lambda>i. uint (ar_len s) * 100 < level mux i s) [0..<k], t)"
    and c: "ar_core t = ar_core s" and m: "uint m = (\<Sum>i<k. level mux i s)"
    and w: "uint w = (\<Sum>i<k. level mux i s * (int i + 1) * 1000)" using Suc by auto
  have mb: "uint m \<le> 8000"
  proof -
    have "(\<Sum>i<k. level mux i s) \<le> (\<Sum>i<k. 1000)" by (rule sum_mono) (use b in simp)
    also have "\<dots> \<le> 8000" using Suc.prems by simp
    finally show ?thesis using m by simp
  qed
  have wb: "uint w \<le> 64000000"
  proof -
    have "level mux i s * (int i + 1) * 1000 \<le> 8000000" if "i < k" for i
      using mult_mono [of "level mux i s" 1000 "int i + 1" 8] b [of i] that Suc.prems by (auto simp: mult.commute)
    then have "(\<Sum>i<k. level mux i s * (int i + 1) * 1000) \<le> (\<Sum>i<k. 8000000)" by (intro sum_mono) simp
    also have "\<dots> \<le> 64000000" using Suc.prems by simp
    finally show ?thesis using w by simp
  qed
  have wk: "0 \<le> level mux k s * (int k + 1) * 1000 \<and> level mux k s * (int k + 1) * 1000 \<le> 8000000"
    using mult_mono [of "level mux k s" 1000 "int k + 1" 8] b [of k] Suc.prems by (auto simp: mult.commute)
  obtain t' where st: "weigh mux k (w, m, list_ex (\<lambda>i. uint (ar_len s) * 100 < level mux i s) [0..<k], t) =
      (w + of_int (level mux k s * (int k + 1) * 1000), m + of_int (level mux k s),
       list_ex (\<lambda>i. uint (ar_len s) * 100 < level mux i s) [0..<k] \<or> uint (ar_len s) * 100 < level mux k s, t')"
    "ar_core t' = ar_core s" using weigh_step [OF c] by blast
  have add: "uint (a + of_int d) = uint a + d" if "0 \<le> d" "d \<le> 8000000" "uint a \<le> 64000000" for a :: u32 and d
    using that by (simp add: uint_word_ariths(1) uint_word_of_int take_bit_int_eq_self mod_pos_pos_trivial)
  show ?case
    using f st add [OF _ _ wb, of "level mux k s * (int k + 1) * 1000"] add [of "level mux k s" m] wk b [of k] mb m w
    by (simp add: add.commute)
qed

lemma rounded_quotient:
  assumes rnd: "float_rounding rnd" and m: "0 < m" "m \<le> 8000" and n: "1 \<le> n" "n \<le> 8"
    and v: "1000 * m \<le> v" "v \<le> n * 1000 * m"
  shows "1000 \<le> rnd (rnd (of_int v) / rnd (of_int m)) \<and> rnd (rnd (of_int v) / rnd (of_int m)) \<le> of_int (n * 1000)"
proof -
  have mm: "rnd (of_int m) = of_int m" by (rule rounding_int [OF rnd]) (use m in auto)
  have "n * 125 * m \<le> 8 * 125 * 8000" using n m by (intro mult_mono) auto
  then have "n * 125 * m \<le> 2 ^ 24" by (rule order_trans) simp
  then have up: "rnd (of_int ((n * 125 * m) * 8)) = of_int ((n * 125 * m) * 8)"
    using n m by (intro rounding_int8 [OF rnd]) simp_all
  have lo: "rnd (of_int (1000 * m)) = of_int (1000 * m)" by (rule rounding_int [OF rnd]) (use m in auto)
  have "of_int (1000 * m) \<le> (of_int v :: rat)" using v(1) by (simp only: of_int_le_iff)
  then have a: "of_int (1000 * m) \<le> rnd (of_int v)" using rounding_mono [OF rnd] lo by metis
  have "of_int v \<le> (of_int ((n * 125 * m) * 8) :: rat)" by (subst of_int_le_iff) (use v(2) in \<open>simp add: mult.commute mult.left_commute\<close>)
  then have b: "rnd (of_int v) \<le> of_int ((n * 125 * m) * 8)" using rounding_mono [OF rnd] up by metis
  have q1: "of_int 1000 \<le> rnd (of_int v) / of_int m" using a m(1) by (simp add: le_divide_eq)
  have q2: "rnd (of_int v) / of_int m \<le> of_int (n * 1000)" using b m(1) by (simp add: divide_le_eq mult.commute mult.left_commute)
  have "rnd (of_int 1000) = of_int 1000" by (rule rounding_int [OF rnd]) auto
  moreover have "rnd (of_int (n * 1000)) = of_int (n * 1000)" by (rule rounding_int [OF rnd]) (use n in auto)
  ultimately show ?thesis
    using rounding_mono [OF rnd q1] rounding_mono [OF rnd q2] mm by simp
qed


section \<open>Calibration covers what was read\<close>

definition wider :: "array_sensor \<Rightarrow> array_sensor \<Rightarrow> bool" where
  "wider s t \<longleftrightarrow> ar_len t = ar_len s \<and> ar_adc t = ar_adc s \<and> length (ar_min t) = length (ar_min s) \<and>
     length (ar_max t) = length (ar_max s) \<and> (\<forall>j. ar_min t ! j \<le> ar_min s ! j \<and> ar_max s ! j \<le> ar_max t ! j)"

lemma wider_refl: "wider s s"
  by (simp add: wider_def)

lemma wider_trans: "\<lbrakk>wider s t; wider t u\<rbrakk> \<Longrightarrow> wider s u"
  by (auto simp: wider_def intro: order_trans)

lemma wider_core: "ar_core t = ar_core s \<Longrightarrow> wider s t"
  by (simp add: wider_def ar_core_def)

lemma wider_read: "wider s t \<Longrightarrow> fst (read_sensor mux i t) = fst (read_sensor mux i s)"
  by (auto simp: read_sensor_def wider_def select_channel_def Let_def split: option.splits)

lemma update_below: "v < xs ! i \<Longrightarrow> xs[i := v] ! j \<le> (xs ! j :: u16)"
  by (cases "i < length xs") (auto simp: nth_list_update list_update_beyond)

lemma update_above: "xs ! i < v \<Longrightarrow> (xs ! j :: u16) \<le> xs[i := v] ! j"
  by (cases "i < length xs") (auto simp: nth_list_update list_update_beyond)

lemma widen_wider: "wider s (widen i v s)"
  by (auto simp: wider_def widen_def Let_def intro: update_below update_above)

lemma widen_covers:
  "\<lbrakk>i < length (ar_min s); i < length (ar_max s)\<rbrakk> \<Longrightarrow> ar_min (widen i v s) ! i \<le> v \<and> v \<le> ar_max (widen i v s) ! i"
  by (auto simp: widen_def Let_def not_less)

lemma channel_wider: "wider s (calibrate_channel mux i s)"
  unfolding calibrate_channel_def
  by (auto split: prod.split intro: wider_trans [OF wider_core [OF read_core] widen_wider])

lemma channel_covers:
  assumes "ar_ok s" "i < unat (ar_len s)"
  shows "ar_min (calibrate_channel mux i s) ! i \<le> fst (read_sensor mux i s) \<and>
    fst (read_sensor mux i s) \<le> ar_max (calibrate_channel mux i s) ! i"
proof -
  obtain v t where r: "read_sensor mux i s = (v, t)" by (cases "read_sensor mux i s")
  have "length (ar_min t) = unat (ar_len s)" "length (ar_max t) = unat (ar_len s)"
    using read_core [OF r] assms(1) by (auto simp: ar_core_def ar_ok_def)
  then show ?thesis using widen_covers [of i t v] assms(2) r by (simp add: calibrate_channel_def)
qed

lemma wider_ok: "\<lbrakk>ar_ok s; wider s t\<rbrakk> \<Longrightarrow> ar_ok t"
  by (auto simp: ar_ok_def wider_def)

lemma pass_wider: "wider s (fold (calibrate_channel mux) js s)"
  by (induction js arbitrary: s) (auto intro: wider_refl wider_trans channel_wider)

lemma pass_covers:
  assumes "ar_ok s" "i < unat (ar_len s)" "i \<in> set js"
  shows "ar_min (fold (calibrate_channel mux) js s) ! i \<le> fst (read_sensor mux i s) \<and>
    fst (read_sensor mux i s) \<le> ar_max (fold (calibrate_channel mux) js s) ! i"
  using assms
proof (induction js arbitrary: s)
  case (Cons j js)
  let ?t = "calibrate_channel mux j s"
  have w: "wider s ?t" by (rule channel_wider)
  show ?case
  proof (cases "i = j")
    case True
    then show ?thesis using channel_covers [OF Cons.prems(1,2), of mux] pass_wider [of ?t mux js]
      by (auto simp: wider_def intro: order_trans)
  next
    case False
    have "ar_len ?t = ar_len s" using w by (simp add: wider_def)
    then show ?thesis using Cons.IH [of ?t] Cons.prems False wider_ok [OF _ w] wider_read [OF w] by simp
  qed
qed simp

lemma passes_wider: "wider s (fold (\<lambda>k. calibrate_pass (muxes k)) ks s)"
  by (induction ks arbitrary: s) (auto simp: calibrate_pass_def intro: wider_refl wider_trans pass_wider)

lemma passes_cover:
  assumes "ar_ok s" "i < unat (ar_len s)" "k \<in> set ks"
  shows "ar_min (fold (\<lambda>k. calibrate_pass (muxes k)) ks s) ! i \<le> fst (read_sensor (muxes k) i s) \<and>
    fst (read_sensor (muxes k) i s) \<le> ar_max (fold (\<lambda>k. calibrate_pass (muxes k)) ks s) ! i"
  using assms
proof (induction ks arbitrary: s)
  case (Cons j ks)
  let ?t = "calibrate_pass (muxes j) s"
  have w: "wider s ?t" unfolding calibrate_pass_def by (rule pass_wider)
  show ?case
  proof (cases "k = j")
    case True
    have "ar_min ?t ! i \<le> fst (read_sensor (muxes j) i s) \<and> fst (read_sensor (muxes j) i s) \<le> ar_max ?t ! i"
      unfolding calibrate_pass_def by (rule pass_covers) (use Cons.prems in auto)
    then show ?thesis using True passes_wider [of ?t muxes ks] by (auto simp: wider_def intro: order_trans)
  next
    case False
    have "ar_len ?t = ar_len s" using w by (simp add: wider_def)
    then show ?thesis using Cons.IH [of ?t] Cons.prems False wider_ok [OF _ w] wider_read [OF w] by simp
  qed
qed simp

text \<open>After a calibration every reading taken in it lies between the sensor's two ends, and the ends have only
  moved apart.\<close>

theorem calibration_covers_readings:
  assumes "ar_ok s" "i < unat (ar_len s)" "k < unat n" "calibrate n muxes s = (ok, t)"
  shows "ar_min t ! i \<le> fst (read_sensor (muxes k) i s) \<and> fst (read_sensor (muxes k) i s) \<le> ar_max t ! i \<and>
    ar_min t ! i \<le> ar_min s ! i \<and> ar_max s ! i \<le> ar_max t ! i \<and> ar_ok t"
  using passes_cover [OF assms(1,2), of k "[0..<unat n]" muxes] passes_wider [of s muxes "[0..<unat n]"]
    wider_ok [OF assms(1)] assms(3,4)
  by (auto simp: calibrate_def Let_def wider_def)

text \<open>A conversion that fails counts as the reading 0: once is enough for the sensor's lower end to be 0, and no
  later calibration takes it back.\<close>

theorem failed_conversion_ends_calibration:
  assumes "ar_ok s" "i < unat (ar_len s)" "k < unat n" "calibrate n muxes s = (ok, t)"
    and "muxes k (ar_select (select_channel i s)) = None" "calibrate n' muxes' t = (ok', u)"
  shows "ar_min t ! i = 0 \<and> ar_min u ! i = 0"
proof -
  have "fst (read_sensor (muxes k) i s) = 0" using assms(5) by (simp add: read_sensor_def Let_def)
  then have t: "ar_min t ! i = 0" using calibration_covers_readings [OF assms(1-4)] by simp
  have "u = fold (\<lambda>k. calibrate_pass (muxes' k)) [0..<unat n'] t" using assms(6) by (simp add: calibrate_def Let_def)
  then have "ar_min u ! i \<le> ar_min t ! i" using passes_wider [of t muxes' "[0..<unat n']"] by (simp add: wider_def)
  then show ?thesis using t by simp
qed

definition demo_floor :: "nat \<Rightarrow> mux" where
  "demo_floor k sel = (if k = 1 \<and> sel = (False, False, True) then None else Some (1000 + 1000 * int k))"

abbreviation demo_array :: array_sensor where "demo_array \<equiv> new_array_sensor True True True 2"

lemma demo_calibrated: "calibrate 2 demo_floor demo_array =
  (True, \<lparr>ar_len = 2, ar_adc = True, ar_select = (False, False, True), ar_last = 0, ar_min = [2095, 0], ar_max = [3095, 3095]\<rparr>)"
  by code_simp

lemma demo_array_len: "unat (ar_len demo_array) = 2" by code_simp

lemma calibration_covers_readings_witness:
  "ar_min (snd (calibrate 2 demo_floor demo_array)) ! 0 \<le> fst (read_sensor (demo_floor 1) 0 demo_array)"
  using calibration_covers_readings [OF new_sensor_ok _ _ demo_calibrated, of 0 1] demo_array_len demo_calibrated by simp

lemma failed_conversion_ends_calibration_witness:
  "ar_min (snd (calibrate 1 demo_floor (snd (calibrate 2 demo_floor demo_array)))) ! 1 = 0"
  using failed_conversion_ends_calibration [OF new_sensor_ok _ _ demo_calibrated, of 1 1 1 demo_floor] demo_array_len demo_calibrated
  by (simp add: demo_floor_def select_channel_def split: prod.splits) (metis eq_snd_iff)


end
