(* ===== verification/Encoder.thy ===== *)
theory Encoder
  imports Job_Commands C_Text
begin

text \<open>
  The wheel encoder (\<^verbatim>\<open>lib/Encoder/\<close>): the 16-bit pulse counter of the chip, extended to 64 bits by counting
  what its two limits stand for, and the difference since the last question.

  The counter itself is the chip's: what it shows is the argument \<open>shown\<close> of the operations that read it,
  and the event of a limit is a call of \<open>overflow\<close>.
\<close>

section \<open>State\<close>

type_synonym s64 = "64 word"

definition PCNT_HIGH_LIMIT :: int where "PCNT_HIGH_LIMIT = 32767"
definition PCNT_LOW_LIMIT :: int where "PCNT_LOW_LIMIT = -32768"

datatype pcnt_call = Pcnt_Filter nat | Pcnt_Watch int | Pcnt_Enable | Pcnt_Clear | Pcnt_Start | Pcnt_Stop
  | Pcnt_Disable | Pcnt_Del_Channel | Pcnt_Del_Unit

record encoder =
  en_unit :: bool
  en_counter :: s64
  en_last :: s64
  en_calls :: "pcnt_call list"

definition new_encoder :: encoder where
  "new_encoder = \<lparr>en_unit = False, en_counter = 0, en_last = 0, en_calls = []\<rparr>"

definition en_call :: "pcnt_call list \<Rightarrow> encoder \<Rightarrow> encoder" where
  "en_call cs e = e\<lparr>en_calls := en_calls e @ cs\<rparr>"

section \<open>Operations\<close>

text \<open>Whether the chip gives a unit and takes the callback.\<close>

definition encoder_init :: "bool \<Rightarrow> bool \<Rightarrow> u16 \<Rightarrow> encoder \<Rightarrow> bool \<times> encoder" where
  "encoder_init new_unit register flt e =
     (if \<not> new_unit then (False, e)
      else
        let f = (if 1023 \<le> flt then 1023 else flt);
            e1 = e\<lparr>en_unit := True\<rparr>;
            e2 = (if 0 < f then en_call [Pcnt_Filter (unat f * 1000)] e1 else e1);
            e3 = en_call [Pcnt_Watch PCNT_HIGH_LIMIT, Pcnt_Watch PCNT_LOW_LIMIT] e2
        in if \<not> register then (False, e3)
           else (True, en_call [Pcnt_Enable, Pcnt_Clear, Pcnt_Start] e3))"

definition encoder_release :: "bool \<Rightarrow> bool \<Rightarrow> encoder \<Rightarrow> encoder" where
  "encoder_release channel_a channel_b e =
     (if en_unit e
      then en_call ([Pcnt_Stop, Pcnt_Disable] @ (if channel_a then [Pcnt_Del_Channel] else []) @
             (if channel_b then [Pcnt_Del_Channel] else []) @ [Pcnt_Del_Unit]) e
      else e)"

definition getCountRaw :: "int \<Rightarrow> encoder \<Rightarrow> s64" where
  "getCountRaw shown e = (if en_unit e then of_int shown else 0)"

definition getCount :: "int \<Rightarrow> encoder \<Rightarrow> s64" where
  "getCount shown e = en_counter e + getCountRaw shown e"

definition getCountDiff :: "int \<Rightarrow> encoder \<Rightarrow> s64 \<times> encoder" where
  "getCountDiff shown e = (getCount shown e - en_last e, e\<lparr>en_last := getCount shown e\<rparr>)"

definition overflow :: "int \<Rightarrow> encoder \<Rightarrow> encoder" where
  "overflow watch_val e =
     (if watch_val = 32767 then e\<lparr>en_counter := en_counter e + 32767\<rparr>
      else if watch_val = -32768 then e\<lparr>en_counter := en_counter e + (- 32768)\<rparr>
      else e)"

definition clearPCNT :: "encoder \<Rightarrow> encoder" where
  "clearPCNT e = (if en_unit e then en_call [Pcnt_Clear] e else e)\<lparr>en_counter := 0\<rparr>"

definition pausePCNT :: "encoder \<Rightarrow> encoder" where
  "pausePCNT e = (if en_unit e then en_call [Pcnt_Stop] e else e)"

definition resumePCNT :: "encoder \<Rightarrow> encoder" where
  "resumePCNT e = (if en_unit e then en_call [Pcnt_Start] e else e)"

text \<open>The commands \<open>encoders\<close>, \<open>enc_reset\<close>, \<open>enc_pause\<close> and \<open>enc_resume\<close> of the module \<open>sensor\<close>.\<close>

definition sensor_encoders :: "int \<Rightarrow> int \<Rightarrow> encoder \<Rightarrow> encoder \<Rightarrow> shell_result \<times> log_line list" where
  "sensor_encoders l r left right =
     (RESULT_OK, [(INFO, ''Encoders: left='' @ show_int (sint (getCount l left)) @ '' right='' @ show_int (sint (getCount r right)))])"

definition sensor_enc_reset ::
    "state_name \<Rightarrow> encoder \<times> encoder \<Rightarrow> shell_result \<times> log_line list \<times> encoder \<times> encoder" where
  "sensor_enc_reset state es =
     (if state = RUN then (RESULT_ERROR, [(ERRO, ''refused: encoder reset would step the EKF while in RUN'')], es)
      else (RESULT_OK, [(INFO, ''encoders_reset=1'')], clearPCNT (fst es), clearPCNT (snd es)))"

definition sensor_enc_pause :: "encoder \<times> encoder \<Rightarrow> shell_result \<times> log_line list \<times> encoder \<times> encoder" where
  "sensor_enc_pause es =
     (RESULT_OK, [(WARN, ''encoders_paused=1 EKF is now blind to the wheels'')], pausePCNT (fst es), pausePCNT (snd es))"

definition sensor_enc_resume :: "encoder \<times> encoder \<Rightarrow> shell_result \<times> log_line list \<times> encoder \<times> encoder" where
  "sensor_enc_resume es =
     (RESULT_OK, [(INFO, ''encoders_paused=0'')], resumePCNT (fst es), resumePCNT (snd es))"

section \<open>Every edge is counted once\<close>

text \<open>A wheel turning while the program asks now and then: the edges so far, what the chip shows, the encoder
  and the sum of the differences reported.  An edge moves the chip's counter by one; at a limit it starts
  again from zero and the program is told.\<close>

inductive wheel_turns :: "int list \<Rightarrow> int \<Rightarrow> encoder \<Rightarrow> s64 \<Rightarrow> bool" where
  wheel_start: "\<lbrakk>en_unit e; en_counter e = 0; en_last e = 0\<rbrakk> \<Longrightarrow> wheel_turns [] 0 e 0"
| wheel_edge: "\<lbrakk>wheel_turns ds c e r; d = 1 \<or> d = -1; c + d \<noteq> PCNT_HIGH_LIMIT; c + d \<noteq> PCNT_LOW_LIMIT\<rbrakk> \<Longrightarrow>
    wheel_turns (ds @ [d]) (c + d) e r"
| wheel_limit: "\<lbrakk>wheel_turns ds c e r; d = 1 \<or> d = -1; c + d = PCNT_HIGH_LIMIT \<or> c + d = PCNT_LOW_LIMIT\<rbrakk> \<Longrightarrow>
    wheel_turns (ds @ [d]) 0 (overflow (c + d) e) r"
| wheel_asked: "\<lbrakk>wheel_turns ds c e r; getCountDiff c e = (x, e')\<rbrakk> \<Longrightarrow> wheel_turns ds c e' (r + x)"

inductive_cases wheel_startE: "wheel_turns [] c e r"

lemma overflow_count:
  "\<lbrakk>en_unit e; v = PCNT_HIGH_LIMIT \<or> v = PCNT_LOW_LIMIT\<rbrakk> \<Longrightarrow>
    getCount 0 (overflow v e) = getCount v e \<and> en_unit (overflow v e) \<and> en_last (overflow v e) = en_last e"
  by (auto simp: overflow_def getCount_def getCountRaw_def PCNT_HIGH_LIMIT_def PCNT_LOW_LIMIT_def)

lemma getCount_edge: "en_unit e \<Longrightarrow> getCount (c + d) e = getCount c e + of_int d"
  by (simp add: getCount_def getCountRaw_def)

text \<open>C37: The count is the number of edges forward less the edges back, past the limits of the chip's counter and in
  64 bits, and the differences reported add up to it: none is lost and none is counted twice.\<close>

theorem every_edge_counted_once:
  assumes "wheel_turns ds c e r"
  shows "getCount c e = of_int (sum_list ds) \<and> r + fst (getCountDiff c e) = of_int (sum_list ds)"
proof -
  have "en_unit e \<and> getCount c e = of_int (sum_list ds) \<and> en_last e = r" using assms
  proof induction
    case (wheel_limit ds c e r d)
    then show ?case using overflow_count [of e "c + d"] getCount_edge [of e c d] by simp
  qed (auto simp: getCount_edge getCountDiff_def getCount_def getCountRaw_def)
  then show ?thesis by (simp add: getCountDiff_def)
qed

text \<open>Zeroing the counter does not touch what the next difference is taken from: a robot that has not moved since
  reports the whole count as motion backwards.\<close>

theorem reset_reported_as_motion:
  "fst (getCountDiff 0 (clearPCNT (snd (getCountDiff shown e)))) = - getCount shown e"
  by (simp add: getCountDiff_def clearPCNT_def getCount_def getCountRaw_def en_call_def)

definition demo_encoder :: encoder where
  "demo_encoder = snd (encoder_init True True 0 new_encoder)"

lemma every_edge_counted_once_witness: "fst (getCountDiff 1 demo_encoder) = 1"
proof -
  have "wheel_turns [] 0 demo_encoder 0" by (rule wheel_start) (code_simp+)
  then have "wheel_turns ([] @ [1]) (0 + 1) demo_encoder 0"
    by (rule wheel_edge) (simp_all add: PCNT_HIGH_LIMIT_def PCNT_LOW_LIMIT_def)
  then show ?thesis using every_edge_counted_once by fastforce
qed

end
