(* ===== verification/System_Monitor.thy ===== *)
theory System_Monitor
  imports Job_Commands C_Text Flags "HOL-Library.Product_Lexorder"
begin

text \<open>
  System health (\<^verbatim>\<open>lib/SystemMonitor/\<close>): the table of tasks with their share of the processor, the report of
  the \<open>sysmon\<close> commands and its bounded form for telemetry.

  What the operating system says of its tasks, of memory and of the temperature is an argument, and so are
  the rounding \<open>rnd\<close> of a \<open>float\<close> and its printing with two decimals, \<open>fmt2 width value\<close>.
\<close>

section \<open>State\<close>

record task_record =
  tr_handle :: nat
  tr_name :: string
  tr_last_runtime :: u32
  tr_load :: rat
  tr_priority :: u32
  tr_core :: int
  tr_high_water :: u32
  tr_active :: bool

text \<open>What the system says of a task.\<close>

record task_status =
  tk_handle :: nat
  tk_name :: string
  tk_runtime :: u32
  tk_priority :: u32
  tk_high_water :: u32
  tk_core :: int

record monitor =
  mo_initialized :: bool
  mo_last_total :: u32
  mo_records :: "task_record list"
  mo_core0 :: rat
  mo_core1 :: rat

definition new_monitor :: monitor where
  "new_monitor = \<lparr>mo_initialized = False, mo_last_total = 0, mo_records = [], mo_core0 = 0, mo_core1 = 0\<rparr>"

definition monitor_begin :: "monitor \<Rightarrow> monitor" where
  "monitor_begin s = s\<lparr>mo_initialized := True\<rparr>"

section \<open>Updating the table\<close>

fun find_record :: "nat \<Rightarrow> task_record list \<Rightarrow> nat option" where
  "find_record h [] = None"
| "find_record h (r # rs) = (if tr_handle r = h then Some 0 else map_option Suc (find_record h rs))"

definition fresh_task :: "task_status \<Rightarrow> task_record" where
  "fresh_task k = \<lparr>tr_handle = tk_handle k, tr_name = take 15 (tk_name k), tr_last_runtime = tk_runtime k, tr_load = 0,
     tr_priority = 0, tr_core = 0, tr_high_water = 0, tr_active = True\<rparr>"

text \<open>A float is not compared in other ways than these.\<close>

definition cpu_percent :: "(rat \<Rightarrow> rat) \<Rightarrow> u32 \<Rightarrow> u32 \<Rightarrow> rat" where
  "cpu_percent rnd delta_task delta_total =
     (let p = (if 0 < delta_total
               then rnd (rnd (rnd (of_int (uint delta_task)) * 100) / rnd (of_int (uint delta_total))) else 0)
      in if 100 < p then 100 else p)"

definition record_task :: "(rat \<Rightarrow> rat) \<Rightarrow> u32 \<Rightarrow> task_status \<Rightarrow> task_record \<Rightarrow> task_record" where
  "record_task rnd delta_total k r =
     r\<lparr>tr_active := True, tr_priority := tk_priority k, tr_high_water := tk_high_water k, tr_core := tk_core k,
       tr_load := cpu_percent rnd (tk_runtime k - tr_last_runtime r) delta_total, tr_last_runtime := tk_runtime k\<rparr>"

definition idle_left :: "(rat \<Rightarrow> rat) \<Rightarrow> rat \<Rightarrow> rat" where
  "idle_left rnd p = (let c = rnd (100 - p) in if c < 0 then 0 else c)"

definition core_loads :: "(rat \<Rightarrow> rat) \<Rightarrow> task_record \<Rightarrow> monitor \<Rightarrow> monitor" where
  "core_loads rnd r s =
     (if tr_name r = ''IDLE0'' then s\<lparr>mo_core0 := idle_left rnd (tr_load r)\<rparr>
      else if tr_name r = ''IDLE1'' then s\<lparr>mo_core1 := idle_left rnd (tr_load r)\<rparr>
      else s)"

definition update_task :: "(rat \<Rightarrow> rat) \<Rightarrow> u32 \<Rightarrow> task_status \<Rightarrow> monitor \<Rightarrow> monitor" where
  "update_task rnd delta_total k s =
     (case find_record (tk_handle k) (mo_records s) of
        None \<Rightarrow>
          let r = record_task rnd delta_total k (fresh_task k)
          in core_loads rnd r (s\<lparr>mo_records := mo_records s @ [r]\<rparr>)
      | Some i \<Rightarrow>
          let r = record_task rnd delta_total k (mo_records s ! i)
          in core_loads rnd r (s\<lparr>mo_records := (mo_records s)[i := r]\<rparr>))"

text \<open>\<open>None\<close> is an allocation that fails; otherwise the total runtime and the tasks.\<close>

definition update_monitor :: "(rat \<Rightarrow> rat) \<Rightarrow> (u32 \<times> task_status list) option \<Rightarrow> monitor \<Rightarrow> monitor" where
  "update_monitor rnd sys s =
     (case sys of
        None \<Rightarrow> s
      | Some (total_runtime, tasks) \<Rightarrow>
          let delta_total = total_runtime - mo_last_total s;
              s1 = s\<lparr>mo_last_total := total_runtime,
                     mo_records := map (\<lambda>r. r\<lparr>tr_active := False\<rparr>) (mo_records s), mo_core0 := 100, mo_core1 := 100\<rparr>;
              s2 = fold (update_task rnd delta_total) tasks s1
          in s2\<lparr>mo_records := filter tr_active (mo_records s2)\<rparr>)"

section \<open>The reports\<close>

definition get_core_temperature :: "rat option \<Rightarrow> monitor \<Rightarrow> rat" where
  "get_core_temperature celsius s = (if \<not> mo_initialized s then 0 else case celsius of None \<Rightarrow> 0 | Some t \<Rightarrow> t)"

definition get_uptime :: "u64 \<Rightarrow> string" where
  "get_uptime us =
     (let t = ucast (us div 1000000) :: u32;
          two = (\<lambda>n :: u32. pad_left CHR ''0'' 2 (show_dec (unat n)))
      in take 63 (''uptime      : '' @ two (t div 3600) @ ''h '' @ two (t mod 3600 div 60) @ ''m '' @ two (t mod 60) @
           ''s'' @ [CHR 0x0A]))"

definition format_mem :: "(nat \<Rightarrow> rat \<Rightarrow> string) \<Rightarrow> (rat \<Rightarrow> rat) \<Rightarrow> u32 \<Rightarrow> string" where
  "format_mem fmt2 rnd n =
     (let kb = rnd (rnd (of_int (uint n)) / 1024)
      in take 31 (if 1024 \<le> kb then fmt2 7 (rnd (kb / 1024)) @ '' mb'' else fmt2 7 kb @ '' kb''))"

definition get_memory_stats :: "(nat \<Rightarrow> rat \<Rightarrow> string) \<Rightarrow> (rat \<Rightarrow> rat) \<Rightarrow> u32 \<Rightarrow> u32 \<Rightarrow> u32 \<Rightarrow> string" where
  "get_memory_stats fmt2 rnd heap inner psram =
     take 255 (''total ram   : '' @ format_mem fmt2 rnd heap @ [CHR 0x0A] @
               ''sram        : '' @ format_mem fmt2 rnd inner @ [CHR 0x0A] @
               ''psram       : '' @ format_mem fmt2 rnd psram @ [CHR 0x0A])"

definition core_text :: "int \<Rightarrow> string" where
  "core_text c = (if c = 0 then ''pro'' else if c = 1 then ''app'' else ''any'')"

definition task_line :: "(nat \<Rightarrow> rat \<Rightarrow> string) \<Rightarrow> (rat \<Rightarrow> rat) \<Rightarrow> task_record \<Rightarrow> string" where
  "task_line fmt2 rnd r =
     take 95 (pad_right 16 (tr_name r) @ '' '' @ pad_right 4 (show_dec (unat (tr_priority r))) @ '' '' @
       pad_right 6 (core_text (tr_core r)) @ '' '' @ fmt2 6 (tr_load r) @ ''% '' @
       fmt2 8 (rnd (rnd (of_int (uint (tr_high_water r))) / 1024)) @ '' kb'' @ [CHR 0x0A])"

text \<open>The order of the table: priority down, then load down.  Tasks equal in both keep their order here;
  the library's sort leaves it open.\<close>

definition task_order :: "task_record list \<Rightarrow> task_record list" where
  "task_order rs = sort_key (\<lambda>r. (- int (unat (tr_priority r)), - tr_load r)) rs"

definition get_task_stats :: "(nat \<Rightarrow> rat \<Rightarrow> string) \<Rightarrow> (rat \<Rightarrow> rat) \<Rightarrow> monitor \<Rightarrow> string \<times> monitor" where
  "get_task_stats fmt2 rnd s =
     (let rs = task_order (mo_records s)
      in (''--------------------- tasks ---------------------'' @ [CHR 0x0A] @
          ''task name        prio core      cpu     free heap'' @ [CHR 0x0A] @ ''-'' @ [CHR 0x0A] @
          concat (map (task_line fmt2 rnd) rs), s\<lparr>mo_records := rs\<rparr>))"

record health =
  he_us :: u64
  he_celsius :: "rat option"
  he_heap :: u32
  he_internal :: u32
  he_psram :: u32
  he_tick_hz :: int
  he_cpu_mhz :: int
  he_write_pct :: "rat option"

definition core_report :: "(nat \<Rightarrow> rat \<Rightarrow> string) \<Rightarrow> health \<Rightarrow> monitor \<Rightarrow> string" where
  "core_report fmt2 h s =
     take 511 (''================= Monitor Stats ================='' @ [CHR 0x0A] @
       get_uptime (he_us h) @
       ''---------------------- CPU ----------------------'' @ [CHR 0x0A] @
       ''tick rate   : '' @ pad_left CHR '' '' 7 (show_int (he_tick_hz h)) @ '' Hz'' @ [CHR 0x0A] @
       ''core rate   : '' @ pad_left CHR '' '' 7 (show_int (he_cpu_mhz h)) @ '' MHz'' @ [CHR 0x0A] @
       ''core temp   : '' @ fmt2 7 (get_core_temperature (he_celsius h) s) @ [CHR '' '', CHR 0xC2, CHR 0xB0, CHR ''C'', CHR 0x0A] @
       ''core PRO    : '' @ fmt2 7 (mo_core0 s) @ '' %'' @ [CHR 0x0A] @
       ''core APP    : '' @ fmt2 7 (mo_core1 s) @ '' %'' @ [CHR 0x0A] @
       ''-------------------- memory --------------------'' @ [CHR 0x0A] @
       ''logger      : '' @ fmt2 7 (case he_write_pct h of None \<Rightarrow> 0 | Some p \<Rightarrow> p) @ '' %'' @ [CHR 0x0A])"

definition get_full_report ::
    "(nat \<Rightarrow> rat \<Rightarrow> string) \<Rightarrow> (rat \<Rightarrow> rat) \<Rightarrow> health \<Rightarrow> monitor \<Rightarrow> string \<times> monitor" where
  "get_full_report fmt2 rnd h s =
     (case get_task_stats fmt2 rnd s of (tasks, s') \<Rightarrow>
        (core_report fmt2 h s @ get_memory_stats fmt2 rnd (he_heap h) (he_internal h) (he_psram h) @ tasks @
         ''================================================='' @ [CHR 0x0A], s'))"

text \<open>The last newline at or before a place.\<close>

fun rfind_newline :: "string \<Rightarrow> nat \<Rightarrow> nat option" where
  "rfind_newline t i =
     (if i < length t \<and> t ! i = CHR 0x0A then Some i
      else case i of 0 \<Rightarrow> None | Suc j \<Rightarrow> rfind_newline t j)"

declare rfind_newline.simps [simp del]

definition kMarker :: string where "kMarker = ''... (truncated)'' @ [CHR 0x0A]"

definition truncate_report :: "nat \<Rightarrow> string \<Rightarrow> string" where
  "truncate_report max_bytes report =
     (if length report \<le> max_bytes then report
      else let budget = (if length kMarker < max_bytes then max_bytes - length kMarker else 0);
               search_from = (if budget = 0 then 0 else budget - 1)
        in (case rfind_newline report search_from of None \<Rightarrow> [] | Some c \<Rightarrow> take (c + 1) report) @ kMarker)"

definition get_telemetry_report ::
    "(nat \<Rightarrow> rat \<Rightarrow> string) \<Rightarrow> (rat \<Rightarrow> rat) \<Rightarrow> health \<Rightarrow> nat \<Rightarrow> monitor \<Rightarrow> string \<times> monitor" where
  "get_telemetry_report fmt2 rnd h max_bytes s =
     (if max_bytes = 0 then ([], s)
      else case get_full_report fmt2 rnd h s of (report, s') \<Rightarrow> (truncate_report max_bytes report, s'))"

section \<open>The shell module\<close>

definition sysmon_temp :: "(rat \<Rightarrow> string) \<Rightarrow> health \<Rightarrow> monitor \<Rightarrow> shell_result \<times> log_line list" where
  "sysmon_temp fmt1 h s =
     (RESULT_OK, [(INFO, ''Core temperature: '' @ fmt1 (get_core_temperature (he_celsius h) s) @ '' C'')])"

definition sysmon_uptime :: "health \<Rightarrow> shell_result \<times> log_line list" where
  "sysmon_uptime h = (RESULT_OK, [(INFO, get_uptime (he_us h))])"

definition sysmon_memory :: "(nat \<Rightarrow> rat \<Rightarrow> string) \<Rightarrow> (rat \<Rightarrow> rat) \<Rightarrow> health \<Rightarrow> shell_result \<times> log_line list" where
  "sysmon_memory fmt2 rnd h = (RESULT_OK, [(INFO, get_memory_stats fmt2 rnd (he_heap h) (he_internal h) (he_psram h))])"

definition sysmon_tasks ::
    "(nat \<Rightarrow> rat \<Rightarrow> string) \<Rightarrow> (rat \<Rightarrow> rat) \<Rightarrow> monitor \<Rightarrow> shell_result \<times> log_line list \<times> monitor" where
  "sysmon_tasks fmt2 rnd s = (case get_task_stats fmt2 rnd s of (t, s') \<Rightarrow> (RESULT_OK, [(INFO, t)], s'))"

definition sysmon_report ::
    "(nat \<Rightarrow> rat \<Rightarrow> string) \<Rightarrow> (rat \<Rightarrow> rat) \<Rightarrow> health \<Rightarrow> monitor \<Rightarrow> shell_result \<times> log_line list \<times> monitor" where
  "sysmon_report fmt2 rnd h s = (case get_full_report fmt2 rnd h s of (t, s') \<Rightarrow> (RESULT_OK, [(INFO, t)], s'))"

section \<open>The table is the system's\<close>

lemma find_record_None: "find_record h rs = None \<longleftrightarrow> h \<notin> tr_handle ` set rs"
  by (induction rs) auto

lemma find_record_Some: "find_record h rs = Some i \<Longrightarrow> i < length rs \<and> tr_handle (rs ! i) = h"
  by (induction rs arbitrary: i) (auto split: if_splits)

lemma cpu_percent_range:
  assumes rnd: "float_rounding rnd"
  shows "0 \<le> cpu_percent rnd d t \<and> cpu_percent rnd d t \<le> 100"
proof -
  have nn: "0 \<le> rnd x" if "0 \<le> x" for x using rounding_mono [OF rnd that] rounding_zero [OF rnd] by simp
  have "0 \<le> rnd (rnd (rnd (of_int (uint d)) * 100) / rnd (of_int (uint t)))"
    by (intro nn divide_nonneg_nonneg mult_nonneg_nonneg) (simp_all only: of_int_0_le_iff uint_ge_0 zero_le_numeral)
  then show ?thesis by (simp add: cpu_percent_def Let_def)
qed

text \<open>In the course of an update: the tasks seen so far.\<close>

definition seen_ok :: "nat set \<Rightarrow> task_record list \<Rightarrow> bool" where
  "seen_ok P rs \<longleftrightarrow> distinct (map tr_handle rs) \<and> tr_handle ` set (filter tr_active rs) = P \<and>
     list_all (\<lambda>r. 0 \<le> tr_load r \<and> tr_load r \<le> 100) rs"

lemma core_loads_records [simp]: "mo_records (core_loads rnd r s) = mo_records s"
  by (simp add: core_loads_def)

lemma record_task_fields [simp]:
  "tr_handle (record_task rnd d k r) = tr_handle r" "tr_active (record_task rnd d k r)"
  "tr_load (record_task rnd d k r) = cpu_percent rnd (tk_runtime k - tr_last_runtime r) d"
  "tr_name (record_task rnd d k r) = tr_name r"
  by (simp_all add: record_task_def)

lemma seen_at:
  assumes "distinct (map tr_handle rs)" "i < length rs" "tr_active r" "tr_handle r = tr_handle (rs ! i)"
  shows "tr_handle ` set (filter tr_active (rs[i := r])) = insert (tr_handle r) (tr_handle ` set (filter tr_active rs))"
proof -
  have "rs = take i rs @ rs ! i # drop (Suc i) rs" using assms(2) by (rule id_take_nth_drop)
  moreover have "rs[i := r] = take i rs @ r # drop (Suc i) rs" using assms(2) by (rule upd_conv_take_nth_drop)
  ultimately have "set (filter tr_active rs) = set (filter tr_active (take i rs)) \<union>
      set (filter tr_active [rs ! i]) \<union> set (filter tr_active (drop (Suc i) rs))"
    and "set (filter tr_active (rs[i := r])) = set (filter tr_active (take i rs)) \<union> {r} \<union> set (filter tr_active (drop (Suc i) rs))"
    using assms(3) by (metis (no_types, lifting) append_Cons append_Nil filter_append set_append sup_assoc)
      (simp add: \<open>rs[i := r] = take i rs @ r # drop (Suc i) rs\<close> assms(3))
  then show ?thesis using assms(4) by (auto split: if_splits)
qed

lemma update_task_seen:
  assumes rnd: "float_rounding rnd" and ok: "seen_ok P (mo_records s)"
  shows "seen_ok (insert (tk_handle k) P) (mo_records (update_task rnd d k s))"
proof (cases "find_record (tk_handle k) (mo_records s)")
  case None
  moreover have "tk_handle k \<notin> tr_handle ` set (mo_records s)" using iffD1 [OF find_record_None None] .
  ultimately show ?thesis using ok cpu_percent_range [OF rnd]
    by (simp add: seen_ok_def update_task_def Let_def) (simp add: fresh_task_def)
next
  case (Some i)
  have i: "i < length (mo_records s)" "tr_handle (mo_records s ! i) = tk_handle k" using find_record_Some [OF Some] by simp_all
  let ?r = "record_task rnd d k (mo_records s ! i)"
  have "map tr_handle ((mo_records s)[i := ?r]) = map tr_handle (mo_records s)"
    by (simp add: map_update) (metis i(1) length_map list_update_id nth_map)
  moreover have "list_all (\<lambda>r. 0 \<le> tr_load r \<and> tr_load r \<le> 100) ((mo_records s)[i := ?r])"
    using ok cpu_percent_range [OF rnd] i(1) by (auto simp: seen_ok_def list_all_length nth_list_update)
  moreover have "tr_handle ` set (filter tr_active ((mo_records s)[i := ?r])) = insert (tk_handle k) P"
    using ok seen_at [of "mo_records s" i ?r] i by (simp add: seen_ok_def)
  ultimately show ?thesis using ok Some by (simp add: seen_ok_def update_task_def Let_def)
qed

lemma update_tasks_seen:
  "\<lbrakk>float_rounding rnd; seen_ok P (mo_records s)\<rbrakk> \<Longrightarrow>
    seen_ok (tk_handle ` set tasks \<union> P) (mo_records (fold (update_task rnd d) tasks s))"
proof (induction tasks arbitrary: s P)
  case (Cons k tasks)
  then show ?case using Cons.IH [OF Cons.prems(1) update_task_seen [OF Cons.prems, of k d]] by simp
qed simp

definition table_ok :: "monitor \<Rightarrow> bool" where
  "table_ok s \<longleftrightarrow> distinct (map tr_handle (mo_records s)) \<and> list_all (\<lambda>r. 0 \<le> tr_load r \<and> tr_load r \<le> 100) (mo_records s)"

lemma update_table:
  assumes rnd: "float_rounding rnd" and ok: "table_ok s"
  shows "table_ok (update_monitor rnd (Some (n, tasks)) s) \<and>
    tr_handle ` set (mo_records (update_monitor rnd (Some (n, tasks)) s)) = tk_handle ` set tasks"
proof -
  let ?s = "s\<lparr>mo_last_total := n, mo_records := map (\<lambda>r. r\<lparr>tr_active := False\<rparr>) (mo_records s), mo_core0 := 100, mo_core1 := 100\<rparr>"
  have "seen_ok {} (mo_records ?s)" using ok by (auto simp: seen_ok_def table_ok_def list_all_iff o_def)
  from update_tasks_seen [OF rnd this, of tasks "n - mo_last_total s"] show ?thesis
    by (auto simp: update_monitor_def Let_def seen_ok_def table_ok_def list_all_iff distinct_map inj_on_def)
qed

datatype monitor_step = Mo_Begin | Mo_Update "(u32 \<times> task_status list) option" | Mo_Report health

fun monitor_act :: "(nat \<Rightarrow> rat \<Rightarrow> string) \<Rightarrow> (rat \<Rightarrow> rat) \<Rightarrow> monitor \<Rightarrow> monitor_step \<Rightarrow> monitor" where
  "monitor_act fmt2 rnd s Mo_Begin = monitor_begin s"
| "monitor_act fmt2 rnd s (Mo_Update sys) = update_monitor rnd sys s"
| "monitor_act fmt2 rnd s (Mo_Report h) = snd (get_full_report fmt2 rnd h s)"

definition monitor_run :: "(nat \<Rightarrow> rat \<Rightarrow> string) \<Rightarrow> (rat \<Rightarrow> rat) \<Rightarrow> monitor_step list \<Rightarrow> monitor" where
  "monitor_run fmt2 rnd steps = foldl (monitor_act fmt2 rnd) new_monitor steps"

lemma report_table: "table_ok s \<Longrightarrow> table_ok (snd (get_full_report fmt2 rnd h s))"
  by (simp add: get_full_report_def get_task_stats_def Let_def table_ok_def task_order_def distinct_map list_all_iff)

lemma monitor_act_ok:
  assumes "float_rounding rnd" "table_ok s"
  shows "table_ok (monitor_act fmt2 rnd s e)"
proof (cases e)
  case Mo_Begin
  then show ?thesis using assms by (simp add: monitor_begin_def table_ok_def)
next
  case (Mo_Update sys)
  then show ?thesis using update_table [OF assms] assms by (cases sys) (auto simp: update_monitor_def)
next
  case (Mo_Report h)
  then show ?thesis using report_table [OF assms(2)] by simp
qed

lemma monitor_run_ok: "float_rounding rnd \<Longrightarrow> table_ok (monitor_run fmt2 rnd steps)"
  unfolding monitor_run_def
  by (induction steps rule: rev_induct) (simp_all add: monitor_act_ok, simp add: new_monitor_def table_ok_def)


section \<open>A handle used again\<close>

text \<open>A task is known by its handle alone: a new task at the address of one that ended since the last update
  is listed under the old name, and its share is counted from the old one's runtime.\<close>

lemma reused_handle_keeps_old_name:
  assumes "find_record (tk_handle k) (mo_records s) = Some i"
  shows "tr_name (mo_records (update_task rnd d k s) ! i) = tr_name (mo_records s ! i) \<and>
    tr_load (mo_records (update_task rnd d k s) ! i) = cpu_percent rnd (tk_runtime k - tr_last_runtime (mo_records s ! i)) d"
  using assms find_record_Some [OF assms] by (simp add: update_task_def Let_def)

section \<open>The bounded report\<close>

lemma rfind_newline_None: "rfind_newline t i = None \<Longrightarrow> j \<le> i \<Longrightarrow> \<not> (j < length t \<and> t ! j = CHR 0x0A)"
proof (induction i)
  case 0 then show ?case by (subst (asm) rfind_newline.simps) (auto split: if_splits)
next
  case (Suc i) then show ?case by (subst (asm) (2) rfind_newline.simps) (cases "j = Suc i"; force split: if_splits)
qed

lemma rfind_newline_Some:
  "rfind_newline t i = Some c \<Longrightarrow> c \<le> i \<and> c < length t \<and> t ! c = CHR 0x0A \<and>
    (\<forall>j. c < j \<and> j \<le> i \<and> j < length t \<longrightarrow> t ! j \<noteq> CHR 0x0A)"
proof (induction i)
  case 0 then show ?case by (subst (asm) rfind_newline.simps) (auto split: if_splits)
next
  case (Suc i) then show ?case by (subst (asm) (2) rfind_newline.simps) (auto split: if_splits simp: le_Suc_eq)
qed

text \<open>Whole lines: nothing, or an end at a newline.\<close>

definition whole_lines :: "string \<Rightarrow> bool" where
  "whole_lines t \<longleftrightarrow> t = [] \<or> last t = CHR 0x0A"

text \<open>A report over the limit is cut to whole lines and marked, within the limit, and no longer run of whole lines
  would have left room for the mark.\<close>

theorem telemetry_report_fits:
  assumes "length kMarker < n" "n < length report"
  shows "\<exists>m. truncate_report n report = take m report @ kMarker \<and> m + length kMarker \<le> n \<and> whole_lines (take m report) \<and>
    (\<forall>j. m < j \<and> j + length kMarker \<le> n \<longrightarrow> \<not> whole_lines (take j report))"
proof -
  let ?b = "n - length kMarker"
  have mk: "length kMarker = 16" by code_simp
  have b: "?b \<noteq> 0" "?b < length report" using assms by auto
  have whole: "whole_lines (take j report) \<longleftrightarrow> report ! (j - 1) = CHR 0x0A" if "0 < j" "j \<le> ?b" for j
  proof -
    have ne: "take j report \<noteq> []" and l: "length (take j report) = j" using that b by auto
    have "last (take j report) = report ! (j - 1)" using last_conv_nth [OF ne] l that by simp
    then show ?thesis using ne by (simp add: whole_lines_def)
  qed
  show ?thesis
  proof (cases "rfind_newline report (?b - 1)")
    case None
    have "\<not> whole_lines (take j report)" if "0 < j" "j + length kMarker \<le> n" for j
      using rfind_newline_None [OF None, of "j - 1"] whole [of j] that b by auto
    then show ?thesis using None assms by (intro exI [of _ 0]) (auto simp: truncate_report_def Let_def whole_lines_def)
  next
    case (Some c)
    note f = rfind_newline_Some [OF Some]
    have "whole_lines (take (c + 1) report)" using f b whole [of "c + 1"] by auto
    moreover have "\<not> whole_lines (take j report)" if "c + 1 < j" "j + length kMarker \<le> n" for j
    proof -
      have "c < j - 1 \<and> j - 1 \<le> ?b - 1 \<and> j - 1 < length report" using that b by auto
      then have "report ! (j - 1) \<noteq> CHR 0x0A" using f by blast
      then show ?thesis using whole [of j] that b by auto
    qed
    ultimately show ?thesis using Some assms f b
      by (intro exI [of _ "c + 1"]) (auto simp: truncate_report_def Let_def)
  qed
qed

lemma short_limit_is_exceeded:
  assumes "0 < n" "n < length kMarker" "length kMarker \<le> length report" "report ! 0 \<noteq> CHR 0x0A"
  shows "truncate_report n report = kMarker \<and> n < length (truncate_report n report)"
  using assms by (simp add: truncate_report_def rfind_newline.simps [of report 0])

lemma telemetry_report_fits_witness:
  "\<exists>m. truncate_report 20 (replicate 30 CHR 0x0A) = take m (replicate 30 CHR 0x0A) @ kMarker \<and> m + length kMarker \<le> 20"
proof -
  have "length kMarker < 20" "(20::nat) < length (replicate 30 (CHR 0x0A))" by code_simp+
  from telemetry_report_fits [OF this] show ?thesis by blast
qed


end
