(* ===== verification/Junkebox.thy ===== *)
theory Junkebox
  imports SD_Card Job_Commands C_Text Robot_Outputs
begin

text \<open>
  The buzzer (\<^verbatim>\<open>lib/Junkebox/\<close>): the text format of songs, the built-in sounds, the mailbox through which any
  task asks for a song, and the task that plays it.

  Two things are not the program's: \<open>tone\<close> gives the frequency of a MIDI note as a \<open>float\<close> (the power of the
  C library), and \<open>ledc\<close> whether the PWM driver takes a frequency.
\<close>

section \<open>Song text\<close>

definition kMaxSongLineBytes :: nat where "kMaxSongLineBytes = 64"
definition kMaxSongLoops :: nat where "kMaxSongLoops = 100"
definition kSemitoneFromC :: "int list" where "kSemitoneFromC = [9, 11, 0, 2, 4, 5, 7]"
definition MAX_SONG_FILE_BYTES :: nat where "MAX_SONG_FILE_BYTES = 4096"
definition MAX_SONG_PATH_LENGTH :: nat where "MAX_SONG_PATH_LENGTH = 128"

definition char_at :: "string \<Rightarrow> nat \<Rightarrow> char" where
  "char_at t i = (if i < length t then t ! i else CHR 0x00)"

definition is_digit :: "char \<Rightarrow> bool" where "is_digit c \<longleftrightarrow> digit_value 10 c \<noteq> None"

definition atoi :: "string \<Rightarrow> int" where
  "atoi s =
     (case split_sign s of (neg, t) \<Rightarrow>
        let n = int (fst (scan_digits 10 0 t))
        in if neg then (if 0x80000000 < n then - 0x80000000 else - n) else if 0x80000000 \<le> n then 0x7FFFFFFF else n)"

definition strtoul_decimal :: "string \<Rightarrow> (u32 \<times> string) option" where
  "strtoul_decimal s =
     (case split_sign s of (neg, t) \<Rightarrow>
        (case scan_digits 10 0 t of (n, rest) \<Rightarrow>
           if rest = t then None
           else Some (if 0x100000000 \<le> int n then 0xFFFFFFFF else if neg then - word_of_nat n else word_of_nat n, rest)))"

definition trim_cr :: "string \<Rightarrow> string" where
  "trim_cr t = (if t \<noteq> [] \<and> last t = CHR 0x0D then butlast t else t)"

definition skip_gaps :: "string \<Rightarrow> string" where
  "skip_gaps t = dropWhile (\<lambda>c. c = CHR '' '' \<or> c = CHR 0x09) t"

text \<open>A token's note: the letter, the accidental, the octave.\<close>

definition note_midi :: "string \<Rightarrow> int option" where
  "note_midi token =
     (let letter = ascii_upper (char_at token 0) in
      if of_char letter < (65 :: nat) \<or> (71 :: nat) < of_char letter then None
      else
        let (pos, accidental) =
              (if char_at token 1 = CHR ''#'' then (2, 1)
               else if ascii_upper (char_at token 1) = CHR ''B'' \<and> is_digit (char_at token 2) then (2, -1)
               else (1, 0))
        in if \<not> is_digit (char_at token pos) then None
           else Some ((atoi (drop pos token) + 1) * 12 + kSemitoneFromC ! (of_char letter - 65) + accidental))"

definition note_token_to_freq :: "(int \<Rightarrow> rat) \<Rightarrow> string \<Rightarrow> u16 option" where
  "note_token_to_freq tone token =
     (if map ascii_upper token = ''REST'' \<or> map ascii_upper token = ''PAUSE'' then Some 0
      else case note_midi token of
        None \<Rightarrow> None
      | Some midi \<Rightarrow>
          let freq = tone midi
          in if freq < 20 \<or> 20000 < freq then None else Some (of_int \<lfloor>freq + 1 / 2\<rfloor>))"

definition parse_loop_line :: "string \<Rightarrow> u16 option" where
  "parse_loop_line l =
     (let t = skip_gaps (trim_cr l) in
      if map ascii_upper (take 5 t) \<noteq> ''LOOP,'' then None
      else case strtoul_decimal (drop 5 t) of
        None \<Rightarrow> None
      | Some (n, rest) \<Rightarrow>
          if skip_gaps rest \<noteq> [] \<or> n = 0 \<or> of_nat kMaxSongLoops < n then None else Some (ucast n))"

type_synonym song_note = "u16 \<times> u32"

definition parse_note_line :: "(int \<Rightarrow> rat) \<Rightarrow> string \<Rightarrow> song_note option" where
  "parse_note_line tone l =
     (let t = skip_gaps (trim_cr l) in
      if t = [] \<or> char_at t 0 = CHR ''#'' \<or> CHR '','' \<notin> set t then None
      else case note_token_to_freq tone (takeWhile (\<lambda>c. c \<noteq> CHR '','') t) of
        None \<Rightarrow> None
      | Some f \<Rightarrow>
          let d = of_int (atoi (tl (dropWhile (\<lambda>c. c \<noteq> CHR '','') t))) :: u32
          in if 0 < d then Some (f, d) else None)"

section \<open>A pass over the text\<close>

text \<open>The lines the loop visits: what follows the last newline only when it is not empty.\<close>

function song_lines :: "string \<Rightarrow> string list" where
  "song_lines t =
     (if t = [] then []
      else let l = takeWhile (\<lambda>c. c \<noteq> CHR 0x0A) t; r = dropWhile (\<lambda>c. c \<noteq> CHR 0x0A) t
        in l # (if r = [] then [] else song_lines (tl r)))"
  by auto

termination
proof (relation "measure length", goal_cases)
  case (2 t l r)
  then have "r \<noteq> []" "length r \<le> length t" using length_dropWhile_le [of "\<lambda>c. c \<noteq> CHR 0x0A" t] by auto
  then have "length (tl r) < length t" by (cases r) auto
  then show ?case by simp
qed simp

text \<open>Parsing the directive trims the line before the note is parsed.\<close>

fun song_pass :: "(int \<Rightarrow> rat) \<Rightarrow> bool \<Rightarrow> string list \<Rightarrow> u16 \<Rightarrow> song_note list \<times> u16" where
  "song_pass tone initial [] loops = ([], loops)"
| "song_pass tone initial (l # ls) loops =
     (if kMaxSongLineBytes \<le> length l then song_pass tone initial ls loops
      else case parse_loop_line l of
        Some n \<Rightarrow> song_pass tone initial ls (if initial then n else loops)
      | None \<Rightarrow>
          (case parse_note_line tone (trim_cr l) of
             None \<Rightarrow> song_pass tone initial ls loops
           | Some nt \<Rightarrow> (case song_pass tone initial ls loops of (ns, k) \<Rightarrow> (nt # ns, k))))"

lemma unat_succ_less: "loop < k \<Longrightarrow> unat (loop + 1) = unat loop + 1" for loop k :: "'a :: len word"
  by (metis Suc_eq_plus1 unat_word_succ word_order.extremum_strict)

text \<open>The passes from \<open>loop\<close> on.\<close>

function song_loops :: "(int \<Rightarrow> rat) \<Rightarrow> string list \<Rightarrow> u16 \<Rightarrow> u16 \<Rightarrow> song_note list" where
  "song_loops tone ls loop loops =
     (if loop < loops
      then case song_pass tone (loop = 0) ls loops of (ns, k) \<Rightarrow>
        ns @ song_loops tone ls (loop + 1) k
      else [])"
  by auto

termination
proof (relation "measure (\<lambda>(_, _, loop, _). 2 ^ 16 - unat loop)", goal_cases)
  case (2 tone ls loop loops x)
  then have "unat (loop + 1) = unat loop + 1" using unat_succ_less by blast
  moreover have "unat loop < 2 ^ 16" using unsigned_less [of loop] by simp
  ultimately show ?case by simp
qed simp

declare song_loops.simps [simp del] song_lines.simps [simp del]

definition terminated :: "string \<Rightarrow> string" where
  "terminated t = takeWhile (\<lambda>c. c \<noteq> CHR 0x00) t"

text \<open>\<open>play_buffer\<close>, uninterrupted: the notes it plays, in order.\<close>

definition play_buffer :: "(int \<Rightarrow> rat) \<Rightarrow> string \<Rightarrow> song_note list" where
  "play_buffer tone buf = song_loops tone (song_lines (terminated buf)) 0 1"

section \<open>The built-in sounds\<close>

definition song_text :: "string list \<Rightarrow> string" where
  "song_text ls = concat (map (\<lambda>l. l @ [CHR 0x0A]) ls)"

fun text_for :: "builtin_sound \<Rightarrow> string" where
  "text_for Click = song_text [''C6,30'']"
| "text_for Ping = song_text [''A6,20'']"
| "text_for Success = song_text [''C5,80'', ''E5,80'', ''G5,120'']"
| "text_for ErrorSound = song_text [''A4,120'', ''REST,40'', ''A4,120'', ''REST,40'', ''A4,220'']"
| "text_for WarningSound = song_text [''E5,100'', ''REST,60'', ''E5,100'']"
| "text_for Boot = song_text [''C5,100'', ''E5,100'', ''G5,100'', ''C6,220'']"
| "text_for Elevator = song_text [''C4,300'', ''E4,300'', ''G4,300'', ''B4,300'', ''A4,300'', ''G4,300'', ''E4,300'', ''D4,300'',
     ''REST,150'', ''D4,300'', ''F4,300'', ''A4,300'', ''C5,300'', ''B4,300'', ''A4,300'', ''F4,300'', ''E4,300'', ''REST,300'']"

definition builtin_from_name :: "string \<Rightarrow> builtin_sound option" where
  "builtin_from_name name =
     (if name = ''click'' then Some Click else if name = ''ping'' then Some Ping
      else if name = ''success'' then Some Success else if name = ''error'' then Some ErrorSound
      else if name = ''warning'' then Some WarningSound else if name = ''boot'' then Some Boot
      else if name = ''elevator'' then Some Elevator else None)"

section \<open>The mailbox and the task\<close>

datatype play_request = Req_File string | Req_Builtin string | Req_Tone u16 u32

text \<open>The task's place in its loop.  \<open>In_Note\<close> is inside a note; \<open>Playing\<close> is before the next one.\<close>

datatype jb_phase = Idle | Taken play_request | Playing bool "song_note list" | In_Note bool "song_note list"

record junkebox =
  jb_card :: bool
  jb_hw :: bool
  jb_ready :: bool
  jb_playing :: bool
  jb_mailbox :: "play_request option"
  jb_notified :: bool
  jb_phase :: jb_phase
  jb_freq :: u16
  jb_duty :: u32
  jb_tones :: "u16 list"

definition PWM_DUTY_50_PCT :: u32 where "PWM_DUTY_50_PCT = 128"

definition new_junkebox :: junkebox where
  "new_junkebox = \<lparr>jb_card = False, jb_hw = False, jb_ready = False, jb_playing = False, jb_mailbox = None,
     jb_notified = False, jb_phase = Idle, jb_freq = 440, jb_duty = 0, jb_tones = []\<rparr>"

text \<open>\<open>begin\<close>: whether the pin can be driven, the channel and the driver's number of channels, the answers of the
  four driver calls (the fade service may be there already), and whether the queue could be made.\<close>

datatype jb_error = Jb_Invalid_Arg | Jb_No_Mem | Jb_Driver esp_err

definition junkebox_begin ::
    "bool \<Rightarrow> u8 \<Rightarrow> u8 \<Rightarrow> esp_err \<Rightarrow> esp_err \<Rightarrow> esp_err \<Rightarrow> esp_err \<Rightarrow> bool \<Rightarrow> junkebox \<Rightarrow> jb_error option \<times> junkebox" where
  "junkebox_begin valid_gpio chan chan_max reset timer fade config queue s =
     (let s1 = s\<lparr>jb_card := True\<rparr> in
      if \<not> valid_gpio then (Some Jb_Invalid_Arg, s1)
      else if chan_max \<le> chan then (Some Jb_Invalid_Arg, s1)
      else if reset \<noteq> ESP_OK then (Some (Jb_Driver reset), s1)
      else if timer \<noteq> ESP_OK then (Some (Jb_Driver timer), s1)
      else if fade \<noteq> ESP_OK \<and> fade \<noteq> ESP_ERR_INVALID_STATE then (Some (Jb_Driver fade), s1)
      else if config \<noteq> ESP_OK then (Some (Jb_Driver config), s1)
      else if \<not> queue then (Some Jb_No_Mem, s1)
      else (None, s1\<lparr>jb_hw := True\<rparr>))"

text \<open>Every call is recorded; a refused frequency leaves the output as it was.\<close>

definition set_tone :: "(u16 \<Rightarrow> bool) \<Rightarrow> u16 \<Rightarrow> junkebox \<Rightarrow> bool \<times> junkebox" where
  "set_tone ledc f s =
     (let s1 = s\<lparr>jb_tones := jb_tones s @ [f]\<rparr> in
      if f = 0 then (True, s1\<lparr>jb_duty := 0\<rparr>)
      else if \<not> ledc f then (False, s1)
      else (True, s1\<lparr>jb_freq := f, jb_duty := PWM_DUTY_50_PCT\<rparr>))"

text \<open>The two halves of a request: the mailbox, then the notification.\<close>

definition post :: "play_request \<Rightarrow> junkebox \<Rightarrow> junkebox" where
  "post r s = s\<lparr>jb_mailbox := Some r\<rparr>"

definition empty_mailbox :: "junkebox \<Rightarrow> junkebox" where
  "empty_mailbox s = s\<lparr>jb_mailbox := None\<rparr>"

definition notify :: "junkebox \<Rightarrow> junkebox" where
  "notify s = s\<lparr>jb_notified := True\<rparr>"

definition play_path :: "string option \<Rightarrow> junkebox \<Rightarrow> bool \<times> junkebox" where
  "play_path path s =
     (case path of
        None \<Rightarrow> (False, s)
      | Some p \<Rightarrow> if \<not> jb_ready s then (False, s)
          else (True, notify (post (Req_File (take (MAX_SONG_PATH_LENGTH - 1) p)) s)))"

definition play_builtin :: "builtin_sound \<Rightarrow> junkebox \<Rightarrow> bool \<times> junkebox" where
  "play_builtin b s = (if \<not> jb_ready s then (False, s) else (True, notify (post (Req_Builtin (text_for b)) s)))"

definition play_tone :: "u16 \<Rightarrow> u32 \<Rightarrow> junkebox \<Rightarrow> bool \<times> junkebox" where
  "play_tone f d s = (if \<not> jb_ready s then (False, s) else (True, notify (post (Req_Tone f d) s)))"

definition stop_song :: "junkebox \<Rightarrow> junkebox" where
  "stop_song s = (if \<not> jb_ready s then s else notify (empty_mailbox s))"

definition start_loop :: "junkebox \<Rightarrow> junkebox" where
  "start_loop s = (if jb_hw s then s\<lparr>jb_ready := True\<rparr> else s)"

text \<open>The notes of a request, and whether a refused frequency ends it.\<close>

definition request_notes :: "(int \<Rightarrow> rat) \<Rightarrow> sd_card \<Rightarrow> junkebox \<Rightarrow> play_request \<Rightarrow> bool \<times> song_note list" where
  "request_notes tone c s r =
     (case r of
        Req_Tone f d \<Rightarrow> (True, [(f, d)])
      | Req_Builtin t \<Rightarrow> (False, play_buffer tone (take (MAX_SONG_FILE_BYTES - 1) t))
      | Req_File p \<Rightarrow>
          (False, if \<not> jb_card s \<or> \<not> is_mounted c then []
                  else case read_file (Some p) (MAX_SONG_FILE_BYTES - 1) c of None \<Rightarrow> [] | Some t \<Rightarrow> play_buffer tone t))"

text \<open>A step of the task, which alone plays; \<open>None\<close> when it waits for a request.  A note's wait ends at once when
  there is a notification, and by its time when there is none.\<close>

definition task_step :: "(int \<Rightarrow> rat) \<Rightarrow> (u16 \<Rightarrow> bool) \<Rightarrow> sd_card \<Rightarrow> junkebox \<Rightarrow> junkebox option" where
  "task_step tone ledc c s =
     (if \<not> jb_ready s then None
      else case jb_phase s of
        Idle \<Rightarrow>
          (case jb_mailbox s of
             None \<Rightarrow> None
           | Some r \<Rightarrow> Some (s\<lparr>jb_mailbox := None, jb_phase := Taken r\<rparr>))
      | Taken r \<Rightarrow>
          (case request_notes tone c s r of (strict, ns) \<Rightarrow>
             Some (s\<lparr>jb_notified := False, jb_playing := True, jb_phase := Playing strict ns\<rparr>))
      | Playing strict [] \<Rightarrow> Some ((snd (set_tone ledc 0 s))\<lparr>jb_playing := False, jb_phase := Idle\<rparr>)
      | Playing strict ((f, d) # ns) \<Rightarrow>
          (case set_tone ledc f s of (ok, s1) \<Rightarrow>
             Some (s1\<lparr>jb_phase := (if strict \<and> \<not> ok then Playing strict [] else In_Note strict ns)\<rparr>))
      | In_Note strict ns \<Rightarrow>
          Some (if jb_notified s then s\<lparr>jb_notified := False, jb_phase := Playing strict []\<rparr>
                else s\<lparr>jb_phase := Playing strict ns\<rparr>))"

section \<open>The shell commands\<close>

definition junkebox_play :: "string \<Rightarrow> sd_card \<Rightarrow> junkebox \<Rightarrow> shell_result \<times> log_line list \<times> junkebox" where
  "junkebox_play path c s =
     (if path = [] \<or> MAX_SONG_PATH_LENGTH \<le> length path then
        (RESULT_ERROR, [(ERRO, ''Junkebox: invalid/long song path ('' @ show_dec (length path) @ '' bytes, max='' @
           show_dec (MAX_SONG_PATH_LENGTH - 1) @ '')'')], s)
      else if \<not> jb_card s \<or> \<not> is_mounted c then
        (RESULT_ERROR, [(ERRO, ''Junkebox: SD card is not mounted for robot; safely eject it from the PC and press button 2'')], s)
      else if \<not> file_exists (Some path) c then (RESULT_ERROR, [(ERRO, ''Junkebox: song file not found: '' @ path)], s)
      else case play_path (Some path) s of
        (False, s') \<Rightarrow> (RESULT_ERROR, [(ERRO, ''Junkebox is not initialized yet'')], s')
      | (True, s') \<Rightarrow> (RESULT_OK, [(INFO, ''Junkebox: playing '' @ path)], s'))"

definition junkebox_play_builtin :: "string \<Rightarrow> junkebox \<Rightarrow> shell_result \<times> log_line list \<times> junkebox" where
  "junkebox_play_builtin name s =
     (case builtin_from_name name of
        None \<Rightarrow> (RESULT_ERROR, [(ERRO, ''Junkebox: unknown builtin sound '' @ [CHR 0x27] @ name @ [CHR 0x27] @
                  '' (click/success/error/warning/boot/elevator)'')], s)
      | Some b \<Rightarrow>
          (case play_builtin b s of
             (False, s') \<Rightarrow> (RESULT_ERROR, [(ERRO, ''Junkebox is not initialized yet'')], s')
           | (True, s') \<Rightarrow> (RESULT_OK, [(INFO, ''Junkebox: playing builtin '' @ [CHR 0x27] @ name @ [CHR 0x27])], s')))"

definition junkebox_stop :: "junkebox \<Rightarrow> shell_result \<times> log_line list \<times> junkebox" where
  "junkebox_stop s = (RESULT_OK, [(INFO, ''Junkebox: stopped'')], stop_song s)"

definition junkebox_status :: "junkebox \<Rightarrow> shell_result \<times> log_line list" where
  "junkebox_status s = (RESULT_OK, [(INFO, ''Junkebox: '' @ (if jb_playing s then ''playing'' else ''idle''))])"

definition test_buzzer :: "u32 \<Rightarrow> u32 \<Rightarrow> junkebox \<Rightarrow> shell_result \<times> log_line list \<times> junkebox" where
  "test_buzzer freq_hz time s =
     (case play_tone (ucast freq_hz) time s of
        (False, s') \<Rightarrow> (RESULT_ERROR, [(ERRO, ''Junkebox is not initialized yet'')], s')
      | (True, s') \<Rightarrow> (RESULT_OK, [], s'))"

text \<open>\<open>list\<close>: the names of the card's files that end as songs do.\<close>

definition is_song_name :: "string \<Rightarrow> bool" where
  "is_song_name name \<longleftrightarrow> 5 \<le> length name \<and>
     (drop (length name - 4) name = ''.txt'' \<or> drop (length name - 4) name = ''.jkb'')"

definition song_entry :: "string list option \<Rightarrow> sd_card \<Rightarrow> nat \<Rightarrow> string option" where
  "song_entry dir c i =
     (case get_file_info dir (of_nat i) c of
        None \<Rightarrow> None
      | Some f \<Rightarrow> if is_song_name (fi_name f)
          then Some (take (MAX_NAME_LENGTH + 47) (show_dec i @ '' name='' @ fi_name f @ '' bytes='' @
                       show_dec (unat (fi_size f)) @ [CHR 0x0A]))
          else None)"

definition junkebox_list :: "string list option \<Rightarrow> sd_card \<Rightarrow> shell_result \<times> log_line list" where
  "junkebox_list dir c =
     (let entries = List.map_filter (song_entry dir c) [0..<unat (get_file_count dir c)]
      in (RESULT_OK, [(INFO, concat entries @ ''songs='' @ show_dec (length entries) @
           '' builtin=click/success/error/warning/boot/elevator'')]))"

section \<open>A song is its notes, so many times\<close>

definition song_notes :: "(int \<Rightarrow> rat) \<Rightarrow> string list \<Rightarrow> song_note list" where
  "song_notes tone ls = List.map_filter
     (\<lambda>l. if kMaxSongLineBytes \<le> length l \<or> parse_loop_line l \<noteq> None then None else parse_note_line tone (trim_cr l)) ls"

definition song_directives :: "string list \<Rightarrow> u16 list" where
  "song_directives ls = List.map_filter (\<lambda>l. if kMaxSongLineBytes \<le> length l then None else parse_loop_line l) ls"

lemma song_pass_notes: "fst (song_pass tone i ls k) = song_notes tone ls"
proof (induction ls arbitrary: k)
  case (Cons l ls)
  then show ?case
    by (auto simp: song_notes_def map_filter_simps case_prod_beta split: option.splits)
qed (simp add: song_notes_def map_filter_simps)

lemma song_pass_loops: "snd (song_pass tone i ls k) = (if i then last (k # song_directives ls) else k)"
proof (induction ls arbitrary: k)
  case (Cons l ls)
  then show ?case
    by (auto simp: song_directives_def map_filter_simps case_prod_beta split: option.splits)
qed (simp add: song_directives_def map_filter_simps)

lemma song_pass_eq: "song_pass tone i ls k = (song_notes tone ls, if i then last (k # song_directives ls) else k)"
  using song_pass_notes [of tone i ls k] song_pass_loops [of tone i ls k] by (metis prod.collapse)

lemma parse_loop_range:
  assumes "parse_loop_line l = Some n"
  shows "1 \<le> unat n \<and> unat n \<le> 100"
proof -
  obtain v :: u32 where v: "v \<noteq> 0" "\<not> 100 < v" "n = ucast v"
    using assms by (auto simp: parse_loop_line_def Let_def kMaxSongLoops_def split: option.splits if_splits)
  have "unat v \<le> 100" using v(2) by (simp add: word_less_nat_alt not_less)
  moreover have "unat v \<noteq> 0" using v(1) by (simp add: unat_eq_0)
  moreover have "unat n = unat v" using v(3) \<open>unat v \<le> 100\<close> by (simp add: unsigned_ucast_eq take_bit_nat_eq_self unsigned_take_bit_eq)
  ultimately show ?thesis by simp
qed

definition song_count :: "string list \<Rightarrow> nat" where
  "song_count ls = unat (last (1 # song_directives ls))"

lemma map_filter_member: "x \<in> set (List.map_filter f ls) \<Longrightarrow> \<exists>l. f l = Some x"
  by (induction ls) (auto simp: map_filter_simps split: option.splits)

lemma song_count_range: "1 \<le> song_count ls \<and> song_count ls \<le> 100"
proof (cases "song_directives ls")
  case Nil then show ?thesis by (simp add: song_count_def)
next
  case Cons
  then have "last (song_directives ls) \<in> set (song_directives ls)" by simp
  then obtain l where "(if kMaxSongLineBytes \<le> length l then None else parse_loop_line l) = Some (last (song_directives ls))"
    unfolding song_directives_def by (blast dest: map_filter_member)
  then have "parse_loop_line l = Some (last (song_directives ls))" by (simp split: if_splits)
  then show ?thesis using parse_loop_range Cons by (simp add: song_count_def)
qed

lemma song_loops_rest:
  "loop \<noteq> 0 \<Longrightarrow> song_loops tone ls loop k = concat (replicate (unat k - unat loop) (song_notes tone ls))"
proof (induction "unat k - unat loop" arbitrary: loop)
  case 0 then show ?case by (subst song_loops.simps) (simp add: word_less_nat_alt)
next
  case (Suc d)
  then have l: "loop < k" by (simp add: word_less_nat_alt)
  then have u: "unat (loop + 1) = unat loop + 1" by (rule unat_succ_less)
  then have nz: "loop + 1 \<noteq> 0" by (metis add_is_0 one_neq_zero unat_0)
  have d: "unat k - unat loop = Suc (unat k - unat (loop + 1))" using Suc.hyps(2) u by simp
  show ?case using Suc.hyps(1) [OF _ nz] Suc.hyps(2) d l Suc.prems
    by (subst song_loops.simps) (simp add: song_pass_eq)
qed

lemma song_is_repeated_notes_aux:
  "play_buffer tone buf = concat (replicate (song_count (song_lines (terminated buf))) (song_notes tone (song_lines (terminated buf)))) \<and>
   1 \<le> song_count (song_lines (terminated buf)) \<and> song_count (song_lines (terminated buf)) \<le> 100"
proof -
  let ?ls = "song_lines (terminated buf)"
  let ?k = "last (1 # song_directives ?ls)"
  have "song_loops tone ?ls 0 1 = song_notes tone ?ls @ song_loops tone ?ls 1 ?k"
    by (subst song_loops.simps) (simp add: song_pass_eq)
  also have "song_loops tone ?ls 1 ?k = concat (replicate (song_count ?ls - 1) (song_notes tone ?ls))"
    by (subst song_loops_rest) (simp_all add: song_count_def)
  finally have "play_buffer tone buf = concat (replicate (Suc (song_count ?ls - 1)) (song_notes tone ?ls))"
    by (simp add: play_buffer_def)
  then show ?thesis using song_count_range [of ?ls] by simp
qed

text \<open>A song plays the notes of its lines in order, as many times as its last \<open>LOOP\<close> directive says: once without
  one, never more than a hundred times, and directives, comments, bad and long lines sound nothing.\<close>

theorem song_is_repeated_notes:
  "play_buffer tone buf = concat (replicate (song_count (song_lines (terminated buf))) (song_notes tone (song_lines (terminated buf)))) \<and>
   1 \<le> song_count (song_lines (terminated buf)) \<and> song_count (song_lines (terminated buf)) \<le> 100"
  by (rule song_is_repeated_notes_aux)

definition tone_audible :: "(int \<Rightarrow> rat) \<Rightarrow> bool" where
  "tone_audible tone \<longleftrightarrow> (\<forall>m. 57 \<le> m \<and> m \<le> 95 \<longrightarrow> 20 \<le> tone m \<and> tone m \<le> 20000)"

section \<open>The task plays what is asked\<close>

type_synonym player = "junkebox \<Rightarrow> junkebox option"

fun task_run :: "player \<Rightarrow> nat \<Rightarrow> junkebox \<Rightarrow> junkebox" where
  "task_run step 0 s = s"
| "task_run step (Suc n) s = (case step s of None \<Rightarrow> s | Some t \<Rightarrow> task_run step n t)"

lemma task_run_add: "task_run step (m + n) s = task_run step n (task_run step m s)"
proof (induction m arbitrary: s)
  case (Suc m)
  have "step s = None \<Longrightarrow> task_run step n s = s" for n by (cases n) auto
  then show ?case using Suc by (auto split: option.splits)
qed simp

lemma task_run_step: "step s = Some t \<Longrightarrow> task_run step (Suc n) s = task_run step n t"
  by simp

lemma set_tone_frame:
  "set_tone ledc f s = (ok, t) \<Longrightarrow> jb_tones t = jb_tones s @ [f] \<and> jb_ready t = jb_ready s \<and> jb_card t = jb_card s \<and>
     jb_mailbox t = jb_mailbox s \<and> jb_notified t = jb_notified s \<and> jb_playing t = jb_playing s"
  by (auto simp: set_tone_def Let_def split: if_splits)

text \<open>Where a song ends: silence asked for, and the task waiting.\<close>

definition silent_after :: "u16 list \<Rightarrow> play_request option \<Rightarrow> bool \<Rightarrow> junkebox \<Rightarrow> bool" where
  "silent_after tones mail noted t \<longleftrightarrow> jb_phase t = Idle \<and> \<not> jb_playing t \<and> jb_ready t \<and> jb_duty t = 0 \<and>
     jb_mailbox t = mail \<and> jb_notified t = noted \<and> jb_tones t = tones @ [0]"

lemma finish_song:
  assumes "jb_ready s" "jb_phase s = Playing strict []"
  shows "silent_after (jb_tones s) (jb_mailbox s) (jb_notified s) (task_run (task_step tone ledc c) 1 s)"
  using assms by (simp add: task_step_def set_tone_def Let_def silent_after_def)

lemma play_notes:
  assumes "jb_ready s" "jb_phase s = Playing False ns" "\<not> jb_notified s"
  shows "\<exists>n. silent_after (jb_tones s @ map fst ns) (jb_mailbox s) False (task_run (task_step tone ledc c) n s)"
  using assms
proof (induction ns arbitrary: s)
  case Nil
  then show ?case using finish_song [of s False tone ledc c] by (intro exI [of _ 1]) simp
next
  case (Cons nt ns)
  obtain f d where nt: "nt = (f, d)" by (cases nt)
  obtain ok s1 where st: "set_tone ledc f s = (ok, s1)" by (cases "set_tone ledc f s")
  note fr = set_tone_frame [OF st]
  let ?t = "s1\<lparr>jb_phase := Playing False ns\<rparr>"
  have one: "task_run (task_step tone ledc c) 2 s = ?t"
    using Cons.prems st nt fr by (simp add: task_step_def numeral_2_eq_2)
  obtain n where "silent_after (jb_tones ?t @ map fst ns) (jb_mailbox ?t) False (task_run (task_step tone ledc c) n ?t)"
    using Cons.IH [of ?t] Cons.prems fr by auto
  then have "silent_after (jb_tones s @ map fst (nt # ns)) (jb_mailbox s) False (task_run (task_step tone ledc c) (2 + n) s)"
    using fr nt by (simp only: task_run_add one) simp
  then show ?case by blast
qed

lemma request_card: "jb_card t = jb_card s \<Longrightarrow> request_notes tone c t r = request_notes tone c s r"
  by (cases r) (simp_all add: request_notes_def)

lemma request_strict:
  "request_notes tone c s r = (b, ns) \<Longrightarrow> b \<Longrightarrow> \<exists>f d. ns = [(f, d)]"
  by (auto simp: request_notes_def split: play_request.splits)

lemma play_strict:
  assumes "jb_ready s" "jb_phase s = Playing True [(f, d)]" "\<not> jb_notified s"
  shows "\<exists>n. silent_after (jb_tones s @ [f]) (jb_mailbox s) False (task_run (task_step tone ledc c) n s)"
proof -
  obtain ok s1 where st: "set_tone ledc f s = (ok, s1)" by (cases "set_tone ledc f s")
  note fr = set_tone_frame [OF st]
  let ?t = "s1\<lparr>jb_phase := Playing True []\<rparr>"
  have "\<exists>m. task_run (task_step tone ledc c) m s = ?t"
  proof (cases ok)
    case True
    then have "task_run (task_step tone ledc c) 2 s = ?t"
      using assms st fr by (simp add: task_step_def numeral_2_eq_2)
    then show ?thesis by blast
  next
    case False
    then have "task_run (task_step tone ledc c) 1 s = ?t" using assms st fr by (simp add: task_step_def)
    then show ?thesis by blast
  qed
  then obtain m where m: "task_run (task_step tone ledc c) m s = ?t" by blast
  have "silent_after (jb_tones s @ [f]) (jb_mailbox s) False (task_run (task_step tone ledc c) (m + 1) s)"
    using finish_song [of ?t True tone ledc c] assms fr by (simp only: task_run_add m) simp
  then show ?thesis by blast
qed

lemma play_taken:
  assumes "jb_ready s" "jb_phase s = Taken r"
  shows "\<exists>n. silent_after (jb_tones s @ map fst (snd (request_notes tone c s r))) (jb_mailbox s) False
    (task_run (task_step tone ledc c) n s)"
proof -
  obtain b ns where r: "request_notes tone c s r = (b, ns)" by (cases "request_notes tone c s r")
  let ?t = "s\<lparr>jb_notified := False, jb_playing := True, jb_phase := Playing b ns\<rparr>"
  have one: "task_run (task_step tone ledc c) 1 s = ?t" using assms r by (simp add: task_step_def)
  have "\<exists>n. silent_after (jb_tones ?t @ map fst ns) (jb_mailbox ?t) False (task_run (task_step tone ledc c) n ?t)"
  proof (cases b)
    case True
    then obtain f d where "ns = [(f, d)]" using request_strict [OF r] by blast
    then show ?thesis using play_strict [of ?t f d tone ledc c] True assms by simp
  next
    case False
    then show ?thesis using play_notes [of ?t ns tone ledc c] assms by simp
  qed
  then obtain n where "silent_after (jb_tones s @ map fst ns) (jb_mailbox s) False (task_run (task_step tone ledc c) n ?t)" by auto
  then have "silent_after (jb_tones s @ map fst ns) (jb_mailbox s) False (task_run (task_step tone ledc c) (1 + n) s)"
    by (simp only: task_run_add one)
  then show ?thesis unfolding r snd_conv by blast
qed

lemma play_mailbox:
  assumes "jb_ready s" "jb_phase s = Idle" "jb_mailbox s = Some r"
  shows "\<exists>n. silent_after (jb_tones s @ map fst (snd (request_notes tone c s r))) None False
    (task_run (task_step tone ledc c) n s)"
proof -
  let ?t = "s\<lparr>jb_mailbox := None, jb_phase := Taken r\<rparr>"
  have one: "task_run (task_step tone ledc c) 1 s = ?t" using assms by (simp add: task_step_def)
  have q: "request_notes tone c ?t r = request_notes tone c s r" by (rule request_card) simp
  obtain n where "silent_after (jb_tones s @ map fst (snd (request_notes tone c s r))) None False (task_run (task_step tone ledc c) n ?t)"
    using play_taken [of ?t r tone c ledc] assms q by auto
  then have "silent_after (jb_tones s @ map fst (snd (request_notes tone c s r))) None False (task_run (task_step tone ledc c) (1 + n) s)"
    by (simp only: task_run_add one)
  then show ?thesis by blast
qed

text \<open>A request made of an idle task, or in the middle of a note, is played from its first note to its last and then
  silence; what was left of the song before it is not played.\<close>

theorem request_takes_over:
  assumes ready: "jb_ready s" and at: "jb_phase s = Idle \<or> (\<exists>b ns. jb_phase s = In_Note b ns)"
  shows "\<exists>n. silent_after (jb_tones s @ (if jb_phase s = Idle then [] else [0]) @ map fst (snd (request_notes tone c s r)))
    None False (task_run (task_step tone ledc c) n (notify (post r s)))"
proof (cases "jb_phase s = Idle")
  case True
  have q: "request_notes tone c (notify (post r s)) r = request_notes tone c s r"
    by (rule request_card) (simp add: notify_def post_def)
  show ?thesis using play_mailbox [of "notify (post r s)" r tone c ledc] ready True q
    by (simp add: notify_def post_def)
next
  case False
  then obtain b ns where p: "jb_phase s = In_Note b ns" using at by blast
  let ?t = "task_run (task_step tone ledc c) 2 (notify (post r s))"
  have t: "jb_ready ?t" "jb_phase ?t = Idle" "jb_mailbox ?t = Some r" "jb_tones ?t = jb_tones s @ [0]" "jb_card ?t = jb_card s"
    using p ready by (simp_all add: task_step_def numeral_2_eq_2 notify_def post_def set_tone_def Let_def)
  have q: "request_notes tone c ?t r = request_notes tone c s r" by (rule request_card [OF t(5)])
  obtain n where n: "silent_after (jb_tones ?t @ map fst (snd (request_notes tone c ?t r))) None False (task_run (task_step tone ledc c) n ?t)"
    using play_mailbox [OF t(1-3), of tone c ledc] by blast
  have "silent_after (jb_tones s @ [0] @ map fst (snd (request_notes tone c s r))) None False
      (task_run (task_step tone ledc c) (2 + n) (notify (post r s)))"
    unfolding task_run_add using n unfolding q t(4) by simp
  then show ?thesis unfolding if_not_P [OF False] by blast
qed

text \<open>After \<open>stop\<close> a task that is idle, before a note or inside one comes to rest with an empty mailbox after at most
  one more note and the silence.\<close>

theorem stop_silences:
  assumes ready: "jb_ready s" and at: "jb_phase s = Idle \<or> jb_phase s = Playing b ns \<or> jb_phase s = In_Note b ns"
  shows "\<exists>n t. t = task_run (task_step tone ledc c) n (stop_song s) \<and> task_step tone ledc c t = None \<and> jb_mailbox t = None \<and>
    jb_tones t \<in> {jb_tones s, jb_tones s @ [0], jb_tones s @ [fst (hd ns), 0]} \<and> (jb_phase s \<noteq> Idle \<longrightarrow> jb_duty t = 0)"
proof -
  have rest: "silent_after ts None noted t \<Longrightarrow> task_step tone ledc c t = None" for ts noted t
    by (simp add: silent_after_def task_step_def)
  let ?r = "task_run (task_step tone ledc c)"
  let ?s = "stop_song s"
  have st: "jb_ready ?s" "jb_mailbox ?s = None" "jb_notified ?s" "jb_tones ?s = jb_tones s" "jb_phase ?s = jb_phase s"
    using ready by (simp_all add: stop_song_def notify_def empty_mailbox_def)
  have mid: "\<exists>n. silent_after (jb_tones u) None False (?r n u)"
    if "jb_phase u = In_Note b' ns'" "jb_ready u" "jb_mailbox u = None" "jb_notified u" for u b' ns'
    using that by (intro exI [of _ 2])
      (simp add: task_step_def numeral_2_eq_2 set_tone_def Let_def silent_after_def)
  have sil: ?thesis if "silent_after ts None noted (?r n ?s)" "ts \<in> {jb_tones s, jb_tones s @ [fst (hd ns)]}" for ts noted n
  proof (intro exI conjI)
    show "?r n ?s = ?r n ?s" ..
    show "task_step tone ledc c (?r n ?s) = None" by (rule rest [OF that(1)])
    show "jb_tones (?r n ?s) \<in> {jb_tones s, jb_tones s @ [0], jb_tones s @ [fst (hd ns), 0]}"
      using that by (auto simp: silent_after_def)
  qed (use that(1) in \<open>simp_all add: silent_after_def\<close>)
  from at consider (idle) "jb_phase s = Idle" | (none) "jb_phase s = Playing b []"
    | (next_note) f d ms where "jb_phase s = Playing b ns" "ns = (f, d) # ms" | (inside) "jb_phase s = In_Note b ns"
    by (cases ns) auto
  then show ?thesis
  proof cases
    case idle
    then show ?thesis using st by (intro exI [of _ 0] exI [of _ ?s]) (simp add: task_step_def)
  next
    case none
    then show ?thesis using sil [of "jb_tones s" True 1] finish_song [of ?s b tone ledc c] st none by (simp only:) simp
  next
    case next_note
    obtain ok s1 where tn: "set_tone ledc f ?s = (ok, s1)" by (cases "set_tone ledc f ?s")
    note fr = set_tone_frame [OF tn]
    let ?u = "s1\<lparr>jb_phase := (if b \<and> \<not> ok then Playing b [] else In_Note b ms)\<rparr>"
    have one: "?r 1 ?s = ?u" using next_note st tn by (simp add: task_step_def)
    have u: "jb_ready ?u" "jb_mailbox ?u = None" "jb_notified ?u" "jb_tones ?u = jb_tones s @ [f]" using fr st by simp_all
    have "\<exists>n noted. silent_after (jb_tones s @ [f]) None noted (?r n ?u)"
    proof (cases "b \<and> \<not> ok")
      case True
      then have "jb_phase ?u = Playing b []" by simp
      from finish_song [OF u(1) this, of tone ledc c] show ?thesis unfolding u(2,4) by blast
    next
      case False
      then have "jb_phase ?u = In_Note b ms" by simp
      from mid [OF this u(1,2,3)] show ?thesis unfolding u(4) by blast
    qed
    then obtain n noted where "silent_after (jb_tones s @ [f]) None noted (?r (1 + n) ?s)" unfolding task_run_add one by blast
    then show ?thesis by (rule sil) (simp add: next_note)
  next
    case inside
    obtain n where "silent_after (jb_tones s) None False (?r n ?s)" using mid [of ?s b ns] st inside by auto
    then show ?thesis by (rule sil) simp
  qed
qed

text \<open>C39: Between taking a request from the mailbox and discarding old notifications, \<open>stop\<close> finds the mailbox empty and
  its notification is discarded: the song is played to its end.  The same moment loses the interruption
  of a new request.\<close>

theorem stop_at_start_is_lost:
  assumes "jb_ready s" "jb_phase s = Taken r"
  shows "\<exists>n. silent_after (jb_tones s @ map fst (snd (request_notes tone c s r))) None False
    (task_run (task_step tone ledc c) n (stop_song s))"
proof -
  have "request_notes tone c (stop_song s) r = request_notes tone c s r"
    by (rule request_card) (simp add: stop_song_def notify_def empty_mailbox_def)
  then show ?thesis using play_taken [of "stop_song s" r tone c ledc] assms
    by (simp add: stop_song_def notify_def empty_mailbox_def)
qed

section \<open>Lines that sound\<close>

definition note_token :: "string \<Rightarrow> string" where
  "note_token l = takeWhile (\<lambda>c. c \<noteq> CHR '','') (skip_gaps (trim_cr l))"

definition note_duration :: "string \<Rightarrow> int" where
  "note_duration l = atoi (tl (dropWhile (\<lambda>c. c \<noteq> CHR '','') (skip_gaps (trim_cr l))))"

definition plain_note :: "string \<Rightarrow> bool" where
  "plain_note l \<longleftrightarrow> length l < kMaxSongLineBytes \<and> parse_loop_line l = None \<and> trim_cr l = l \<and> CHR '','' \<in> set (skip_gaps l) \<and>
     char_at (skip_gaps l) 0 \<noteq> CHR ''#'' \<and> (of_int (note_duration l) :: u32) \<noteq> 0 \<and>
     (note_token l = ''REST'' \<or> (case note_midi (note_token l) of None \<Rightarrow> False | Some m \<Rightarrow> 57 \<le> m \<and> m \<le> 95))"

lemma plain_note_parsed:
  assumes "tone_audible tone" "plain_note l"
  shows "\<exists>f. parse_note_line tone l = Some (f, of_int (note_duration l))"
proof -
  have rest: "note_token_to_freq tone ''REST'' = Some 0" by (simp add: note_token_to_freq_def ascii_upper_def)
  have "\<exists>f. note_token_to_freq tone (note_token l) = Some f"
  proof (cases "note_token l = ''REST''")
    case False
    then obtain m where m: "note_midi (note_token l) = Some m" "57 \<le> m" "m \<le> 95"
      using assms(2) by (auto simp: plain_note_def split: option.splits)
    then have "20 \<le> tone m \<and> tone m \<le> 20000" using assms(1) by (simp add: tone_audible_def)
    then show ?thesis using m(1) by (auto simp: note_token_to_freq_def Let_def)
  qed (use rest in simp)
  then show ?thesis using assms(2)
    by (auto simp: plain_note_def parse_note_line_def Let_def note_token_def note_duration_def word_neq_0_conv)
qed

lemma plain_song: "\<lbrakk>tone_audible tone; list_all plain_note ls\<rbrakk> \<Longrightarrow>
  length (song_notes tone ls) = length ls \<and> map snd (song_notes tone ls) = map (\<lambda>l. of_int (note_duration l)) ls \<and> song_count ls = 1"
proof (induction ls)
  case (Cons l ls)
  then obtain f where "parse_note_line tone l = Some (f, of_int (note_duration l))" using plain_note_parsed by fastforce
  then show ?case using Cons
    by (simp add: song_notes_def song_count_def song_directives_def map_filter_simps plain_note_def not_le)
qed (simp add: song_notes_def song_count_def song_directives_def map_filter_simps)

lemma builtin_lines: "list_all plain_note (song_lines (terminated (text_for b)))"
  by (cases b; simp only:; code_simp)

text \<open>Every line of every built-in sound is a note or a rest, and the sound plays each once, for the time the line
  gives.\<close>

theorem builtin_sounds_play_every_line:
  assumes "tone_audible tone"
  shows "map snd (play_buffer tone (text_for b)) = map (\<lambda>l. of_int (note_duration l)) (song_lines (terminated (text_for b)))"
  using plain_song [OF assms builtin_lines, of b] song_is_repeated_notes_aux [of tone "text_for b"] by simp

lemma negative_duration_accepted:
  assumes "20 \<le> tone 60" "tone 60 \<le> 20000"
  shows "\<exists>f. parse_note_line tone ''C4,-1'' = Some (f, 0xFFFFFFFF)"
proof -
  have "skip_gaps (trim_cr ''C4,-1'') = ''C4,-1''" "note_midi ''C4'' = Some 60" "atoi ''-1'' = -1"
    "map ascii_upper ''C4'' = ''C4''" "(0 :: u32) < - 1" by code_simp+
  then show ?thesis using assms by (simp add: parse_note_line_def Let_def note_token_to_freq_def char_at_def)
qed

definition demo_box :: junkebox where
  "demo_box = start_loop (snd (junkebox_begin True 6 8 ESP_OK ESP_OK ESP_ERR_INVALID_STATE ESP_OK True new_junkebox))"

lemma demo_box_ready: "jb_ready demo_box \<and> jb_phase demo_box = Idle"
  by code_simp

lemma request_takes_over_witness:
  "\<exists>n. silent_after [440] None False (task_run (task_step (\<lambda>_. 440) (\<lambda>_. True) demo_card) n (notify (post (Req_Tone 440 100) demo_box)))"
proof -
  have "jb_tones demo_box = []" by code_simp
  then show ?thesis using request_takes_over [of demo_box "\<lambda>_. 440" demo_card "Req_Tone 440 100" "\<lambda>_. True"] demo_box_ready
    by (simp add: request_notes_def)
qed

lemma stop_silences_witness:
  "\<exists>n t. t = task_run (task_step (\<lambda>_. 440) (\<lambda>_. True) demo_card) n (stop_song demo_box) \<and> jb_mailbox t = None"
  using stop_silences [of demo_box False "[]" "\<lambda>_. 440" "\<lambda>_. True" demo_card] demo_box_ready by blast

lemma stop_at_start_is_lost_witness:
  "\<exists>n. silent_after [440] None False (task_run (task_step (\<lambda>_. 440) (\<lambda>_. True) demo_card) n
     (stop_song (demo_box\<lparr>jb_phase := Taken (Req_Tone 440 100)\<rparr>)))"
proof -
  have "jb_tones demo_box = []" "jb_mailbox demo_box = None" by code_simp+
  then show ?thesis using stop_at_start_is_lost [of "demo_box\<lparr>jb_phase := Taken (Req_Tone 440 100)\<rparr>" "Req_Tone 440 100" "\<lambda>_. 440" demo_card "\<lambda>_. True"] demo_box_ready
    by (simp add: request_notes_def)
qed

lemma builtin_sounds_play_every_line_witness:
  "map snd (play_buffer (\<lambda>_. 440) (text_for Boot)) = [100, 100, 100, 220]"
proof -
  have "tone_audible (\<lambda>_. 440)" by (simp add: tone_audible_def)
  moreover have "map (\<lambda>l. of_int (note_duration l)) (song_lines (terminated (text_for Boot))) = [100, 100, 100, 220 :: u32]"
    by code_simp
  ultimately show ?thesis using builtin_sounds_play_every_line [of "\<lambda>_. 440" Boot] by simp
qed

end
