(* ===== verification/Log_Files.thy ===== *)
theory Log_Files
  imports Logger SD_Card Job_Commands C_Text
begin

text \<open>
  Log files on the card (the rest of \<^verbatim>\<open>lib/Logger/\<close>): setting the clock, naming a new file, finding the
  latest, saving the retained records to either, and playing a file back.

  The calendar of the C library (\<open>mktime\<close>, \<open>localtime_r\<close>), the protocol's frame layout and decoder and
  the printing of sizes are arguments.  The world of the logger is the rest of the robot beside the
  card.
\<close>

section \<open>Setting the clock\<close>

record date_time =
  dt_year :: int
  dt_month :: int
  dt_day :: int
  dt_hour :: int
  dt_minute :: int
  dt_second :: int

record clock =
  ck_tz :: string
  ck_time :: int

text \<open>\<open>None\<close> is \<open>mktime\<close>'s failure; the last argument is \<open>settimeofday\<close>'s answer.\<close>

definition set_datetime ::
    "(string \<Rightarrow> date_time \<Rightarrow> int option) \<Rightarrow> (string \<Rightarrow> int \<Rightarrow> date_time) \<Rightarrow> bool \<Rightarrow>
     u16 \<Rightarrow> u8 \<Rightarrow> u8 \<Rightarrow> u8 \<Rightarrow> u8 \<Rightarrow> u8 \<Rightarrow> string \<Rightarrow> clock \<Rightarrow> bool \<times> clock" where
  "set_datetime mktime localtime settime year month day hour minute second posix_tz ck =
     (if year < 2020 \<or> month < 1 \<or> 12 < month \<or> day < 1 \<or> 31 < day \<or> 23 < hour \<or> 59 < minute \<or> 59 < second
      then (False, ck)
      else
        let ck1 = ck\<lparr>ck_tz := posix_tz\<rparr>;
            wanted = \<lparr>dt_year = uint year, dt_month = uint month, dt_day = uint day, dt_hour = uint hour,
                      dt_minute = uint minute, dt_second = uint second\<rparr>
        in case mktime posix_tz wanted of
             None \<Rightarrow> (False, ck1)
           | Some timestamp \<Rightarrow>
               if localtime posix_tz timestamp \<noteq> wanted then (False, ck1)
               else if \<not> settime then (False, ck1)
               else (True, ck1\<lparr>ck_time := timestamp\<rparr>))"

section \<open>Names\<close>

definition kLogFilenameCapacity :: nat where "kLogFilenameCapacity = 128"

record log_files =
  lf_counter :: u32
  lf_last :: string

definition zero_padded :: "nat \<Rightarrow> int \<Rightarrow> string" where
  "zero_padded n i = pad_left CHR ''0'' n (show_dec (nat i))"

definition log_filename :: "date_time \<Rightarrow> u32 \<Rightarrow> string" where
  "log_filename t k = ''log_'' @ zero_padded 4 (dt_year t) @ ''-'' @ zero_padded 2 (dt_month t) @ ''-'' @ zero_padded 2 (dt_day t) @ ''_'' @
     zero_padded 2 (dt_hour t) @ ''-'' @ zero_padded 2 (dt_minute t) @ ''-'' @ zero_padded 2 (dt_second t) @ ''_'' @
     zero_padded 6 (uint k) @ ''.blog''"

text \<open>The search for a free name goes on until there is one.\<close>

partial_function (option) next_name :: "date_time \<Rightarrow> nat \<Rightarrow> sd_card \<Rightarrow> u32 \<Rightarrow> (string \<times> u32) option" where
  "next_name t capacity c k =
     (if length (log_filename t (k + 1)) < capacity \<and> \<not> file_exists (Some (log_filename t (k + 1))) c
      then Some (log_filename t (k + 1), k + 1)
      else next_name t capacity c (k + 1))"

text \<open>\<open>None\<close> is a search that does not end; within the pair, a call that fails.\<close>

definition make_log_filename ::
    "date_time option \<Rightarrow> nat \<Rightarrow> sd_card \<Rightarrow> log_files \<Rightarrow> (string option \<times> log_files) option" where
  "make_log_filename now capacity c s =
     (if capacity = 0 then Some (None, s)
      else case now of
        None \<Rightarrow> Some (None, s)
      | Some t \<Rightarrow>
          let k = lf_counter s + 1; s1 = s\<lparr>lf_counter := k\<rparr>; name = log_filename t k
          in if capacity \<le> length name then Some (None, s1)
             else if \<not> file_exists (Some name) c then Some (Some name, s1)
             else case next_name t capacity c k of
               None \<Rightarrow> None
             | Some (n, k') \<Rightarrow> Some (Some n, s1\<lparr>lf_counter := k'\<rparr>))"

definition is_log_name :: "string \<Rightarrow> bool" where
  "is_log_name n \<longleftrightarrow> 10 \<le> length n \<and> take 4 n = ''log_'' \<and> drop (length n - 5) n = ''.blog''"

text \<open>\<open>strcmp\<close>: the order of the octets.\<close>

fun text_less :: "string \<Rightarrow> string \<Rightarrow> bool" where
  "text_less _ [] = False"
| "text_less [] (d # ds) = True"
| "text_less (c # cs) (d # ds) =
     (if of_char c < (of_char d :: nat) then True else if c = d then text_less cs ds else False)"

text \<open>The scan of the directory; \<open>None\<close> when a name does not fit.\<close>

fun latest_of :: "nat \<Rightarrow> string list \<Rightarrow> string \<Rightarrow> string option" where
  "latest_of capacity [] best = Some best"
| "latest_of capacity (n # ns) best =
     (if \<not> is_log_name n then latest_of capacity ns best
      else if best = [] \<or> text_less best n then
        (if capacity \<le> length n then None else latest_of capacity ns n)
      else latest_of capacity ns best)"

definition listed_names :: "string list option \<Rightarrow> sd_card \<Rightarrow> string list" where
  "listed_names dir c = List.map_filter (\<lambda>i. map_option fi_name (get_file_info dir (of_nat i) c)) [0..<unat (get_file_count dir c)]"

definition find_latest_log_file :: "string list option \<Rightarrow> nat \<Rightarrow> sd_card \<Rightarrow> string option" where
  "find_latest_log_file dir capacity c =
     (if capacity = 0 then None
      else case latest_of capacity (listed_names dir c) [] of
        None \<Rightarrow> None
      | Some n \<Rightarrow> if n = [] then None else Some n)"

section \<open>Saving\<close>

definition stored_octets :: "bytes \<Rightarrow> string" where
  "stored_octets bs = map (\<lambda>b. char_of (unat b)) bs"

definition card_callback :: "(sd_card \<times> 'v) storage_callback" where
  "card_callback bs w = (case w of (c, v) \<Rightarrow> case write_stream (Some (stored_octets bs)) (length bs) c of (ok, c') \<Rightarrow> (ok, (c', v)))"

definition on_card :: "(sd_card \<Rightarrow> sd_card) \<Rightarrow> (sd_card \<times> 'v) logger \<Rightarrow> (sd_card \<times> 'v) logger" where
  "on_card f l = l\<lparr>lg_world := (f (fst (lg_world l)), snd (lg_world l))\<rparr>"

abbreviation card_of :: "(sd_card \<times> 'v) logger \<Rightarrow> sd_card" where
  "card_of l \<equiv> fst (lg_world l)"

text \<open>Which file: the one last saved to, or the latest on the card, or a new one.\<close>

definition choose_file ::
    "date_time option \<Rightarrow> string list option \<Rightarrow> bool \<Rightarrow> sd_card \<Rightarrow> log_files \<Rightarrow> (string option \<times> log_files) option" where
  "choose_file now dir appending c s =
     (if appending then
        (if lf_last s \<noteq> [] \<and> file_exists (Some (lf_last s)) c then Some (Some (take (kLogFilenameCapacity - 1) (lf_last s)), s)
         else Some (find_latest_log_file dir kLogFilenameCapacity c, s))
      else make_log_filename now kLogFilenameCapacity c s)"

definition save_to_file ::
    "bool \<Rightarrow> string \<Rightarrow> log_files \<Rightarrow> (sd_card \<times> 'v) logger \<Rightarrow> string option \<times> log_files \<times> (sd_card \<times> 'v) logger" where
  "save_to_file appending name s l =
     (case open_write_stream (Some name) appending (card_of l) of
        (False, c) \<Rightarrow> (None, s, on_card (\<lambda>_. c) l)
      | (True, c) \<Rightarrow>
          (case flush_logs_to (Some card_callback) (on_card (\<lambda>_. c) l) of (stored, l1) \<Rightarrow>
           case close_stream (card_of l1) of (closed, c2) \<Rightarrow>
             let s1 = (if \<not> appending \<or> lf_last s = [] then s\<lparr>lf_last := take (kLogFilenameCapacity - 1) name\<rparr> else s)
             in (if stored \<and> closed then Some name else None, s1, on_card (\<lambda>_. c2) l1)))"

definition flush_to_sd ::
    "date_time option \<Rightarrow> string list option \<Rightarrow> bool \<Rightarrow> log_files \<Rightarrow> (sd_card \<times> 'v) logger \<Rightarrow>
     (string option \<times> log_files \<times> (sd_card \<times> 'v) logger) option" where
  "flush_to_sd now dir appending s l =
     (if \<not> is_mounted (card_of l) then Some (None, s, l)
      else case choose_file now dir appending (card_of l) s of
        None \<Rightarrow> None
      | Some (None, s1) \<Rightarrow> Some (None, s1, l)
      | Some (Some name, s1) \<Rightarrow> Some (save_to_file appending name s1 l))"

section \<open>Playing back\<close>

text \<open>The sizes of a frame's header, its checksum and the largest frame, the decoder (whether the octets are a
  log frame) and the endpoint, which may be missing, are arguments.\<close>

record frame_format =
  ff_header :: nat
  ff_crc :: nat
  ff_max :: nat
  ff_is_log :: "string \<Rightarrow> bool"

definition payload_size :: "string \<Rightarrow> nat" where
  "payload_size h = of_char (h ! 10) + 256 * of_char (h ! 11)"

partial_function (option) playback ::
    "frame_format \<Rightarrow> (string \<Rightarrow> 'w \<Rightarrow> bool \<times> 'w) option \<Rightarrow> u32 \<Rightarrow> sd_card \<Rightarrow> 'w \<Rightarrow> (bool \<times> u32 \<times> sd_card \<times> 'w) option" where
  "playback ff send n c w =
     (let hc = read_stream (ff_header ff) c; h = fst hc; c1 = snd hc in
      if h = [] then Some (True, n, c1, w)
      else if length h \<noteq> ff_header ff then Some (False, n, c1, w)
      else
        let tail_size = payload_size h + ff_crc ff in
        if ff_max ff < ff_header ff + tail_size then Some (False, n, c1, w)
        else
          let tc = read_stream tail_size c1; t = fst tc; c2 = snd tc in
          if length t \<noteq> tail_size \<or> \<not> ff_is_log ff (h @ t) then Some (False, n, c2, w)
          else case send of
            None \<Rightarrow> Some (False, n, c2, w)
          | Some f \<Rightarrow>
              if \<not> fst (f (h @ t) w) then Some (False, n, c2, snd (f (h @ t) w))
              else playback ff send (n + 1) c2 (snd (f (h @ t) w)))"

definition print_log ::
    "frame_format \<Rightarrow> (string \<Rightarrow> 'w \<Rightarrow> bool \<times> 'w) option \<Rightarrow> string list option \<Rightarrow> u16 \<Rightarrow> sd_card \<Rightarrow> 'w \<Rightarrow>
     (shell_result \<times> log_line list \<times> sd_card \<times> 'w) option" where
  "print_log ff send dir file_index c w =
     (case (case get_file_info dir file_index c of
              None \<Rightarrow> None
            | Some i \<Rightarrow> (case open_read_stream (Some (fi_name i)) c of (False, _) \<Rightarrow> None | (True, c1) \<Rightarrow> Some (fi_name i, c1))) of
        None \<Rightarrow> Some (RESULT_ERROR, [(ERRO, ''Invalid log index or file format'')], c, w)
      | Some (name, c1) \<Rightarrow>
          (case playback ff send 0 c1 w of
             None \<Rightarrow> None
           | Some (ok, sent, c2, w') \<Rightarrow>
               (case close_stream c2 of (closed, c3) \<Rightarrow>
                  let success = (ok \<and> \<not> dk_fault (sd_disk c2) \<and> closed)
                  in Some (if success then RESULT_OK else RESULT_ERROR,
                       [(if success then INFO else ERRO, ''Log playback '' @ (if success then ''finished'' else ''failed'') @ '': '' @
                          show_dec (unat sent) @ '' messages from '' @ name)], c3, w'))))"

section \<open>The shell commands\<close>

definition logger_set_datetime ::
    "(string \<Rightarrow> date_time \<Rightarrow> int option) \<Rightarrow> (string \<Rightarrow> int \<Rightarrow> date_time) \<Rightarrow> bool \<Rightarrow>
     u16 \<Rightarrow> u8 \<Rightarrow> u8 \<Rightarrow> u8 \<Rightarrow> u8 \<Rightarrow> u8 \<Rightarrow> string \<Rightarrow> clock \<Rightarrow> shell_result \<times> log_line list \<times> clock" where
  "logger_set_datetime mktime localtime settime year month day hour minute second tz ck =
     (case set_datetime mktime localtime settime year month day hour minute second tz ck of
        (False, ck') \<Rightarrow> (RESULT_ERROR, [(ERRO, ''Invalid date/time or clock update failed'')], ck')
      | (True, ck') \<Rightarrow> (RESULT_OK, [(INFO, ''Robot time updated: '' @ zero_padded 4 (uint year) @ ''-'' @ zero_padded 2 (uint month) @ ''-'' @
           zero_padded 2 (uint day) @ '' '' @ zero_padded 2 (uint hour) @ '':'' @ zero_padded 2 (uint minute) @ '':'' @ zero_padded 2 (uint second))], ck'))"

definition logger_flush ::
    "bool \<Rightarrow> date_time option \<Rightarrow> string list option \<Rightarrow> log_files \<Rightarrow> (sd_card \<times> 'v) logger \<Rightarrow>
     (shell_result \<times> log_line list \<times> log_files \<times> (sd_card \<times> 'v) logger) option" where
  "logger_flush appending now dir s l =
     (case flush_to_sd now dir appending s l of
        None \<Rightarrow> None
      | Some (None, s', l') \<Rightarrow>
          Some (RESULT_ERROR, [(ERRO, if appending then ''Failed to append PSRAM logs to the latest SD log''
                                      else ''Failed to create a new SD log'')], s', l')
      | Some (Some name, s', l') \<Rightarrow>
          Some (RESULT_OK, [(INFO, (if appending then ''PSRAM appended to '' else ''PSRAM saved to '') @ take (MAX_NAME_LENGTH - 1) name)], s', l'))"

definition logger_psram_usage :: "(u64 \<Rightarrow> string) \<Rightarrow> (nat \<Rightarrow> nat \<Rightarrow> string) \<Rightarrow> 'w logger \<Rightarrow> shell_result \<times> log_line list" where
  "logger_psram_usage format_bytes percent l =
     (RESULT_OK, [(INFO, ''PSRAM logger used='' @ take 23 (format_bytes (of_nat (lg_used l))) @ '' capacity='' @
        take 23 (format_bytes (of_nat (lg_capacity l))) @ '' ('' @ percent (lg_used l) (lg_capacity l) @ ''%)'')])"

section \<open>Saving only adds\<close>

definition grown :: "sd_card \<Rightarrow> sd_card \<Rightarrow> bool" where
  "grown c c' \<longleftrightarrow> (\<forall>p t. dk_files (sd_disk c) p = Some t \<longrightarrow> (\<exists>u. dk_files (sd_disk c') p = Some (t @ u)))"

lemma grown_refl: "grown c c"
  unfolding grown_def by (metis append_Nil2)

lemma grown_trans: "\<lbrakk>grown a b; grown b c\<rbrakk> \<Longrightarrow> grown a c"
  unfolding grown_def by (metis append_assoc)

lemma grown_same: "dk_files (sd_disk c') = dk_files (sd_disk c) \<Longrightarrow> grown c c'"
  using grown_refl [of c] by (simp add: grown_def)

lemma grown_fwrite: "fwrite p bs d = (n, d') \<Longrightarrow> grown (c\<lparr>sd_disk := d\<rparr>) (c\<lparr>sd_disk := d'\<rparr>)"
  by (auto simp: grown_def fwrite_def Let_def split: option.splits if_splits)

lemma grown_write_stream: "grown c (snd (write_stream data n c))"
proof -
  have "grown c (c\<lparr>sd_disk := d'\<rparr>)" if "fwrite p bs (sd_disk c) = (m, d')" for p bs m d'
    using grown_fwrite [OF that, of c] by (simp add: grown_def)
  then show ?thesis
    by (auto simp: write_stream_def intro: grown_refl split: option.splits prod.splits)
qed

lemma grown_close: "grown c (snd (close_stream c))"
  by (auto simp: close_stream_def intro: grown_refl grown_same split: option.splits)

lemma grown_open_append: "grown c (snd (open_write_stream (Some n) True c))"
  by (auto simp: open_write_stream_def fopen_append_def grown_def split: option.splits)

lemma grown_open_new:
  assumes "\<not> file_exists (Some n) c"
  shows "grown c (snd (open_write_stream (Some n) False c))"
  using assms grown_refl [of c]
  by (auto simp: open_write_stream_def fopen_write_def grown_def file_exists_def split: option.splits)

lemma save_fragments_step:
  "\<exists>e. save_fragments cb ep off h (p # ps) s =
     (case e of None \<Rightarrow> (False, s)
      | Some frame \<Rightarrow> (case cb frame (lg_world s) of
          (False, w) \<Rightarrow> (False, s\<lparr>lg_world := w\<rparr>)
        | (True, w) \<Rightarrow> save_fragments cb ep off h ps (s\<lparr>lg_world := w\<rparr>)))"
  by (simp only: save_fragments.simps Let_def) blast

lemma callback_grown: "card_callback bs w = (ok, w') \<Longrightarrow> grown (fst w) (fst w')"
  using grown_write_stream [of "fst w" "Some (stored_octets bs)" "length bs"]
  by (auto simp: card_callback_def split: prod.splits)

lemma save_fragments_grown:
  "grown (card_of s) (card_of (snd (save_fragments card_callback ep off h ps s)))"
proof (induction ps arbitrary: s)
  case (Cons p ps)
  obtain e where e: "save_fragments card_callback ep off h (p # ps) s =
     (case e of None \<Rightarrow> (False, s)
      | Some frame \<Rightarrow> (case card_callback frame (lg_world s) of
          (False, w) \<Rightarrow> (False, s\<lparr>lg_world := w\<rparr>)
        | (True, w) \<Rightarrow> save_fragments card_callback ep off h ps (s\<lparr>lg_world := w\<rparr>)))"
    using save_fragments_step [of card_callback ep off h p ps s] by blast
  show ?case
  proof (cases e)
    case None then show ?thesis using e by (simp add: grown_refl)
  next
    case (Some frame)
    obtain ok w where w: "card_callback frame (lg_world s) = (ok, w)" by (cases "card_callback frame (lg_world s)")
    show ?thesis using e Some w callback_grown [OF w] Cons.IH [of "s\<lparr>lg_world := w\<rparr>"]
      by (cases ok) (auto intro: grown_trans)
  qed
qed (simp add: grown_refl)

lemma release_world [simp]: "lg_world (release_record h s) = lg_world s"
  by (simp add: release_record_def Let_def)

lemma save_loop_grown: "grown (card_of s) (card_of (snd (save_loop card_callback remaining s)))"
proof (induction remaining arbitrary: s rule: less_induct)
  case (less remaining)
  show ?case
  proof (cases "remaining = 0")
    case True then show ?thesis by (simp add: save_loop.simps [of _ 0] grown_refl)
  next
    case False
    obtain ok ho where r: "read_header_at (lg_read_offset s) remaining s = (ok, ho)" by (cases "read_header_at (lg_read_offset s) remaining s")
    show ?thesis
    proof (cases "ok \<and> ho \<noteq> None \<and> lg_endpoint s \<noteq> None")
      case True
      then obtain h ep where h: "ho = Some h" and ep: "lg_endpoint s = Some ep" by auto
      let ?f = "save_fragments card_callback ep (lg_read_offset s) h [0..<fragment_count ep h] s"
      note f = save_fragments_grown [of s ep "lg_read_offset s" h "[0..<fragment_count ep h]"]
      have "grown (card_of (snd ?f)) (card_of (snd (save_loop card_callback (remaining - (kHeaderSize + unat (lh_length h))) (release_record h (snd ?f)))))"
        using less.IH [of "remaining - (kHeaderSize + unat (lh_length h))" "release_record h (snd ?f)"] False by (simp add: kHeaderSize_def)
      then show ?thesis using f True h ep r False
        by (subst save_loop.simps) (cases ?f; cases "fst ?f"; auto intro: grown_trans)
    next
      case False
      then show ?thesis using r \<open>remaining \<noteq> 0\<close>
        by (subst save_loop.simps) (auto split: option.splits bool.splits intro: grown_refl)
    qed
  qed
qed

lemma consumer_world [simp]:
  "lg_world (snd (begin_consumer s)) = lg_world s" "lg_world (end_consumer s) = lg_world s"
  by (simp_all add: begin_consumer_def end_consumer_def)

lemma flush_logs_grown: "grown (card_of s) (card_of (snd (flush_logs_to (Some card_callback) s)))"
proof -
  obtain ok s1 where b: "begin_consumer s = (ok, s1)" by (cases "begin_consumer s")
  then have w: "lg_world s1 = lg_world s" using consumer_world(1) [of s] by simp
  obtain st s2 where l: "save_loop card_callback (lg_used s1) s1 = (st, s2)" by (cases "save_loop card_callback (lg_used s1) s1")
  show ?thesis using b w l save_loop_grown [of s1 "lg_used s1"]
    by (cases ok) (simp_all add: flush_logs_to_def grown_refl)
qed

lemma save_to_file_grown:
  assumes "appending \<or> \<not> file_exists (Some name) (card_of l)"
  shows "grown (card_of l) (card_of (snd (snd (save_to_file appending name s l))))"
proof -
  obtain ok c where o: "open_write_stream (Some name) appending (card_of l) = (ok, c)" by (cases "open_write_stream (Some name) appending (card_of l)")
  have g1: "grown (card_of l) c"
    using assms grown_open_append [of "card_of l" name] grown_open_new [of name "card_of l"] o by (cases appending) auto
  obtain st l1 where f: "flush_logs_to (Some card_callback) (on_card (\<lambda>_. c) l) = (st, l1)" by (cases "flush_logs_to (Some card_callback) (on_card (\<lambda>_. c) l)")
  have g2: "grown c (card_of l1)" using flush_logs_grown [of "on_card (\<lambda>_. c) l"] f by (simp add: on_card_def)
  obtain cl c2 where x: "close_stream (card_of l1) = (cl, c2)" by (cases "close_stream (card_of l1)")
  have g3: "grown (card_of l1) c2" using grown_close [of "card_of l1"] x by simp
  show ?thesis using o f x g1 grown_trans [OF g1 grown_trans [OF g2 g3]]
    by (cases ok) (simp_all add: save_to_file_def on_card_def Let_def)
qed

lemma next_name_fresh:
  assumes "next_name t capacity c k = Some r"
  shows "\<not> file_exists (Some (fst r)) c \<and> length (fst r) < capacity"
  by (rule next_name.raw_induct [OF _ assms, where P = "\<lambda>t capacity c k r. \<not> file_exists (Some (fst r)) c \<and> length (fst r) < capacity"])
    (auto split: if_splits)

lemma new_name_fresh:
  "make_log_filename now capacity c s = Some (Some n, s') \<Longrightarrow> \<not> file_exists (Some n) c"
  by (auto simp: make_log_filename_def Let_def dest: next_name_fresh split: option.splits if_splits)

text \<open>C40: Whatever is saved, into a new file or onto the latest, and whether or not it succeeds, every file that was on
  the card is still there and still starts with what it held.\<close>

theorem saving_logs_only_adds:
  assumes "flush_to_sd now dir appending s l = Some (r, s', l')" "dk_files (sd_disk (card_of l)) p = Some t"
  shows "\<exists>u. dk_files (sd_disk (card_of l')) p = Some (t @ u)"
proof -
  have "grown (card_of l) (card_of l')"
  proof (cases "choose_file now dir appending (card_of l) s")
    case None
    then show ?thesis using assms(1) by (auto simp: flush_to_sd_def grown_refl split: if_splits)
  next
    case (Some x)
    obtain n s1 where x: "x = (n, s1)" by (cases x)
    show ?thesis
    proof (cases n)
      case None
      then show ?thesis using assms(1) Some x by (auto simp: flush_to_sd_def grown_refl split: if_splits)
    next
      case (Some name)
      have "appending \<or> \<not> file_exists (Some name) (card_of l)"
        using \<open>choose_file now dir appending (card_of l) s = Some x\<close> x Some new_name_fresh
        by (auto simp: choose_file_def)
      from save_to_file_grown [OF this, of s1] show ?thesis
        using assms(1) \<open>choose_file now dir appending (card_of l) s = Some x\<close> x Some
        by (auto simp: flush_to_sd_def grown_refl split: if_splits)
    qed
  qed
  then show ?thesis using assms(2) by (simp add: grown_def)
qed

section \<open>The search for a name ends\<close>

lemma next_name_within:
  "\<lbrakk>length (log_filename t (k + of_nat (Suc j))) < capacity; \<not> file_exists (Some (log_filename t (k + of_nat (Suc j)))) c\<rbrakk> \<Longrightarrow>
    next_name t capacity c k \<noteq> None"
proof (induction j arbitrary: k)
  case 0
  then show ?case by (subst next_name.simps) simp
next
  case (Suc j)
  have e: "k + 1 + of_nat (Suc j) = k + of_nat (Suc (Suc j))" by simp
  show ?case using Suc.IH [of "k + 1"] Suc.prems unfolding e by (subst next_name.simps) auto
qed

lemma zero_padded_read: "0 \<le> i \<Longrightarrow> read_digits 0 (zero_padded n i) = nat i"
proof -
  have z: "read_digits 0 (replicate m CHR ''0'' @ xs) = read_digits 0 xs" for m xs
    by (induction m) (simp_all add: char_digit_def)
  assume "0 \<le> i"
  then show ?thesis by (simp add: zero_padded_def pad_left_def z read_show_dec)
qed

lemma zero_padded_digits: "c \<in> set (zero_padded n i) \<Longrightarrow> char_digit c \<noteq> None"
  by (auto simp: zero_padded_def pad_left_def char_digit_def dest: show_dec_digits split: if_splits)

lemma log_filename_inj:
  assumes "log_filename t k = log_filename t k'"
  shows "k = k'"
proof -
  have "zero_padded 6 (uint k) @ ''.blog'' = zero_padded 6 (uint k') @ ''.blog''"
    using assms by (simp add: log_filename_def)
  then have "zero_padded 6 (uint k) = zero_padded 6 (uint k')" by simp
  then have "nat (uint k) = nat (uint k')" using zero_padded_read [of "uint k" 6] zero_padded_read [of "uint k'" 6] by simp
  then have "unat k = unat k'" by simp
  then show ?thesis by (rule unsigned_word_eqI)
qed

lemma name_path:
  assumes "sd_mounted c" "sd_mount_point c = CHR ''/'' # m" "length (sd_mount_point c @ ''/'' @ log_filename t k) < MAX_PATH_LENGTH"
  shows "make_path (Some (log_filename t k)) MAX_PATH_LENGTH c = Some (sd_mount_point c @ ''/'' @ log_filename t k)"
  using assms by (simp add: make_path_def Let_def log_filename_def MAX_PATH_LENGTH_def)

text \<open>A new file always gets a name, in however many steps: unless the card holds as many files as there are
  counters, the search over taken names ends.\<close>

theorem new_log_name_found:
  assumes mounted: "sd_mounted c" and mp: "sd_mount_point c = CHR ''/'' # m"
    and files: "finite (dom (dk_files (sd_disk c)))" "card (dom (dk_files (sd_disk c))) < 2 ^ 32"
    and short: "\<forall>k. length (log_filename t k) < kLogFilenameCapacity \<and> length (sd_mount_point c @ ''/'' @ log_filename t k) < MAX_PATH_LENGTH"
  shows "\<exists>n s'. make_log_filename (Some t) kLogFilenameCapacity c s = Some (Some n, s') \<and> \<not> file_exists (Some n) c"
proof -
  let ?path = "\<lambda>k. sd_mount_point c @ ''/'' @ log_filename t k"
  have path: "make_path (Some (log_filename t k)) MAX_PATH_LENGTH c = Some (?path k)" for k
    by (rule name_path [OF mounted mp]) (use short in blast)
  have inj: "inj ?path" by (rule injI) (auto dest: log_filename_inj)
  have "\<exists>k. \<not> file_exists (Some (log_filename t k)) c"
  proof (rule ccontr)
    assume "\<not> ?thesis"
    then have "\<forall>k. ?path k \<in> dom (dk_files (sd_disk c))" using path by (auto simp: file_exists_def)
    then have "card (range ?path) \<le> card (dom (dk_files (sd_disk c)))" by (intro card_mono files(1)) auto
    moreover have "card (range ?path) = 2 ^ 32" using card_image [OF inj] by (simp add: card_word)
    ultimately show False using files(2) by simp
  qed
  then obtain k where k: "\<not> file_exists (Some (log_filename t k)) c" by blast
  have "next_name t kLogFilenameCapacity c b \<noteq> None" for b
  proof (rule next_name_within)
    have e: "b + of_nat (Suc (unat (k - b - 1))) = k" by simp
    show "length (log_filename t (b + of_nat (Suc (unat (k - b - 1))))) < kLogFilenameCapacity" using short by blast
    show "\<not> file_exists (Some (log_filename t (b + of_nat (Suc (unat (k - b - 1)))))) c" unfolding e by (rule k)
  qed
  then obtain n k' where nn: "next_name t kLogFilenameCapacity c (lf_counter s + 1) = Some (n, k')" by fastforce
  have "\<exists>n s'. make_log_filename (Some t) kLogFilenameCapacity c s = Some (Some n, s')"
    using short nn by (auto simp: make_log_filename_def Let_def kLogFilenameCapacity_def not_le)
  then show ?thesis using new_name_fresh by blast
qed

section \<open>What was stored is played back\<close>

definition frame_ok :: "frame_format \<Rightarrow> string \<Rightarrow> bool" where
  "frame_ok ff fr \<longleftrightarrow> 12 \<le> ff_header ff \<and> length fr = ff_header ff + payload_size fr + ff_crc ff \<and>
     length fr \<le> ff_max ff \<and> ff_is_log ff fr"

fun sends_all :: "(string \<Rightarrow> 'w \<Rightarrow> bool \<times> 'w) \<Rightarrow> string list \<Rightarrow> 'w \<Rightarrow> bool \<times> 'w" where
  "sends_all f [] w = (True, w)"
| "sends_all f (fr # frs) w = (if fst (f fr w) then sends_all f frs (snd (f fr w)) else (False, snd (f fr w)))"

definition reading :: "string \<Rightarrow> nat \<Rightarrow> string \<Rightarrow> sd_card \<Rightarrow> bool" where
  "reading p pos txt c \<longleftrightarrow> sd_stream c = Some (p, False, pos) \<and> dk_files (sd_disk c) p = Some txt \<and> \<not> dk_fault (sd_disk c)"

lemma read_reading:
  assumes "reading p pos txt c" "0 < n"
  shows "fst (read_stream n c) = take n (drop pos txt) \<and> reading p (pos + length (take n (drop pos txt))) txt (snd (read_stream n c)) \<and>
    sd_disk (snd (read_stream n c)) = sd_disk c"
  using assms by (simp add: read_stream_def reading_def Let_def)

lemma playback_frames:
  assumes "reading p pos txt c" "drop pos txt = concat frs" "list_all (frame_ok ff) frs" "sends_all f frs w = (True, w')"
    "12 \<le> ff_header ff"
  shows "\<exists>c' pos'. playback ff (Some f) n c w = Some (True, n + of_nat (length frs), c', w') \<and> reading p pos' txt c' \<and> sd_disk c' = sd_disk c"
  using assms
proof (induction frs arbitrary: pos c w n)
  case Nil
  have h: "0 < ff_header ff" using Nil.prems(5) by simp
  show ?case using read_reading [OF Nil.prems(1) h] Nil.prems(2,4)
    by (subst playback.simps) (auto simp: Let_def)
next
  case (Cons fr frs)
  let ?hs = "ff_header ff"
  let ?c1 = "snd (read_stream ?hs c)"
  let ?tail = "payload_size fr + ff_crc ff"
  let ?c2 = "snd (read_stream ?tail ?c1)"
  have fr: "12 \<le> ?hs" "length fr = ?hs + ?tail" "length fr \<le> ff_max ff" "ff_is_log ff fr"
    using Cons.prems(3) by (simp_all add: frame_ok_def)
  have d: "drop pos txt = fr @ concat frs" using Cons.prems(2) by simp
  have r1: "fst (read_stream ?hs c) = take ?hs fr" "reading p (pos + ?hs) txt ?c1" "sd_disk ?c1 = sd_disk c"
    using read_reading [OF Cons.prems(1), of ?hs] fr d by simp_all
  have d1: "drop (pos + ?hs) txt = drop ?hs fr @ concat frs"
  proof -
    have "drop (pos + ?hs) txt = drop ?hs (drop pos txt)" by (simp add: add.commute)
    then show ?thesis using d fr by simp
  qed
  have ps: "payload_size (take ?hs fr) = payload_size fr" using fr by (simp add: payload_size_def)
  have r2: "fst (read_stream ?tail ?c1) = drop ?hs fr \<and> reading p (pos + ?hs + ?tail) txt ?c2 \<and> sd_disk ?c2 = sd_disk c"
  proof (cases "?tail = 0")
    case True
    then have "drop ?hs fr = []" using fr by simp
    moreover have "read_stream 0 ?c1 = ([], ?c1)" using r1(2) by (simp add: read_stream_def reading_def)
    ultimately show ?thesis using True r1 by simp
  next
    case False
    then show ?thesis using read_reading [OF r1(2), of ?tail] d1 fr r1(3) by simp
  qed
  have d2: "drop (pos + ?hs + ?tail) txt = concat frs"
  proof -
    have "drop (pos + ?hs + ?tail) txt = drop ?tail (drop (pos + ?hs) txt)" by (simp add: add.commute)
    then show ?thesis using d1 fr by simp
  qed
  have s: "fst (f fr w)" "sends_all f frs (snd (f fr w)) = (True, w')" using Cons.prems(4) by (auto split: if_splits)
  have all: "list_all (frame_ok ff) frs" using Cons.prems(3) by simp
  obtain c' pos' where ih: "playback ff (Some f) (n + 1) ?c2 (snd (f fr w)) = Some (True, n + 1 + of_nat (length frs), c', w')"
      "reading p pos' txt c'" "sd_disk c' = sd_disk ?c2"
    using Cons.IH [OF conjunct1 [OF conjunct2 [OF r2]] d2 all s(2) Cons.prems(5), of "n + 1"] by blast
  have "take ?hs fr \<noteq> []" "length (take ?hs fr) = ?hs" "take ?hs fr @ drop ?hs fr = fr" "length (drop ?hs fr) = ?tail" using fr by auto
  then have "playback ff (Some f) n c w = playback ff (Some f) (n + 1) ?c2 (snd (f fr w))"
    using r1(1) r2 ps fr s(1) by (subst playback.simps) (simp add: Let_def)
  then show ?case using ih r2 by (auto simp: add.assoc)
qed

text \<open>A file that holds log frames one after another is played back frame by frame, in order, to its end.\<close>

theorem playback_sends_stored_frames:
  assumes info: "get_file_info dir i c = Some info" and stream: "sd_stream c = None"
    and path: "make_path (Some (fi_name info)) MAX_PATH_LENGTH c = Some p"
    and stored: "dk_files (sd_disk c) p = Some (concat frs)" "\<not> dk_fault (sd_disk c)"
    and frames: "list_all (frame_ok ff) frs" "12 \<le> ff_header ff" and sent: "sends_all f frs w = (True, w')"
  shows "\<exists>c'. print_log ff (Some f) dir i c w = Some (RESULT_OK, [(INFO, ''Log playback finished: '' @
      show_dec (unat (of_nat (length frs) :: u32)) @ '' messages from '' @ fi_name info)], c', w') \<and> sd_stream c' = None \<and> sd_disk c' = sd_disk c"
proof -
  let ?c1 = "c\<lparr>sd_stream := Some (p, False, 0)\<rparr>"
  have o: "open_read_stream (Some (fi_name info)) c = (True, ?c1)" using stream path stored by (simp add: open_read_stream_def)
  have "reading p 0 (concat frs) ?c1" using stored by (simp add: reading_def)
  from playback_frames [OF this _ frames(1) sent frames(2), of 0]
  obtain c' pos' where pb: "playback ff (Some f) 0 ?c1 w = Some (True, of_nat (length frs), c', w')"
    and rd: "reading p pos' (concat frs) c'" and dk: "sd_disk c' = sd_disk ?c1" by auto
  have "close_stream c' = (True, c'\<lparr>sd_stream := None\<rparr>)" using rd by (simp add: close_stream_def reading_def)
  then show ?thesis using info o pb rd dk by (auto simp: print_log_def reading_def Let_def)
qed

section \<open>Concrete inputs\<close>

definition demo_format :: frame_format where
  "demo_format = \<lparr>ff_header = 12, ff_crc = 1, ff_max = 250, ff_is_log = (\<lambda>_. True)\<rparr>"

definition demo_frame :: string where
  "demo_frame = replicate 10 CHR ''h'' @ [CHR 0x02, CHR 0x00] @ ''abc''"

definition demo_log_card :: sd_card where
  "demo_log_card = \<lparr>sd_mounted = True, sd_mount_point = ''/sdcard'', sd_stream = None,
     sd_disk = \<lparr>dk_files = (\<lambda>p. if p = ''/sdcard/log_1.blog'' then Some (demo_frame @ demo_frame) else None), dk_room = 100, dk_fault = False\<rparr>\<rparr>"

definition demo_time :: date_time where
  "demo_time = \<lparr>dt_year = 1970, dt_month = 1, dt_day = 1, dt_hour = 0, dt_minute = 0, dt_second = 9\<rparr>"

lemma playback_sends_stored_frames_witness:
  "\<exists>c'. print_log demo_format (Some (\<lambda>fr w. (True, w @ [fr]))) (Some [''log_1.blog'']) 0 demo_log_card [] =
     Some (RESULT_OK, [(INFO, ''Log playback finished: 2 messages from log_1.blog'')], c', [demo_frame, demo_frame])"
proof -
  have i: "get_file_info (Some [''log_1.blog'']) 0 demo_log_card = Some \<lparr>fi_name = ''log_1.blog'', fi_size = 30\<rparr>"
    "sd_stream demo_log_card = None" "make_path (Some ''log_1.blog'') MAX_PATH_LENGTH demo_log_card = Some ''/sdcard/log_1.blog''"
    "dk_files (sd_disk demo_log_card) ''/sdcard/log_1.blog'' = Some (concat [demo_frame, demo_frame])" "\<not> dk_fault (sd_disk demo_log_card)"
    "list_all (frame_ok demo_format) [demo_frame, demo_frame]" "12 \<le> ff_header demo_format"
    "show_dec (unat (of_nat (length [demo_frame, demo_frame]) :: u32)) = ''2''" by code_simp+
  have s: "sends_all (\<lambda>fr w. (True, w @ [fr])) [demo_frame, demo_frame] [] = (True, [demo_frame, demo_frame])" by simp
  show ?thesis
    using playback_sends_stored_frames [OF i(1,2) _ i(4,5,6,7) s] i(3,8) by auto
qed

text \<open>After a restart with the clock not set, the file saved last sorts before every dated one: appending goes to the
  older file.\<close>

lemma latest_is_not_newest:
  "latest_of kLogFilenameCapacity [log_filename (demo_time\<lparr>dt_year := 2025\<rparr>) 3, log_filename demo_time 1] [] =
     Some (log_filename (demo_time\<lparr>dt_year := 2025\<rparr>) 3)"
  by code_simp

definition demo_log_logger :: "(sd_card \<times> unit) logger" where
  "demo_log_logger = logger_begin (new_logger 8 (Some (replicate 8 0)) (demo_log_card, ()))"

lemma append_returns: "flush_to_sd now dir True s l \<noteq> None"
proof -
  obtain q s1 where "choose_file now dir True (card_of l) s = Some (q, s1)"
    by (cases "lf_last s \<noteq> [] \<and> file_exists (Some (lf_last s)) (card_of l)") (auto simp: choose_file_def)
  then show ?thesis by (cases q) (simp_all add: flush_to_sd_def del: not_None_eq)
qed

lemma saving_logs_only_adds_witness:
  "\<exists>u. dk_files (sd_disk (card_of (snd (snd (the (flush_to_sd None (Some [''log_1.blog'']) True \<lparr>lf_counter = 0, lf_last = []\<rparr> demo_log_logger))))))
     ''/sdcard/log_1.blog'' = Some ((demo_frame @ demo_frame) @ u)"
proof -
  let ?r = "flush_to_sd None (Some [''log_1.blog'']) True \<lparr>lf_counter = 0, lf_last = []\<rparr> demo_log_logger"
  obtain a b d where "?r = Some (a, b, d)" using append_returns by (metis not_None_eq prod_cases3)
  moreover have "dk_files (sd_disk (card_of demo_log_logger)) ''/sdcard/log_1.blog'' = Some (demo_frame @ demo_frame)" by code_simp
  ultimately show ?thesis using saving_logs_only_adds [of None "Some [''log_1.blog'']" True] by fastforce
qed

lemma log_filename_length: "length (log_filename demo_time k) < 50"
proof -
  have "unat k < 10 ^ 10" using unsigned_less [of k] by (rule order_less_trans) simp
  then have "length (show_dec (unat k)) \<le> Suc 9" by (intro length_show_dec) simp
  moreover have "length (zero_padded 4 1970) = 4" "length (zero_padded 2 1) = 2" "length (zero_padded 2 0) = 2" "length (zero_padded 2 9) = 2"
    by code_simp+
  ultimately show ?thesis by (simp add: log_filename_def demo_time_def zero_padded_def pad_left_def)
qed

lemma new_log_name_found_witness:
  "\<exists>n s'. make_log_filename (Some demo_time) kLogFilenameCapacity demo_log_card \<lparr>lf_counter = 0, lf_last = []\<rparr> = Some (Some n, s')"
proof -
  have d: "dom (dk_files (sd_disk demo_log_card)) = {''/sdcard/log_1.blog''}" by (auto simp: demo_log_card_def dom_def)
  have s: "\<forall>k. length (log_filename demo_time k) < kLogFilenameCapacity \<and>
      length (sd_mount_point demo_log_card @ ''/'' @ log_filename demo_time k) < MAX_PATH_LENGTH"
  proof (intro allI conjI)
    fix k
    show "length (log_filename demo_time k) < kLogFilenameCapacity"
      by (rule order_less_trans [OF log_filename_length]) (simp add: kLogFilenameCapacity_def)
    show "length (sd_mount_point demo_log_card @ ''/'' @ log_filename demo_time k) < MAX_PATH_LENGTH"
      using log_filename_length [of k] by (simp add: MAX_PATH_LENGTH_def demo_log_card_def)
  qed
  have m: "sd_mounted demo_log_card" "sd_mount_point demo_log_card = CHR ''/'' # ''sdcard''" by (simp_all add: demo_log_card_def)
  have "\<exists>n s'. make_log_filename (Some demo_time) kLogFilenameCapacity demo_log_card \<lparr>lf_counter = 0, lf_last = []\<rparr> = Some (Some n, s') \<and>
      \<not> file_exists (Some n) demo_log_card"
    by (rule new_log_name_found [OF m _ _ s]) (simp_all add: d)
  then show ?thesis by blast
qed

end
