(* ===== verification/Spec2Isabelle.thy ===== *)
theory Spec2Isabelle
  imports Job_Scheduler States_Manager Channels Logger Terminal_Responder Command_Processor
    SD_Card Robot_Settings Flags Script_Runner Job_Store Job_Commands Robot_Shell
    Robot_Outputs Status_Reporter Manifest_Catalog OTA_Updater
    Tcp_Server Ble_Server Serial_Server USB_Storage Line_Sensor Encoder System_Monitor Junkebox Log_Files
begin

text \<open>Header.\<close>

end
